(* ===== verification/Prelude.thy ===== *)
theory Prelude
  imports Main "HOL-Library.Word"
begin

text \<open>
  Shared vocabulary of the development: the collections the component theories extend, the
  result type of fallible operations, and the generic facts on lists, options and association
  lists that several components use. Nothing here models a source file; what TypeScript's own
  library does with strings and objects is in the theory JsText, with numbers in JsNumber.
\<close>

section \<open>Collections\<close>

named_theorems effect_simps \<open>equations of the effect monad\<close>
named_theorems table_simps \<open>reading a table after a statement\<close>
named_theorems hash_eval \<open>evaluation of 32-bit words\<close>

section \<open>Fallible computations\<close>

definition sum_bind :: "'e + 'a \<Rightarrow> ('a \<Rightarrow> 'e + 'b) \<Rightarrow> 'e + 'b" where
  "sum_bind r f = (case r of Inl e \<Rightarrow> Inl e | Inr x \<Rightarrow> f x)"

lemma sum_bind_simps [simp]: "sum_bind (Inl e) f = Inl e" "sum_bind (Inr x) f = f x"
  by (simp_all add: sum_bind_def)

section \<open>Association lists in insertion order\<close>

text \<open>
  A JavaScript \<open>Map\<close> (and a plain object) iterates in insertion order; setting a key that is
  present keeps its place, setting a new key appends it.
\<close>

fun al_set :: "'k \<Rightarrow> 'v \<Rightarrow> ('k \<times> 'v) list \<Rightarrow> ('k \<times> 'v) list" where
  "al_set k v [] = [(k, v)]"
| "al_set k v ((k', v') # kvs) = (if k' = k then (k, v) # kvs else (k', v') # al_set k v kvs)"

definition al_del :: "'k \<Rightarrow> ('k \<times> 'v) list \<Rightarrow> ('k \<times> 'v) list" where
  "al_del k kvs = filter (\<lambda>(k', _). k' \<noteq> k) kvs"

lemma map_of_al_set [simp]: "map_of (al_set k v kvs) = (map_of kvs)(k \<mapsto> v)"
  by (induction kvs) auto

lemma map_of_al_del [simp]: "map_of (al_del k kvs) = (map_of kvs)(k := None)"
  by (induction kvs) (auto simp: al_del_def fun_eq_iff)

lemma keys_al_set [simp]: "fst ` set (al_set k v kvs) = insert k (fst ` set kvs)"
  by (induction k v kvs rule: al_set.induct) (simp_all add: insert_commute)

lemma al_set_keys_list:
  "map fst (al_set k v kvs) = (if k \<in> fst ` set kvs then map fst kvs else map fst kvs @ [k])"
  by (induction k v kvs rule: al_set.induct) (simp_all add: insert_commute)

lemma distinct_al_set [simp]: "distinct (map fst kvs) \<Longrightarrow> distinct (map fst (al_set k v kvs))"
  by (auto simp: al_set_keys_list)

lemma length_al_set:
  "length (al_set k v kvs) = (if k \<in> fst ` set kvs then length kvs else Suc (length kvs))"
  by (induction k v kvs rule: al_set.induct) (simp_all add: insert_commute)

lemma distinct_al_del [simp]: "distinct (map fst kvs) \<Longrightarrow> distinct (map fst (al_del k kvs))"
  by (induction kvs) (auto simp: al_del_def)

lemma keys_al_del [simp]: "fst ` set (al_del k kvs) = fst ` set kvs - {k}"
  by (induction kvs) (auto simp: al_del_def)

lemma length_al_del_present:
  assumes "distinct (map fst kvs)" and "k \<in> fst ` set kvs"
  shows "Suc (length (al_del k kvs)) = length kvs"
  using assms
proof (induction kvs)
  case Nil
  then show ?case by simp
next
  case (Cons kv kvs)
  obtain k' v' where kv: "kv = (k', v')" by fastforce
  show ?case
  proof (cases "k' = k")
    case True
    with Cons.prems kv have "k \<notin> fst ` set kvs" by simp
    then have "al_del k kvs = kvs"
      by (induction kvs) (auto simp: al_del_def)
    with True kv show ?thesis by (simp add: al_del_def)
  next
    case False
    with Cons kv show ?thesis by (simp add: al_del_def)
  qed
qed

lemma map_of_filter_distinct:
  "distinct (map fst kvs) \<Longrightarrow> map_of (filter P kvs) k \<in> {None, map_of kvs k}"
proof (induction kvs)
  case (Cons kv kvs)
  have "map_of (filter P kvs) (fst kv) = None"
    using Cons.prems by (auto simp: map_of_eq_None_iff)
  with Cons show ?case by auto
qed simp

lemma distinct_keys_filter: "distinct (map fst kvs) \<Longrightarrow> distinct (map fst (filter P kvs))"
  by (induction kvs) auto

section \<open>Lists\<close>

lemma filter_map_id_where:
  assumes "\<And>x. x \<in> set xs \<Longrightarrow> P (f x) = P x"
  shows "filter P (map f xs) = map f (filter P xs)"
  using assms by (induction xs) auto

lemma sorted_map_filter: "sorted (map f xs) \<Longrightarrow> sorted (map f (filter P xs))"
  by (induction xs) auto

lemma distinct_map_upd [simp]:
  assumes "\<And>x. key (f x) = key x"
  shows "distinct (map key (map f xs)) = distinct (map key xs)"
  using assms by (simp add: comp_def)

end
