(* ===== verification/Hashing.thy ===== *)
theory Hashing
  imports Prelude
begin

unbundle bit_operations_syntax

text \<open>
  The two 32-bit hash functions of \<open>libs/consistent-hash/src/hash.ts\<close>. JavaScript's bitwise
  operators act on the low 32 bits of their operands and \<open>Math.imul\<close> multiplies modulo \<open>2^32\<close>,
  so every intermediate value is a 32-bit word; the final \<open>>>> 0\<close> only picks the unsigned reading
  of that word, which is the order the words carry here. A string is the list of its UTF-16 code
  units, and \<open>charCodeAt(i) & 0xff\<close> keeps the low byte of one.
\<close>

type_synonym code_unit = "16 word"

definition byte_at :: "code_unit \<Rightarrow> 32 word" where
  "byte_at c = ucast c AND 0xff"

section \<open>FNV-1a\<close>

definition FNV_OFFSET_BASIS_32 :: "32 word" where
  "FNV_OFFSET_BASIS_32 = 0x811c9dc5"

definition FNV_PRIME_32 :: "32 word" where
  "FNV_PRIME_32 = 0x01000193"

fun fnv1a32_loop :: "32 word \<Rightarrow> code_unit list \<Rightarrow> 32 word" where
  "fnv1a32_loop hash [] = hash"
| "fnv1a32_loop hash (c # cs) = fnv1a32_loop ((hash XOR byte_at c) * FNV_PRIME_32) cs"

definition fnv1a32 :: "code_unit list \<Rightarrow> 32 word" where
  "fnv1a32 input = fnv1a32_loop FNV_OFFSET_BASIS_32 input"

section \<open>Murmur3\<close>

definition C1 :: "32 word" where
  "C1 = 0xcc9e2d51"

definition C2 :: "32 word" where
  "C2 = 0x1b873593"

definition rotl :: "nat \<Rightarrow> 32 word \<Rightarrow> 32 word" where
  "rotl n k = (push_bit n k) OR (drop_bit (32 - n) k)"

definition mix_k :: "32 word \<Rightarrow> 32 word" where
  "mix_k k = rotl 15 (k * C1) * C2"

definition block :: "code_unit \<Rightarrow> code_unit \<Rightarrow> code_unit \<Rightarrow> code_unit \<Rightarrow> 32 word" where
  "block c0 c1 c2 c3 =
     byte_at c0 OR push_bit 8 (byte_at c1) OR push_bit 16 (byte_at c2) OR push_bit 24 (byte_at c3)"

definition mix_h :: "32 word \<Rightarrow> 32 word \<Rightarrow> 32 word" where
  "mix_h h k = rotl 13 (h XOR mix_k k) * 5 + 0xe6546b64"

text \<open>
  The body consumes four code units at a time and returns the leftover ones, at most three; the
  tail's fall-through switch is one equation per number of leftover units.
\<close>

fun murmur_body :: "32 word \<Rightarrow> code_unit list \<Rightarrow> 32 word \<times> code_unit list" where
  "murmur_body h (c0 # c1 # c2 # c3 # cs) = murmur_body (mix_h h (block c0 c1 c2 c3)) cs"
| "murmur_body h cs = (h, cs)"

fun murmur_tail :: "32 word \<Rightarrow> code_unit list \<Rightarrow> 32 word" where
  "murmur_tail h [c0, c1, c2] =
     h XOR mix_k ((push_bit 16 (byte_at c2)) XOR (push_bit 8 (byte_at c1)) XOR byte_at c0)"
| "murmur_tail h [c0, c1] = h XOR mix_k ((push_bit 8 (byte_at c1)) XOR byte_at c0)"
| "murmur_tail h [c0] = h XOR mix_k (byte_at c0)"
| "murmur_tail h _ = h"

definition fmix32 :: "32 word \<Rightarrow> 32 word" where
  "fmix32 h0 =
     (let h1 = (h0 XOR drop_bit 16 h0) * 0x85ebca6b;
          h2 = (h1 XOR drop_bit 13 h1) * 0xc2b2ae35
      in h2 XOR drop_bit 16 h2)"

definition murmur3_32 :: "code_unit list \<Rightarrow> 32 word \<Rightarrow> 32 word" where
  "murmur3_32 input seed =
     (case murmur_body seed input of (h, rest) \<Rightarrow>
        fmix32 (murmur_tail h rest XOR of_nat (length input)))"

text \<open>The hash of a model string: one code unit per character.\<close>

definition units :: "string \<Rightarrow> code_unit list" where
  "units s = map (\<lambda>c. of_nat (of_char c)) s"

definition murmur3 :: "string \<Rightarrow> 32 word" where
  "murmur3 s = murmur3_32 (units s) 0"

lemmas murmur_defs = murmur3_32_def fmix32_def mix_h_def mix_k_def rotl_def block_def C1_def C2_def
  byte_at_def

lemma murmur_empty: "murmur3_32 [] 0 = 0"
  by (simp add: murmur_defs)

lemma murmur_hello: "murmur3 ''hello'' = 0x248bfa47"
  by (simp add: murmur3_def units_def murmur_defs)

lemma murmur_a: "murmur3_32 (units ''a'') 0x9747b28c = 0x7fa09ea6"
  by (simp add: units_def murmur_defs)

lemma murmur_fox: "murmur3 ''The quick brown fox jumps over the lazy dog'' = 0x2e4ff723"
  by (simp add: murmur3_def units_def murmur_defs)

end
