(* ===== verification/JsNumber.thy ===== *)
theory JsNumber
  imports Prelude Complex_Main
begin

text \<open>
  JavaScript's \<open>number\<close>: finite doubles are the rationals that \<open>fl\<close> (IEEE-754 rounding to
  nearest, ties to even, 53-bit significand, least exponent -1074) leaves alone, and every
  arithmetic operation of the source is the exact operation followed by \<open>fl\<close>. The type
  \<open>jsnum\<close> adds the two infinities and \<open>NaN\<close> where the code tests for them; the sign of zero
  is not kept. The locale \<open>rounding\<close> states the laws the components rely on, and \<open>fl\<close> is
  its interpretation.
\<close>

section \<open>Rounding to a double\<close>

text \<open>
  Integer logarithm and power, on \<open>int\<close> so that they evaluate in binary: the largest \<open>e\<close> with
  \<open>2 ^ e \<le> n\<close> for positive \<open>n\<close>, and \<open>2 ^ k\<close>.
\<close>

function ilog2 :: "int \<Rightarrow> int" where
  "ilog2 n = (if n < 2 then 0 else 1 + ilog2 (n div 2))"
  by pat_completeness auto
termination
  by (relation "measure nat") auto

function ipow2 :: "int \<Rightarrow> int" where
  "ipow2 k = (if k \<le> 0 then 1 else 2 * ipow2 (k - 1))"
  by pat_completeness auto
termination
  by (relation "measure nat") auto

declare ilog2.simps [simp del] ipow2.simps [simp del]

definition pow2 :: "int \<Rightarrow> rat" where
  "pow2 e = (if 0 \<le> e then of_int (ipow2 e) else 1 / of_int (ipow2 (- e)))"

text \<open>The exponent of a positive rational: \<open>pow2 (rlog2 x) \<le> x < pow2 (rlog2 x + 1)\<close>.\<close>

definition rlog2 :: "rat \<Rightarrow> int" where
  "rlog2 x =
     (let (p, q) = quotient_of x; e = ilog2 p - ilog2 q
      in if pow2 e \<le> x then e else e - 1)"

text \<open>Round half to even.\<close>

definition rne :: "rat \<Rightarrow> int" where
  "rne x =
     (let f = floor x; d = x - of_int f
      in if d < 1 / 2 then f else if d > 1 / 2 then f + 1 else if even f then f else f + 1)"

text \<open>The exponent of the last place of the double nearest to \<open>x\<close>.\<close>

definition ulp_exp :: "rat \<Rightarrow> int" where
  "ulp_exp x = max (rlog2 \<bar>x\<bar> - 52) (- 1074)"

definition fl :: "rat \<Rightarrow> rat" where
  "fl x = (if x = 0 then 0 else of_int (rne (x / pow2 (ulp_exp x))) * pow2 (ulp_exp x))"

definition is_double :: "rat \<Rightarrow> bool" where
  "is_double x \<longleftrightarrow> fl x = x"

section \<open>Powers of two and exponents\<close>

lemma ipow2_power: "ipow2 k = 2 ^ nat k"
proof (induction k rule: ipow2.induct)
  case (1 k)
  show ?case
  proof (cases "k \<le> 0")
    case False
    then have "nat k = Suc (nat (k - 1))" by simp
    with False "1.IH" show ?thesis by (simp add: ipow2.simps [of k])
  qed (simp add: ipow2.simps)
qed

lemma pow2_powi: "pow2 e = 2 powi e"
  by (auto simp: pow2_def ipow2_power power_int_def field_simps)

lemma pow2_pos [simp]: "0 < pow2 e"
  by (simp add: pow2_powi)

lemma pow2_nonzero [simp]: "pow2 e \<noteq> 0"
  by (simp add: pow2_powi)

lemma pow2_nonneg [simp]: "0 \<le> pow2 e"
  by (simp add: less_imp_le)

lemma abs_pow2 [simp]: "\<bar>pow2 e\<bar> = pow2 e"
  by simp

lemma pow2_add: "pow2 (a + b) = pow2 a * pow2 b"
  by (simp add: pow2_powi power_int_add)

lemma pow2_diff: "pow2 (a - b) = pow2 a / pow2 b"
  by (simp add: pow2_powi power_int_diff)

lemma pow2_0 [simp]: "pow2 0 = 1"
  by (simp add: pow2_powi)

lemma pow2_1 [simp]: "pow2 1 = 2"
  by (simp add: pow2_powi)

lemma pow2_mono: "a \<le> b \<Longrightarrow> pow2 a \<le> pow2 b"
  by (simp add: pow2_powi power_int_increasing)

lemma pow2_less_iff [simp]: "pow2 a < pow2 b \<longleftrightarrow> a < b"
  using power_int_strict_increasing [of a b "2::rat"] pow2_mono [of b a]
  by (force simp: pow2_powi linorder_not_less [symmetric])

lemma pow2_le_iff [simp]: "pow2 a \<le> pow2 b \<longleftrightarrow> a \<le> b"
  by (meson linorder_not_le pow2_less_iff)

lemma pow2_int: "0 \<le> e \<Longrightarrow> pow2 e = of_int (2 ^ nat e)"
  by (simp add: pow2_def ipow2_power)

lemma pow2_tiny: "pow2 (- 1075) \<le> 1 / 2 ^ 53"
proof -
  have "pow2 (- 1075) \<le> pow2 (- 53)" by simp
  also have "\<dots> = 1 / 2 ^ 53" using pow2_diff [of 0 53] by (simp add: pow2_int)
  finally show ?thesis .
qed

lemma ilog2_nonneg: "0 \<le> ilog2 n"
proof (induction n rule: ilog2.induct)
  case (1 n)
  then show ?case by (auto simp: ilog2.simps [of n])
qed

lemma ilog2_bounds: "0 < n \<Longrightarrow> 2 ^ nat (ilog2 n) \<le> n \<and> n < 2 * 2 ^ nat (ilog2 n)"
proof (induction n rule: ilog2.induct)
  case (1 n)
  show ?case
  proof (cases "n < 2")
    case True
    with "1.prems" show ?thesis by (simp add: ilog2.simps)
  next
    case False
    let ?h = "ilog2 (n div 2)"
    have "2 ^ nat ?h \<le> n div 2 \<and> n div 2 < 2 * 2 ^ nat ?h"
      using False "1.IH" by simp
    moreover have "ilog2 n = 1 + ?h" using False by (simp add: ilog2.simps [of n])
    moreover have "nat (1 + ?h) = Suc (nat ?h)" using ilog2_nonneg [of "n div 2"] by simp
    ultimately show ?thesis by (simp only: power_Suc) linarith
  qed
qed

lemma ilog2_rat:
  assumes "0 < p"
  shows "pow2 (ilog2 p) \<le> of_int p" and "of_int p < pow2 (ilog2 p + 1)"
proof -
  have nn: "0 \<le> ilog2 p" by (rule ilog2_nonneg)
  have "(of_int (2 ^ nat (ilog2 p)) :: rat) \<le> of_int p"
    using ilog2_bounds [OF assms] by (simp only: of_int_le_iff)
  then show "pow2 (ilog2 p) \<le> of_int p" using nn by (simp add: pow2_int)
  have "of_int p < (of_int (2 * 2 ^ nat (ilog2 p)) :: rat)"
    using ilog2_bounds [OF assms] by (simp only: of_int_less_iff)
  then show "of_int p < pow2 (ilog2 p + 1)" using nn by (simp add: pow2_int nat_add_distrib)
qed

lemma rlog2_bounds:
  assumes "0 < x"
  shows "pow2 (rlog2 x) \<le> x" and "x < pow2 (rlog2 x + 1)"
proof -
  obtain p q where pq: "quotient_of x = (p, q)" by fastforce
  have q: "0 < q" using pq quotient_of_denom_pos by blast
  have x: "x = of_int p / of_int q" using pq quotient_of_div by blast
  have p: "0 < p" using assms x q by (simp add: zero_less_divide_iff)
  let ?a = "ilog2 p" and ?b = "ilog2 q"
  note bp = ilog2_rat [OF p] and bq = ilog2_rat [OF q]
  have lo: "pow2 (?a - ?b - 1) \<le> x"
  proof -
    have "pow2 (?a - ?b - 1) = pow2 ?a / pow2 (?b + 1)"
      by (simp add: pow2_diff [symmetric] algebra_simps)
    also have "\<dots> \<le> of_int p / of_int q"
      using bp bq q p by (intro frac_le) auto
    finally show ?thesis using x by simp
  qed
  have hi: "x < pow2 (?a - ?b + 1)"
  proof -
    have "x < pow2 (?a + 1) / pow2 ?b"
      unfolding x using bp bq q p by (intro frac_less) auto
    also have "\<dots> = pow2 (?a - ?b + 1)"
      by (simp add: pow2_diff [symmetric] algebra_simps)
    finally show ?thesis .
  qed
  show "pow2 (rlog2 x) \<le> x" and "x < pow2 (rlog2 x + 1)"
    using lo hi by (simp_all add: rlog2_def pq Let_def)
qed

lemma rlog2_unique:
  assumes "pow2 e \<le> x" and "x < pow2 (e + 1)"
  shows "rlog2 x = e"
proof -
  have "0 < x" using assms(1) pow2_pos [of e] by linarith
  from rlog2_bounds [OF this] assms have "pow2 e < pow2 (rlog2 x + 1)" "pow2 (rlog2 x) < pow2 (e + 1)"
    by linarith+
  then show ?thesis by simp
qed

lemma rlog2_mono:
  assumes "0 < x" and "x \<le> y"
  shows "rlog2 x \<le> rlog2 y"
proof -
  have "pow2 (rlog2 x) \<le> x" "y < pow2 (rlog2 y + 1)"
    using assms rlog2_bounds by auto
  with assms have "pow2 (rlog2 x) < pow2 (rlog2 y + 1)" by linarith
  then show ?thesis by simp
qed

section \<open>Rounding half to even\<close>

lemma rne_bounds: "\<bar>of_int (rne x) - x\<bar> \<le> 1 / 2"
proof -
  have "of_int (floor x) \<le> x" "x < of_int (floor x) + 1"
    using floor_correct [of x] by simp_all
  then show ?thesis
    by (auto simp: rne_def Let_def abs_le_iff)
qed

lemma rne_of_int [simp]: "rne (of_int n) = n"
  by (simp add: rne_def)

lemma rne_mono:
  assumes "x \<le> y"
  shows "rne x \<le> rne y"
proof (cases "floor x = floor y")
  case True
  with assms show ?thesis by (auto simp: rne_def Let_def)
next
  case False
  with floor_mono [OF assms] have "floor x + 1 \<le> floor y" by linarith
  moreover have "rne x \<le> floor x + 1" "floor y \<le> rne y" by (auto simp: rne_def Let_def)
  ultimately show ?thesis by linarith
qed

lemma rne_between: "of_int a \<le> x \<Longrightarrow> a \<le> rne x" "x \<le> of_int b \<Longrightarrow> rne x \<le> b"
  using rne_mono [of "of_int a" x] rne_mono [of x "of_int b"] by simp_all

lemma rne_minus: "rne (- x) = - rne x"
proof (cases "x = of_int (floor x)")
  case True
  then obtain n where "x = of_int n" by blast
  then have "- x = of_int (- n)" by simp
  then show ?thesis using \<open>x = of_int n\<close> by (metis rne_of_int)
next
  case False
  have b: "of_int (floor x) \<le> x" "x < of_int (floor x) + 1"
    using floor_correct [of x] by simp_all
  then have "of_int (floor x) < x" using False by linarith
  with b have "floor (- x) = - floor x - 1"
    by (intro floor_unique) auto
  then show ?thesis by (auto simp: rne_def Let_def)
qed

section \<open>Laws of rounding to a double\<close>

lemma fl_0 [simp]: "fl 0 = 0"
  by (simp add: fl_def)

lemma ulp_exp_minus [simp]: "ulp_exp (- x) = ulp_exp x"
  by (simp add: ulp_exp_def)

lemma fl_minus: "fl (- x) = - fl x"
  by (simp add: fl_def rne_minus)

lemma fl_pos_eq: "0 < x \<Longrightarrow> fl x = of_int (rne (x / pow2 (ulp_exp x))) * pow2 (ulp_exp x)"
  by (simp add: fl_def)

lemma ulp_exp_mono: "0 < x \<Longrightarrow> x \<le> y \<Longrightarrow> ulp_exp x \<le> ulp_exp y"
  using rlog2_mono [of x y] by (auto simp: ulp_exp_def)

lemma fl_nonneg: "0 \<le> x \<Longrightarrow> 0 \<le> fl x"
  using rne_between(1) [of 0 "x / pow2 (ulp_exp x)"]
  by (simp add: fl_def)

lemma fl_below_binade:
  assumes "0 < x"
  shows "fl x \<le> pow2 (ulp_exp x + 53)"
proof -
  let ?u = "ulp_exp x"
  have "x < pow2 (rlog2 x + 1)" using rlog2_bounds [OF assms] by simp
  also have "\<dots> \<le> pow2 (?u + 53)"
    using assms by (intro pow2_mono) (simp add: ulp_exp_def)
  finally have "x / pow2 ?u \<le> pow2 53"
    by (simp add: pow2_add pos_divide_le_eq mult.commute)
  then have "rne (x / pow2 ?u) \<le> 2 ^ 53"
    by (intro rne_between) (simp add: pow2_int)
  then have "of_int (rne (x / pow2 ?u)) \<le> (of_int (2 ^ 53) :: rat)"
    by (simp only: of_int_le_iff)
  then have "of_int (rne (x / pow2 ?u)) * pow2 ?u \<le> of_int (2 ^ 53) * pow2 ?u"
    by (intro mult_right_mono) (simp_all add: less_imp_le)
  then show ?thesis
    using assms by (simp add: fl_pos_eq pow2_add pow2_int mult.commute)
qed

lemma fl_above_binade:
  assumes "0 < y" and "- 1074 < ulp_exp y"
  shows "pow2 (ulp_exp y + 52) \<le> fl y"
proof -
  let ?u = "ulp_exp y"
  have u: "?u + 52 = rlog2 y" using assms by (auto simp: ulp_exp_def)
  then have "pow2 (?u + 52) \<le> y" using rlog2_bounds [OF assms(1)] by simp
  then have "pow2 52 \<le> y / pow2 ?u"
    by (simp add: pow2_add pos_le_divide_eq mult.commute)
  then have "2 ^ 52 \<le> rne (y / pow2 ?u)"
    by (intro rne_between) (simp add: pow2_int)
  then have "(of_int (2 ^ 52) :: rat) \<le> of_int (rne (y / pow2 ?u))"
    by (simp only: of_int_le_iff)
  then have "of_int (2 ^ 52) * pow2 ?u \<le> of_int (rne (y / pow2 ?u)) * pow2 ?u"
    by (intro mult_right_mono) (simp_all add: less_imp_le)
  then show ?thesis
    using assms by (simp add: fl_pos_eq pow2_add pow2_int mult.commute)
qed

lemma fl_mono_pos:
  assumes "0 < x" and "x \<le> y"
  shows "fl x \<le> fl y"
proof (cases "ulp_exp x = ulp_exp y")
  case True
  have "rne (x / pow2 (ulp_exp y)) \<le> rne (y / pow2 (ulp_exp y))"
    using assms(2) by (intro rne_mono divide_right_mono) (simp_all add: less_imp_le)
  then show ?thesis
    using assms True by (simp add: fl_pos_eq mult_right_mono less_imp_le)
next
  case False
  with ulp_exp_mono [OF assms] have lt: "ulp_exp x < ulp_exp y" by simp
  have "fl x \<le> pow2 (ulp_exp x + 53)" using assms(1) by (rule fl_below_binade)
  also have "\<dots> \<le> pow2 (ulp_exp y + 52)" using lt by simp
  also have "\<dots> \<le> fl y"
    using assms lt by (intro fl_above_binade) (auto simp: ulp_exp_def)
  finally show ?thesis .
qed

lemma fl_mono: "x \<le> y \<Longrightarrow> fl x \<le> fl y"
proof -
  assume le: "x \<le> y"
  consider "0 < x" | "x \<le> 0" "0 \<le> y" | "y < 0" by linarith
  then show ?thesis
  proof cases
    case 1
    then show ?thesis using le by (rule fl_mono_pos)
  next
    case 2
    then have "0 \<le> fl (- x)" "0 \<le> fl y" by (simp_all add: fl_nonneg)
    then show ?thesis by (simp add: fl_minus)
  next
    case 3
    then have "fl (- y) \<le> fl (- x)" using le by (intro fl_mono_pos) simp_all
    then show ?thesis by (simp add: fl_minus)
  qed
qed

text \<open>The rounding error: half a unit in the last place.\<close>

lemma fl_error_ulp: "\<bar>fl x - x\<bar> \<le> pow2 (ulp_exp x - 1)"
proof (cases "x = 0")
  case False
  let ?u = "ulp_exp x" and ?m = "x / pow2 (ulp_exp x)"
  have "fl x - x = (of_int (rne ?m) - ?m) * pow2 ?u"
    using False by (simp add: fl_def left_diff_distrib)
  then have "\<bar>fl x - x\<bar> = \<bar>of_int (rne ?m) - ?m\<bar> * pow2 ?u"
    by (simp only: abs_mult abs_pow2)
  also have "\<dots> \<le> 1 / 2 * pow2 ?u"
    by (intro mult_right_mono rne_bounds) (simp add: less_imp_le)
  finally show ?thesis by (simp add: pow2_diff)
qed (simp add: less_imp_le)

lemma fl_error: "\<bar>fl x - x\<bar> \<le> \<bar>x\<bar> / 2 ^ 53 + pow2 (- 1075)"
proof (cases "x = 0")
  case False
  have "pow2 (ulp_exp x - 1) \<le> \<bar>x\<bar> / 2 ^ 53 + pow2 (- 1075)"
  proof (cases "rlog2 \<bar>x\<bar> - 52 \<le> - 1074")
    case True
    then show ?thesis by (simp add: ulp_exp_def max_def)
  next
    case normal: False
    then have "ulp_exp x - 1 = rlog2 \<bar>x\<bar> - 53" by (simp add: ulp_exp_def)
    then have "pow2 (ulp_exp x - 1) = pow2 (rlog2 \<bar>x\<bar>) / pow2 53"
      by (simp only: pow2_diff)
    then have "pow2 (ulp_exp x - 1) = pow2 (rlog2 \<bar>x\<bar>) / 2 ^ 53"
      by (simp add: pow2_int)
    also have "\<dots> \<le> \<bar>x\<bar> / 2 ^ 53"
      using rlog2_bounds(1) [of "\<bar>x\<bar>"] False by (intro divide_right_mono) auto
    finally show ?thesis using pow2_pos [of "- 1075"] by linarith
  qed
  with fl_error_ulp [of x] show ?thesis by linarith
qed (simp add: less_imp_le)

text \<open>Numbers of at most 53 significant bits are doubles.\<close>

lemma is_double_scaled:
  assumes "\<bar>n\<bar> \<le> 2 ^ 53" and "- 1074 \<le> k"
  shows "is_double (of_int n * pow2 k)"
proof (cases "n = 0")
  case True
  then show ?thesis by (simp add: is_double_def)
next
  case False
  let ?x = "of_int n * pow2 k :: rat"
  have x: "\<bar>?x\<bar> = of_int \<bar>n\<bar> * pow2 k" by (simp add: abs_mult)
  consider (small) "ulp_exp ?x \<le> k" | (top) "k < ulp_exp ?x" by linarith
  then show ?thesis
  proof cases
    case small
    then have "pow2 (k - ulp_exp ?x) = of_int (2 ^ nat (k - ulp_exp ?x))"
      by (intro pow2_int) simp
    then have "?x / pow2 (ulp_exp ?x) = of_int (n * 2 ^ nat (k - ulp_exp ?x))"
      by (simp only: pow2_diff of_int_mult times_divide_eq_right [symmetric])
    then have "rne (?x / pow2 (ulp_exp ?x)) = n * 2 ^ nat (k - ulp_exp ?x)"
      by (metis rne_of_int)
    with \<open>?x / pow2 (ulp_exp ?x) = _\<close> show ?thesis
      using False by (simp add: is_double_def fl_def nonzero_divide_eq_eq)
  next
    case top
    have "of_int \<bar>n\<bar> \<le> (of_int (2 ^ 53) :: rat)" using assms(1) by (simp only: of_int_le_iff)
    then have "\<bar>?x\<bar> \<le> pow2 (k + 53)"
      unfolding x by (simp add: pow2_add pow2_int mult.commute mult_right_mono less_imp_le)
    moreover have "pow2 (rlog2 \<bar>?x\<bar>) \<le> \<bar>?x\<bar>" using False by (intro rlog2_bounds) simp
    ultimately have "rlog2 \<bar>?x\<bar> \<le> k + 53" by (meson order_trans pow2_le_iff)
    with top assms(2) have ue: "ulp_exp ?x = k + 1" and r: "rlog2 \<bar>?x\<bar> = k + 53"
      by (auto simp: ulp_exp_def)
    then have "\<bar>?x\<bar> = pow2 (k + 53)"
      using \<open>\<bar>?x\<bar> \<le> pow2 (k + 53)\<close> \<open>pow2 (rlog2 \<bar>?x\<bar>) \<le> \<bar>?x\<bar>\<close> by simp
    then have "of_int \<bar>n\<bar> = (of_int (2 ^ 53) :: rat)"
      unfolding x by (simp add: pow2_add pow2_int)
    then have "\<bar>n\<bar> = 2 ^ 53" by (simp only: of_int_eq_iff)
    then have "even \<bar>n\<bar>" by simp
    then obtain m where "n = 2 * m" by (auto elim: evenE)
    then have "of_int (n div 2) = (of_int n / 2 :: rat)" by simp
    moreover have "?x / pow2 (ulp_exp ?x) = of_int n / 2"
      unfolding ue by (simp add: pow2_add)
    ultimately have eq: "?x / pow2 (ulp_exp ?x) = of_int (n div 2)" by (simp only:)
    then have "rne (?x / pow2 (ulp_exp ?x)) = n div 2" by (metis rne_of_int)
    with eq show ?thesis
      using False by (simp add: is_double_def fl_def nonzero_divide_eq_eq)
  qed
qed

lemma is_double_of_int: "\<bar>n\<bar> \<le> 2 ^ 53 \<Longrightarrow> is_double (of_int n)"
  using is_double_scaled [of n 0] by simp

lemma fl_of_int: "\<bar>n\<bar> \<le> 2 ^ 53 \<Longrightarrow> fl (of_int n) = of_int n"
  using is_double_of_int by (simp add: is_double_def)

lemma fl_1 [simp]: "fl 1 = 1"
  using fl_of_int [of 1] by simp

lemma is_double_fl: "is_double (fl x)"
proof (cases "x = 0")
  case False
  let ?u = "ulp_exp x"
  have "\<bar>x\<bar> < pow2 (rlog2 \<bar>x\<bar> + 1)" using False by (intro rlog2_bounds) simp
  also have "\<dots> \<le> pow2 (?u + 53)" by (intro pow2_mono) (simp add: ulp_exp_def)
  finally have "\<bar>x\<bar> / pow2 ?u \<le> pow2 53" by (simp add: pow2_add pos_divide_le_eq mult.commute)
  then have "\<bar>x / pow2 ?u\<bar> \<le> of_int (2 ^ 53)" by (simp add: pow2_int abs_divide del: abs_div_pos)
  then have "x / pow2 ?u \<le> of_int (2 ^ 53)" "of_int (- (2 ^ 53)) \<le> x / pow2 ?u"
    by (simp_all only: abs_le_iff of_int_minus) linarith
  then have "rne (x / pow2 ?u) \<le> 2 ^ 53" "- (2 ^ 53) \<le> rne (x / pow2 ?u)"
    by (intro rne_between; simp)+
  then show ?thesis
    using is_double_scaled [of "rne (x / pow2 ?u)" ?u] False by (simp add: fl_def ulp_exp_def)
qed (simp add: is_double_def)

lemma fl_idem [simp]: "fl (fl x) = fl x"
  using is_double_fl [of x] by (simp add: is_double_def)

section \<open>The laws as an interface\<close>

text \<open>What the components use of the arithmetic: rounding is monotone, leaves small integers and
  its own results alone, and errs by at most one part in \<open>2^53\<close> (or by half the least double).\<close>

locale rounding =
  fixes rnd :: "rat \<Rightarrow> rat"
  assumes rnd_mono: "x \<le> y \<Longrightarrow> rnd x \<le> rnd y"
    and rnd_idem: "rnd (rnd x) = rnd x"
    and rnd_int: "\<bar>n\<bar> \<le> 2 ^ 53 \<Longrightarrow> rnd (of_int n) = of_int n"
    and rnd_error: "\<bar>rnd x - x\<bar> \<le> \<bar>x\<bar> / 2 ^ 53 + pow2 (- 1075)"
begin

lemma rnd_0: "rnd 0 = 0"
  using rnd_int [of 0] by simp

lemma rnd_1: "rnd 1 = 1"
  using rnd_int [of 1] by simp

lemma rnd_ge: "rnd a = a \<Longrightarrow> a \<le> x \<Longrightarrow> a \<le> rnd x"
  using rnd_mono [of a x] by simp

lemma rnd_le: "rnd b = b \<Longrightarrow> x \<le> b \<Longrightarrow> rnd x \<le> b"
  using rnd_mono [of x b] by simp

lemma rnd_nonneg: "0 \<le> x \<Longrightarrow> 0 \<le> rnd x"
  using rnd_0 by (rule rnd_ge)

lemma rnd_ge_1: "1 \<le> x \<Longrightarrow> 1 \<le> rnd x"
  using rnd_1 by (rule rnd_ge)

lemma rnd_upper: "0 \<le> x \<Longrightarrow> rnd x \<le> x + x / 2 ^ 53 + pow2 (- 1075)"
  using rnd_error [of x] by (simp add: abs_le_iff)

lemma rnd_lower: "0 \<le> x \<Longrightarrow> x - x / 2 ^ 53 - pow2 (- 1075) \<le> rnd x"
  using rnd_error [of x] by (simp add: abs_le_iff)

text \<open>The error below a bound of at least 1, the least double's half absorbed.\<close>

lemma rnd_close:
  assumes "0 \<le> x" and "x \<le> c" and "1 \<le> c"
  shows "\<bar>rnd x - x\<bar> \<le> c / 2 ^ 52"
proof -
  have "x / 2 ^ 53 \<le> c / 2 ^ 53" using assms(2) by (intro divide_right_mono) auto
  moreover have "pow2 (- 1075) \<le> c / 2 ^ 53"
  proof -
    have "1 / 2 ^ 53 \<le> c / 2 ^ 53" using assms(3) by (intro divide_right_mono) auto
    with pow2_tiny show ?thesis by (rule order_trans)
  qed
  moreover have "c / 2 ^ 53 + c / 2 ^ 53 = c / 2 ^ 52" by simp
  moreover have "\<bar>x\<bar> = x" using assms(1) by simp
  ultimately show ?thesis using rnd_error [of x] by linarith
qed

end

interpretation fl64: rounding fl
  by unfold_locales (use fl_mono fl_idem fl_of_int fl_error in auto)

section \<open>Rounding functions of the Math object\<close>

text \<open>\<open>Math.round\<close> takes the nearest integer, ties upwards; \<open>Math.ceil\<close> and \<open>Math.floor\<close> are
  exact as well.\<close>

definition math_round :: "rat \<Rightarrow> int" where
  "math_round x = floor (x + 1 / 2)"

lemma math_round_bounds: "\<bar>of_int (math_round x) - x\<bar> \<le> 1 / 2"
proof -
  have "of_int (floor (x + 1 / 2)) \<le> x + 1 / 2" "x + 1 / 2 < of_int (floor (x + 1 / 2)) + 1"
    using floor_correct [of "x + 1 / 2"] by simp_all
  then show ?thesis by (simp only: math_round_def abs_le_iff) linarith
qed

lemma math_round_mono: "x \<le> y \<Longrightarrow> math_round x \<le> math_round y"
  by (simp add: math_round_def floor_mono)

lemma math_round_of_int [simp]: "math_round (of_int n) = n"
  by (simp add: math_round_def floor_unique)

text \<open>\<open>Math.round(x * 100) / 100\<close>, the idiom of the fare and of the surge multiplier.\<close>

definition round_cents :: "rat \<Rightarrow> rat" where
  "round_cents x = fl (of_int (math_round (fl (x * 100))) / 100)"

lemma round_cents_mono: "x \<le> y \<Longrightarrow> round_cents x \<le> round_cents y"
  by (simp add: round_cents_def fl_mono math_round_mono divide_right_mono)

section \<open>Numbers with infinities and NaN\<close>

datatype jsnum = Num rat | PosInf | NegInf | NaN

definition is_finite :: "jsnum \<Rightarrow> bool" where
  "is_finite x = (case x of Num _ \<Rightarrow> True | _ \<Rightarrow> False)"

fun js_less :: "jsnum \<Rightarrow> jsnum \<Rightarrow> bool" where
  "js_less (Num a) (Num b) = (a < b)"
| "js_less (Num _) PosInf = True"
| "js_less NegInf (Num _) = True"
| "js_less NegInf PosInf = True"
| "js_less _ _ = False"

fun js_leq :: "jsnum \<Rightarrow> jsnum \<Rightarrow> bool" where
  "js_leq (Num a) (Num b) = (a \<le> b)"
| "js_leq NaN _ = False"
| "js_leq _ NaN = False"
| "js_leq NegInf _ = True"
| "js_leq _ PosInf = True"
| "js_leq _ _ = False"

text \<open>A real result as a number: past the largest double it is an infinity.\<close>

definition to_js :: "rat \<Rightarrow> jsnum" where
  "to_js x = (if rlog2 \<bar>fl x\<bar> \<le> 1023 then Num (fl x) else if 0 < x then PosInf else NegInf)"

lemma to_js_Num:
  assumes "\<bar>x\<bar> \<le> pow2 1000"
  shows "to_js x = Num (fl x)"
proof -
  have d: "fl (pow2 1000) = pow2 1000"
    using is_double_scaled [of 1 1000] by (simp add: is_double_def)
  have "fl x \<le> pow2 1000" "- pow2 1000 \<le> fl x"
    using fl64.rnd_le [OF d, of x] fl64.rnd_ge [of "- pow2 1000" x] assms
    by (auto simp: fl_minus d abs_le_iff)
  then have "\<bar>fl x\<bar> \<le> pow2 1000" by (simp add: abs_le_iff)
  moreover have "rlog2 0 \<le> 1023" by code_simp
  moreover have "rlog2 (pow2 1000) = 1000" by (rule rlog2_unique) simp_all
  ultimately have "rlog2 \<bar>fl x\<bar> \<le> 1023"
    using rlog2_mono [of "\<bar>fl x\<bar>" "pow2 1000"] by (cases "fl x = 0") auto
  then show ?thesis by (simp add: to_js_def)
qed

lemma is_finite_iff: "is_finite x \<longleftrightarrow> (\<exists>q. x = Num q)"
  by (cases x) (auto simp: is_finite_def)

lemma is_finite_simps [simp]:
  "is_finite (Num q)" "\<not> is_finite PosInf" "\<not> is_finite NegInf" "\<not> is_finite NaN"
  by (simp_all add: is_finite_def)

end
