(* ===== verification/JsText.thy ===== *)
theory JsText
  imports JsNumber
begin

text \<open>
  The string, \<open>Number\<close> and JSON operations of JavaScript that the source calls: \<open>trim\<close>, \<open>split\<close>,
  \<open>join\<close>, \<open>toUpperCase\<close>, \<open>toFixed\<close>, decimal printing, \<open>Number(s)\<close>, and JSON values with the
  coercions (\<open>truthy\<close>, \<open>ToNumber\<close>) the code relies on. A string is a list of characters of code
  unit below 256; case mapping and white space are the ASCII ones (and the no-break space).
\<close>

section \<open>Strings\<close>

definition js_space :: "char \<Rightarrow> bool" where
  "js_space c \<longleftrightarrow> (let n = (of_char c :: int) in n = 32 \<or> (9 \<le> n \<and> n \<le> 13) \<or> n = 160)"

definition trim :: "string \<Rightarrow> string" where
  "trim s = rev (dropWhile js_space (rev (dropWhile js_space s)))"

definition upper_char :: "char \<Rightarrow> char" where
  "upper_char c =
     (let n = (of_char c :: int) in if 97 \<le> n \<and> n \<le> 122 then char_of (n - 32) else c)"

definition to_upper :: "string \<Rightarrow> string" where
  "to_upper s = map upper_char s"

text \<open>\<open>s.split(sep)\<close> for a one-character separator: always at least one part.\<close>

fun split_on :: "char \<Rightarrow> string \<Rightarrow> string list" where
  "split_on sep [] = [[]]"
| "split_on sep (c # cs) =
     (if c = sep then [] # split_on sep cs
      else case split_on sep cs of [] \<Rightarrow> [[c]] | w # ws \<Rightarrow> (c # w) # ws)"

fun join_with :: "string \<Rightarrow> string list \<Rightarrow> string" where
  "join_with sep [] = []"
| "join_with sep [w] = w"
| "join_with sep (w # ws) = w @ sep @ join_with sep ws"

fun starts_with :: "string \<Rightarrow> string \<Rightarrow> bool" where
  "starts_with [] s = True"
| "starts_with (p # ps) (c # cs) = (p = c \<and> starts_with ps cs)"
| "starts_with (p # ps) [] = False"

lemma split_on_nonempty [simp]: "split_on sep s \<noteq> []"
  by (induction s) (auto split: list.splits)

lemma join_split: "join_with [sep] (split_on sep s) = s"
proof (induction s)
  case (Cons c s)
  obtain w ws where "split_on sep s = w # ws" using split_on_nonempty by (meson neq_Nil_conv)
  with Cons show ?case by (cases ws) auto
qed simp

lemma starts_with_iff: "starts_with p s \<longleftrightarrow> (\<exists>t. s = p @ t)"
  by (induction p s rule: starts_with.induct) auto

lemma dropWhile_idem: "dropWhile P (dropWhile P xs) = dropWhile P xs"
  by (induction xs) auto

lemma dropWhile_snoc_keep: "\<not> P c \<Longrightarrow> dropWhile P (xs @ [c]) = dropWhile P xs @ [c]"
  by (induction xs) auto

lemma trim_left_kept: "dropWhile js_space (trim s) = trim s"
proof (cases "dropWhile js_space s")
  case Nil
  then have "trim s = []" unfolding trim_def by (simp only: rev.simps dropWhile.simps)
  then show ?thesis by simp
next
  case (Cons c t)
  then have "\<not> js_space c" by (metis hd_dropWhile list.distinct(1) list.sel(1))
  with Cons show ?thesis by (simp add: trim_def dropWhile_snoc_keep)
qed

lemma trim_idem: "trim (trim s) = trim s"
proof -
  have "trim (trim s) = rev (dropWhile js_space (rev (dropWhile js_space (trim s))))"
    by (simp only: trim_def [of "trim s"])
  also have "\<dots> = rev (dropWhile js_space (rev (trim s)))"
    by (simp only: trim_left_kept)
  also have "\<dots> = trim s"
    by (simp only: trim_def rev_rev_ident dropWhile_idem)
  finally show ?thesis .
qed

section \<open>Printing and reading numbers\<close>

definition digit_char :: "int \<Rightarrow> char" where
  "digit_char d = char_of (48 + d)"

definition is_digit :: "char \<Rightarrow> bool" where
  "is_digit c \<longleftrightarrow> (let n = (of_char c :: int) in 48 \<le> n \<and> n \<le> 57)"

definition digit_val :: "char \<Rightarrow> int" where
  "digit_val c = of_char c - 48"

function int_digits :: "int \<Rightarrow> string" where
  "int_digits n = (if n < 10 then [digit_char n] else int_digits (n div 10) @ [digit_char (n mod 10)])"
  by pat_completeness auto
termination
  by (relation "measure nat") auto

declare int_digits.simps [simp del]

definition show_int :: "int \<Rightarrow> string" where
  "show_int n = (if n < 0 then CHR ''-'' # int_digits (- n) else int_digits n)"

definition digits_val :: "string \<Rightarrow> int" where
  "digits_val s = foldl (\<lambda>a c. a * 10 + digit_val c) 0 s"

definition to_fixed_pos :: "nat \<Rightarrow> rat \<Rightarrow> string" where
  "to_fixed_pos f x =
     (let n = floor (x * 10 ^ f + 1 / 2);
          m = int_digits n;
          m' = replicate (Suc f - length m) (CHR ''0'') @ m;
          k = length m' - f
      in take k m' @ (if f = 0 then [] else CHR ''.'' # drop k m'))"

text \<open>\<open>x.toFixed(f)\<close> for \<open>\<bar>x\<bar> < 10^21\<close>.\<close>

definition to_fixed :: "nat \<Rightarrow> rat \<Rightarrow> string" where
  "to_fixed f x = (if x < 0 then CHR ''-'' # to_fixed_pos f (- x) else to_fixed_pos f x)"

definition read_exponent :: "string \<Rightarrow> int option" where
  "read_exponent s =
     (let (neg, ds) = (case s of CHR ''-'' # r \<Rightarrow> (True, r) | CHR ''+'' # r \<Rightarrow> (False, r) | r \<Rightarrow> (False, r))
      in if ds = [] \<or> \<not> list_all is_digit ds then None
         else Some (if neg then - digits_val ds else digits_val ds))"

definition ten_powi :: "int \<Rightarrow> rat" where
  "ten_powi k = (if 0 \<le> k then 10 ^ nat k else 1 / 10 ^ nat (- k))"

definition read_unsigned :: "string \<Rightarrow> rat option" where
  "read_unsigned s =
     (let ip = takeWhile is_digit s; r = dropWhile is_digit s;
          (fp, r') = (case r of CHR ''.'' # q \<Rightarrow> (takeWhile is_digit q, dropWhile is_digit q) | _ \<Rightarrow> ([], r));
          m = of_int (digits_val (ip @ fp)) / 10 ^ length fp
      in if ip = [] \<and> fp = [] then None
         else case r' of
           [] \<Rightarrow> Some m
         | e # q \<Rightarrow>
             if e = CHR ''e'' \<or> e = CHR ''E''
             then map_option (\<lambda>k. m * ten_powi k) (read_exponent q) else None)"

definition radix_digit :: "int \<Rightarrow> char \<Rightarrow> int option" where
  "radix_digit b c =
     (let n = (of_char c :: int);
          d = (if 48 \<le> n \<and> n \<le> 57 then n - 48
               else if 97 \<le> n \<and> n \<le> 102 then n - 87
               else if 65 \<le> n \<and> n \<le> 70 then n - 55 else 99)
      in if d < b then Some d else None)"

fun read_radix :: "int \<Rightarrow> int \<Rightarrow> string \<Rightarrow> int option" where
  "read_radix b a [] = Some a"
| "read_radix b a (c # cs) =
     (case radix_digit b c of None \<Rightarrow> None | Some d \<Rightarrow> read_radix b (a * b + d) cs)"

definition read_prefixed :: "int \<Rightarrow> string \<Rightarrow> jsnum" where
  "read_prefixed b s =
     (if s = [] then NaN
      else case read_radix b 0 s of None \<Rightarrow> NaN | Some n \<Rightarrow> to_js (of_int n))"

text \<open>\<open>Number(s)\<close>.\<close>

definition js_Number :: "string \<Rightarrow> jsnum" where
  "js_Number s =
     (let t = trim s;
          dec = (\<lambda>u. if u = ''Infinity'' then PosInf
                     else case read_unsigned u of None \<Rightarrow> NaN | Some q \<Rightarrow> to_js q);
          neg = (\<lambda>x. case x of Num q \<Rightarrow> Num (- q) | PosInf \<Rightarrow> NegInf | NegInf \<Rightarrow> PosInf | NaN \<Rightarrow> NaN)
      in case t of
           [] \<Rightarrow> Num 0
         | CHR ''-'' # u \<Rightarrow> neg (dec u)
         | CHR ''+'' # u \<Rightarrow> dec u
         | CHR ''0'' # x # u \<Rightarrow>
             if x = CHR ''x'' \<or> x = CHR ''X'' then read_prefixed 16 u
             else if x = CHR ''o'' \<or> x = CHR ''O'' then read_prefixed 8 u
             else if x = CHR ''b'' \<or> x = CHR ''B'' then read_prefixed 2 u
             else dec t
         | _ \<Rightarrow> dec t)"

text \<open>
  \<open>String(x)\<close> for a finite double: the shortest decimal that rounds back to \<open>x\<close>, of at most 17
  digits. \<open>dec_exp x\<close> is the \<open>n\<close> with \<open>10^(n-1) \<le> x < 10^n\<close>, \<open>js_decimal\<close> the value of that decimal.
\<close>

definition dec_exp :: "rat \<Rightarrow> int" where
  "dec_exp x =
     (if 1 \<le> x then int (length (int_digits (floor x)))
      else 1 - int (length (int_digits (ceiling (1 / x) - 1))))"

definition round_digits :: "int \<Rightarrow> rat \<Rightarrow> rat" where
  "round_digits k x =
     (let u = ten_powi (dec_exp x - k) in of_int (floor (x / u + 1 / 2)) * u)"

fun shortest :: "int list \<Rightarrow> rat \<Rightarrow> rat" where
  "shortest [] x = x"
| "shortest (k # ks) x = (if fl (round_digits k x) = x then round_digits k x else shortest ks x)"

definition digit_counts :: "int list" where
  "digit_counts = [1, 2, 3, 4, 5, 6, 7, 8, 9, 10, 11, 12, 13, 14, 15, 16, 17]"

definition js_decimal :: "rat \<Rightarrow> rat" where
  "js_decimal x =
     (if x = 0 then 0
      else if x < 0 then - shortest digit_counts (- x)
      else shortest digit_counts x)"

lemma fl_shortest: "is_double x \<Longrightarrow> fl (shortest ks x) = x"
  by (induction ks) (auto simp: is_double_def)

lemma fl_js_decimal:
  assumes "is_double x"
  shows "fl (js_decimal x) = x"
proof (cases "x < 0")
  case True
  have "is_double (- x)" using assms by (simp add: is_double_def fl_minus)
  with True show ?thesis by (simp add: js_decimal_def fl_minus fl_shortest)
qed (simp add: js_decimal_def fl_shortest assms)

lemma shortest_nonneg: "0 < x \<Longrightarrow> 0 \<le> shortest ks x"
  by (induction ks) (auto simp: round_digits_def ten_powi_def Let_def)

lemma js_decimal_nonneg: "0 \<le> x \<Longrightarrow> 0 \<le> js_decimal x"
  by (auto simp: js_decimal_def intro!: shortest_nonneg)

text \<open>The digits of a decimal between 0 and 10^21 that has at most 25 places.\<close>

fun fraction_digits :: "nat \<Rightarrow> rat \<Rightarrow> string" where
  "fraction_digits 0 x = []"
| "fraction_digits (Suc n) x =
     (if x = 0 then []
      else digit_char (floor (x * 10)) # fraction_digits n (x * 10 - of_int (floor (x * 10))))"

definition decimal_text :: "rat \<Rightarrow> string" where
  "decimal_text x =
     (let ip = int_digits (floor x); fp = fraction_digits 25 (x - of_int (floor x))
      in if fp = [] then ip else ip @ CHR ''.'' # fp)"

definition js_String :: "rat \<Rightarrow> string" where
  "js_String x =
     (if x < 0 then CHR ''-'' # decimal_text (- js_decimal x) else decimal_text (js_decimal x))"

section \<open>JSON values\<close>

datatype json =
  JNull | JBool bool | JNum rat | JStr string | JArr "json list" | JObj "(string \<times> json) list"

text \<open>\<open>v.k\<close> on a value that is not \<open>null\<close>; \<open>None\<close> is \<open>undefined\<close>.\<close>

fun jget :: "json \<Rightarrow> string \<Rightarrow> json option" where
  "jget (JObj kvs) k = map_of (rev kvs) k"
| "jget _ k = None"

text \<open>\<open>{ ...a, ...b }\<close>: the keys of \<open>b\<close> override.\<close>

fun spread :: "(string \<times> json) list \<Rightarrow> (string \<times> json) list \<Rightarrow> (string \<times> json) list" where
  "spread a [] = a"
| "spread a ((k, v) # kvs) = spread (al_set k v a) kvs"

fun truthy :: "json \<Rightarrow> bool" where
  "truthy JNull = False"
| "truthy (JBool b) = b"
| "truthy (JNum q) = (q \<noteq> 0)"
| "truthy (JStr s) = (s \<noteq> [])"
| "truthy (JArr _) = True"
| "truthy (JObj _) = True"

definition truthy_opt :: "json option \<Rightarrow> bool" where
  "truthy_opt v = (case v of None \<Rightarrow> False | Some j \<Rightarrow> truthy j)"

text \<open>\<open>ToNumber\<close>: an array of one element reads as that element printed as a string.\<close>

fun to_number :: "json \<Rightarrow> jsnum" where
  "to_number JNull = Num 0"
| "to_number (JBool b) = Num (if b then 1 else 0)"
| "to_number (JNum q) = Num q"
| "to_number (JStr s) = js_Number s"
| "to_number (JArr []) = Num 0"
| "to_number (JArr [JNull]) = Num 0"
| "to_number (JArr [JBool _]) = NaN"
| "to_number (JArr [JObj _]) = NaN"
| "to_number (JArr [x]) = to_number x"
| "to_number (JArr (_ # _ # _)) = NaN"
| "to_number (JObj _) = NaN"

lemma map_of_spread:
  "map_of (spread a b) k = (case map_of (rev b) k of None \<Rightarrow> map_of a k | Some v \<Rightarrow> Some v)"
  by (induction a b rule: spread.induct) (auto simp: map_add_def split: option.splits)

lemma distinct_spread: "distinct (map fst a) \<Longrightarrow> distinct (map fst (spread a b))"
  by (induction a b rule: spread.induct) auto

section \<open>Printing then reading a number\<close>

lemma digit_char_props:
  assumes "0 \<le> d" "d < 10"
  shows "is_digit (digit_char d)" and "digit_val (digit_char d) = d"
proof -
  have "(of_char (char_of (48 + d)) :: int) = 48 + d"
    using assms by simp
  then show "is_digit (digit_char d)" and "digit_val (digit_char d) = d"
    using assms by (simp_all add: is_digit_def digit_val_def digit_char_def)
qed

lemma digits_val_snoc [simp]: "digits_val (s @ [c]) = digits_val s * 10 + digit_val c"
  by (simp add: digits_val_def)

lemma int_digits_digits: "0 \<le> n \<Longrightarrow> list_all is_digit (int_digits n)"
proof (induction n rule: int_digits.induct)
  case (1 n)
  then show ?case
    by (cases "n < 10") (simp_all add: int_digits.simps [of n] digit_char_props)
qed

lemma digits_val_int_digits: "0 \<le> n \<Longrightarrow> digits_val (int_digits n) = n"
proof (induction n rule: int_digits.induct)
  case (1 n)
  show ?case
  proof (cases "n < 10")
    case True
    with "1.prems" show ?thesis by (simp add: int_digits.simps [of n] digits_val_def digit_char_props)
  next
    case False
    with "1.IH" "1.prems" show ?thesis by (simp add: int_digits.simps [of n] digit_char_props)
  qed
qed

lemma int_digits_nonempty [simp]: "int_digits n \<noteq> []"
  by (simp add: int_digits.simps [of n])

end
