(* ===== verification/HashRing.thy ===== *)
theory HashRing
  imports Hashing JsText "HOL-Library.Multiset" "HOL-Library.List_Lexorder" "HOL-Library.Char_ord"
begin

text \<open>
  The consistent-hashing ring of \<open>libs/consistent-hash/src/ring.ts\<close>: positions sorted by hash, a
  binary search for the first position at or after a hash, insertion and removal of a node's
  virtual positions, and the two lookups. The hash function is a field of the ring, as in the
  source, into any linearly ordered type; the default is \<open>murmur3\<close> into the 32-bit words.

  The locale \<open>key_routing\<close> is the contract the matcher relies on (who owns a key, and what adding
  or removing a member may change); the ring is its interpretation.
\<close>

section \<open>State and operations\<close>

record 'h vnode =
  vn_hash :: 'h
  vn_nodeId :: string

record 'h ring =
  rg_vnodes :: nat
  rg_hash :: "string \<Rightarrow> 'h"
  rg_positions :: "'h vnode list"
  rg_nodes :: "string list"

definition new_ring :: "nat \<Rightarrow> (string \<Rightarrow> 'h) \<Rightarrow> 'h ring" where
  "new_ring vnodes hash =
     \<lparr>rg_vnodes = vnodes, rg_hash = hash, rg_positions = [], rg_nodes = []\<rparr>"

text \<open>The constructor's defaults: 128 virtual nodes, murmur3.\<close>

definition new_default_ring :: "nat option \<Rightarrow> 32 word ring" where
  "new_default_ring vnodes = new_ring (case vnodes of None \<Rightarrow> 128 | Some v \<Rightarrow> v) murmur3"

function lower_bound_loop :: "'h::linorder vnode list \<Rightarrow> 'h \<Rightarrow> nat \<Rightarrow> nat \<Rightarrow> nat" where
  "lower_bound_loop ps h lo hi =
     (if lo < hi
      then (let mid = (lo + hi) div 2
            in if vn_hash (ps ! mid) < h then lower_bound_loop ps h (mid + 1) hi
               else lower_bound_loop ps h lo mid)
      else lo)"
  by pat_completeness auto
termination
  by (relation "measure (\<lambda>(ps, h, lo, hi). hi - lo)") auto

declare lower_bound_loop.simps [simp del]

definition lower_bound :: "'h::linorder vnode list \<Rightarrow> 'h \<Rightarrow> nat" where
  "lower_bound ps h = lower_bound_loop ps h 0 (length ps)"

definition insert_sorted :: "'h::linorder vnode \<Rightarrow> 'h vnode list \<Rightarrow> 'h vnode list" where
  "insert_sorted v ps = (let i = lower_bound ps (vn_hash v) in take i ps @ v # drop i ps)"

text \<open>The virtual node number \<open>i\<close> of a node: the hash of \<open>nodeId#i\<close>.\<close>

definition vnode_at :: "(string \<Rightarrow> 'h) \<Rightarrow> string \<Rightarrow> nat \<Rightarrow> 'h vnode" where
  "vnode_at hash nodeId i =
     \<lparr>vn_hash = hash (nodeId @ CHR ''#'' # show_int (int i)), vn_nodeId = nodeId\<rparr>"

definition addNode :: "'h::linorder ring \<Rightarrow> string \<Rightarrow> 'h ring" where
  "addNode r nodeId =
     (if nodeId \<in> set (rg_nodes r) then r
      else r\<lparr>rg_nodes := rg_nodes r @ [nodeId],
             rg_positions :=
               foldl (\<lambda>ps i. insert_sorted (vnode_at (rg_hash r) nodeId i) ps) (rg_positions r)
                 [0..<rg_vnodes r]\<rparr>)"

definition removeNode :: "'h ring \<Rightarrow> string \<Rightarrow> 'h ring" where
  "removeNode r nodeId =
     (if nodeId \<notin> set (rg_nodes r) then r
      else r\<lparr>rg_nodes := filter (\<lambda>n. n \<noteq> nodeId) (rg_nodes r),
             rg_positions := filter (\<lambda>p. vn_nodeId p \<noteq> nodeId) (rg_positions r)\<rparr>)"

definition getNode :: "'h::linorder ring \<Rightarrow> string \<Rightarrow> string option" where
  "getNode r key =
     (if rg_positions r = [] then None
      else let h = rg_hash r key;
               idx = lower_bound (rg_positions r) h;
               slot = rg_positions r ! (idx mod length (rg_positions r))
           in Some (vn_nodeId slot))"

function get_nodes_loop ::
    "'h vnode list \<Rightarrow> nat \<Rightarrow> int \<Rightarrow> nat \<Rightarrow> string set \<Rightarrow> string list \<Rightarrow> string list" where
  "get_nodes_loop ps start k i seen out =
     (if i < length ps \<and> int (length out) < k
      then (let slot = ps ! ((start + i) mod length ps)
            in if vn_nodeId slot \<notin> seen
               then get_nodes_loop ps start k (i + 1) (insert (vn_nodeId slot) seen)
                      (out @ [vn_nodeId slot])
               else get_nodes_loop ps start k (i + 1) seen out)
      else out)"
  by pat_completeness auto
termination
  by (relation "measure (\<lambda>(ps, start, k, i, seen, out). length ps - i)") auto

declare get_nodes_loop.simps [simp del]

definition getNodes :: "'h::linorder ring \<Rightarrow> string \<Rightarrow> int \<Rightarrow> string list" where
  "getNodes r key k =
     (if rg_positions r = [] \<or> k \<le> 0 then []
      else get_nodes_loop (rg_positions r) (lower_bound (rg_positions r) (rg_hash r key)) k 0 {} [])"

definition ring_nodes :: "'h ring \<Rightarrow> string list" where
  "ring_nodes r = sort (rg_nodes r)"

definition ring_size :: "'h ring \<Rightarrow> nat" where
  "ring_size r = length (rg_positions r)"

section \<open>The binary search\<close>

abbreviation hashes :: "'h vnode list \<Rightarrow> 'h list" where
  "hashes ps \<equiv> map vn_hash ps"

lemma lower_bound_loop_bounds:
  "lo \<le> hi \<Longrightarrow> lo \<le> lower_bound_loop ps h lo hi \<and> lower_bound_loop ps h lo hi \<le> hi"
proof (induction ps h lo hi rule: lower_bound_loop.induct)
  case (1 ps h lo hi)
  show ?case
  proof (cases "lo < hi")
    case True
    then show ?thesis
      using "1.IH" by (simp add: lower_bound_loop.simps [of ps h lo hi] Let_def) fastforce
  next
    case False
    with "1.prems" show ?thesis by (auto simp: lower_bound_loop.simps [of ps h hi hi])
  qed
qed

lemma lower_bound_loop_below:
  assumes "sorted (hashes ps)" and "hi \<le> length ps"
    and "\<And>i. i < lo \<Longrightarrow> i < length ps \<Longrightarrow> vn_hash (ps ! i) < h"
    and "\<And>i. hi \<le> i \<Longrightarrow> i < length ps \<Longrightarrow> h \<le> vn_hash (ps ! i)" and "lo \<le> hi"
  shows "(\<forall>i < lower_bound_loop ps h lo hi. vn_hash (ps ! i) < h) \<and>
         (\<forall>i. lower_bound_loop ps h lo hi \<le> i \<longrightarrow> i < length ps \<longrightarrow> h \<le> vn_hash (ps ! i))"
  using assms
proof (induction ps h lo hi rule: lower_bound_loop.induct)
  case (1 ps h lo hi)
  have mono: "vn_hash (ps ! i) \<le> vn_hash (ps ! j)" if "i \<le> j" "j < length ps" for i j
    using sorted_nth_mono [OF "1.prems"(1), of i j] that by simp
  show ?case
  proof (cases "lo < hi")
    case False
    with "1.prems" have "lo = hi" by simp
    with "1.prems" show ?thesis by (auto simp: lower_bound_loop.simps [of ps h hi hi])
  next
    case True
    let ?mid = "(lo + hi) div 2"
    have mid: "lo \<le> ?mid" "?mid < hi" using True by simp_all
    show ?thesis
    proof (cases "vn_hash (ps ! ?mid) < h")
      case less: True
      have "vn_hash (ps ! i) < h" if "i < ?mid + 1" for i
        using mono [of i ?mid] that mid "1.prems"(2) le_less_trans [OF _ less] by simp
      then have "(\<forall>i < lower_bound_loop ps h (?mid + 1) hi. vn_hash (ps ! i) < h) \<and>
         (\<forall>i. lower_bound_loop ps h (?mid + 1) hi \<le> i \<longrightarrow> i < length ps \<longrightarrow> h \<le> vn_hash (ps ! i))"
        using mid "1.prems"(1,2,4) by (intro "1.IH"(1) [OF True refl less]) simp_all
      moreover have "lower_bound_loop ps h lo hi = lower_bound_loop ps h (?mid + 1) hi"
        using True less by (simp add: lower_bound_loop.simps [of ps h lo hi] Let_def)
      ultimately show ?thesis by simp
    next
      case geq: False
      have "h \<le> vn_hash (ps ! i)" if "?mid \<le> i" "i < length ps" for i
        using mono [OF that] geq by (simp add: not_less)
      then have "(\<forall>i < lower_bound_loop ps h lo ?mid. vn_hash (ps ! i) < h) \<and>
         (\<forall>i. lower_bound_loop ps h lo ?mid \<le> i \<longrightarrow> i < length ps \<longrightarrow> h \<le> vn_hash (ps ! i))"
        using mid "1.prems"(1,2,3) by (intro "1.IH"(2) [OF True refl geq]) simp_all
      moreover have "lower_bound_loop ps h lo hi = lower_bound_loop ps h lo ?mid"
        using True geq by (simp add: lower_bound_loop.simps [of ps h lo hi] Let_def)
      ultimately show ?thesis by simp
    qed
  qed
qed

lemma lower_bound_le: "lower_bound ps h \<le> length ps"
  by (simp add: lower_bound_def lower_bound_loop_bounds)

lemma lower_bound_split:
  assumes "sorted (hashes ps)"
  shows "i < lower_bound ps h \<Longrightarrow> vn_hash (ps ! i) < h"
    and "lower_bound ps h \<le> i \<Longrightarrow> i < length ps \<Longrightarrow> h \<le> vn_hash (ps ! i)"
  using lower_bound_loop_below [OF assms, of "length ps" 0 h] by (auto simp: lower_bound_def)

text \<open>What the search splits a sorted list into.\<close>

lemma lower_bound_filters:
  assumes "sorted (hashes ps)"
  shows "take (lower_bound ps h) ps = filter (\<lambda>v. vn_hash v < h) ps"
    and "drop (lower_bound ps h) ps = filter (\<lambda>v. h \<le> vn_hash v) ps"
proof -
  let ?b = "lower_bound ps h"
  have low: "vn_hash v < h" if "v \<in> set (take ?b ps)" for v
    using that lower_bound_split(1) [OF assms] by (auto simp: in_set_conv_nth)
  have high: "h \<le> vn_hash v" if "v \<in> set (drop ?b ps)" for v
    using that lower_bound_split(2) [OF assms] lower_bound_le [of ps h] by (auto simp: in_set_conv_nth)
  have "filter (\<lambda>v. vn_hash v < h) (take ?b ps @ drop ?b ps) = take ?b ps"
    using low high by (auto simp: filter_id_conv filter_empty_conv not_less simp del: append_take_drop_id)
  then show "take ?b ps = filter (\<lambda>v. vn_hash v < h) ps" by simp
  have "filter (\<lambda>v. h \<le> vn_hash v) (take ?b ps @ drop ?b ps) = drop ?b ps"
    using low high by (auto simp: filter_id_conv filter_empty_conv not_le simp del: append_take_drop_id)
  then show "drop ?b ps = filter (\<lambda>v. h \<le> vn_hash v) ps" by simp
qed

section \<open>Clockwise order\<close>

text \<open>The positions in the order a clockwise walk from \<open>h\<close> meets them.\<close>

definition clockwise :: "'h::linorder vnode list \<Rightarrow> 'h \<Rightarrow> 'h vnode list" where
  "clockwise ps h = filter (\<lambda>v. h \<le> vn_hash v) ps @ filter (\<lambda>v. vn_hash v < h) ps"

lemma clockwise_rotation:
  "sorted (hashes ps) \<Longrightarrow>
   clockwise ps h = drop (lower_bound ps h) ps @ take (lower_bound ps h) ps"
  by (simp add: clockwise_def lower_bound_filters)

lemma length_clockwise: "length (clockwise ps h) = length ps"
  using sum_length_filter_compl [of "\<lambda>v. h \<le> vn_hash v" ps]
  by (simp add: clockwise_def not_le)

lemma set_clockwise: "set (clockwise ps h) = set ps"
  by (auto simp: clockwise_def)

lemma clockwise_Nil_iff [simp]: "clockwise ps h = [] \<longleftrightarrow> ps = []"
  using length_clockwise [of ps h] by auto

lemma clockwise_filter: "clockwise (filter P ps) h = filter P (clockwise ps h)"
  by (simp add: clockwise_def conj_commute)

lemma clockwise_nth:
  assumes "sorted (hashes ps)" and "i < length ps"
  shows "ps ! ((lower_bound ps h + i) mod length ps) = clockwise ps h ! i"
proof -
  let ?b = "lower_bound ps h"
  have b: "?b \<le> length ps" by (rule lower_bound_le)
  show ?thesis
  proof (cases "?b + i < length ps")
    case True
    with b show ?thesis by (simp add: clockwise_rotation [OF assms(1)] nth_append)
  next
    case False
    then have "(?b + i) mod length ps = ?b + i - length ps"
      using b assms(2) by (simp add: mod_if)
    with False b assms(2) show ?thesis
      by (simp add: clockwise_rotation [OF assms(1)] nth_append)
        (metis Nat.diff_diff_right add.commute)
  qed
qed

lemma getNode_clockwise:
  assumes "sorted (hashes (rg_positions r))"
  shows "getNode r key =
     (case clockwise (rg_positions r) (rg_hash r key) of [] \<Rightarrow> None | v # _ \<Rightarrow> Some (vn_nodeId v))"
proof (cases "rg_positions r = []")
  case False
  then show ?thesis
    using clockwise_nth [OF assms, of 0 "rg_hash r key"]
    by (auto simp: getNode_def Let_def neq_Nil_conv [of "clockwise _ _"] split: list.split)
qed (simp add: getNode_def clockwise_def)

section \<open>Insertion keeps the order\<close>

lemma insert_sorted_sorted:
  assumes "sorted (hashes ps)"
  shows "sorted (hashes (insert_sorted v ps))"
proof -
  have "sorted (hashes (filter (\<lambda>u. vn_hash u < vn_hash v) ps))"
       "sorted (hashes (filter (\<lambda>u. vn_hash v \<le> vn_hash u) ps))"
    using assms by (rule sorted_map_filter)+
  then show ?thesis
    by (auto simp: insert_sorted_def Let_def lower_bound_filters [OF assms] sorted_append
        less_imp_le intro: less_le_trans)
qed

lemma mset_insert_sorted [simp]: "mset (insert_sorted v ps) = add_mset v (mset ps)"
proof -
  have "mset (take n ps) + mset (drop n ps) = mset ps" for n
    by (metis append_take_drop_id mset_append)
  then show ?thesis by (simp add: insert_sorted_def Let_def)
qed

lemma filter_insert_sorted:
  "\<not> P v \<Longrightarrow> filter P (insert_sorted v ps) = filter P ps"
proof -
  assume "\<not> P v"
  then have "filter P (insert_sorted v ps) =
      filter P (take (lower_bound ps (vn_hash v)) ps @ drop (lower_bound ps (vn_hash v)) ps)"
    by (simp add: insert_sorted_def Let_def del: append_take_drop_id)
  then show ?thesis by simp
qed

text \<open>A position goes before those with its hash, so equal hashes are in the order of the last
  insertion first.\<close>

lemma filter_same_hash:
  assumes "sorted (hashes ps)"
  shows "filter (\<lambda>u. vn_hash u = h) (insert_sorted v ps) =
    (if vn_hash v = h then [v] else []) @ filter (\<lambda>u. vn_hash u = h) ps"
proof -
  have "filter (\<lambda>u. vn_hash u = h) (filter (\<lambda>u. vn_hash u < vn_hash v) ps) @
      (if vn_hash v = h then [v] else []) @
      filter (\<lambda>u. vn_hash u = h) (filter (\<lambda>u. vn_hash v \<le> vn_hash u) ps) =
    (if vn_hash v = h then [v] else []) @ filter (\<lambda>u. vn_hash u = h) ps"
  proof (cases "vn_hash v \<le> h")
    case True
    then have "filter (\<lambda>u. vn_hash u = h) (filter (\<lambda>u. vn_hash u < vn_hash v) ps) = []"
      and "filter (\<lambda>u. vn_hash u = h) (filter (\<lambda>u. vn_hash v \<le> vn_hash u) ps) =
        filter (\<lambda>u. vn_hash u = h) ps"
      by (auto simp: filter_empty_conv intro!: filter_cong)
    then show ?thesis by simp
  next
    case False
    then have "filter (\<lambda>u. vn_hash u = h) (filter (\<lambda>u. vn_hash v \<le> vn_hash u) ps) = []"
      and "filter (\<lambda>u. vn_hash u = h) (filter (\<lambda>u. vn_hash u < vn_hash v) ps) =
        filter (\<lambda>u. vn_hash u = h) ps"
      by (auto simp: filter_empty_conv intro!: filter_cong)
    then show ?thesis using False by auto
  qed
  moreover have "filter (\<lambda>u. vn_hash u = h) (xs @ v # ys) =
      filter (\<lambda>u. vn_hash u = h) xs @ (if vn_hash v = h then [v] else []) @ filter (\<lambda>u. vn_hash u = h) ys"
    for xs ys by simp
  ultimately show ?thesis
    unfolding insert_sorted_def Let_def lower_bound_filters [OF assms] by (simp only:)
qed

lemma filter_same_hash_foldl:
  assumes "sorted (hashes ps)"
  shows "filter (\<lambda>u. vn_hash u = h) (foldl (\<lambda>ps i. insert_sorted (f i) ps) ps is) =
    rev (filter (\<lambda>u. vn_hash u = h) (map f is)) @ filter (\<lambda>u. vn_hash u = h) ps"
  using assms
  by (induction "is" arbitrary: ps) (simp_all add: insert_sorted_sorted filter_same_hash)

lemma hd_at_least:
  assumes "sorted (hashes ps)" and "filter (\<lambda>u. vn_hash u = h) ps = v # vs"
  shows "\<exists>us. filter (\<lambda>u. h \<le> vn_hash u) ps = v # us"
  using assms
proof (induction ps)
  case (Cons a ps)
  show ?case
  proof (cases "vn_hash a = h")
    case False
    then have vs: "filter (\<lambda>u. vn_hash u = h) ps = v # vs" using Cons.prems(2) by simp
    then have "v \<in> set (filter (\<lambda>u. vn_hash u = h) ps)" by simp
    then have "vn_hash a < h" using Cons.prems(1) False by (auto simp: order_le_less)
    with vs Cons show ?thesis by (simp add: not_le [symmetric])
  qed (use Cons.prems in simp)
qed simp

lemma foldl_insert_sorted:
  assumes "sorted (hashes ps)"
  shows "sorted (hashes (foldl (\<lambda>ps i. insert_sorted (f i) ps) ps is))"
    and "mset (foldl (\<lambda>ps i. insert_sorted (f i) ps) ps is) = mset ps + mset (map f is)"
  using assms
  by (induction "is" arbitrary: ps) (simp_all add: insert_sorted_sorted)

lemma filter_foldl_insert_sorted:
  assumes "\<And>i. \<not> P (f i)"
  shows "filter P (foldl (\<lambda>ps i. insert_sorted (f i) ps) ps is) = filter P ps"
  by (induction "is" arbitrary: ps) (simp_all add: filter_insert_sorted assms)

section \<open>The ring's invariant\<close>

definition vnodes_of :: "'h ring \<Rightarrow> string \<Rightarrow> 'h vnode list" where
  "vnodes_of r n = map (vnode_at (rg_hash r) n) [0..<rg_vnodes r]"

text \<open>Sorted positions, and exactly the virtual nodes of the members.\<close>

definition ring_inv :: "'h::linorder ring \<Rightarrow> bool" where
  "ring_inv r \<longleftrightarrow>
     sorted (hashes (rg_positions r)) \<and> distinct (rg_nodes r) \<and>
     mset (rg_positions r) = mset (concat (map (vnodes_of r) (rg_nodes r)))"

lemma vnodes_of_nodeId: "v \<in> set (vnodes_of r n) \<Longrightarrow> vn_nodeId v = n"
  by (auto simp: vnodes_of_def vnode_at_def)

lemma set_positions:
  assumes "ring_inv r"
  shows "set (rg_positions r) = (\<Union>n \<in> set (rg_nodes r). set (vnodes_of r n))"
  using assms mset_eq_setD [of "rg_positions r"] by (fastforce simp: ring_inv_def)

lemma ring_inv_new: "ring_inv (new_ring v h)"
  by (simp add: ring_inv_def new_ring_def)

lemma ring_inv_addNode:
  assumes "ring_inv r"
  shows "ring_inv (addNode r n)"
proof (cases "n \<in> set (rg_nodes r)")
  case False
  have same: "vnodes_of (addNode r n) = vnodes_of r"
    by (simp add: vnodes_of_def addNode_def fun_eq_iff)
  have "sorted (hashes (rg_positions r))" using assms by (simp add: ring_inv_def)
  note ins = foldl_insert_sorted [OF this, of "vnode_at (rg_hash r) n" "[0..<rg_vnodes r]"]
  show ?thesis
    using assms False ins unfolding ring_inv_def same
    by (simp add: addNode_def vnodes_of_def)
qed (use assms in \<open>simp add: addNode_def\<close>)

lemma filter_concat_vnodes:
  "filter (\<lambda>p. vn_nodeId p \<noteq> n) (concat (map (vnodes_of r) ns)) =
   concat (map (vnodes_of r) (filter (\<lambda>m. m \<noteq> n) ns))"
proof (induction ns)
  case (Cons m ns)
  have "filter (\<lambda>p. vn_nodeId p \<noteq> n) (vnodes_of r m) = (if m = n then [] else vnodes_of r m)"
    using vnodes_of_nodeId by (force simp: filter_empty_conv filter_id_conv)
  with Cons show ?case by simp
qed simp

lemma ring_inv_removeNode:
  assumes "ring_inv r"
  shows "ring_inv (removeNode r n)"
proof (cases "n \<in> set (rg_nodes r)")
  case True
  have same: "vnodes_of (removeNode r n) = vnodes_of r"
    by (simp add: vnodes_of_def removeNode_def fun_eq_iff)
  have "mset (filter (\<lambda>p. vn_nodeId p \<noteq> n) (rg_positions r)) =
        mset (filter (\<lambda>p. vn_nodeId p \<noteq> n) (concat (map (vnodes_of r) (rg_nodes r))))"
    using assms by (simp add: ring_inv_def del: mset_concat)
  then show ?thesis
    using assms True unfolding ring_inv_def same
    by (simp add: removeNode_def sorted_map_filter filter_concat_vnodes)
qed (use assms in \<open>simp add: removeNode_def\<close>)

lemma ring_hash_kept [simp]:
  "rg_hash (addNode r n) = rg_hash r" "rg_hash (removeNode r n) = rg_hash r"
  "rg_vnodes (addNode r n) = rg_vnodes r" "rg_vnodes (removeNode r n) = rg_vnodes r"
  by (simp_all add: addNode_def removeNode_def)

lemma nodes_addNode: "set (rg_nodes (addNode r n)) = insert n (set (rg_nodes r))"
  by (auto simp: addNode_def)

lemma nodes_removeNode: "set (rg_nodes (removeNode r n)) = set (rg_nodes r) - {n}"
  by (auto simp: removeNode_def)

lemma positions_removeNode:
  assumes "ring_inv r"
  shows "rg_positions (removeNode r n) = filter (\<lambda>p. vn_nodeId p \<noteq> n) (rg_positions r)"
proof (cases "n \<in> set (rg_nodes r)")
  case False
  then have "\<forall>p \<in> set (rg_positions r). vn_nodeId p \<noteq> n"
    using set_positions [OF assms] vnodes_of_nodeId by auto
  then show ?thesis using False by (simp add: removeNode_def filter_id_conv)
qed (simp add: removeNode_def)

lemma remove_of_add:
  assumes "n \<notin> set (rg_nodes r)" and "ring_inv r"
  shows "removeNode (addNode r n) n = r"
proof -
  have "filter (\<lambda>p. vn_nodeId p \<noteq> n) (rg_positions (addNode r n)) =
        filter (\<lambda>p. vn_nodeId p \<noteq> n) (rg_positions r)"
    using assms(1) by (simp add: addNode_def filter_foldl_insert_sorted vnode_at_def)
  also have "\<dots> = rg_positions r"
    using set_positions [OF assms(2)] vnodes_of_nodeId assms(1) by (fastforce simp: filter_id_conv)
  finally have pos: "filter (\<lambda>p. vn_nodeId p \<noteq> n) (rg_positions (addNode r n)) = rg_positions r" .
  have "filter (\<lambda>m. m \<noteq> n) (rg_nodes r @ [n]) = rg_nodes r"
    using assms(1) by (auto simp: filter_id_conv)
  with pos show ?thesis
    using assms(1) by (simp add: removeNode_def nodes_addNode) (simp add: addNode_def)
qed

section \<open>Lookups\<close>

lemma getNode_inv:
  "ring_inv r \<Longrightarrow> getNode r key =
     (case clockwise (rg_positions r) (rg_hash r key) of [] \<Rightarrow> None | v # _ \<Rightarrow> Some (vn_nodeId v))"
  by (simp add: ring_inv_def getNode_clockwise)

lemma getNode_member:
  assumes "ring_inv r" and "getNode r key = Some n"
  shows "n \<in> set (rg_nodes r)"
proof -
  obtain v vs where "clockwise (rg_positions r) (rg_hash r key) = v # vs" "vn_nodeId v = n"
    using assms by (auto simp: getNode_inv split: list.splits)
  then have "v \<in> set (rg_positions r)" by (metis list.set_intros(1) set_clockwise)
  then obtain m where "m \<in> set (rg_nodes r)" "v \<in> set (vnodes_of r m)"
    using set_positions [OF assms(1)] by auto
  then show ?thesis using vnodes_of_nodeId \<open>vn_nodeId v = n\<close> by metis
qed

lemma getNode_total:
  assumes "ring_inv r" and "0 < rg_vnodes r" and "rg_nodes r \<noteq> []"
  shows "\<exists>n. getNode r key = Some n"
proof -
  obtain m where "m \<in> set (rg_nodes r)" using assms(3) by (cases "rg_nodes r") auto
  moreover have "vnodes_of r m \<noteq> []" using assms(2) by (simp add: vnodes_of_def)
  ultimately have "set (rg_positions r) \<noteq> {}"
    unfolding set_positions [OF assms(1)] by auto
  then show ?thesis by (simp add: getNode_def Let_def)
qed

lemma getNode_remove_other:
  assumes "ring_inv r" and "getNode r key \<noteq> Some n"
  shows "getNode (removeNode r n) key = getNode r key"
proof -
  have inv': "ring_inv (removeNode r n)" by (rule ring_inv_removeNode [OF assms(1)])
  show ?thesis
    unfolding getNode_inv [OF assms(1)] getNode_inv [OF inv']
    using assms(2)
    by (cases "clockwise (rg_positions r) (rg_hash r key)")
       (simp_all add: positions_removeNode [OF assms(1)] clockwise_filter getNode_inv [OF assms(1)])
qed

lemma getNode_add_other:
  assumes "ring_inv r" and "getNode (addNode r n) key \<noteq> Some n"
  shows "getNode (addNode r n) key = getNode r key"
proof (cases "n \<in> set (rg_nodes r)")
  case False
  show ?thesis
    using getNode_remove_other [OF ring_inv_addNode [OF assms(1)] assms(2)]
      remove_of_add [OF False assms(1)] by simp
qed (simp add: addNode_def)

text \<open>The distinct node ids of a list, each at its first occurrence.\<close>

fun first_distinct :: "'a set \<Rightarrow> 'a list \<Rightarrow> 'a list" where
  "first_distinct seen [] = []"
| "first_distinct seen (x # xs) =
     (if x \<in> seen then first_distinct seen xs else x # first_distinct (insert x seen) xs)"

lemma first_distinct_set: "set (first_distinct seen xs) = set xs - seen"
  by (induction xs arbitrary: seen) auto

lemma first_distinct_distinct: "distinct (first_distinct seen xs)"
  by (induction xs arbitrary: seen) (auto simp: first_distinct_set)

lemma get_nodes_loop_spec:
  assumes "sorted (hashes ps)" and "start = lower_bound ps h"
  shows "get_nodes_loop ps start k i seen out =
    out @ take (nat (k - int (length out)))
      (first_distinct seen (map vn_nodeId (drop i (clockwise ps h))))"
  using assms
proof (induction ps start k i seen out rule: get_nodes_loop.induct)
  case (1 ps start k i seen out)
  show ?case
  proof (cases "i < length ps \<and> int (length out) < k")
    case True
    let ?x = "vn_nodeId (clockwise ps h ! i)"
    have slot: "ps ! ((start + i) mod length ps) = clockwise ps h ! i"
      using True "1.prems" by (simp add: clockwise_nth)
    have split: "drop i (clockwise ps h) = clockwise ps h ! i # drop (i + 1) (clockwise ps h)"
      using True by (simp add: Cons_nth_drop_Suc length_clockwise)
    have suc: "nat (k - int (length out)) = Suc (nat (k - int (length (out @ [?x]))))"
      using True by (simp add: Suc_nat_eq_nat_zadd1)
    show ?thesis
    proof (cases "?x \<in> seen")
      case seen: True
      have "get_nodes_loop ps start k i seen out = get_nodes_loop ps start k (i + 1) seen out"
        using seen True by (simp add: get_nodes_loop.simps [of ps start k i seen out] slot Let_def)
      also have "\<dots> = out @ take (nat (k - int (length out)))
          (first_distinct seen (map vn_nodeId (drop (i + 1) (clockwise ps h))))"
        using "1.IH"(2) [OF True refl _ "1.prems"] seen slot by simp
      finally show ?thesis using seen by (simp only: split) simp
    next
      case False
      have "get_nodes_loop ps start k i seen out =
          get_nodes_loop ps start k (i + 1) (insert ?x seen) (out @ [?x])"
        using False True by (simp add: get_nodes_loop.simps [of ps start k i seen out] slot Let_def)
      also have "\<dots> = (out @ [?x]) @ take (nat (k - int (length (out @ [?x]))))
          (first_distinct (insert ?x seen) (map vn_nodeId (drop (i + 1) (clockwise ps h))))"
        using "1.IH"(1) [OF True refl _ "1.prems", unfolded slot] False by simp
      finally show ?thesis using False by (simp only: split suc) simp
    qed
  next
    case False
    then have "drop i (clockwise ps h) = [] \<or> nat (k - int (length out)) = 0"
      by (auto simp: length_clockwise not_less)
    with False show ?thesis by (auto simp: get_nodes_loop.simps [of ps start k i seen out])
  qed
qed

lemma getNodes_spec:
  assumes "ring_inv r"
  shows "getNodes r key k =
    take (nat k) (first_distinct {} (map vn_nodeId (clockwise (rg_positions r) (rg_hash r key))))"
  using assms
  by (auto simp: getNodes_def ring_inv_def get_nodes_loop_spec clockwise_def)

lemma nodeIds_positions:
  assumes "ring_inv r" and "0 < rg_vnodes r"
  shows "vn_nodeId ` set (rg_positions r) = set (rg_nodes r)"
proof -
  have "vn_nodeId ` set (vnodes_of r n) = {n}" for n
    using assms(2) by (force simp: vnodes_of_def vnode_at_def)
  then show ?thesis by (simp add: set_positions [OF assms(1)] image_UN)
qed

section \<open>The routing contract\<close>

text \<open>
  What a client of the ring may rely on, whatever the representation: a table of members with an
  owner for every key, where adding or removing a member moves no key between other members.
\<close>

locale key_routing =
  fixes empty_table :: 't
    and add :: "'t \<Rightarrow> 'n \<Rightarrow> 't"
    and remove :: "'t \<Rightarrow> 'n \<Rightarrow> 't"
    and owner :: "'t \<Rightarrow> 'k \<Rightarrow> 'n option"
    and members :: "'t \<Rightarrow> 'n set"
    and inv :: "'t \<Rightarrow> bool"
  assumes inv_empty: "inv empty_table"
    and inv_add: "inv t \<Longrightarrow> inv (add t n)"
    and inv_remove: "inv t \<Longrightarrow> inv (remove t n)"
    and members_empty: "members empty_table = {}"
    and members_add: "members (add t n) = insert n (members t)"
    and members_remove: "members (remove t n) = members t - {n}"
    and owner_member: "inv t \<Longrightarrow> owner t k = Some n \<Longrightarrow> n \<in> members t"
    and owner_total: "inv t \<Longrightarrow> members t \<noteq> {} \<Longrightarrow> \<exists>n. owner t k = Some n"
    and owner_remove: "inv t \<Longrightarrow> owner t k \<noteq> Some n \<Longrightarrow> owner (remove t n) k = owner t k"
    and owner_add: "inv t \<Longrightarrow> owner (add t n) k \<noteq> Some n \<Longrightarrow> owner (add t n) k = owner t k"
begin

definition build :: "'n list \<Rightarrow> 't" where
  "build ns = foldl add empty_table ns"

lemma inv_foldl: "inv t \<Longrightarrow> inv (foldl add t ns)"
  by (induction ns arbitrary: t) (simp_all add: inv_add)

lemma inv_build: "inv (build ns)"
  by (simp add: build_def inv_foldl inv_empty)

lemma members_foldl: "members (foldl add t ns) = members t \<union> set ns"
  by (induction ns arbitrary: t) (auto simp: members_add)

lemma members_build: "members (build ns) = set ns"
  by (simp add: build_def members_foldl members_empty)

lemma owner_build_unique:
  assumes "ns \<noteq> []"
  shows "\<exists>!n. n \<in> set ns \<and> owner (build ns) k = Some n"
proof -
  obtain n where n: "owner (build ns) k = Some n"
    using owner_total [OF inv_build, of ns k] assms by (auto simp: members_build)
  then have "n \<in> set ns"
    using owner_member [OF inv_build] members_build by metis
  with n show ?thesis by auto
qed

lemma owner_moves_from_removed:
  "inv t \<Longrightarrow> owner (remove t n) k \<noteq> owner t k \<Longrightarrow> owner t k = Some n"
  using owner_remove by blast

lemma owner_moves_to_added:
  "inv t \<Longrightarrow> owner (add t n) k \<noteq> owner t k \<Longrightarrow> owner (add t n) k = Some n"
  using owner_add by blast

end

text \<open>The ring provides it, for every positive number of virtual nodes and every hash.\<close>

lemma ring_inv_with:
  fixes hash :: "string \<Rightarrow> 'h::linorder" and v :: nat
  shows "key_routing (new_ring (Suc v) hash) addNode removeNode getNode (\<lambda>r. set (rg_nodes r))
    (\<lambda>r. ring_inv r \<and> rg_vnodes r = Suc v \<and> rg_hash r = hash)"
proof (unfold_locales, goal_cases)
  case 1
  show ?case by (simp add: ring_inv_new) (simp add: new_ring_def)
next
  case (2 r n)
  then show ?case by (simp add: ring_inv_addNode)
next
  case (3 r n)
  then show ?case by (simp add: ring_inv_removeNode)
next
  case 4
  show ?case by (simp add: new_ring_def)
next
  case (5 r n)
  show ?case by (rule nodes_addNode)
next
  case (6 r n)
  show ?case by (rule nodes_removeNode)
next
  case (7 r key n)
  then show ?case using getNode_member by blast
next
  case (8 r key)
  then show ?case using getNode_total [of r key] by simp
next
  case (9 r key n)
  then show ?case using getNode_remove_other by blast
next
  case (10 r n key)
  then show ?case using getNode_add_other by blast
qed

interpretation ring_routing: key_routing "new_ring (Suc v) hash" addNode removeNode getNode
    "\<lambda>r. set (rg_nodes r)"
    "\<lambda>r. ring_inv r \<and> rg_vnodes r = Suc v \<and> rg_hash r = hash"
  for v and hash :: "string \<Rightarrow> 'h::linorder"
  by (rule ring_inv_with)

section \<open>Properties\<close>

text \<open>Rings as the program makes them: an empty one, then any adds and removes.\<close>

datatype ring_op = AddOp string | RemoveOp string

fun ring_step :: "'h::linorder ring \<Rightarrow> ring_op \<Rightarrow> 'h ring" where
  "ring_step r (AddOp n) = addNode r n"
| "ring_step r (RemoveOp n) = removeNode r n"

definition ring_run :: "nat \<Rightarrow> (string \<Rightarrow> 'h::linorder) \<Rightarrow> ring_op list \<Rightarrow> 'h ring" where
  "ring_run v hash ops = foldl ring_step (new_ring v hash) ops"

fun members_after :: "string list \<Rightarrow> ring_op list \<Rightarrow> string list" where
  "members_after ns [] = ns"
| "members_after ns (AddOp n # ops) = members_after (if n \<in> set ns then ns else ns @ [n]) ops"
| "members_after ns (RemoveOp n # ops) = members_after (filter (\<lambda>m. m \<noteq> n) ns) ops"

lemma ring_step_facts:
  assumes "ring_inv r"
  shows "ring_inv (ring_step r x)" and "rg_hash (ring_step r x) = rg_hash r"
    and "rg_vnodes (ring_step r x) = rg_vnodes r"
    and "rg_nodes (ring_step r x) = members_after (rg_nodes r) [x]"
proof -
  show "ring_inv (ring_step r x)"
    using assms by (cases x) (simp_all add: ring_inv_addNode ring_inv_removeNode)
  show "rg_hash (ring_step r x) = rg_hash r" "rg_vnodes (ring_step r x) = rg_vnodes r"
    by (cases x; simp)+
  show "rg_nodes (ring_step r x) = members_after (rg_nodes r) [x]"
    by (cases x) (auto simp: addNode_def removeNode_def filter_id_conv intro!: filter_True [symmetric])
qed

lemma members_after_Cons: "members_after ns (x # ops) = members_after (members_after ns [x]) ops"
  by (cases x) simp_all

lemma ring_foldl_facts:
  assumes "ring_inv r"
  shows "ring_inv (foldl ring_step r ops) \<and> rg_hash (foldl ring_step r ops) = rg_hash r \<and>
    rg_vnodes (foldl ring_step r ops) = rg_vnodes r \<and>
    rg_nodes (foldl ring_step r ops) = members_after (rg_nodes r) ops"
  using assms
proof (induction ops arbitrary: r)
  case (Cons x ops)
  then show ?case
    using ring_step_facts [OF Cons.prems, of x] Cons.IH [of "ring_step r x"]
    by (simp only: foldl_Cons members_after_Cons [of "rg_nodes r" x ops])
qed simp

lemma ring_run_facts:
  "ring_inv (ring_run v hash ops)" "rg_hash (ring_run v hash ops) = hash"
  "rg_vnodes (ring_run v hash ops) = v" "rg_nodes (ring_run v hash ops) = members_after [] ops"
  using ring_foldl_facts [OF ring_inv_new [of v hash], of ops]
  by (simp_all add: ring_run_def) (simp_all add: new_ring_def)

lemma vnodes_of_run: "vnodes_of (ring_run v hash ops) = (\<lambda>n. map (vnode_at hash n) [0..<v])"
  by (simp add: vnodes_of_def ring_run_facts fun_eq_iff)

text \<open>C31. However members join and leave, the positions stay sorted by hash, no member is listed
  twice, and the positions are exactly the virtual nodes \<open>hash(n#0) .. hash(n#(v-1))\<close> of the
  current members \<open>n\<close>, each once.\<close>

theorem ring_positions_invariant:
  "sorted (map vn_hash (rg_positions (ring_run v hash ops))) \<and>
   distinct (rg_nodes (ring_run v hash ops)) \<and>
   rg_nodes (ring_run v hash ops) = members_after [] ops \<and>
   mset (rg_positions (ring_run v hash ops)) =
     mset (concat (map (\<lambda>n. map (vnode_at hash n) [0..<v]) (members_after [] ops)))"
  using ring_run_facts(1) [of v hash ops] ring_run_facts(4) [of v hash ops]
  by (simp add: ring_inv_def vnodes_of_run del: mset_concat)

text \<open>C32. The binary search terminates on every list and, on a sorted one, returns the number of
  positions whose hash is below the key's: the least index whose hash is at least the key's.\<close>

theorem lower_bound_correct:
  assumes "sorted (map vn_hash ps)"
  shows "lower_bound ps h = length (takeWhile (\<lambda>v. vn_hash v < h) ps)"
proof -
  let ?b = "lower_bound ps h"
  have "takeWhile (\<lambda>v. vn_hash v < h) (take ?b ps @ drop ?b ps) = take ?b ps"
  proof (cases "drop ?b ps")
    case Nil
    then show ?thesis using lower_bound_split(1) [OF assms, of _ h]
      by (auto simp: takeWhile_eq_all_conv in_set_conv_nth)
  next
    case (Cons v vs)
    then have "\<not> vn_hash v < h"
      using lower_bound_split(2) [OF assms, of h ?b] lower_bound_le [of ps h]
      by (metis Cons drop_eq_Nil hd_drop_conv_nth le_refl list.distinct(1) list.sel(1) not_le)
    moreover have "\<forall>u \<in> set (take ?b ps). vn_hash u < h"
      by (simp add: lower_bound_filters(1) [OF assms])
    ultimately show ?thesis using Cons by (simp add: takeWhile_append)
  qed
  then show ?thesis by (simp add: lower_bound_le min_absorb2)
qed

theorem lower_bound_correct_witness:
  "lower_bound [\<lparr>vn_hash = 2, vn_nodeId = ''a''\<rparr>, \<lparr>vn_hash = 5, vn_nodeId = ''b''\<rparr>,
     \<lparr>vn_hash = (9::nat), vn_nodeId = ''a''\<rparr>] 6 = 2"
  by (subst lower_bound_correct) simp_all

text \<open>C33. A key belongs to the first position clockwise from its hash: the sorted positions at or
  after the hash, then those before it. On an empty ring there is no owner.\<close>

theorem getNode_first_clockwise:
  "getNode (ring_run v hash ops) key =
     (case filter (\<lambda>p. hash key \<le> vn_hash p) (rg_positions (ring_run v hash ops)) @
           filter (\<lambda>p. vn_hash p < hash key) (rg_positions (ring_run v hash ops))
      of [] \<Rightarrow> None | p # _ \<Rightarrow> Some (vn_nodeId p))"
  unfolding getNode_inv [OF ring_run_facts(1)] ring_run_facts(2) clockwise_def ..

text \<open>C34. When a member leaves, only the keys it owned change owner.\<close>

theorem removeNode_keeps_other_keys:
  assumes "getNode (ring_run v hash ops) key \<noteq> Some n"
  shows "getNode (removeNode (ring_run v hash ops) n) key = getNode (ring_run v hash ops) key"
  using ring_run_facts(1) assms by (rule getNode_remove_other)

theorem removeNode_keeps_other_keys_witness:
  "getNode (removeNode (ring_run 1 length [AddOp ''a'', AddOp ''bbb'']) ''bbb'') ''x'' = Some ''a''"
proof -
  have "getNode (ring_run 1 length [AddOp ''a'', AddOp ''bbb'']) ''x'' = Some ''a''" by code_simp
  then show ?thesis
    using removeNode_keeps_other_keys [of 1 length "[AddOp ''a'', AddOp ''bbb'']" "''x''" "''bbb''"]
    by simp
qed

text \<open>When a member joins, the keys that change owner all move to it.\<close>

theorem addNode_moves_only_to_new:
  assumes "getNode (addNode (ring_run v hash ops) n) key \<noteq> getNode (ring_run v hash ops) key"
  shows "getNode (addNode (ring_run v hash ops) n) key = Some n"
  using assms getNode_add_other [OF ring_run_facts(1)] by blast

theorem addNode_moves_only_to_new_witness:
  "getNode (addNode (ring_run 1 length [AddOp ''bbb'']) ''a'') ''x'' = Some ''a''"
  by (rule addNode_moves_only_to_new) code_simp

text \<open>\<open>getNodes(key, k)\<close> returns the first \<open>k\<close> distinct members met clockwise: no member twice,
  all of them members, \<open>min k\<close> of the number of members of them, and the owner first.\<close>

theorem getNodes_distinct_fallbacks:
  assumes "0 < v"
  shows "distinct (getNodes (ring_run v hash ops) key k) \<and>
     set (getNodes (ring_run v hash ops) key k) \<subseteq> set (members_after [] ops) \<and>
     length (getNodes (ring_run v hash ops) key k) = min (nat k) (length (members_after [] ops)) \<and>
     (0 < k \<longrightarrow> getNode (ring_run v hash ops) key =
        (case getNodes (ring_run v hash ops) key k of [] \<Rightarrow> None | n # _ \<Rightarrow> Some n))"
proof -
  let ?r = "ring_run v hash ops"
  let ?cw = "clockwise (rg_positions ?r) (rg_hash ?r key)"
  let ?fd = "first_distinct {} (map vn_nodeId ?cw)"
  note inv = ring_run_facts(1) [of v hash ops]
  have nodes: "rg_nodes ?r = members_after [] ops" by (rule ring_run_facts(4))
  have set_fd: "set ?fd = set (rg_nodes ?r)"
    using nodeIds_positions [OF inv] assms
    by (simp add: first_distinct_set set_clockwise ring_run_facts)
  have "distinct (rg_nodes ?r)" using inv by (simp add: ring_inv_def)
  then have len: "length ?fd = length (rg_nodes ?r)"
    using set_fd first_distinct_distinct by (metis distinct_card)
  have spec: "getNodes ?r key k = take (nat k) ?fd" by (rule getNodes_spec [OF inv])
  have "distinct (getNodes ?r key k)"
    unfolding spec by (simp add: first_distinct_distinct)
  moreover have "set (getNodes ?r key k) \<subseteq> set (members_after [] ops)"
    unfolding spec using set_fd nodes set_take_subset by metis
  moreover have "length (getNodes ?r key k) = min (nat k) (length (members_after [] ops))"
    unfolding spec using len nodes by simp
  moreover have "getNode ?r key = (case getNodes ?r key k of [] \<Rightarrow> None | n # _ \<Rightarrow> Some n)" if "0 < k"
    unfolding getNode_inv [OF inv] spec using that
    by (cases ?cw; cases "nat k"; simp del: clockwise_Nil_iff)
  ultimately show ?thesis by blast
qed

theorem getNodes_distinct_fallbacks_witness:
  "getNodes (ring_run 1 length [AddOp ''a'', AddOp ''bbb'']) ''xxxx'' 2 = [''bbb'', ''a''] \<and>
   length (getNodes (ring_run 1 length [AddOp ''a'', AddOp ''bbb'']) ''xxxx'' 5) = 2"
proof -
  have "getNodes (ring_run 1 length [AddOp ''a'', AddOp ''bbb'']) ''xxxx'' 2 = [''bbb'', ''a'']"
    by code_simp
  moreover have "length (getNodes (ring_run 1 length [AddOp ''a'', AddOp ''bbb'']) ''xxxx'' 5) = 2"
    using getNodes_distinct_fallbacks [of 1 length "[AddOp ''a'', AddOp ''bbb'']" "''xxxx''" 5]
    by simp
  ultimately show ?thesis ..
qed

text \<open>C35. Replicas that list the same members in different orders build the same positions, and
  route every key alike, if no two virtual nodes of the members collide. Without that hypothesis it
  fails (\<open>collision_depends_on_order\<close>), and murmur3 does collide (\<open>default_rings_differ\<close>).\<close>

theorem ring_order_independent:
  assumes "mset ns = mset ms" and "distinct ns"
    and "inj_on (\<lambda>(n, i). hash (n @ CHR ''#'' # show_int (int i))) (set ns \<times> {..<v})"
  shows "rg_positions (ring_run v hash (map AddOp ns)) = rg_positions (ring_run v hash (map AddOp ms)) \<and>
    (\<forall>key. getNode (ring_run v hash (map AddOp ns)) key = getNode (ring_run v hash (map AddOp ms)) key)"
proof -
  have members: "members_after pre (map AddOp xs) = pre @ xs" if "distinct (pre @ xs)" for pre xs
    using that by (induction xs arbitrary: pre) auto
  let ?r = "\<lambda>xs. ring_run v hash (map AddOp xs)"
  let ?vs = "\<lambda>xs. concat (map (\<lambda>n. map (vnode_at hash n) [0..<v]) xs)"
  have dm: "distinct ms" using assms(1,2) mset_eq_imp_distinct_iff by blast
  have run: "sorted (hashes (rg_positions (?r xs)))" "mset (rg_positions (?r xs)) = mset (?vs xs)"
    if "distinct xs" for xs
    using ring_run_facts(1) [of v hash "map AddOp xs"] ring_run_facts [of v hash "map AddOp xs"]
      members [of "[]" xs] that
    by (simp_all add: ring_inv_def vnodes_of_run del: mset_concat)
  have "mset (?vs ns) = mset (?vs ms)"
    by (simp add: mset_concat mset_map flip: sum_mset_sum_list) (simp add: assms(1))
  then have same: "mset (rg_positions (?r ns)) = mset (rg_positions (?r ms))"
    using run assms(2) dm by simp
  then have hs: "mset (hashes (rg_positions (?r ns))) = mset (hashes (rg_positions (?r ms)))"
    by (simp add: mset_map)
  have "hashes (rg_positions (?r ns)) = hashes (rg_positions (?r ms))"
    using properties_for_sort [OF hs run(1) [OF assms(2)]] run(1) [OF dm]
    by (simp add: sorted_sort_id)
  moreover have "inj_on vn_hash (set (rg_positions (?r ns)) \<union> set (rg_positions (?r ms)))"
  proof -
    have "set (rg_positions (?r ms)) = set (rg_positions (?r ns))" using same by (metis set_mset_mset)
    moreover have "set (rg_positions (?r ns)) = set (?vs ns)"
      using run(2) [OF assms(2)] by (metis set_mset_mset)
    moreover have "inj_on vn_hash (set (?vs ns))"
      using assms(3) by (auto simp: inj_on_def vnode_at_def)
    ultimately show ?thesis by simp
  qed
  ultimately have "rg_positions (?r ns) = rg_positions (?r ms)" by (rule map_inj_on)
  then show ?thesis by (simp add: getNode_def ring_run_facts)
qed

theorem ring_order_independent_witness:
  "rg_positions (ring_run 1 length (map AddOp [''a'', ''bbb''])) =
   rg_positions (ring_run 1 length (map AddOp [''bbb'', ''a'']))"
  by (rule ring_order_independent [THEN conjunct1]) (auto simp: inj_on_def)

text \<open>Where a virtual node of a newcomer has the hash of a key, the newcomer takes the key, also from
  a member with a virtual node of the same hash. So two members with colliding virtual nodes, listed
  in two orders, make rings that route the key at the collision to different members.\<close>

lemma newcomer_takes_collision:
  assumes "ring_inv r" and "m \<notin> set (rg_nodes r)" and "j < rg_vnodes r"
    and "rg_hash r (m @ CHR ''#'' # show_int (int j)) = rg_hash r key"
  shows "getNode (addNode r m) key = Some m"
proof -
  let ?h = "rg_hash r key" and ?f = "vnode_at (rg_hash r) m"
  let ?same = "filter (\<lambda>u. vn_hash u = ?h) (map ?f [0..<rg_vnodes r])"
  have s: "sorted (hashes (rg_positions r))" using assms(1) by (simp add: ring_inv_def)
  have "?f j \<in> set ?same" using assms(3,4) by (force simp: vnode_at_def)
  then have "rev ?same \<noteq> []" by (metis empty_iff empty_set rev_is_Nil_conv)
  then obtain v vs where v: "rev ?same = v # vs" by (meson neq_Nil_conv)
  then have "v \<in> set ?same" by (metis list.set_intros(1) set_rev)
  then have m: "vn_nodeId v = m" by (auto simp: vnode_at_def)
  have inv: "ring_inv (addNode r m)" using assms(1) by (rule ring_inv_addNode)
  then have "sorted (hashes (rg_positions (addNode r m)))" by (simp add: ring_inv_def)
  moreover have "filter (\<lambda>u. vn_hash u = ?h) (rg_positions (addNode r m)) =
      v # vs @ filter (\<lambda>u. vn_hash u = ?h) (rg_positions r)"
    using assms(2) v by (simp add: addNode_def filter_same_hash_foldl [OF s] del: filter_map)
  ultimately obtain us where "filter (\<lambda>u. ?h \<le> vn_hash u) (rg_positions (addNode r m)) = v # us"
    using hd_at_least by blast
  then show ?thesis using m by (simp add: getNode_inv [OF inv] clockwise_def)
qed

theorem collision_depends_on_order:
  assumes "n \<noteq> m" and "i < v" and "j < v"
    and "hash (n @ CHR ''#'' # show_int (int i)) = hash key"
    and "hash (m @ CHR ''#'' # show_int (int j)) = hash key"
  shows "getNode (ring_run v hash (map AddOp [n, m])) key = Some m \<and>
    getNode (ring_run v hash (map AddOp [m, n])) key = Some n"
proof -
  have "getNode (ring_run v hash (map AddOp [n, m])) key = Some m"
    if "n \<noteq> m" "j < v" "hash (m @ CHR ''#'' # show_int (int j)) = hash key" for n m j
    using newcomer_takes_collision [of "ring_run v hash [AddOp n]" m j key] that
      ring_run_facts [of v hash "[AddOp n]"]
    by (simp add: ring_run_def)
  with assms show ?thesis by metis
qed

text \<open>The default hash and number of virtual nodes: \<open>matcher-320#100\<close> and \<open>matcher-347#46\<close> have the same
  murmur3 hash, and two replicas that list these members in different orders do not agree on the
  owner of a key with that hash.\<close>

theorem default_rings_differ:
  "getNode (foldl addNode (new_default_ring None) [''matcher-320'', ''matcher-347'']) ''matcher-320#100'' =
     Some ''matcher-347'' \<and>
   getNode (foldl addNode (new_default_ring None) [''matcher-347'', ''matcher-320'']) ''matcher-320#100'' =
     Some ''matcher-320''"
proof -
  have "murmur3 (''matcher-320'' @ CHR ''#'' # show_int (int 100)) = murmur3 ''matcher-320#100''"
    "murmur3 (''matcher-347'' @ CHR ''#'' # show_int (int 46)) = murmur3 ''matcher-320#100''"
    by code_simp+
  from collision_depends_on_order [OF _ _ _ this, of 128] show ?thesis
    by (simp add: ring_run_def new_default_ring_def)
qed

end
