(* ===== verification/TokenBucket.thy ===== *)
theory TokenBucket
  imports JsText
begin

text \<open>
  The token-bucket rate limiter of \<open>libs/ratelimiter\<close>: the algorithm (\<open>bucket.ts\<close>), the in-memory
  store with its eviction (\<open>memory.ts\<close>), and the Redis store with its Lua script (\<open>redis.ts\<close>).
  Token counts are doubles, so every arithmetic step rounds with \<open>fl\<close>. A store's
  \<open>getAndUpdate\<close> is atomic: in memory the callback runs to completion on the event loop, after
  every earlier call for its key; in Redis the script does.

  The locale \<open>token_store\<close> is the interface \<open>TokenBucketStore\<close> with the laws \<open>store.ts\<close> states,
  and both stores are interpretations of it.
\<close>

section \<open>The algorithm\<close>

record bucket_state =
  bs_tokens :: rat
  bs_lastRefillMs :: rat

record compute_result =
  cr_next :: bucket_state
  cr_allowed :: bool
  cr_retryAfterMs :: jsnum

type_synonym compute_fn = "bucket_state option \<Rightarrow> rat \<Rightarrow> compute_result"

record store_result =
  sr_allowed :: bool
  sr_retryAfterMs :: jsnum
  sr_tokens :: rat

record token_bucket =
  tb_burst :: rat
  tb_refillPerMs :: rat

record decision =
  de_allowed :: bool
  de_remaining :: int
  de_retryAfterMs :: jsnum

definition new_TokenBucket :: "rat \<Rightarrow> rat \<Rightarrow> string + token_bucket" where
  "new_TokenBucket burst refillPerSecond =
     (if burst \<le> 0 then Inl ''burst must be > 0''
      else if refillPerSecond < 0 then Inl ''refillPerSecond must be >= 0''
      else Inr \<lparr>tb_burst = burst, tb_refillPerMs = fl (refillPerSecond / 1000)\<rparr>)"

fun js_ceil :: "jsnum \<Rightarrow> jsnum" where
  "js_ceil (Num q) = Num (of_int (ceiling q))"
| "js_ceil x = x"

text \<open>The callback \<open>compute\<close> inside \<open>take\<close>.\<close>

definition compute :: "token_bucket \<Rightarrow> compute_fn" where
  "compute b prev nowMs =
     (let tokens = (case prev of None \<Rightarrow> tb_burst b | Some p \<Rightarrow> bs_tokens p);
          lastRefillMs = (case prev of None \<Rightarrow> nowMs | Some p \<Rightarrow> bs_lastRefillMs p);
          elapsedMs = max 0 (fl (nowMs - lastRefillMs));
          refilled = min (tb_burst b) (fl (tokens + fl (elapsedMs * tb_refillPerMs b)))
      in if 1 \<le> refilled
         then \<lparr>cr_next = \<lparr>bs_tokens = fl (refilled - 1), bs_lastRefillMs = nowMs\<rparr>,
               cr_allowed = True, cr_retryAfterMs = Num 0\<rparr>
         else (let deficit = fl (1 - refilled);
                   retryAfterMs =
                     (if 0 < tb_refillPerMs b then js_ceil (to_js (deficit / tb_refillPerMs b))
                      else PosInf)
               in \<lparr>cr_next = \<lparr>bs_tokens = refilled, bs_lastRefillMs = nowMs\<rparr>,
                   cr_allowed = False, cr_retryAfterMs = retryAfterMs\<rparr>))"

definition result_of :: "compute_result \<Rightarrow> store_result" where
  "result_of out =
     \<lparr>sr_allowed = cr_allowed out, sr_retryAfterMs = cr_retryAfterMs out,
      sr_tokens = bs_tokens (cr_next out)\<rparr>"

text \<open>\<open>take(key)\<close> over a store's \<open>getAndUpdate\<close>.\<close>

definition take_token ::
    "('s \<Rightarrow> string \<Rightarrow> rat \<Rightarrow> compute_fn \<Rightarrow> 's \<times> store_result) \<Rightarrow> token_bucket \<Rightarrow> 's \<Rightarrow> string \<Rightarrow> rat
     \<Rightarrow> 's \<times> decision" where
  "take_token getAndUpdate b s key now =
     (case getAndUpdate s key now (compute b) of (s', result) \<Rightarrow>
        (s', \<lparr>de_allowed = sr_allowed result, de_remaining = floor (sr_tokens result),
              de_retryAfterMs = sr_retryAfterMs result\<rparr>))"

definition capacity :: "token_bucket \<Rightarrow> rat" where
  "capacity b = tb_burst b"

definition refillRate :: "token_bucket \<Rightarrow> rat" where
  "refillRate b = fl (tb_refillPerMs b * 1000)"

section \<open>The in-memory store\<close>

record memory_store =
  ms_state :: "(string \<times> bucket_state) list"
  ms_maxKeys :: int

definition new_memory_store :: "int option \<Rightarrow> memory_store" where
  "new_memory_store maxKeys =
     \<lparr>ms_state = [], ms_maxKeys = max 1 (case maxKeys of None \<Rightarrow> 100000 | Some m \<Rightarrow> m)\<rparr>"

fun oldest_scan :: "string option \<Rightarrow> jsnum \<Rightarrow> (string \<times> bucket_state) list \<Rightarrow> string option" where
  "oldest_scan oldestKey oldestMs [] = oldestKey"
| "oldest_scan oldestKey oldestMs ((k, v) # kvs) =
     (if js_less (Num (bs_lastRefillMs v)) oldestMs
      then oldest_scan (Some k) (Num (bs_lastRefillMs v)) kvs
      else oldest_scan oldestKey oldestMs kvs)"

definition maybeEvict :: "memory_store \<Rightarrow> memory_store" where
  "maybeEvict s =
     (if int (length (ms_state s)) \<le> ms_maxKeys s then s
      else case oldest_scan None PosInf (ms_state s) of
             None \<Rightarrow> s
           | Some k \<Rightarrow> s\<lparr>ms_state := al_del k (ms_state s)\<rparr>)"

definition memory_getAndUpdate ::
    "memory_store \<Rightarrow> string \<Rightarrow> rat \<Rightarrow> compute_fn \<Rightarrow> memory_store \<times> store_result" where
  "memory_getAndUpdate s key nowMs cb =
     (let prev = map_of (ms_state s) key;
          out = cb prev nowMs;
          s1 = s\<lparr>ms_state := al_set key (cr_next out) (ms_state s)\<rparr>
      in (maybeEvict s1, result_of out))"

section \<open>The Redis store\<close>

text \<open>
  The server's hashes: the two fields of a key and the time its \<open>PEXPIRE\<close> runs out. Field values
  are numbers printed and read back exactly; the reply's third part is \<open>tostring(refilled)\<close>, whose
  printing is the server's (the parameter \<open>tostring\<close>).
\<close>

record redis_hash =
  rh_tokens :: rat
  rh_last_refill_ms :: rat
  rh_expires :: rat

type_synonym redis_db = "(string \<times> redis_hash) list"

definition lua_ratelimit ::
    "redis_db \<Rightarrow> rat \<Rightarrow> string \<Rightarrow> rat \<Rightarrow> rat \<Rightarrow> rat \<Rightarrow> rat \<Rightarrow> redis_db \<times> (int \<times> int \<times> rat)" where
  "lua_ratelimit db server_ms key now_ms burst refillpm cost =
     (let data = map_of db key;
          (tokens, last_ms) =
            (case data of None \<Rightarrow> (burst, now_ms) | Some h \<Rightarrow> (rh_tokens h, rh_last_refill_ms h));
          elapsed = max 0 (fl (now_ms - last_ms));
          refilled0 = min burst (fl (tokens + fl (elapsed * refillpm)));
          (allowed, retry_after, refilled) =
            (if cost \<le> refilled0 then (1, 0, fl (refilled0 - cost))
             else (let deficit = fl (cost - refilled0)
                   in if 0 < refillpm then (0, ceiling (fl (deficit / refillpm)), refilled0)
                      else (0, - 1, refilled0)));
          db' = al_set key
            \<lparr>rh_tokens = refilled, rh_last_refill_ms = now_ms,
             rh_expires = server_ms + 86400000\<rparr> db
      in (db', (allowed, retry_after, refilled)))"

record redis_store =
  rs_db :: redis_db
  rs_burst :: rat
  rs_refillPerMs :: rat
  rs_keyPrefix :: string
  rs_defined :: bool
  rs_hasDefineCommand :: bool

definition new_redis_store :: "redis_db \<Rightarrow> bool \<Rightarrow> rat \<Rightarrow> rat \<Rightarrow> string option \<Rightarrow> redis_store" where
  "new_redis_store db hasDefine burst refillPerSecond keyPrefix =
     \<lparr>rs_db = db, rs_burst = burst, rs_refillPerMs = fl (refillPerSecond / 1000),
      rs_keyPrefix = (case keyPrefix of None \<Rightarrow> ''rl'' | Some p \<Rightarrow> p),
      rs_defined = False, rs_hasDefineCommand = hasDefine\<rparr>"

definition ensureCommandDefined :: "redis_store \<Rightarrow> string + redis_store" where
  "ensureCommandDefined s =
     (if rs_defined s then Inr s
      else if \<not> rs_hasDefineCommand s then Inl ''Redis client does not support defineCommand''
      else Inr (s\<lparr>rs_defined := True\<rparr>))"

definition redis_getAndUpdate ::
    "(rat \<Rightarrow> string) \<Rightarrow> rat \<Rightarrow> redis_store \<Rightarrow> string \<Rightarrow> rat \<Rightarrow> string + (redis_store \<times> store_result)" where
  "redis_getAndUpdate tostring server_ms s key nowMs =
     (case ensureCommandDefined s of
        Inl e \<Rightarrow> Inl e
      | Inr s1 \<Rightarrow>
          (let fullKey = rs_keyPrefix s1 @ '':'' @ key;
               (db', (allowed, retryAfterMs, refilled)) =
                 lua_ratelimit (rs_db s1) server_ms fullKey nowMs (rs_burst s1) (rs_refillPerMs s1) 1;
               tokens = js_Number (tostring refilled)
           in Inr (s1\<lparr>rs_db := db'\<rparr>,
                   \<lparr>sr_allowed = (allowed = 1),
                    sr_retryAfterMs = (if retryAfterMs < 0 then PosInf else Num (of_int retryAfterMs)),
                    sr_tokens = (case tokens of Num q \<Rightarrow> q | _ \<Rightarrow> 0)\<rparr>)))"

text \<open>The server drops the keys whose time has run out.\<close>

definition redis_expire :: "rat \<Rightarrow> redis_store \<Rightarrow> redis_store" where
  "redis_expire server_ms s = s\<lparr>rs_db := filter (\<lambda>(k, h). server_ms < rh_expires h) (rs_db s)\<rparr>"

section \<open>Bounds of the algorithm\<close>

definition good_bucket :: "token_bucket \<Rightarrow> bool" where
  "good_bucket b \<longleftrightarrow> is_double (tb_burst b) \<and> 0 < tb_burst b \<and> 0 \<le> tb_refillPerMs b"

definition good_state :: "token_bucket \<Rightarrow> bucket_state \<Rightarrow> bool" where
  "good_state b s \<longleftrightarrow> 0 \<le> bs_tokens s \<and> bs_tokens s \<le> tb_burst b"

definition good_prev :: "token_bucket \<Rightarrow> bucket_state option \<Rightarrow> bool" where
  "good_prev b prev \<longleftrightarrow> (case prev of None \<Rightarrow> True | Some s \<Rightarrow> good_state b s)"

definition refill :: "token_bucket \<Rightarrow> bucket_state option \<Rightarrow> rat \<Rightarrow> rat" where
  "refill b prev nowMs =
     (let tokens = (case prev of None \<Rightarrow> tb_burst b | Some p \<Rightarrow> bs_tokens p);
          lastRefillMs = (case prev of None \<Rightarrow> nowMs | Some p \<Rightarrow> bs_lastRefillMs p)
      in min (tb_burst b) (fl (tokens + fl (max 0 (fl (nowMs - lastRefillMs)) * tb_refillPerMs b))))"

lemma compute_refill:
  "cr_allowed (compute b prev now) \<longleftrightarrow> 1 \<le> refill b prev now"
  "bs_tokens (cr_next (compute b prev now)) =
     (if 1 \<le> refill b prev now then fl (refill b prev now - 1) else refill b prev now)"
  "bs_lastRefillMs (cr_next (compute b prev now)) = now"
  "cr_retryAfterMs (compute b prev now) =
     (if 1 \<le> refill b prev now then Num 0
      else if 0 < tb_refillPerMs b
      then js_ceil (to_js (fl (1 - refill b prev now) / tb_refillPerMs b)) else PosInf)"
  by (simp_all add: compute_def refill_def Let_def)

lemma refill_bounds:
  assumes "good_bucket b" and "good_prev b prev"
  shows "0 \<le> refill b prev now" and "refill b prev now \<le> tb_burst b"
proof -
  have "0 \<le> (case prev of None \<Rightarrow> tb_burst b | Some p \<Rightarrow> bs_tokens p)"
    using assms by (auto simp: good_bucket_def good_prev_def good_state_def split: option.splits)
  moreover have "0 \<le> fl (max 0 x * tb_refillPerMs b)" for x
    using assms by (intro fl_nonneg mult_nonneg_nonneg) (auto simp: good_bucket_def)
  ultimately show "0 \<le> refill b prev now"
    using assms by (auto simp: refill_def Let_def good_bucket_def intro!: fl_nonneg add_nonneg_nonneg)
  show "refill b prev now \<le> tb_burst b" by (simp add: refill_def Let_def)
qed

lemma compute_good:
  assumes "good_bucket b" and "good_prev b prev"
  shows "good_state b (cr_next (compute b prev now))"
proof -
  have "fl (refill b prev now - 1) \<le> tb_burst b"
    using assms refill_bounds(2) [OF assms, of now]
    by (intro fl64.rnd_le) (auto simp: good_bucket_def is_double_def)
  then show ?thesis
    using refill_bounds [OF assms, of now]
    by (auto simp: good_state_def compute_refill fl_nonneg)
qed

section \<open>The store interface\<close>

text \<open>
  What \<open>store.ts\<close> promises of \<open>getAndUpdate\<close>: the callback runs on the state the store has for
  the key, its answer is returned and its next state kept. A store may also forget keys (the
  eviction in memory, the expiry in Redis), in an update or between two.
\<close>

locale token_store =
  fixes b :: token_bucket
    and inv :: "'s \<Rightarrow> bool"
    and update :: "'s \<Rightarrow> string \<Rightarrow> rat \<Rightarrow> string + ('s \<times> store_result)"
    and forget :: "rat \<Rightarrow> 's \<Rightarrow> 's"
    and peek :: "'s \<Rightarrow> string \<Rightarrow> bucket_state option"
  assumes update_inv: "inv s \<Longrightarrow> update s key now = Inr (s', r) \<Longrightarrow> inv s'"
    and update_allowed:
      "inv s \<Longrightarrow> update s key now = Inr (s', r) \<Longrightarrow>
       sr_allowed r = cr_allowed (compute b (peek s key) now)"
    and update_same:
      "inv s \<Longrightarrow> update s key now = Inr (s', r) \<Longrightarrow>
       peek s' key \<in> {None, Some (cr_next (compute b (peek s key) now))}"
    and update_other:
      "inv s \<Longrightarrow> update s key now = Inr (s', r) \<Longrightarrow> key' \<noteq> key \<Longrightarrow>
       peek s' key' \<in> {None, peek s key'}"
    and forget_inv: "inv s \<Longrightarrow> inv (forget t s)"
    and forget_peek: "inv s \<Longrightarrow> peek (forget t s) key \<in> {None, peek s key}"
begin

definition good :: "'s \<Rightarrow> bool" where
  "good s \<longleftrightarrow> inv s \<and> (\<forall>key. good_prev b (peek s key))"

lemma good_prevD: "good s \<Longrightarrow> good_prev b (peek s key)"
  by (simp add: good_def)

lemma good_update:
  assumes "good_bucket b" and "good s" and "update s key now = Inr (s', r)"
  shows "good s'"
proof -
  have inv: "inv s" using assms(2) by (simp add: good_def)
  have "good_prev b (peek s' k)" for k
  proof (cases "k = key")
    case True
    then show ?thesis
      using update_same [OF inv assms(3)] compute_good [OF assms(1) good_prevD [OF assms(2)], of key now]
      by (auto simp: good_prev_def split: option.splits)
  next
    case False
    then show ?thesis
      using update_other [OF inv assms(3) False] good_prevD [OF assms(2), of k]
      by (auto simp: good_prev_def)
  qed
  then show ?thesis using update_inv [OF inv assms(3)] by (simp add: good_def)
qed

lemma good_forget:
  assumes "good s"
  shows "good (forget t s)"
proof -
  have "inv s" using assms by (simp add: good_def)
  then have "good_prev b (peek (forget t s) key)" for key
    using forget_peek [of s t key] good_prevD [OF assms, of key] by (auto simp: good_prev_def)
  with forget_inv [OF \<open>inv s\<close>] show ?thesis by (simp add: good_def)
qed

text \<open>A run: updates that returned, with forgetting in between.\<close>

fun run :: "'s \<Rightarrow> (rat \<times> string \<times> rat) list \<Rightarrow> 's option" where
  "run s [] = Some s"
| "run s ((t, key, now) # calls) =
     (case update (forget t s) key now of Inl _ \<Rightarrow> None | Inr (s', _) \<Rightarrow> run s' calls)"

lemma good_run: "good_bucket b \<Longrightarrow> good s \<Longrightarrow> run s calls = Some s' \<Longrightarrow> good s'"
proof (induction s calls rule: run.induct)
  case (1 s)
  then show ?case by simp
next
  case (2 s t key now calls)
  from 2(4) obtain s1 r where u: "update (forget t s) key now = Inr (s1, r)"
    and "run s1 calls = Some s'"
    by (auto split: sum.splits)
  moreover from good_update [OF 2(2) good_forget [OF 2(3)] u] have "good s1" .
  ultimately show ?case using 2(1) [OF u refl 2(2)] by simp
qed

lemma run_in_bounds:
  assumes "good_bucket b" and "good s" and "run s calls = Some s'" and "peek s' key = Some st"
  shows "0 \<le> bs_tokens st \<and> bs_tokens st \<le> tb_burst b"
  using good_prevD [OF good_run [OF assms(1-3)], of key] assms(4)
  by (simp add: good_prev_def good_state_def)

end

subsection \<open>In memory\<close>

definition memory_update :: "token_bucket \<Rightarrow> memory_store \<Rightarrow> string \<Rightarrow> rat \<Rightarrow> string + (memory_store \<times> store_result)" where
  "memory_update b s key now = Inr (memory_getAndUpdate s key now (compute b))"

definition memory_peek :: "memory_store \<Rightarrow> string \<Rightarrow> bucket_state option" where
  "memory_peek s key = map_of (ms_state s) key"

lemma maybeEvict_peek: "memory_peek (maybeEvict s) key \<in> {None, memory_peek s key}"
  by (auto simp: maybeEvict_def memory_peek_def split: option.splits)

interpretation mem_store: token_store b "\<lambda>_. True" "memory_update b" "\<lambda>_. maybeEvict" memory_peek
  for b
proof (unfold_locales, goal_cases)
  case (3 s key now s' r)
  then show ?case
    using maybeEvict_peek
    by (force simp: memory_update_def memory_getAndUpdate_def memory_peek_def maybeEvict_def Let_def
        split: option.splits if_splits)
next
  case (4 s key now s' r key')
  then show ?case
    by (auto simp: memory_update_def memory_getAndUpdate_def memory_peek_def maybeEvict_def Let_def
        split: option.splits if_splits)
qed (auto simp: memory_update_def memory_getAndUpdate_def memory_peek_def result_of_def Let_def
      maybeEvict_def split: option.splits)

subsection \<open>In Redis\<close>

definition redis_peek :: "redis_store \<Rightarrow> string \<Rightarrow> bucket_state option" where
  "redis_peek s key =
     map_option (\<lambda>h. \<lparr>bs_tokens = rh_tokens h, bs_lastRefillMs = rh_last_refill_ms h\<rparr>)
       (map_of (rs_db s) (rs_keyPrefix s @ '':'' @ key))"

definition redis_serves :: "token_bucket \<Rightarrow> redis_store \<Rightarrow> bool" where
  "redis_serves b s \<longleftrightarrow> rs_burst s = tb_burst b \<and> rs_refillPerMs s = tb_refillPerMs b \<and>
     distinct (map fst (rs_db s))"

lemma lua_is_compute:
  assumes "tb_burst b = burst" and "tb_refillPerMs b = rpm"
    and prev: "prev = map_option (\<lambda>h. \<lparr>bs_tokens = rh_tokens h, bs_lastRefillMs = rh_last_refill_ms h\<rparr>)
                    (map_of db key)"
  shows "lua_ratelimit db sm key now burst rpm 1 =
    (al_set key \<lparr>rh_tokens = bs_tokens (cr_next (compute b prev now)), rh_last_refill_ms = now,
                 rh_expires = sm + 86400000\<rparr> db,
     (if cr_allowed (compute b prev now) then 1 else 0,
      if cr_allowed (compute b prev now) then 0
      else if 0 < rpm then ceiling (fl (fl (1 - refill b prev now) / rpm)) else - 1,
      bs_tokens (cr_next (compute b prev now))))"
proof -
  have r: "refill b prev now =
    min burst (fl ((case map_of db key of None \<Rightarrow> burst | Some h \<Rightarrow> rh_tokens h) +
      fl (max 0 (fl (now - (case map_of db key of None \<Rightarrow> now | Some h \<Rightarrow> rh_last_refill_ms h))) * rpm)))"
    by (simp add: refill_def Let_def assms split: option.splits)
  show ?thesis
    unfolding compute_refill r
    by (cases "map_of db key") (auto simp: lua_ratelimit_def Let_def)
qed

lemma redis_update_eq:
  assumes "redis_serves b s" and "redis_getAndUpdate ts sm s key now = Inr (s', r)"
  shows "rs_db s' = al_set (rs_keyPrefix s @ '':'' @ key)
           \<lparr>rh_tokens = bs_tokens (cr_next (compute b (redis_peek s key) now)),
            rh_last_refill_ms = now, rh_expires = sm + 86400000\<rparr> (rs_db s)"
    and "rs_keyPrefix s' = rs_keyPrefix s" and "rs_burst s' = rs_burst s"
    and "rs_refillPerMs s' = rs_refillPerMs s"
    and "sr_allowed r = cr_allowed (compute b (redis_peek s key) now)"
    and "sr_retryAfterMs r =
           (if cr_allowed (compute b (redis_peek s key) now) then Num 0
            else if 0 < tb_refillPerMs b
            then (let w = ceiling (fl (fl (1 - refill b (redis_peek s key) now) / tb_refillPerMs b))
                  in if w < 0 then PosInf else Num (of_int w))
            else PosInf)"
proof -
  have serves: "tb_burst b = rs_burst s" "tb_refillPerMs b = rs_refillPerMs s"
    using assms(1) by (simp_all add: redis_serves_def)
  note lua = lua_is_compute [OF serves refl, where db = "rs_db s" and key = "rs_keyPrefix s @ '':'' @ key" and now = now
      and sm = sm,
      folded redis_peek_def [of s key]]
  have lua': "lua_ratelimit (rs_db s1) sm (rs_keyPrefix s1 @ '':'' @ key) now (rs_burst s1)
      (rs_refillPerMs s1) 1 = lua_ratelimit (rs_db s) sm (rs_keyPrefix s @ '':'' @ key) now
      (rs_burst s) (rs_refillPerMs s) 1"
    and same: "rs_keyPrefix s1 = rs_keyPrefix s \<and> rs_burst s1 = rs_burst s \<and>
      rs_refillPerMs s1 = rs_refillPerMs s"
    if "ensureCommandDefined s = Inr s1" for s1
    using that by (auto simp: ensureCommandDefined_def split: if_splits)
  obtain s1 where s1: "ensureCommandDefined s = Inr s1"
    using assms(2) by (auto simp: redis_getAndUpdate_def split: sum.splits)
  note eq = assms(2) [unfolded redis_getAndUpdate_def s1 sum.case Let_def lua' [OF s1] lua prod.case]
  show "rs_db s' = al_set (rs_keyPrefix s @ '':'' @ key)
           \<lparr>rh_tokens = bs_tokens (cr_next (compute b (redis_peek s key) now)),
            rh_last_refill_ms = now, rh_expires = sm + 86400000\<rparr> (rs_db s)"
    and "rs_keyPrefix s' = rs_keyPrefix s" and "rs_burst s' = rs_burst s"
    and "rs_refillPerMs s' = rs_refillPerMs s"
    using eq same [OF s1] by auto
  show "sr_allowed r = cr_allowed (compute b (redis_peek s key) now)"
    using eq by (auto split: if_splits)
  show "sr_retryAfterMs r =
           (if cr_allowed (compute b (redis_peek s key) now) then Num 0
            else if 0 < tb_refillPerMs b
            then (let w = ceiling (fl (fl (1 - refill b (redis_peek s key) now) / tb_refillPerMs b))
                  in if w < 0 then PosInf else Num (of_int w))
            else PosInf)"
    using eq serves(2) by (auto simp: Let_def split: if_splits)
qed

interpretation redis_store: token_store b "redis_serves b" "redis_getAndUpdate ts sm" redis_expire redis_peek
  for b ts sm
proof (unfold_locales, goal_cases)
  case (1 s key now s' r)
  then show ?case using redis_update_eq(1,3,4) [OF 1] by (simp add: redis_serves_def)
next
  case (2 s key now s' r)
  then show ?case by (rule redis_update_eq(5))
next
  case (3 s key now s' r)
  have "redis_peek s' key = Some (cr_next (compute b (redis_peek s key) now))"
    using redis_update_eq(1,2) [OF 3] compute_refill(3) [of b "redis_peek s key" now]
    by (simp add: redis_peek_def)
  then show ?case by simp
next
  case (4 s key now s' r key')
  then show ?case using redis_update_eq(1,2) [OF 4(1,2)] by (simp add: redis_peek_def)
next
  case (5 s t)
  then show ?case by (simp add: redis_serves_def redis_expire_def distinct_keys_filter)
next
  case (6 s t key)
  then show ?case
    using map_of_filter_distinct [of "rs_db s" "\<lambda>(k, h). t < rh_expires h"
        "rs_keyPrefix s @ '':'' @ key"]
    by (auto simp: redis_serves_def redis_expire_def redis_peek_def)
qed

section \<open>Properties of the limiter\<close>

text \<open>C36. The Redis store's Lua script and the JavaScript callback are the same algorithm: over
  any database that serves a bucket, the script admits exactly when \<open>compute\<close> does, leaves exactly
  the state \<open>compute\<close> returns, and reports the same waiting time (when the refill rate is 0 or at
  least \<open>2^-100\<close> tokens per millisecond, so that the quotient stays finite).\<close>

theorem redis_lua_is_compute:
  assumes "redis_serves b s" and "good_bucket b" and "good_prev b (redis_peek s key)"
    and "tb_refillPerMs b = 0 \<or> pow2 (- 100) \<le> tb_refillPerMs b"
    and "redis_getAndUpdate ts sm s key now = Inr (s', r)"
  shows "sr_allowed r = cr_allowed (compute b (redis_peek s key) now) \<and>
         redis_peek s' key = Some (cr_next (compute b (redis_peek s key) now)) \<and>
         sr_retryAfterMs r = cr_retryAfterMs (compute b (redis_peek s key) now)"
proof -
  let ?d = "fl (1 - refill b (redis_peek s key) now)" and ?r = "tb_refillPerMs b"
  have "to_js (?d / ?r) = Num (fl (?d / ?r)) \<and> 0 \<le> fl (?d / ?r)"
    if r: "0 < ?r" and denied: "\<not> 1 \<le> refill b (redis_peek s key) now"
  proof -
    have d: "0 \<le> ?d" using denied by (intro fl_nonneg) simp
    have "?d \<le> 1"
      using refill_bounds(1) [OF assms(2,3)] by (intro fl64.rnd_le) auto
    then have "?d / ?r \<le> 1 / pow2 (- 100)"
      using assms(4) r d by (intro frac_le) auto
    also have "\<dots> = pow2 100" using pow2_diff [of 0 "- 100"] by simp
    also have "\<dots> \<le> pow2 1000" by simp
    finally have "\<bar>?d / ?r\<bar> \<le> pow2 1000" using d r by simp
    then show ?thesis using d r by (simp add: to_js_Num fl_nonneg)
  qed
  then show ?thesis
    using redis_update_eq(1,2,5,6) [OF assms(1,5)] assms(4)
    by (auto simp: compute_refill redis_peek_def Let_def not_le)
qed

theorem redis_lua_is_compute_witness:
  "let b = \<lparr>tb_burst = 20, tb_refillPerMs = fl (10 / 1000)\<rparr>;
       s = new_redis_store [] True 20 10 None
   in case redis_getAndUpdate (\<lambda>_. ''19'') 1000 s ''u'' 1000 of
        Inl _ \<Rightarrow> False
      | Inr (s', r) \<Rightarrow> sr_allowed r \<and> redis_peek s' ''u'' = Some \<lparr>bs_tokens = 19, bs_lastRefillMs = 1000\<rparr>"
proof -
  let ?b = "\<lparr>tb_burst = 20, tb_refillPerMs = fl (10 / 1000)\<rparr>"
  let ?s = "new_redis_store [] True 20 10 None"
  have 1: "redis_serves ?b ?s" by (simp add: redis_serves_def new_redis_store_def)
  have "is_double 20" using is_double_of_int [of 20] by simp
  then have 2: "good_bucket ?b" by (simp add: good_bucket_def fl_nonneg)
  have 3: "redis_peek ?s ''u'' = None" by (simp add: redis_peek_def new_redis_store_def)
  have 4: "pow2 (- 100) \<le> tb_refillPerMs ?b" by code_simp
  obtain s' r where g: "redis_getAndUpdate (\<lambda>_. ''19'') 1000 ?s ''u'' 1000 = Inr (s', r)"
    by (simp add: redis_getAndUpdate_def ensureCommandDefined_def new_redis_store_def Let_def
        case_prod_beta)
  have "cr_next (compute ?b None 1000) = \<lparr>bs_tokens = 19, bs_lastRefillMs = 1000\<rparr>"
    "cr_allowed (compute ?b None 1000)"
    by code_simp+
  with g redis_lua_is_compute [OF 1 2 _ _ g] 3 4 show ?thesis
    by (simp add: Let_def good_prev_def)
qed

text \<open>C37. In either store, whatever the calls, their keys and their times (the clock may run
  backwards) and whatever the store forgets between them, the tokens of every key stay between 0
  and the burst.\<close>

theorem tokens_stay_in_bounds:
  assumes "good_bucket b"
  shows "(mem_store.run b (new_memory_store maxKeys) calls = Some m \<longrightarrow>
            memory_peek m key = Some st \<longrightarrow> 0 \<le> bs_tokens st \<and> bs_tokens st \<le> tb_burst b) \<and>
         (redis_serves b s0 \<longrightarrow> rs_db s0 = [] \<longrightarrow>
            redis_store.run ts sm s0 calls = Some s \<longrightarrow>
            redis_peek s key = Some st \<longrightarrow> 0 \<le> bs_tokens st \<and> bs_tokens st \<le> tb_burst b)"
proof -
  have "mem_store.good b (new_memory_store maxKeys)"
    by (simp add: mem_store.good_def memory_peek_def new_memory_store_def good_prev_def)
  moreover have "redis_store.good b s0" if "redis_serves b s0" "rs_db s0 = []"
    using that by (simp add: redis_store.good_def redis_peek_def good_prev_def)
  ultimately show ?thesis
    using mem_store.run_in_bounds [OF assms] redis_store.run_in_bounds [OF assms] by blast
qed

theorem tokens_stay_in_bounds_witness:
  "let b = \<lparr>tb_burst = 1, tb_refillPerMs = 0\<rparr>
   in case mem_store.run b (new_memory_store None) [(0, ''u'', 5), (0, ''u'', 4)] of
        None \<Rightarrow> False
      | Some m \<Rightarrow> memory_peek m ''u'' = Some \<lparr>bs_tokens = 0, bs_lastRefillMs = 4\<rparr> \<and>
          0 \<le> (case memory_peek m ''u'' of None \<Rightarrow> 0 | Some st \<Rightarrow> bs_tokens st)"
proof -
  let ?b = "\<lparr>tb_burst = 1, tb_refillPerMs = 0\<rparr>"
  have b: "good_bucket ?b" by (simp add: good_bucket_def is_double_def)
  obtain m where m: "mem_store.run ?b (new_memory_store None) [(0, ''u'', 5), (0, ''u'', 4)] = Some m"
    and p: "memory_peek m ''u'' = Some \<lparr>bs_tokens = 0, bs_lastRefillMs = 4\<rparr>"
    by (simp add: memory_update_def memory_getAndUpdate_def compute_def new_memory_store_def
        maybeEvict_def memory_peek_def Let_def result_of_def)
  from tokens_stay_in_bounds [OF b] m p
  have "0 \<le> bs_tokens \<lparr>bs_tokens = 0, bs_lastRefillMs = 4\<rparr>" by blast
  with m p show ?thesis by (simp add: Let_def)
qed

subsection \<open>The rate bound\<close>

text \<open>The admissions of one key at a sequence of times.\<close>

fun admitted :: "token_bucket \<Rightarrow> bucket_state option \<Rightarrow> int list \<Rightarrow> nat" where
  "admitted b prev [] = 0"
| "admitted b prev (t # ts) =
     (let out = compute b prev (of_int t)
      in (if cr_allowed out then 1 else 0) + admitted b (Some (cr_next out)) ts)"

lemma refill_upper:
  assumes "good_bucket b" and "1 \<le> tb_burst b" and "good_state b p"
    and "bs_lastRefillMs p = of_int t0" and "t0 \<le> t" and "t - t0 \<le> 2 ^ 53"
  shows "refill b (Some p) (of_int t) \<le>
         bs_tokens p + of_int (t - t0) * tb_refillPerMs b + tb_burst b / 2 ^ 49"
proof -
  let ?B = "tb_burst b" and ?e = "of_int (t - t0) * tb_refillPerMs b" and ?k = "bs_tokens p"
  have B: "fl ?B = ?B" and r: "0 \<le> tb_refillPerMs b"
    using assms(1) by (simp_all add: good_bucket_def is_double_def)
  have k: "0 \<le> ?k" "?k \<le> ?B" using assms(3) by (simp_all add: good_state_def)
  have e: "0 \<le> ?e" using r assms(5) by simp
  have "fl (of_int t - of_int t0) = of_int (t - t0)"
    using assms(5,6) fl_of_int [of "t - t0"] by simp
  then have rf: "refill b (Some p) (of_int t) = min ?B (fl (?k + fl ?e))"
    using assms(4,5) by (simp add: refill_def Let_def)
  show ?thesis
  proof (cases "?e \<le> ?B")
    case True
    have 1: "fl ?e \<le> ?e + ?B / 2 ^ 52"
      using fl64.rnd_close [OF e True assms(2)] by linarith
    have "fl ?e \<le> ?B" using B True by (rule fl64.rnd_le)
    then have "?k + fl ?e \<le> 2 * ?B" using k by simp
    moreover have "0 \<le> ?k + fl ?e" using k fl_nonneg [OF e] by simp
    ultimately have "fl (?k + fl ?e) \<le> ?k + fl ?e + 2 * ?B / 2 ^ 52"
      using fl64.rnd_close [of "?k + fl ?e" "2 * ?B"] assms(2) by linarith
    with 1 have "fl (?k + fl ?e) \<le> ?k + ?e + (?B / 2 ^ 52 + 2 * ?B / 2 ^ 52)" by linarith
    also have "\<dots> \<le> ?k + ?e + ?B / 2 ^ 49" using assms(2) by simp
    finally show ?thesis unfolding rf by linarith
  next
    case False
    then have "?B \<le> ?k + ?e + ?B / 2 ^ 49" using k assms(2) by simp
    then show ?thesis unfolding rf by linarith
  qed
qed

lemma compute_pays:
  assumes "good_bucket b" and "1 \<le> tb_burst b" and "good_prev b prev"
  shows "(if cr_allowed (compute b prev now) then 1 else 0) + bs_tokens (cr_next (compute b prev now))
         \<le> refill b prev now + tb_burst b / 2 ^ 52"
proof (cases "1 \<le> refill b prev now")
  case True
  have "fl (refill b prev now - 1) \<le> refill b prev now - 1 + tb_burst b / 2 ^ 52"
    using fl64.rnd_close [of "refill b prev now - 1" "tb_burst b"] True assms(2)
      refill_bounds(2) [OF assms(1,3), of now] by linarith
  with True show ?thesis by (simp add: compute_refill)
qed (use assms(2) in \<open>simp add: compute_refill\<close>)

lemma admitted_bound:
  assumes "good_bucket b" and "1 \<le> tb_burst b"
  shows "good_state b p \<Longrightarrow> bs_lastRefillMs p = of_int t0 \<Longrightarrow> sorted (t0 # ts) \<Longrightarrow> 0 \<le> t0 \<Longrightarrow>
    last (t0 # ts) \<le> 2 ^ 53 \<Longrightarrow>
    of_nat (admitted b (Some p) ts) \<le> bs_tokens p + of_int (last (t0 # ts) - t0) * tb_refillPerMs b
      + of_nat (length ts) * (tb_burst b / 2 ^ 48)"
proof (induction ts arbitrary: p t0)
  case Nil
  then show ?case by (simp add: good_state_def)
next
  case (Cons t ts)
  let ?out = "compute b (Some p) (of_int t)" and ?r = "tb_refillPerMs b" and ?B = "tb_burst b"
  have prev: "good_prev b (Some p)" using Cons.prems(1) by (simp add: good_prev_def)
  have next_good: "good_state b (cr_next ?out)" by (rule compute_good [OF assms(1) prev])
  have le: "t \<le> last (t # ts)" using Cons.prems(3) by (cases ts) auto
  have IH: "of_nat (admitted b (Some (cr_next ?out)) ts) \<le>
      bs_tokens (cr_next ?out) + of_int (last (t # ts) - t) * ?r + of_nat (length ts) * (?B / 2 ^ 48)"
    using Cons.prems(3-5) by (intro Cons.IH next_good) (auto simp: compute_refill)
  have "refill b (Some p) (of_int t) \<le> bs_tokens p + of_int (t - t0) * ?r + ?B / 2 ^ 49"
    using Cons.prems le by (intro refill_upper assms) auto
  with compute_pays [OF assms prev, of "of_int t"]
  have "(if cr_allowed ?out then 1 else 0) + bs_tokens (cr_next ?out) \<le>
      bs_tokens p + of_int (t - t0) * ?r + (?B / 2 ^ 49 + ?B / 2 ^ 52)" by linarith
  also have "?B / 2 ^ 49 + ?B / 2 ^ 52 \<le> ?B / 2 ^ 48" using assms(2) by simp
  finally have pay: "(if cr_allowed ?out then 1 else 0) + bs_tokens (cr_next ?out) \<le>
      bs_tokens p + of_int (t - t0) * ?r + ?B / 2 ^ 48" by simp
  have "of_int (last (t # ts) - t) * ?r + of_int (t - t0) * ?r = of_int (last (t # ts) - t0) * ?r"
    by (simp add: algebra_simps)
  moreover have "of_nat (length (t # ts)) * (?B / 2 ^ 48) = of_nat (length ts) * (?B / 2 ^ 48) + ?B / 2 ^ 48"
    by (simp add: algebra_simps)
  moreover have "of_nat (admitted b (Some p) (t # ts)) =
      (if cr_allowed ?out then 1 else 0) + (of_nat (admitted b (Some (cr_next ?out)) ts) :: rat)"
    by (simp add: Let_def)
  moreover have "last (t0 # t # ts) = last (t # ts)" by simp
  ultimately show ?case using IH pay by (simp only:)
qed

text \<open>The same from any state of the key: \<open>admitted\<close> starts with at most a full bucket.\<close>

lemma admitted_from:
  assumes "good_bucket b" and "1 \<le> tb_burst b" and "good_prev b prev"
    and "sorted (t0 # ts)" and "0 \<le> t0" and "last (t0 # ts) \<le> 2 ^ 53"
  shows "of_nat (admitted b prev (t0 # ts)) \<le>
    tb_burst b + of_int (last (t0 # ts) - t0) * tb_refillPerMs b
      + of_nat (length (t0 # ts)) * (tb_burst b / 2 ^ 48)"
proof -
  let ?out = "compute b prev (of_int t0)" and ?B = "tb_burst b"
  have "of_nat (admitted b (Some (cr_next ?out)) ts) \<le>
      bs_tokens (cr_next ?out) + of_int (last (t0 # ts) - t0) * tb_refillPerMs b
        + of_nat (length ts) * (?B / 2 ^ 48)"
    using assms compute_good [OF assms(1,3)]
    by (intro admitted_bound) (auto simp: compute_refill)
  moreover have "(if cr_allowed ?out then 1 else 0) + bs_tokens (cr_next ?out) \<le> ?B + ?B / 2 ^ 48"
  proof -
    have "refill b prev (of_int t0) \<le> ?B" by (rule refill_bounds [OF assms(1,3)])
    with compute_pays [OF assms(1-3), of "of_int t0"]
    have "(if cr_allowed ?out then 1 else 0) + bs_tokens (cr_next ?out) \<le> ?B + ?B / 2 ^ 52"
      by linarith
    also have "\<dots> \<le> ?B + ?B / 2 ^ 48" using assms(2) by simp
    finally show ?thesis .
  qed
  moreover have "of_nat (length (t0 # ts)) * (?B / 2 ^ 48) = of_nat (length ts) * (?B / 2 ^ 48) + ?B / 2 ^ 48"
    by (simp add: algebra_simps)
  moreover have "of_nat (admitted b prev (t0 # ts)) =
      (if cr_allowed ?out then 1 else 0) + (of_nat (admitted b (Some (cr_next ?out)) ts) :: rat)"
    by (simp add: Let_def)
  ultimately show ?thesis by linarith
qed

subsection \<open>Waiting\<close>

lemma wait_slack:
  "1 - f \<le> d + 1 / 2 ^ 52 \<Longrightarrow> d \<le> 1 \<Longrightarrow> d - d / 2 ^ 53 - 1 / 2 ^ 53 \<le> w \<Longrightarrow> 1 - (4 :: rat) / 2 ^ 52 \<le> f + w"
  by simp

text \<open>A double below 1 is at most \<open>1 - 2^-53\<close>.\<close>

lemma fl_below_1:
  assumes "fl x < 1"
  shows "fl x \<le> 1 - 1 / 2 ^ 53"
proof (cases "x \<le> 1 / 2")
  case True
  have "pow2 (- 1) = 1 / 2" using pow2_diff [of 0 1] by simp
  moreover have "is_double (of_int 1 * pow2 (- 1))" by (rule is_double_scaled) simp_all
  ultimately have "fl (1 / 2) = 1 / 2" by (simp only: is_double_def of_int_1 mult_1)
  then have "fl x \<le> 1 / 2" using fl_mono [OF True] by simp
  then show ?thesis by simp
next
  case False
  have half: "pow2 (- 1) = 1 / 2" using pow2_diff [of 0 1] by simp
  have "x < 1"
  proof (rule ccontr)
    assume "\<not> x < 1"
    then have "1 \<le> fl x" by (intro fl64.rnd_ge_1) simp
    with assms show False by simp
  qed
  then have "rlog2 \<bar>x\<bar> = - 1" using False half by (intro rlog2_unique) auto
  then have u: "ulp_exp x = - 53" by (simp add: ulp_exp_def)
  define n where "n = rne (x / pow2 (- 53))"
  have p53: "pow2 (- 53) = 1 / 2 ^ 53" using pow2_diff [of 0 53] by (simp add: pow2_int)
  have x: "fl x = of_int n / 2 ^ 53"
    using False fl_pos_eq [of x] by (simp add: u n_def p53)
  then have "of_int n < (of_int (2 ^ 53) :: rat)" using assms by simp
  then have "n \<le> 2 ^ 53 - 1" by (simp only: of_int_less_iff)
  then have "of_int n \<le> (of_int (2 ^ 53 - 1) :: rat)" by (simp only: of_int_le_iff)
  then show ?thesis unfolding x by simp
qed

lemma refill_denied:
  assumes "1 \<le> tb_burst b" and "refill b prev now < 1"
  shows "refill b prev now \<le> 1 - 1 / 2 ^ 53"
proof -
  obtain x where x: "refill b prev now = min (tb_burst b) (fl x)"
    by (auto simp: refill_def Let_def)
  with assms have "refill b prev now = fl x" by auto
  with fl_below_1 [of x] assms(2) show ?thesis by simp
qed

text \<open>A denial with a deficit of at most \<open>r\<close> reports 1 millisecond; the wait reported by any denial
  is a positive whole number \<open>w\<close> with the deficit at most \<open>w * r\<close>, up to rounding.\<close>

lemma denied_wait:
  assumes "good_bucket b" and "1 \<le> tb_burst b" and "good_prev b prev"
    and "pow2 (- 40) \<le> tb_refillPerMs b" and "tb_refillPerMs b \<le> 1"
    and "refill b prev now < 1"
  obtains w where "cr_retryAfterMs (compute b prev now) = Num (of_int w)" and "1 \<le> w" and "w \<le> 2 ^ 40"
    and "1 - 4 / 2 ^ 52 \<le> refill b prev now + of_int w * tb_refillPerMs b"
    and "1 - 1 / 2 ^ 45 \<le> refill b prev now \<Longrightarrow> w = 1"
proof -
  let ?r = "tb_refillPerMs b" and ?f = "refill b prev now"
  let ?d = "fl (1 - ?f)" and ?q = "fl (1 - ?f) / tb_refillPerMs b"
  define w where "w = ceiling (fl ?q)"
  have r: "0 < ?r" using assms(4) pow2_pos [of "- 40"] by linarith
  have r40: "1 / 2 ^ 40 \<le> ?r" using assms(4) pow2_diff [of 0 40] by (simp add: pow2_int)
  have f: "0 \<le> ?f" "?f < 1" using refill_bounds(1) [OF assms(1,3)] assms(6) by auto
  have "pow2 (- 53) = 1 / 2 ^ 53" using pow2_diff [of 0 53] by (simp add: pow2_int)
  then have tiny: "fl (1 / 2 ^ 53) = 1 / 2 ^ 53"
    using is_double_scaled [of 1 "- 53"] by (simp only: is_double_def of_int_1 mult_1) simp
  have "1 / 2 ^ 53 \<le> 1 - ?f" using refill_denied [OF assms(2,6)] by linarith
  then have d: "1 / 2 ^ 53 \<le> ?d" using tiny fl_mono [of "1 / 2 ^ 53" "1 - ?f"] by simp
  have d1: "?d \<le> 1" using f by (intro fl64.rnd_le) auto
  have d_low: "1 - ?f \<le> ?d + 1 / 2 ^ 52"
    using fl64.rnd_close [of "1 - ?f" 1] f by linarith
  have "?d / ?r \<le> 1 / (1 / 2 ^ 40)" using d d1 r40 r by (intro frac_le) auto
  moreover have "1 / 2 ^ 53 / 1 \<le> ?d / ?r" using d r assms(5) by (intro frac_le) auto
  ultimately have q: "1 / 2 ^ 53 \<le> ?q" "?q \<le> 2 ^ 40" by simp_all
  have q_pos: "1 / 2 ^ 53 \<le> fl ?q" using q(1) tiny by (intro fl64.rnd_ge) auto
  have "fl (2 ^ 40) = 2 ^ 40" using fl_of_int [of "2 ^ 40"] by simp
  then have "fl ?q \<le> of_int (2 ^ 40)" using fl64.rnd_le [of "2 ^ 40" ?q] q(2) by simp
  then have w40: "w \<le> 2 ^ 40" unfolding w_def by (simp only: ceiling_le_iff)
  have "0 < fl ?q" using q_pos by (rule less_le_trans [rotated]) simp
  then have w1: "1 \<le> w" by (simp add: w_def)
  have "pow2 40 \<le> pow2 1000" by simp
  then have "\<bar>?q\<bar> \<le> pow2 1000" using q by (simp add: pow2_int)
  then have wait: "cr_retryAfterMs (compute b prev now) = Num (of_int w)"
    using assms(6) r by (simp add: compute_refill to_js_Num w_def)
  have "fl ?q \<le> of_int w" by (simp add: w_def le_of_int_ceiling)
  moreover have "?q - ?q / 2 ^ 53 - pow2 (- 1075) \<le> fl ?q"
    using d r by (intro fl64.rnd_lower divide_nonneg_pos) (auto intro: order_trans [rotated])
  ultimately have "(?q - ?q / 2 ^ 53 - pow2 (- 1075)) * ?r \<le> of_int w * ?r"
    using r by (intro mult_right_mono) auto
  moreover have "(?q - ?q / 2 ^ 53 - pow2 (- 1075)) * ?r = ?d - ?d / 2 ^ 53 - pow2 (- 1075) * ?r"
    using r by (simp add: algebra_simps)
  moreover have "pow2 (- 1075) * ?r \<le> 1 / 2 ^ 53 * 1"
    using pow2_tiny r assms(5) by (intro mult_mono) auto
  ultimately have "?d - ?d / 2 ^ 53 - 1 / 2 ^ 53 \<le> of_int w * ?r" by linarith
  then have covers: "1 - 4 / 2 ^ 52 \<le> ?f + of_int w * ?r" by (rule wait_slack [OF d_low d1])
  have "w = 1" if "1 - 1 / 2 ^ 45 \<le> ?f"
  proof -
    have "?d \<le> 1 - ?f + 1 / 2 ^ 52" using fl64.rnd_close [of "1 - ?f" 1] f by linarith
    also have "\<dots> \<le> 1 / 2 ^ 44" using that by simp
    finally have "?d \<le> 1 / 2 ^ 44" .
    moreover have "(1 :: rat) / 2 ^ 44 \<le> 1 / 2 ^ 40" by simp
    ultimately have "?d \<le> ?r" using r40 by linarith
    then have "?q \<le> 1" using r by simp
    then have "fl ?q \<le> 1" by (intro fl64.rnd_le) auto
    then show "w = 1" using w1 by (simp add: w_def ceiling_le_iff order_antisym)
  qed
  with wait w1 w40 covers show thesis by (rule that)
qed

text \<open>Refilling after a denial at \<open>t\<close> for \<open>n\<close> milliseconds.\<close>

lemma refill_after:
  assumes "refill b prev (of_int t) < 1" and "0 \<le> n" and "n \<le> 2 ^ 53"
    and "out = compute b prev (of_int t)"
  shows "refill b (Some (cr_next out)) (of_int (t + n)) =
         min (tb_burst b) (fl (refill b prev (of_int t) + fl (of_int n * tb_refillPerMs b)))"
  using assms fl_of_int [of n] by (simp add: refill_def [of b "Some _"] Let_def compute_refill)

text \<open>C39. The waiting time a denial reports is right up to one millisecond. After a denial that
  reports \<open>w\<close>, with no call on the key in between, a call \<open>w + 1\<close> milliseconds later is admitted; a
  call \<open>w\<close> milliseconds later is admitted or denied once more with a wait of exactly 1, and after
  that millisecond a call is admitted. So a client that waits as long as each denial says gets in
  at the second attempt at the latest. The bucket refills at least \<open>2^-40\<close> and at most 1 token per
  millisecond. That the second denial happens is \<open>retry_after_falls_short\<close>.\<close>

theorem retry_after_is_enough:
  assumes "good_bucket b" and "1 \<le> tb_burst b" and "good_prev b prev"
    and "pow2 (- 40) \<le> tb_refillPerMs b" and "tb_refillPerMs b \<le> 1"
    and "out = compute b prev (of_int t)" and "\<not> cr_allowed out"
  shows "\<exists>w. cr_retryAfterMs out = Num (of_int w) \<and> 1 \<le> w \<and>
    cr_allowed (compute b (Some (cr_next out)) (of_int (t + w + 1))) \<and>
    (let again = compute b (Some (cr_next out)) (of_int (t + w))
     in cr_allowed again \<or>
        cr_retryAfterMs again = Num 1 \<and>
        cr_allowed (compute b (Some (cr_next again)) (of_int (t + w + 1))))"
proof -
  let ?r = "tb_refillPerMs b" and ?f = "refill b prev (of_int t)"
  have r40: "1 / 2 ^ 40 \<le> ?r" using assms(4) pow2_diff [of 0 40] by (simp add: pow2_int)
  have r: "0 < ?r" using assms(4) pow2_pos [of "- 40"] by linarith
  have lt: "?f < 1" using assms(6,7) by (simp add: compute_refill)
  have f: "0 \<le> ?f" by (rule refill_bounds [OF assms(1,3)])
  obtain w where wait: "cr_retryAfterMs out = Num (of_int w)" and w: "1 \<le> w" "w \<le> 2 ^ 40"
    and covers: "1 - 4 / 2 ^ 52 \<le> ?f + of_int w * ?r"
    using denied_wait [OF assms(1-5) lt] assms(6) by metis
  have near: "min 1 (x - 4 / 2 ^ 52) \<le> fl x" if "0 \<le> x" for x
  proof (cases "x \<le> 2")
    case True
    have "x - 2 / 2 ^ 52 \<le> fl x" using fl64.rnd_close [OF that True] by linarith
    moreover have "x - 4 / 2 ^ 52 \<le> x - 2 / (2 :: rat) ^ 52" by simp
    ultimately show ?thesis unfolding min_le_iff_disj by (meson order_trans)
  next
    case False
    then have "1 \<le> fl x" by (intro fl64.rnd_ge_1) simp
    then show ?thesis by simp
  qed
  have more: "of_int w * ?r \<le> of_int n * ?r" if "w \<le> n" for n
    using that r by (intro mult_right_mono) auto
  have late: "cr_allowed (compute b (Some (cr_next out)) (of_int (t + (w + 1))))"
  proof -
    have e: "of_int (w + 1) * ?r = of_int w * ?r + ?r" by (simp add: algebra_simps)
    have "0 \<le> of_int (w + 1) * ?r" using w r by simp
    from near [OF this] have "min 1 (of_int w * ?r + ?r - 4 / 2 ^ 52) \<le> fl (of_int (w + 1) * ?r)"
      unfolding e by simp
    moreover have "1 \<le> ?f + (of_int w * ?r + ?r - 4 / 2 ^ 52)" using covers r40 by simp
    ultimately have "1 \<le> ?f + fl (of_int (w + 1) * ?r)" using f by linarith
    then have "1 \<le> fl (?f + fl (of_int (w + 1) * ?r))" by (rule fl64.rnd_ge_1)
    then show ?thesis
      using refill_after [OF lt _ _ assms(6), of "w + 1"] w assms(2) by (simp add: compute_refill)
  qed
  let ?again = "compute b (Some (cr_next out)) (of_int (t + w))"
  let ?g = "refill b (Some (cr_next out)) (of_int (t + w))"
  have "cr_retryAfterMs ?again = Num 1 \<and> cr_allowed (compute b (Some (cr_next ?again)) (of_int (t + w + 1)))"
    if denied: "\<not> cr_allowed ?again"
  proof -
    have gl: "?g < 1" using denied by (simp add: compute_refill)
    have prev: "good_prev b (Some (cr_next out))"
      using compute_good [OF assms(1,3)] assms(6) by (simp add: good_prev_def)
    have "0 \<le> of_int w * ?r" using w r by simp
    from near [OF this] have "1 - 8 / 2 ^ 52 \<le> ?f + fl (of_int w * ?r)"
      using covers f by (simp add: min_le_iff_disj) linarith
    then have "1 - 12 / 2 ^ 52 \<le> fl (?f + fl (of_int w * ?r))"
      using near [of "?f + fl (of_int w * ?r)"] f fl_nonneg [OF \<open>0 \<le> of_int w * ?r\<close>]
      by (simp add: min_le_iff_disj) linarith
    then have g: "1 - 12 / 2 ^ 52 \<le> ?g"
      using refill_after [OF lt _ _ assms(6), of w] w assms(2) by simp
    then have "1 - 1 / 2 ^ 45 \<le> ?g" by simp
    then have "cr_retryAfterMs ?again = Num 1"
      using denied_wait [OF assms(1,2) prev assms(4,5) gl] by (metis of_int_1)
    moreover have "1 \<le> ?g + fl ?r"
    proof -
      have "min 1 (?r - 4 / 2 ^ 52) \<le> fl ?r" using r by (intro near) simp
      then show ?thesis using g r40 refill_bounds(1) [OF assms(1) prev, of "of_int (t + w)"]
        by (simp add: min_le_iff_disj) linarith
    qed
    then have "1 \<le> fl (?g + fl ?r)" by (rule fl64.rnd_ge_1)
    then have "cr_allowed (compute b (Some (cr_next ?again)) (of_int (t + w + 1)))"
      using refill_after [OF gl _ _ refl, of 1] assms(2) by (simp add: compute_refill)
    ultimately show ?thesis ..
  qed
  with wait w(1) late show ?thesis by (auto simp: Let_def add.assoc)
qed

theorem retry_after_is_enough_witness:
  "let b = \<lparr>tb_burst = 1, tb_refillPerMs = 1 / 4\<rparr>;
       prev = Some \<lparr>bs_tokens = 0, bs_lastRefillMs = 9\<rparr>;
       out = compute b prev 10
   in cr_retryAfterMs out = Num 3 \<and> cr_allowed (compute b (Some (cr_next out)) 14)"
proof -
  let ?b = "\<lparr>tb_burst = 1, tb_refillPerMs = 1 / 4\<rparr>"
  let ?prev = "Some \<lparr>bs_tokens = 0, bs_lastRefillMs = 9\<rparr>"
  have 1: "good_bucket ?b" "good_prev ?b ?prev"
    by (simp_all add: good_bucket_def is_double_def good_prev_def good_state_def)
  have 2: "\<not> cr_allowed (compute ?b ?prev (of_int 10))"
    "cr_retryAfterMs (compute ?b ?prev (of_int 10)) = Num 3"
    by code_simp+
  have "pow2 (- 40) \<le> 1 / 4" by code_simp
  with retry_after_is_enough [OF 1(1) _ 1(2) _ _ refl 2(1)]
  obtain w where "cr_retryAfterMs (compute ?b ?prev (of_int 10)) = Num (of_int w)"
    and ok: "cr_allowed (compute ?b (Some (cr_next (compute ?b ?prev (of_int 10)))) (of_int (10 + w + 1)))"
    by auto
  with 2(2) have "(of_int w :: rat) = of_int 3" by simp
  then have "w = 3" by (simp only: of_int_eq_iff)
  with ok 2(2) show ?thesis by (simp add: Let_def)
qed

subsection \<open>The memory of the in-memory store\<close>

text \<open>The run of a memory store, as the process makes it: a list of calls.\<close>

fun memory_run :: "token_bucket \<Rightarrow> memory_store \<Rightarrow> (string \<times> rat) list \<Rightarrow> memory_store" where
  "memory_run b s [] = s"
| "memory_run b s ((key, now) # calls) =
     memory_run b (fst (memory_getAndUpdate s key now (compute b))) calls"

definition memory_ok :: "memory_store \<Rightarrow> bool" where
  "memory_ok s \<longleftrightarrow> distinct (map fst (ms_state s)) \<and> 1 \<le> ms_maxKeys s \<and>
     int (length (ms_state s)) \<le> ms_maxKeys s"

lemma oldest_scan_spec:
  "oldest_scan (Some k0) (Num m0) kvs =
     (case oldest_scan None (Num m0) kvs of None \<Rightarrow> Some k0 | Some k \<Rightarrow> Some k)"
  "oldest_scan None (Num m0) kvs = Some k \<Longrightarrow> \<exists>v. (k, v) \<in> set kvs \<and> bs_lastRefillMs v < m0 \<and>
     (\<forall>(k', v') \<in> set kvs. bs_lastRefillMs v \<le> bs_lastRefillMs v')"
  "oldest_scan None (Num m0) kvs = None \<Longrightarrow> \<forall>(k', v') \<in> set kvs. m0 \<le> bs_lastRefillMs v'"
proof (induction kvs arbitrary: k0 m0 k)
  case (Cons kv kvs)
  obtain a v where kv: "kv = (a, v)" by fastforce
  {
    case 1
    show ?case
      using Cons.IH(1) [of a "bs_lastRefillMs v"] Cons.IH(1) [of k0 m0]
      by (simp add: kv split: option.splits)
  next
    case 2
    show ?case
    proof (cases "bs_lastRefillMs v < m0")
      case True
      with 2 Cons.IH(1) [of a "bs_lastRefillMs v"]
        Cons.IH(2) [of "bs_lastRefillMs v"] Cons.IH(3) [of "bs_lastRefillMs v"]
      show ?thesis by (fastforce simp: kv split: option.splits)
    next
      case False
      with 2 Cons.IH(2) [of m0 k] show ?thesis by (fastforce simp: kv)
    qed
  next
    case 3
    with Cons.IH(3) [of m0] Cons.IH(1) [of a "bs_lastRefillMs v"] show ?case
      by (fastforce simp: kv split: if_splits option.splits)
  }
qed auto

lemma oldest_scan_least:
  assumes "oldest_scan None PosInf kvs = Some k"
  shows "\<exists>v. (k, v) \<in> set kvs \<and> (\<forall>(k', v') \<in> set kvs. bs_lastRefillMs v \<le> bs_lastRefillMs v')"
proof (cases kvs)
  case (Cons kv kvs')
  obtain a v where kv: "kv = (a, v)" by fastforce
  show ?thesis
  proof (cases "oldest_scan None (Num (bs_lastRefillMs v)) kvs'")
    case None
    then show ?thesis
      using assms oldest_scan_spec(1) [of a "bs_lastRefillMs v" kvs']
        oldest_scan_spec(3) [OF None] Cons kv by auto
  next
    case (Some k')
    then show ?thesis
      using assms oldest_scan_spec(1) [of a "bs_lastRefillMs v" kvs']
        oldest_scan_spec(2) [OF Some] Cons kv by fastforce
  qed
qed (use assms in simp)

lemma oldest_scan_some: "kvs \<noteq> [] \<Longrightarrow> \<exists>k. oldest_scan None PosInf kvs = Some k"
  by (cases kvs) (auto simp: oldest_scan_spec(1) split: option.splits)

lemma maybeEvict_ok:
  assumes "distinct (map fst (ms_state s))" and "1 \<le> ms_maxKeys s"
    and "int (length (ms_state s)) \<le> ms_maxKeys s + 1"
  shows "memory_ok (maybeEvict s)"
proof (cases "int (length (ms_state s)) \<le> ms_maxKeys s")
  case False
  then have "ms_state s \<noteq> []" using assms(2) by auto
  then obtain k where k: "oldest_scan None PosInf (ms_state s) = Some k"
    using oldest_scan_some by blast
  then obtain v where "(k, v) \<in> set (ms_state s)" using oldest_scan_least by blast
  then have "k \<in> fst ` set (ms_state s)" by force
  then have "Suc (length (al_del k (ms_state s))) = length (ms_state s)"
    by (rule length_al_del_present [OF assms(1)])
  then show ?thesis using False k assms by (simp add: maybeEvict_def memory_ok_def)
qed (use assms in \<open>simp add: maybeEvict_def memory_ok_def\<close>)

lemma memory_step_ok: "memory_ok s \<Longrightarrow> memory_ok (fst (memory_getAndUpdate s key now cb))"
  by (simp add: memory_getAndUpdate_def Let_def,
      rule maybeEvict_ok) (auto simp: memory_ok_def length_al_set)

lemma memory_run_ok: "memory_ok s \<Longrightarrow> memory_ok (memory_run b s calls)"
  by (induction b s calls rule: memory_run.induct) (simp_all add: memory_step_ok)

lemma maxKeys_kept:
  "ms_maxKeys (maybeEvict s) = ms_maxKeys s"
  "ms_maxKeys (fst (memory_getAndUpdate s key now cb)) = ms_maxKeys s"
  by (simp_all add: maybeEvict_def memory_getAndUpdate_def Let_def split: option.split)

lemma maxKeys_run: "ms_maxKeys (memory_run b s calls) = ms_maxKeys s"
  by (induction b s calls rule: memory_run.induct) (simp_all add: maxKeys_kept)

text \<open>C40. The in-memory store never holds more than \<open>maxKeys\<close> buckets (never more than one when
  the option is below 1), whatever the calls.\<close>

theorem memory_store_bounded:
  "int (length (ms_state (memory_run b (new_memory_store maxKeys) calls))) \<le>
     max 1 (case maxKeys of None \<Rightarrow> 100000 | Some m \<Rightarrow> m)"
proof -
  let ?m = "new_memory_store maxKeys"
  have "memory_ok ?m" by (auto simp: memory_ok_def new_memory_store_def split: option.splits)
  then have "memory_ok (memory_run b ?m calls)" by (rule memory_run_ok)
  then show ?thesis
    by (simp add: memory_ok_def maxKeys_run) (simp add: new_memory_store_def)
qed

text \<open>A call that makes the in-memory store drop a bucket drops the one refilled longest ago:
  no bucket of the store after the update has an older \<open>lastRefillMs\<close>.\<close>

theorem memory_evicts_oldest:
  assumes "memory_ok s" and "s' = fst (memory_getAndUpdate s key now cb)"
    and "memory_peek s k = Some v" and "k \<noteq> key" and "memory_peek s' k = None"
    and "memory_peek s' k' = Some v'"
  shows "bs_lastRefillMs v \<le> bs_lastRefillMs v'"
proof -
  let ?s1 = "s\<lparr>ms_state := al_set key (cr_next (cb (memory_peek s key) now)) (ms_state s)\<rparr>"
  have s': "s' = maybeEvict ?s1"
    using assms(2) by (simp add: memory_getAndUpdate_def Let_def memory_peek_def)
  have k: "map_of (ms_state ?s1) k = Some v" using assms(3,4) by (simp add: memory_peek_def)
  with assms(5) obtain k0 where "oldest_scan None PosInf (ms_state ?s1) = Some k0"
    and "s' = ?s1\<lparr>ms_state := al_del k0 (ms_state ?s1)\<rparr>"
    by (auto simp: s' maybeEvict_def memory_peek_def split: if_splits option.splits)
  moreover from this k assms(5) have "k0 = k" by (auto simp: memory_peek_def split: if_splits)
  ultimately obtain v0 where v0: "(k, v0) \<in> set (ms_state ?s1)"
    and least: "\<forall>(a, b) \<in> set (ms_state ?s1). bs_lastRefillMs v0 \<le> bs_lastRefillMs b"
    and "map_of (ms_state ?s1) k' = Some v'"
    using oldest_scan_least assms(6) by (fastforce simp: memory_peek_def split: if_splits)
  moreover have "distinct (map fst (ms_state ?s1))" using assms(1) by (simp add: memory_ok_def)
  with v0 k have "v0 = v" by (metis map_of_eq_Some_iff option.inject)
  ultimately show ?thesis using map_of_SomeD [of "ms_state ?s1" k' v'] by blast
qed

theorem memory_evicts_oldest_witness:
  "let b = \<lparr>tb_burst = 4, tb_refillPerMs = 0\<rparr>;
       s = memory_run b (new_memory_store (Some 2)) [(''a'', 3), (''b'', 2)];
       s' = fst (memory_getAndUpdate s ''c'' 9 (compute b))
   in map fst (ms_state s) = [''a'', ''b''] \<and> map fst (ms_state s') = [''a'', ''c''] \<and>
      bs_lastRefillMs \<lparr>bs_tokens = 3, bs_lastRefillMs = 2\<rparr> \<le> bs_lastRefillMs \<lparr>bs_tokens = 3, bs_lastRefillMs = 3\<rparr>"
proof -
  let ?b = "\<lparr>tb_burst = 4, tb_refillPerMs = 0\<rparr>"
  let ?s = "memory_run ?b (new_memory_store (Some 2)) [(''a'', 3), (''b'', 2)]"
  let ?s' = "fst (memory_getAndUpdate ?s ''c'' 9 (compute ?b))"
  have fl34: "fl 3 = 3" "fl 4 = 4" using fl_of_int [of 3] fl_of_int [of 4] by simp_all
  then have s: "?s = \<lparr>ms_state = [(''a'', \<lparr>bs_tokens = 3, bs_lastRefillMs = 3\<rparr>),
      (''b'', \<lparr>bs_tokens = 3, bs_lastRefillMs = 2\<rparr>)], ms_maxKeys = 2\<rparr>"
    by (simp add: memory_getAndUpdate_def compute_def new_memory_store_def maybeEvict_def Let_def
        result_of_def)
  have s': "?s' = \<lparr>ms_state = [(''a'', \<lparr>bs_tokens = 3, bs_lastRefillMs = 3\<rparr>),
      (''c'', \<lparr>bs_tokens = 3, bs_lastRefillMs = 9\<rparr>)], ms_maxKeys = 2\<rparr>"
    unfolding s using fl34
    by (simp add: memory_getAndUpdate_def compute_def maybeEvict_def Let_def result_of_def al_del_def)
  have "memory_ok ?s" unfolding s by (simp add: memory_ok_def)
  then have "bs_lastRefillMs \<lparr>bs_tokens = 3, bs_lastRefillMs = 2\<rparr> \<le>
      bs_lastRefillMs \<lparr>bs_tokens = 3, bs_lastRefillMs = 3\<rparr>"
    by (rule memory_evicts_oldest [where k = "''b''" and k' = "''a''" and key = "''c''" and now = 9
          and cb = "compute ?b", OF _ refl])
       (simp_all only: s', simp_all add: s memory_peek_def del: memory_run.simps)
  then show ?thesis unfolding Let_def s' unfolding s by simp
qed

text \<open>The calls of one key, by the algorithm alone.\<close>

fun key_run :: "token_bucket \<Rightarrow> bucket_state option \<Rightarrow> rat list \<Rightarrow> bucket_state option" where
  "key_run b prev [] = prev"
| "key_run b prev (now # nows) = key_run b (Some (cr_next (compute b prev now))) nows"

text \<open>While the store holds no more than the keys of \<open>K\<close>, and has room for them all, an update
  evicts nothing.\<close>

lemma memory_step_room:
  assumes "finite K" and "int (card K) \<le> ms_maxKeys s" and "k \<in> K"
    and "distinct (map fst (ms_state s))" and "fst ` set (ms_state s) \<subseteq> K"
    and "out = cb (map_of (ms_state s) k) now"
    and "s1 = s\<lparr>ms_state := al_set k (cr_next out) (ms_state s)\<rparr>"
  shows "memory_getAndUpdate s k now cb = (s1, result_of out)"
    and "distinct (map fst (ms_state s1))" and "fst ` set (ms_state s1) \<subseteq> K"
proof -
  show d: "distinct (map fst (ms_state s1))" and sub: "fst ` set (ms_state s1) \<subseteq> K"
    using assms(3-5,7) by auto
  have "length (ms_state s1) = card (fst ` set (ms_state s1))"
    using d distinct_card [of "map fst (ms_state s1)"] by simp
  also have "\<dots> \<le> card K" using sub assms(1) by (intro card_mono)
  finally have "maybeEvict s1 = s1" using assms(2,7) by (simp add: maybeEvict_def)
  then show "memory_getAndUpdate s k now cb = (s1, result_of out)"
    using assms(6,7) by (simp add: memory_getAndUpdate_def Let_def)
qed

lemma memory_run_per_key:
  assumes "finite K" and "int (card K) \<le> ms_maxKeys s" and "fst ` set calls \<subseteq> K"
    and "distinct (map fst (ms_state s))" and "fst ` set (ms_state s) \<subseteq> K"
  shows "memory_peek (memory_run b s calls) key =
         key_run b (memory_peek s key) (map snd (filter (\<lambda>c. fst c = key) calls))"
  using assms(2-5)
proof (induction b s calls rule: memory_run.induct)
  case (2 b s k now calls)
  let ?s1 = "s\<lparr>ms_state := al_set k (cr_next (compute b (map_of (ms_state s) k) now)) (ms_state s)\<rparr>"
  have "k \<in> K" using 2(3) by simp
  note room = memory_step_room [where cb = "compute b" and now = "now", OF assms(1) 2(2) this 2(4,5) refl refl]
  have step: "fst (memory_getAndUpdate s k now (compute b)) = ?s1" using room(1) by simp
  have "memory_peek (memory_run b ?s1 calls) key =
        key_run b (memory_peek ?s1 key) (map snd (filter (\<lambda>c. fst c = key) calls))"
    using 2(1) [unfolded step] 2(2,3) room(2,3) by auto
  then show ?case by (simp add: step) (simp add: memory_peek_def)
qed simp

text \<open>With no more keys than \<open>maxKeys\<close>, the store keeps the buckets of different keys apart:
  after any calls the state of each key is what the algorithm alone makes of the calls of that
  key, in their order.\<close>

theorem memory_keys_independent:
  assumes "int (card (fst ` set calls)) \<le> (case maxKeys of None \<Rightarrow> 100000 | Some m \<Rightarrow> m)"
  shows "memory_peek (memory_run b (new_memory_store maxKeys) calls) key =
         key_run b None (map snd (filter (\<lambda>c. fst c = key) calls))"
  using memory_run_per_key [of "fst ` set calls" "new_memory_store maxKeys" calls b key] assms
  by (simp add: new_memory_store_def memory_peek_def)

theorem memory_keys_independent_witness:
  "let b = \<lparr>tb_burst = 4, tb_refillPerMs = 0\<rparr>;
       calls = [(''a'', 3), (''b'', 2), (''a'', 5)]
   in memory_peek (memory_run b (new_memory_store None) calls) ''b'' = key_run b None [2]"
  using memory_keys_independent [of "[(''a'', 3), (''b'', 2), (''a'', 5)]" None
      "\<lparr>tb_burst = 4, tb_refillPerMs = 0\<rparr>" "''b''"]
  by (simp add: Let_def card_insert_if)

subsection \<open>The rate over any window of the store\<close>

text \<open>The calls of \<open>take\<close> over the in-memory store, at whole milliseconds, with their decisions.\<close>

fun takes :: "token_bucket \<Rightarrow> memory_store \<Rightarrow> (string \<times> int) list \<Rightarrow> (string \<times> int \<times> decision) list" where
  "takes b s [] = []"
| "takes b s ((key, now) # calls) =
     (case take_token memory_getAndUpdate b s key (of_int now) of (s', d) \<Rightarrow>
        (key, now, d) # takes b s' calls)"

fun key_takes :: "token_bucket \<Rightarrow> bucket_state option \<Rightarrow> int list \<Rightarrow> (int \<times> bool) list" where
  "key_takes b prev [] = []"
| "key_takes b prev (t # ts) =
     (let out = compute b prev (of_int t) in (t, cr_allowed out) # key_takes b (Some (cr_next out)) ts)"

lemma takes_per_key:
  assumes "finite K" and "int (card K) \<le> ms_maxKeys s" and "fst ` set calls \<subseteq> K"
    and "distinct (map fst (ms_state s))" and "fst ` set (ms_state s) \<subseteq> K"
  shows "map (\<lambda>(k, t, d). (t, de_allowed d)) (filter (\<lambda>x. fst x = key) (takes b s calls)) =
         key_takes b (memory_peek s key) (map snd (filter (\<lambda>c. fst c = key) calls))"
  using assms(2-5)
proof (induction b s calls rule: takes.induct)
  case (2 b s k now calls)
  let ?out = "compute b (map_of (ms_state s) k) (of_int now)"
  let ?s1 = "s\<lparr>ms_state := al_set k (cr_next ?out) (ms_state s)\<rparr>"
  have "k \<in> K" using 2(3) by simp
  note room = memory_step_room [where cb = "compute b" and now = "of_int now", OF assms(1) 2(2) this 2(4,5) refl refl]
  have step: "take_token memory_getAndUpdate b s k (of_int now) =
      (?s1, \<lparr>de_allowed = cr_allowed ?out, de_remaining = floor (bs_tokens (cr_next ?out)),
             de_retryAfterMs = cr_retryAfterMs ?out\<rparr>)"
    using room(1) by (simp add: take_token_def result_of_def)
  have "map (\<lambda>(k, t, d). (t, de_allowed d)) (filter (\<lambda>x. fst x = key) (takes b ?s1 calls)) =
        key_takes b (memory_peek ?s1 key) (map snd (filter (\<lambda>c. fst c = key) calls))"
    using 2(1) [OF step [symmetric]] 2(2,3) room(2,3) by auto
  then show ?case by (auto simp: step memory_peek_def Let_def)
qed simp

lemma key_takes_times: "fst ` set (key_takes b prev ts) = set ts"
  by (induction b prev ts rule: key_takes.induct) (simp_all add: Let_def)

lemma key_takes_admitted:
  "length (filter snd (key_takes b prev ts)) = admitted b prev ts" "length (key_takes b prev ts) = length ts"
  by (induction b prev ts rule: key_takes.induct) (simp_all add: Let_def)

lemma key_takes_until:
  "sorted ts \<Longrightarrow> filter (\<lambda>x. fst x \<le> t1) (key_takes b prev ts) = key_takes b prev (filter (\<lambda>t. t \<le> t1) ts)"
proof (induction b prev ts rule: key_takes.induct)
  case (2 b prev t ts)
  have "filter (\<lambda>x. fst x \<le> t1) (key_takes b p ts) = []" if "\<not> t \<le> t1" for p
  proof -
    have "\<forall>u \<in> fst ` set (key_takes b p ts). \<not> u \<le> t1"
      unfolding key_takes_times using 2(2) that by auto
    then show ?thesis by (auto simp: filter_empty_conv)
  qed
  moreover have "filter (\<lambda>t. t \<le> t1) ts = []" if "\<not> t \<le> t1"
    using 2(2) that by (force simp: filter_empty_conv)
  ultimately show ?case using 2 by (simp add: Let_def)
qed simp

text \<open>The decisions of a key inside a window are those of the algorithm from some good state.\<close>

lemma key_takes_window:
  assumes "good_bucket b"
  shows "sorted ts \<Longrightarrow> good_prev b prev \<Longrightarrow> \<exists>prev'. good_prev b prev' \<and>
    filter (\<lambda>x. t0 \<le> fst x \<and> fst x \<le> t1) (key_takes b prev ts) =
    key_takes b prev' (filter (\<lambda>t. t0 \<le> t \<and> t \<le> t1) ts)"
proof (induction ts arbitrary: prev)
  case (Cons t ts)
  show ?case
  proof (cases "t0 \<le> t")
    case True
    then have late: "\<forall>u \<in> set (t # ts). t0 \<le> u" using Cons.prems(1) by auto
    then have "\<forall>u \<in> fst ` set (key_takes b prev (t # ts)). t0 \<le> u" unfolding key_takes_times .
    then have "filter (\<lambda>x. t0 \<le> fst x \<and> fst x \<le> t1) (key_takes b prev (t # ts)) =
        filter (\<lambda>x. fst x \<le> t1) (key_takes b prev (t # ts))"
      by (intro filter_cong refl) simp
    moreover have "filter (\<lambda>t. t0 \<le> t \<and> t \<le> t1) (t # ts) = filter (\<lambda>t. t \<le> t1) (t # ts)"
      using late by (intro filter_cong refl) auto
    moreover note key_takes_until [OF Cons.prems(1), of t1 b prev] Cons.prems(2)
    ultimately show ?thesis by metis
  next
    case False
    let ?out = "compute b prev (of_int t)"
    have "good_prev b (Some (cr_next ?out))"
      using compute_good [OF assms Cons.prems(2)] by (simp add: good_prev_def)
    with Cons.IH [of "Some (cr_next ?out)"] Cons.prems(1) False show ?thesis by (simp add: Let_def)
  qed
qed (auto simp: good_prev_def intro: exI [of _ None])

text \<open>C38. The limit the bucket enforces: in a run of \<open>take\<close> calls over the in-memory store, at
  nondecreasing millisecond times and with no more keys than the store keeps, the calls of one key
  admitted in any window \<open>[t0, t1]\<close>, wherever in the run it lies and whatever came before (an idle
  time included), are at most \<open>burst + rate * (t1 - t0)\<close>, up to the rounding of the doubles (less than
  \<open>burst / 2^48\<close> of a token per call of the window). A clock that runs backwards breaks the bound, as
  \<open>lastRefillMs\<close> follows it, and so does a store that evicts the key.\<close>

theorem admission_rate_bound:
  assumes "good_bucket b" and "1 \<le> tb_burst b"
    and "sorted (map snd calls)" and "\<forall>(k, t) \<in> set calls. 0 \<le> t \<and> t \<le> 2 ^ 53"
    and "int (card (fst ` set calls)) \<le> (case maxKeys of None \<Rightarrow> 100000 | Some m \<Rightarrow> m)"
    and "t0 \<le> t1"
    and "window = filter (\<lambda>(k, t, d). k = key \<and> t0 \<le> t \<and> t \<le> t1) (takes b (new_memory_store maxKeys) calls)"
  shows "of_nat (length (filter (\<lambda>(k, t, d). de_allowed d) window)) \<le>
    tb_burst b + of_int (t1 - t0) * tb_refillPerMs b + of_nat (length window) * (tb_burst b / 2 ^ 48)"
proof -
  let ?s = "new_memory_store maxKeys" and ?B = "tb_burst b"
  define ts where "ts = map snd (filter (\<lambda>c. fst c = key) calls)"
  define us where "us = filter (\<lambda>t. t0 \<le> t \<and> t \<le> t1) ts"
  have ts: "sorted ts" "\<forall>t \<in> set ts. 0 \<le> t \<and> t \<le> 2 ^ 53"
    using assms(3,4) by (auto simp: ts_def intro: sorted_filter)
  have "map (\<lambda>(k, t, d). (t, de_allowed d)) (filter (\<lambda>x. fst x = key) (takes b ?s calls)) = key_takes b None ts"
    using takes_per_key [of "fst ` set calls" ?s calls key b] assms(5)
    by (simp add: new_memory_store_def memory_peek_def ts_def)
  moreover obtain prev where prev: "good_prev b prev"
    and "filter (\<lambda>x. t0 \<le> fst x \<and> fst x \<le> t1) (key_takes b None ts) = key_takes b prev us"
    using key_takes_window [OF assms(1) ts(1), of None t0 t1] by (auto simp: good_prev_def us_def)
  moreover have "map (\<lambda>(k, t, d). (t, de_allowed d)) window =
      filter (\<lambda>x. t0 \<le> fst x \<and> fst x \<le> t1)
        (map (\<lambda>(k, t, d). (t, de_allowed d)) (filter (\<lambda>x. fst x = key) (takes b ?s calls)))"
    by (simp add: assms(7) filter_map o_def) (auto intro!: arg_cong [where f = "map _"] filter_cong)
  ultimately have win: "map (\<lambda>(k, t, d). (t, de_allowed d)) window = key_takes b prev us" by simp
  have "length (filter (\<lambda>(k, t, d). de_allowed d) window) =
      length (filter snd (map (\<lambda>(k, t, d). (t, de_allowed d)) window))"
    by (simp add: filter_map o_def) (auto intro!: arg_cong [where f = length] filter_cong)
  then have count: "length (filter (\<lambda>(k, t, d). de_allowed d) window) = admitted b prev us"
    by (simp add: win key_takes_admitted)
  have len: "length window = length us"
    using arg_cong [OF win, of length] by (simp add: key_takes_admitted)
  show ?thesis
  proof (cases us)
    case Nil
    have "0 \<le> of_int (t1 - t0) * tb_refillPerMs b"
      using assms(1,6) by (intro mult_nonneg_nonneg) (auto simp: good_bucket_def)
    then show ?thesis using assms(2) by (simp add: count len Nil)
  next
    case (Cons u vs)
    have s: "sorted (u # vs)" using sorted_filter [of id ts] ts(1) by (simp flip: Cons add: us_def)
    have mem: "last (u # vs) \<in> set us" "u \<in> set us" using Cons by auto
    then have r: "0 \<le> u" "t0 \<le> u" "last (u # vs) \<le> t1" "last (u # vs) \<le> 2 ^ 53"
      using ts(2) by (auto simp: us_def)
    have "of_int (last (u # vs) - u) * tb_refillPerMs b \<le> of_int (t1 - t0) * tb_refillPerMs b"
      using r assms(1) by (intro mult_right_mono) (auto simp: good_bucket_def)
    with admitted_from [OF assms(1,2) prev s r(1,4)] show ?thesis
      unfolding count len Cons by linarith
  qed
qed

theorem admission_rate_bound_witness:
  "let b = \<lparr>tb_burst = 2, tb_refillPerMs = 1 / 1024\<rparr>;
       calls = [(''a'', 0), (''b'', 0), (''a'', 0), (''a'', 1), (''a'', 90000), (''a'', 90000), (''a'', 90000), (''a'', 90001)];
       window = filter (\<lambda>(k, t, d). k = ''a'' \<and> 90000 \<le> t \<and> t \<le> 91000) (takes b (new_memory_store None) calls)
   in map (\<lambda>(k, t, d). de_allowed d) window = [True, True, False, False] \<and>
      of_nat (length (filter (\<lambda>(k, t, d). de_allowed d) window)) \<le> (2 + 1000 * (1 / 1024) + 4 * (2 / 2 ^ 48) :: rat)"
proof -
  let ?b = "\<lparr>tb_burst = 2, tb_refillPerMs = 1 / 1024\<rparr>"
  let ?calls = "[(''a'', 0), (''b'', 0), (''a'', 0), (''a'', 1), (''a'', 90000), (''a'', 90000), (''a'', 90000), (''a'', 90001)]"
  let ?w = "filter (\<lambda>(k, t, d). k = ''a'' \<and> 90000 \<le> t \<and> t \<le> 91000) (takes ?b (new_memory_store None) ?calls)"
  have "is_double 2" using is_double_of_int [of 2] by simp
  then have "good_bucket ?b" by (simp add: good_bucket_def)
  from admission_rate_bound [OF this, of ?calls None 90000 91000 ?w "''a''"]
  have "of_nat (length (filter (\<lambda>(k, t, d). de_allowed d) ?w)) \<le>
      (2 + 1000 * (1 / 1024) + of_nat (length ?w) * (2 / 2 ^ 48) :: rat)"
    by (simp add: card_insert_if)
  moreover have len: "length ?w = 4" by code_simp
  moreover have w: "map (\<lambda>(k, t, d). de_allowed d) ?w = [True, True, False, False]" by code_simp
  ultimately show ?thesis by (simp only: Let_def len of_nat_numeral simp_thms)
qed

text \<open>A denial may report one millisecond too little: with \<open>burst\<close> 2 and 10 tokens per second, and
  calls at 0, 0, 116 and 116 ms, the fourth is denied with a wait of 84 ms, and the call 84 ms later is
  denied again, with 0.9999999999999999 of a token, and a wait of 1.\<close>

theorem retry_after_falls_short:
  "case new_TokenBucket 2 10 of
     Inl e \<Rightarrow> False
   | Inr b \<Rightarrow>
       map (\<lambda>(k, t, d). (t, de_allowed d, de_retryAfterMs d))
         (takes b (new_memory_store None)
            [(''k'', 0), (''k'', 0), (''k'', 116), (''k'', 116), (''k'', 200), (''k'', 201)]) =
       [(0, True, Num 0), (0, True, Num 0), (116, True, Num 0), (116, False, Num 84),
        (200, False, Num 1), (201, True, Num 0)]"
  by code_simp

end
