(* ===== verification/ServiceUtils.thy ===== *)
theory ServiceUtils
  imports JsText
begin

text \<open>
  The library every process shares, \<open>libs/service-utils\<close>: required environment variables
  (\<open>env.ts\<close>), token verification for the services outside the API (\<open>jwt.ts\<close>), reading a Kafka
  message (\<open>kafka.ts\<close>) and shutdown (\<open>lifecycle.ts\<close>). A thrown error is \<open>Inl\<close> its message.
\<close>

section \<open>Environment variables\<close>

type_synonym env = "string \<Rightarrow> string option"

record env_options =
  eo_minLength :: "int option"
  eo_secret :: bool

definition no_options :: env_options where
  "no_options = \<lparr>eo_minLength = None, eo_secret = False\<rparr>"

definition requiredEnv :: "env \<Rightarrow> string \<Rightarrow> env_options \<Rightarrow> string + string" where
  "requiredEnv env name options =
     (case env name of
        None \<Rightarrow> Inl (name @ '' must be set'')
      | Some value \<Rightarrow>
          if value = [] then Inl (name @ '' must be set'')
          else if (case eo_minLength options of None \<Rightarrow> False
                   | Some n \<Rightarrow> n \<noteq> 0 \<and> int (length value) < n)
          then Inl (name @ '' must be at least '' @
                    show_int (case eo_minLength options of None \<Rightarrow> 0 | Some n \<Rightarrow> n) @ '' characters long'')
          else if eo_secret options \<and> trim value \<noteq> value
          then Inl (name @ '' must not contain leading or trailing whitespace'')
          else Inr value)"

definition requiredNumberEnv :: "env \<Rightarrow> string \<Rightarrow> int option \<Rightarrow> int option \<Rightarrow> string + rat" where
  "requiredNumberEnv env name mn mx =
     (case requiredEnv env name no_options of
        Inl e \<Rightarrow> Inl e
      | Inr raw \<Rightarrow>
          (case js_Number raw of
             Num value \<Rightarrow>
               if (case mn of None \<Rightarrow> False | Some m \<Rightarrow> value < of_int m)
               then Inl (name @ '' must be >= '' @ show_int (case mn of None \<Rightarrow> 0 | Some m \<Rightarrow> m))
               else if (case mx of None \<Rightarrow> False | Some m \<Rightarrow> of_int m < value)
               then Inl (name @ '' must be <= '' @ show_int (case mx of None \<Rightarrow> 0 | Some m \<Rightarrow> m))
               else Inr value
           | _ \<Rightarrow> Inl (name @ '' must be numeric'')))"

lemma requiredEnv_InrD:
  assumes "requiredEnv env name options = Inr v"
  shows "env name = Some v" and "v \<noteq> []"
    and "eo_minLength options = Some n \<Longrightarrow> n \<le> int (length v)"
    and "eo_secret options \<Longrightarrow> trim v = v"
  using assms by (auto simp: requiredEnv_def split: option.splits if_splits)

section \<open>Tokens\<close>

text \<open>
  \<open>decode\<close> is \<open>JSON.parse\<close> of a base64url part (\<open>None\<close> when it throws), \<open>hmac\<close> the base64url
  HMAC-SHA256 of the crypto module. A destructured part beyond the end of the array is \<open>undefined\<close>.
\<close>

definition js_times :: "jsnum \<Rightarrow> rat \<Rightarrow> jsnum" where
  "js_times x k = (case x of Num q \<Rightarrow> to_js (q * k) | _ \<Rightarrow> x)"

definition part :: "string list \<Rightarrow> nat \<Rightarrow> string" where
  "part ps n = (if n < length ps then ps ! n else [])"

definition verifyJwt ::
    "(string \<Rightarrow> json option) \<Rightarrow> (string \<Rightarrow> string \<Rightarrow> string) \<Rightarrow> rat \<Rightarrow> string \<Rightarrow> string \<Rightarrow> string + json" where
  "verifyJwt decode hmac now token secret =
     (let parts = split_on (CHR ''.'') token;
          rawHeader = part parts 0; rawPayload = part parts 1; rawSignature = part parts 2
      in if rawHeader = [] \<or> rawPayload = [] \<or> rawSignature = [] then Inl ''malformed jwt''
         else case decode rawHeader of
           None \<Rightarrow> Inl ''SyntaxError''
         | Some header \<Rightarrow>
             if header = JNull then Inl ''TypeError''
             else if jget header ''alg'' \<noteq> Some (JStr ''HS256'') then Inl ''unsupported jwt algorithm''
             else if rawSignature \<noteq> hmac secret (rawHeader @ ''.'' @ rawPayload)
             then Inl ''bad signature''
             else case decode rawPayload of
               None \<Rightarrow> Inl ''SyntaxError''
             | Some payload \<Rightarrow>
                 if payload = JNull then Inl ''TypeError''
                 else if \<not> truthy_opt (jget payload ''sub'') \<or> \<not> truthy_opt (jget payload ''role'')
                 then Inl ''missing claims''
                 else if truthy_opt (jget payload ''exp'') \<and>
                   js_leq (js_times (case jget payload ''exp'' of None \<Rightarrow> NaN | Some j \<Rightarrow> to_number j) 1000)
                     (Num now)
                 then Inl ''jwt expired''
                 else Inr payload)"

section \<open>Kafka messages\<close>

text \<open>
  The value of a message is its text; the model keeps what \<open>JSON.parse\<close> makes of that text, or
  the text itself where it throws. A missing value is \<open>None\<close>.
\<close>

datatype message_text = JsonText json | BadText string

record kafka_message =
  km_topic :: string
  km_key :: "string option"
  km_value :: "message_text option"

definition parseJsonMessage :: "kafka_message \<Rightarrow> json option" where
  "parseJsonMessage message =
     (case km_value message of
        None \<Rightarrow> None
      | Some (JsonText j) \<Rightarrow> Some j
      | Some (BadText _) \<Rightarrow> None)"

section \<open>Shutdown\<close>

datatype shutdown_signal = SIGINT | SIGTERM

text \<open>
  The process as \<open>onShutdown\<close> leaves it: the one-shot listeners still registered, the flag
  \<open>closing\<close>, the clean-ups started, and how the process ended. A signal without a listener has the
  default action and kills the process at once.
\<close>

datatype process_end = Running | Exited | Killed

record lifecycle =
  lc_listeners :: "shutdown_signal list"
  lc_closing :: bool
  lc_cleanups :: "shutdown_signal list"
  lc_end :: process_end

definition onShutdown :: lifecycle where
  "onShutdown = \<lparr>lc_listeners = [SIGINT, SIGTERM], lc_closing = False, lc_cleanups = [], lc_end = Running\<rparr>"

datatype lifecycle_event = Signal shutdown_signal | CleanupSettled

definition lifecycle_step :: "lifecycle_event \<Rightarrow> lifecycle \<Rightarrow> lifecycle" where
  "lifecycle_step ev p =
     (if lc_end p \<noteq> Running then p
      else case ev of
        Signal s \<Rightarrow>
          if s \<notin> set (lc_listeners p) then p\<lparr>lc_end := Killed\<rparr>
          else
            (let p1 = p\<lparr>lc_listeners := remove1 s (lc_listeners p)\<rparr>
             in if lc_closing p1 then p1
                else p1\<lparr>lc_closing := True, lc_cleanups := lc_cleanups p1 @ [s]\<rparr>)
      | CleanupSettled \<Rightarrow> if lc_closing p then p\<lparr>lc_end := Exited\<rparr> else p)"

section \<open>Properties\<close>

text \<open>Every number the processes take from the environment is finite and within the bounds the
  caller gave, and is the value of the variable's text.\<close>

theorem requiredNumberEnv_bounds:
  assumes "requiredNumberEnv env name mn mx = Inr v"
  shows "(\<exists>raw. env name = Some raw \<and> raw \<noteq> [] \<and> js_Number raw = Num v) \<and>
         (\<forall>m. mn = Some m \<longrightarrow> of_int m \<le> v) \<and> (\<forall>m. mx = Some m \<longrightarrow> v \<le> of_int m)"
proof -
  obtain raw where raw: "requiredEnv env name no_options = Inr raw"
    using assms by (auto simp: requiredNumberEnv_def split: sum.splits)
  then have "env name = Some raw" and "raw \<noteq> []" by (auto dest: requiredEnv_InrD)
  with raw show ?thesis
    using assms by (auto simp: requiredNumberEnv_def split: jsnum.splits option.splits if_splits)
qed

theorem requiredNumberEnv_bounds_witness:
  "requiredNumberEnv [''API_PORT'' \<mapsto> ''0x1F90''] ''API_PORT'' (Some 1) (Some 65535) = Inr 8080 \<and>
   (8080 :: rat) \<le> of_int 65535"
proof -
  have a: "requiredNumberEnv [''API_PORT'' \<mapsto> ''0x1F90''] ''API_PORT'' (Some 1) (Some 65535) = Inr 8080"
    by code_simp
  then show ?thesis using requiredNumberEnv_bounds [OF a] by simp
qed

text \<open>A token is accepted only if its third part is the HMAC of the first two under the
  secret, its header says HS256, and its payload has a subject, a role and no \<open>exp\<close> that has
  passed.\<close>

theorem verifyJwt_accepts:
  assumes "verifyJwt decode hmac now token secret = Inr payload"
  shows "\<exists>h p rest header. split_on (CHR ''.'') token = h # p # hmac secret (h @ ''.'' @ p) # rest \<and>
           decode h = Some header \<and> jget header ''alg'' = Some (JStr ''HS256'') \<and>
           decode p = Some payload \<and> truthy_opt (jget payload ''sub'') \<and>
           truthy_opt (jget payload ''role'') \<and>
           (\<forall>q. jget payload ''exp'' = Some (JNum q) \<longrightarrow> q \<noteq> 0 \<longrightarrow>
              js_less (Num now) (to_js (q * 1000)) \<or> to_js (q * 1000) = PosInf)"
proof -
  let ?ps = "split_on (CHR ''.'') token"
  have "part ?ps 2 \<noteq> []" using assms by (auto simp: verifyJwt_def Let_def split: if_splits)
  then have "2 < length ?ps" by (auto simp: part_def split: if_splits)
  then obtain h p s rest where ps: "?ps = h # p # s # rest"
    by (cases ?ps; cases "tl ?ps"; cases "tl (tl ?ps)") auto
  note v = assms [unfolded verifyJwt_def ps part_def, simplified Let_def, simplified]
  obtain header where h: "decode h = Some header" and alg: "jget header ''alg'' = Some (JStr ''HS256'')"
    and s: "s = hmac secret (h @ ''.'' @ p)" and p: "decode p = Some payload"
    and claims: "truthy_opt (jget payload ''sub'')" "truthy_opt (jget payload ''role'')"
    and exp: "\<not> (truthy_opt (jget payload ''exp'') \<and>
        js_leq (js_times (case jget payload ''exp'' of None \<Rightarrow> NaN | Some j \<Rightarrow> to_number j) 1000) (Num now))"
    using v by (auto split: if_splits option.splits)
  have "js_less (Num now) (to_js (q * 1000)) \<or> to_js (q * 1000) = PosInf"
    if "jget payload ''exp'' = Some (JNum q)" "q \<noteq> 0" for q
    using exp that by (auto simp: truthy_opt_def js_times_def to_js_def not_le split: if_splits)
  with ps h alg s p claims show ?thesis by blast
qed

theorem verifyJwt_accepts_witness:
  "let decode = (\<lambda>s. if s = ''h'' then Some (JObj [(''alg'', JStr ''HS256'')])
                      else Some (JObj [(''sub'', JStr ''d1''), (''role'', JStr ''driver''), (''exp'', JNum 2)]));
       hmac = (\<lambda>secret m. rev m)
   in verifyJwt decode hmac 1999 ''h.p.p.h'' ''k'' = Inl ''bad signature'' \<and>
      verifyJwt decode (\<lambda>secret m. ''sig'') 1999 ''h.p.sig'' ''k'' =
        Inr (JObj [(''sub'', JStr ''d1''), (''role'', JStr ''driver''), (''exp'', JNum 2)]) \<and>
      (js_less (Num 1999) (to_js (2 * 1000)) \<or> to_js (2 * 1000) = PosInf)"
proof -
  let ?decode = "\<lambda>s. if s = ''h'' then Some (JObj [(''alg'', JStr ''HS256'')])
                      else Some (JObj [(''sub'', JStr ''d1''), (''role'', JStr ''driver''), (''exp'', JNum 2)])"
  let ?p = "JObj [(''sub'', JStr ''d1''), (''role'', JStr ''driver''), (''exp'', JNum 2)]"
  have a: "verifyJwt ?decode (\<lambda>secret m. ''sig'') 1999 ''h.p.sig'' ''k'' = Inr ?p"
    by code_simp
  have b: "verifyJwt ?decode (\<lambda>secret m. rev m) 1999 ''h.p.p.h'' ''k'' = Inl ''bad signature''"
    by code_simp
  from verifyJwt_accepts [OF a] have "js_less (Num 1999) (to_js (2 * 1000)) \<or> to_js (2 * 1000) = PosInf"
    by auto
  with a b show ?thesis by (simp only: Let_def)
qed

definition lifecycle_ok :: "lifecycle \<Rightarrow> bool" where
  "lifecycle_ok p \<longleftrightarrow> length (lc_cleanups p) = (if lc_closing p then 1 else 0) \<and>
     (lc_end p = Exited \<longrightarrow> lc_closing p)"

lemma lifecycle_step_ok: "lifecycle_ok p \<Longrightarrow> lifecycle_ok (lifecycle_step ev p)"
  by (cases ev) (auto simp: lifecycle_ok_def lifecycle_step_def Let_def)

lemma lifecycle_run_ok: "lifecycle_ok p \<Longrightarrow> lifecycle_ok (fold lifecycle_step evs p)"
  by (induction evs arbitrary: p) (simp_all add: lifecycle_step_ok)

text \<open>Whatever signals arrive and whenever the clean-up settles, it is started at most once, and
  the process exits only after it was.\<close>

theorem shutdown_cleans_up_once:
  "length (lc_cleanups (fold lifecycle_step evs onShutdown)) \<le> 1 \<and>
   (lc_end (fold lifecycle_step evs onShutdown) = Exited \<longrightarrow>
      length (lc_cleanups (fold lifecycle_step evs onShutdown)) = 1)"
proof -
  have "lifecycle_ok onShutdown" by (simp add: lifecycle_ok_def onShutdown_def)
  from lifecycle_run_ok [OF this, of evs] show ?thesis by (simp add: lifecycle_ok_def)
qed

theorem shutdown_cleans_up_once_witness:
  "lc_end (fold lifecycle_step [Signal SIGTERM, Signal SIGINT, CleanupSettled] onShutdown) = Exited \<and>
   length (lc_cleanups (fold lifecycle_step [Signal SIGTERM, Signal SIGINT, CleanupSettled] onShutdown)) = 1"
proof -
  let ?evs = "[Signal SIGTERM, Signal SIGINT, CleanupSettled]"
  have e: "lc_end (fold lifecycle_step ?evs onShutdown) = Exited"
    by (simp add: lifecycle_step_def onShutdown_def Let_def)
  then show ?thesis using shutdown_cleans_up_once [of ?evs] by simp
qed

end
