(* ===== verification/Effects.thy ===== *)
theory Effects
  imports ServiceUtils
begin

text \<open>
  Asynchronous code over a state \<open>'w\<close>: a computation takes the state, and ends with a value
  (\<open>Inr\<close>) or a thrown exception (\<open>Inl\<close>) and the state it leaves, whatever it did before it threw.
  \<open>await\<close> sequences, \<open>try_catch\<close> and \<open>finally\<close> are the statements of that name, \<open>for_each\<close> is
  \<open>for ... of\<close>. The relation \<open>valid\<close> is partial correctness with an exceptional postcondition;
  the locale \<open>effect_relation\<close> collects what every reflexive and transitive relation between the
  states before and after needs to be proved for each operation only.
\<close>

section \<open>Exceptions and computations\<close>

text \<open>\<open>Http\<close> is a Nest \<open>HttpException\<close> with its status, optional \<open>code\<close> and message, \<open>Pg\<close> a
  database error with its SQLSTATE and the constraint it violates, \<open>Unavailable\<close> a lost connection, \<open>JsError\<close> any other error.\<close>

datatype exn =
  Http int "string option" string
| Pg string "string option"
| Unavailable string
| JsError string

type_synonym ('w, 'a) eff = "'w \<Rightarrow> (exn + 'a) \<times> 'w"

definition ret :: "'a \<Rightarrow> ('w, 'a) eff" where
  "ret x = (\<lambda>w. (Inr x, w))"

definition throw :: "exn \<Rightarrow> ('w, 'a) eff" where
  "throw e = (\<lambda>w. (Inl e, w))"

definition await :: "('w, 'a) eff \<Rightarrow> ('a \<Rightarrow> ('w, 'b) eff) \<Rightarrow> ('w, 'b) eff" where
  "await m f = (\<lambda>w. case m w of (Inl e, w') \<Rightarrow> (Inl e, w') | (Inr x, w') \<Rightarrow> f x w')"

definition try_catch :: "('w, 'a) eff \<Rightarrow> (exn \<Rightarrow> ('w, 'a) eff) \<Rightarrow> ('w, 'a) eff" where
  "try_catch m h = (\<lambda>w. case m w of (Inl e, w') \<Rightarrow> h e w' | (Inr x, w') \<Rightarrow> (Inr x, w'))"

text \<open>An exception thrown by the \<open>finally\<close> block replaces the outcome.\<close>

definition finally_do :: "('w, 'a) eff \<Rightarrow> ('w, unit) eff \<Rightarrow> ('w, 'a) eff" where
  "finally_do m f = (\<lambda>w. case m w of (r, w') \<Rightarrow>
     (case f w' of (Inl e, w'') \<Rightarrow> (Inl e, w'') | (Inr _, w'') \<Rightarrow> (r, w'')))"

definition get_state :: "('w \<Rightarrow> 'a) \<Rightarrow> ('w, 'a) eff" where
  "get_state f = (\<lambda>w. (Inr (f w), w))"

definition set_state :: "('w \<Rightarrow> 'w) \<Rightarrow> ('w, unit) eff" where
  "set_state f = (\<lambda>w. (Inr (), f w))"

definition of_sum :: "string + 'a \<Rightarrow> ('w, 'a) eff" where
  "of_sum r = (case r of Inl e \<Rightarrow> throw (JsError e) | Inr x \<Rightarrow> ret x)"

fun for_each :: "'a list \<Rightarrow> ('a \<Rightarrow> ('w, unit) eff) \<Rightarrow> ('w, unit) eff" where
  "for_each [] f = ret ()"
| "for_each (x # xs) f = await (f x) (\<lambda>_. for_each xs f)"

lemma eff_run [effect_simps]:
  "ret x w = (Inr x, w)" "throw e w = (Inl e, w)"
  "get_state g w = (Inr (g w), w)" "set_state u w = (Inr (), u w)"
  by (simp_all add: ret_def throw_def get_state_def set_state_def)

lemma await_ret [effect_simps]: "await (ret x) f = f x"
  by (simp add: await_def ret_def)

lemma await_throw [effect_simps]: "await (throw e) f = throw e"
  by (simp add: await_def throw_def)

lemma await_assoc: "await (await m f) g = await m (\<lambda>x. await (f x) g)"
  by (auto simp: await_def fun_eq_iff split: prod.splits sum.splits)

lemma try_catch_ret [effect_simps]: "try_catch (ret x) h = ret x"
  by (simp add: try_catch_def ret_def)

section \<open>Partial correctness with exceptions\<close>

definition valid ::
    "('w \<Rightarrow> bool) \<Rightarrow> ('w, 'a) eff \<Rightarrow> ('a \<Rightarrow> 'w \<Rightarrow> bool) \<Rightarrow> (exn \<Rightarrow> 'w \<Rightarrow> bool) \<Rightarrow> bool" where
  "valid P m Q E \<longleftrightarrow>
     (\<forall>w. P w \<longrightarrow> (\<forall>x w'. m w = (Inr x, w') \<longrightarrow> Q x w') \<and>
        (\<forall>e w'. m w = (Inl e, w') \<longrightarrow> E e w'))"

lemma validI:
  assumes "\<And>w x w'. P w \<Longrightarrow> m w = (Inr x, w') \<Longrightarrow> Q x w'"
    and "\<And>w e w'. P w \<Longrightarrow> m w = (Inl e, w') \<Longrightarrow> E e w'"
  shows "valid P m Q E"
  using assms by (auto simp: valid_def)

lemma validD:
  assumes "valid P m Q E" and "P w"
  shows "m w = (Inr x, w') \<Longrightarrow> Q x w'" and "m w = (Inl e, w') \<Longrightarrow> E e w'"
  using assms by (auto simp: valid_def)

lemma valid_conseq:
  assumes "valid P' m Q' E'" and "\<And>w. P w \<Longrightarrow> P' w"
    and "\<And>x w. Q' x w \<Longrightarrow> Q x w" and "\<And>e w. E' e w \<Longrightarrow> E e w"
  shows "valid P m Q E"
  using assms unfolding valid_def by blast

lemma valid_pre: "valid P' m Q E \<Longrightarrow> (\<And>w. P w \<Longrightarrow> P' w) \<Longrightarrow> valid P m Q E"
  unfolding valid_def by blast

lemma valid_ret: "(\<And>w. P w \<Longrightarrow> Q x w) \<Longrightarrow> valid P (ret x) Q E"
  by (simp add: valid_def ret_def)

lemma valid_throw: "(\<And>w. P w \<Longrightarrow> E e w) \<Longrightarrow> valid P (throw e) Q E"
  by (simp add: valid_def throw_def)

lemma valid_await:
  assumes "valid P m R E" and "\<And>x. valid (R x) (f x) Q E"
  shows "valid P (await m f) Q E"
proof (rule validI)
  fix w x w' assume "P w" "await m f w = (Inr x, w')"
  then show "Q x w'"
    using validD [OF assms(1), of w] validD(1) [OF assms(2)]
    by (fastforce simp: await_def split: prod.splits sum.splits)
next
  fix w e w' assume "P w" "await m f w = (Inl e, w')"
  then show "E e w'"
    using validD [OF assms(1), of w] validD(2) [OF assms(2)]
    by (fastforce simp: await_def split: prod.splits sum.splits)
qed

lemma valid_try_catch:
  assumes "valid P m Q R" and "\<And>e. valid (R e) (h e) Q E"
  shows "valid P (try_catch m h) Q E"
proof (rule validI)
  fix w x w' assume "P w" "try_catch m h w = (Inr x, w')"
  then show "Q x w'"
    using validD [OF assms(1), of w] validD(1) [OF assms(2)]
    by (fastforce simp: try_catch_def split: prod.splits sum.splits)
next
  fix w e w' assume "P w" "try_catch m h w = (Inl e, w')"
  then show "E e w'"
    using validD [OF assms(1), of w] validD(2) [OF assms(2)]
    by (fastforce simp: try_catch_def split: prod.splits sum.splits)
qed

lemma valid_finally:
  assumes "valid P m R S"
    and "\<And>x. valid (R x) f (\<lambda>_. Q x) E" and "\<And>e. valid (S e) f (\<lambda>_. E e) E"
  shows "valid P (finally_do m f) Q E"
proof (rule validI)
  fix w x w' assume "P w" "finally_do m f w = (Inr x, w')"
  then show "Q x w'"
    using validD [OF assms(1), of w] validD(1) [OF assms(2)]
    by (fastforce simp: finally_do_def split: prod.splits sum.splits)
next
  fix w e w' assume "P w" and run: "finally_do m f w = (Inl e, w')"
  then show "E e w'"
  proof (cases "m w")
    case (Pair r w1)
    then show ?thesis
      using run \<open>P w\<close> validD [OF assms(1), of w] validD [OF assms(2)] validD [OF assms(3)]
      by (cases r) (fastforce simp: finally_do_def split: prod.splits sum.splits)+
  qed
qed

lemma valid_get: "(\<And>w. P w \<Longrightarrow> Q (f w) w) \<Longrightarrow> valid P (get_state f) Q E"
  by (simp add: valid_def get_state_def)

lemma valid_set: "(\<And>w. P w \<Longrightarrow> Q () (f w)) \<Longrightarrow> valid P (set_state f) Q E"
  by (simp add: valid_def set_state_def)

lemma valid_if:
  assumes "c \<Longrightarrow> valid P m Q E" and "\<not> c \<Longrightarrow> valid P m' Q E"
  shows "valid P (if c then m else m') Q E"
  using assms by simp

lemma valid_of_sum:
  assumes "\<And>x w. r = Inr x \<Longrightarrow> P w \<Longrightarrow> Q x w" and "\<And>e w. r = Inl e \<Longrightarrow> P w \<Longrightarrow> E (JsError e) w"
  shows "valid P (of_sum r) Q E"
  using assms by (cases r) (simp_all add: of_sum_def valid_ret valid_throw)

lemma valid_for_each:
  assumes "\<And>x. x \<in> set xs \<Longrightarrow> valid I (f x) (\<lambda>_. I) E"
  shows "valid I (for_each xs f) (\<lambda>_. I) E"
  using assms
proof (induction xs)
  case Nil
  then show ?case by (simp add: valid_ret)
next
  case (Cons x xs)
  show ?case unfolding for_each.simps
    by (rule valid_await [where R = "\<lambda>_. I"]) (use Cons in auto)
qed

section \<open>Relations every computation keeps\<close>

definition keeps :: "('w \<Rightarrow> 'w \<Rightarrow> bool) \<Rightarrow> ('w, 'a) eff \<Rightarrow> bool" where
  "keeps R m \<longleftrightarrow> (\<forall>w. R w (snd (m w)))"

locale effect_relation =
  fixes R :: "'w \<Rightarrow> 'w \<Rightarrow> bool"
  assumes R_refl: "R w w"
    and R_trans: "R w1 w2 \<Longrightarrow> R w2 w3 \<Longrightarrow> R w1 w3"
begin

lemma keeps_ret: "keeps R (ret x)"
  by (simp add: keeps_def ret_def R_refl)

lemma keeps_throw: "keeps R (throw e)"
  by (simp add: keeps_def throw_def R_refl)

lemma keeps_get: "keeps R (get_state f)"
  by (simp add: keeps_def get_state_def R_refl)

lemma keeps_await: "keeps R m \<Longrightarrow> (\<And>x. keeps R (f x)) \<Longrightarrow> keeps R (await m f)"
  unfolding keeps_def await_def by (auto split: prod.splits sum.splits) (metis R_trans snd_conv)+

lemma keeps_try: "keeps R m \<Longrightarrow> (\<And>e. keeps R (h e)) \<Longrightarrow> keeps R (try_catch m h)"
  unfolding keeps_def try_catch_def by (auto split: prod.splits sum.splits) (metis R_trans snd_conv)+

lemma keeps_finally: "keeps R m \<Longrightarrow> keeps R f \<Longrightarrow> keeps R (finally_do m f)"
  unfolding keeps_def finally_do_def by (auto split: prod.splits sum.splits) (metis R_trans snd_conv)+

lemma keeps_of_sum: "keeps R (of_sum r)"
  by (cases r) (simp_all add: of_sum_def keeps_ret keeps_throw)

lemma keeps_if: "keeps R m \<Longrightarrow> keeps R m' \<Longrightarrow> keeps R (if c then m else m')"
  by simp

lemma keeps_for_each: "(\<And>x. keeps R (f x)) \<Longrightarrow> keeps R (for_each xs f)"
  by (induction xs) (simp_all add: keeps_ret keeps_await)

lemma keeps_run: "keeps R m \<Longrightarrow> R w (snd (m w))"
  by (simp add: keeps_def)

end

end
