(* ===== verification/Database.thy ===== *)
theory Database
  imports Effects
begin

text \<open>
  The PostgreSQL tables of \<open>db/migrations\<close> (\<open>0002_core_tables.sql\<close>, \<open>0004_trip_ratings.sql\<close>,
  \<open>0005_trip_events_outbox.sql\<close>) as lists of rows in insertion order, and what a statement is: a
  function of the database and of the server's clock and sequences, that returns its rows and the
  new database or fails with an SQLSTATE. A sequence advances even when its statement fails.
  Statements themselves are with the functions that issue them.
\<close>

section \<open>Enumerations\<close>

datatype driver_status = Offline | Online | OnTrip | Suspended

fun driver_status_text :: "driver_status \<Rightarrow> string" where
  "driver_status_text Offline = ''offline''"
| "driver_status_text Online = ''online''"
| "driver_status_text OnTrip = ''on_trip''"
| "driver_status_text Suspended = ''suspended''"

datatype trip_status =
  Requested | Matched | InProgress | Completed | CancelledByRider | CancelledByDriver | Expired

fun trip_status_text :: "trip_status \<Rightarrow> string" where
  "trip_status_text Requested = ''requested''"
| "trip_status_text Matched = ''matched''"
| "trip_status_text InProgress = ''in_progress''"
| "trip_status_text Completed = ''completed''"
| "trip_status_text CancelledByRider = ''cancelled_by_rider''"
| "trip_status_text CancelledByDriver = ''cancelled_by_driver''"
| "trip_status_text Expired = ''expired''"

section \<open>Rows\<close>

record point =
  pt_lon :: rat
  pt_lat :: rat

record user_row =
  us_id :: string
  us_role :: string
  us_full_name :: string
  us_email :: string
  us_phone :: string
  us_password_hash :: string
  us_is_active :: bool
  us_created_at :: rat

record driver_row =
  dr_user_id :: string
  dr_license_number :: string
  dr_license_expires_on :: string
  dr_status :: driver_status
  dr_rating_avg :: rat
  dr_rating_count :: int

record vehicle_row =
  ve_id :: string
  ve_driver_id :: string
  ve_plate :: string
  ve_make :: string
  ve_model :: string
  ve_year :: int
  ve_color :: string
  ve_capacity :: int
  ve_is_active :: bool
  ve_created_at :: rat

record driver_location_row =
  dl_driver_id :: string
  dl_location :: point
  dl_heading_deg :: "rat option"
  dl_speed_mps :: "rat option"
  dl_updated_at :: rat

record surge_zone_row =
  sz_id :: string
  sz_name :: string
  sz_polygon :: string
  sz_base_multiplier :: rat

record trip_row =
  tr_id :: string
  tr_rider_id :: string
  tr_driver_id :: "string option"
  tr_vehicle_id :: "string option"
  tr_status :: trip_status
  tr_pickup :: point
  tr_dropoff :: point
  tr_pickup_address :: "string option"
  tr_dropoff_address :: "string option"
  tr_requested_at :: rat
  tr_matched_at :: "rat option"
  tr_started_at :: "rat option"
  tr_completed_at :: "rat option"
  tr_fare_total :: "rat option"
  tr_currency :: string

record trip_event_row =
  te_id :: int
  te_trip_id :: string
  te_event_type :: string
  te_payload :: json
  te_created_at :: rat
  te_published_at :: "rat option"
  te_publish_attempts :: int
  te_last_publish_error :: "string option"

record fare_record_row =
  fr_trip_id :: string
  fr_base_fare :: rat
  fr_distance_km :: rat
  fr_duration_min :: rat
  fr_surge_multiplier :: rat
  fr_total :: rat
  fr_currency :: string

record trip_rating_row =
  rt_trip_id :: string
  rt_rider_id :: string
  rt_driver_id :: string
  rt_rating :: int
  rt_comment :: "string option"

record db =
  db_users :: "user_row list"
  db_drivers :: "driver_row list"
  db_vehicles :: "vehicle_row list"
  db_driver_locations :: "driver_location_row list"
  db_surge_zones :: "surge_zone_row list"
  db_trips :: "trip_row list"
  db_trip_events :: "trip_event_row list"
  db_fare_records :: "fare_record_row list"
  db_trip_ratings :: "trip_rating_row list"

definition empty_db :: db where
  "empty_db = \<lparr>db_users = [], db_drivers = [], db_vehicles = [], db_driver_locations = [],
     db_surge_zones = [], db_trips = [], db_trip_events = [], db_fare_records = [],
     db_trip_ratings = []\<rparr>"

section \<open>Statements\<close>

record sys =
  sys_now :: rat
  sys_uuids :: nat
  sys_events :: int

type_synonym 'a stmt = "sys \<Rightarrow> db \<Rightarrow> (exn + ('a \<times> db)) \<times> sys"

definition select :: "(db \<Rightarrow> 'a) \<Rightarrow> 'a stmt" where
  "select f = (\<lambda>s d. (Inr (f d, d), s))"

text \<open>\<open>UPDATE ... SET u WHERE p RETURNING *\<close> over one table: the updated rows.\<close>

definition update_rows :: "('r \<Rightarrow> bool) \<Rightarrow> ('r \<Rightarrow> 'r) \<Rightarrow> 'r list \<Rightarrow> 'r list" where
  "update_rows p u rows = map (\<lambda>r. if p r then u r else r) rows"

definition returning :: "('r \<Rightarrow> bool) \<Rightarrow> ('r \<Rightarrow> 'r) \<Rightarrow> 'r list \<Rightarrow> 'r list" where
  "returning p u rows = map u (filter p rows)"

definition unique_violation :: "string \<Rightarrow> exn" where
  "unique_violation constraint = Pg ''23505'' (Some constraint)"

definition is_unique_violation :: "exn \<Rightarrow> bool" where
  "is_unique_violation e = (case e of Pg code _ \<Rightarrow> code = ''23505'' | _ \<Rightarrow> False)"

definition foreign_key_violation :: exn where "foreign_key_violation = Pg ''23503'' None"
definition check_violation :: exn where "check_violation = Pg ''23514'' None"
definition numeric_out_of_range :: exn where "numeric_out_of_range = Pg ''22003'' None"
definition in_failed_transaction :: exn where "in_failed_transaction = Pg ''25P02'' None"

text \<open>\<open>NUMERIC(p, s)\<close>: rounded to \<open>s\<close> places, half away from zero, and refused from
  \<open>10^(p - s)\<close> on.\<close>

definition pg_round :: "nat \<Rightarrow> rat \<Rightarrow> rat" where
  "pg_round s x =
     (if 0 \<le> x then of_int (floor (x * 10 ^ s + 1 / 2)) / 10 ^ s
      else - (of_int (floor (- x * 10 ^ s + 1 / 2)) / 10 ^ s))"

definition pg_numeric :: "nat \<Rightarrow> nat \<Rightarrow> rat \<Rightarrow> rat option" where
  "pg_numeric p s x = (let v = pg_round s x in if \<bar>v\<bar> < 10 ^ (p - s) then Some v else None)"

text \<open>A numeric of scale \<open>s\<close> as text.\<close>

definition pg_numeric_text :: "nat \<Rightarrow> rat \<Rightarrow> string" where
  "pg_numeric_text s x = to_fixed s x"

lemma pg_round_nonneg: "0 \<le> x \<Longrightarrow> 0 \<le> pg_round s x"
  by (simp add: pg_round_def)

lemma pg_round_mono: "0 \<le> x \<Longrightarrow> x \<le> y \<Longrightarrow> pg_round s x \<le> pg_round s y"
  by (simp add: pg_round_def divide_right_mono floor_mono mult_right_mono)

lemma pg_round_of_int: "0 \<le> n \<Longrightarrow> pg_round s (of_int n) = of_int n"
proof -
  assume "0 \<le> n"
  have "of_int n * 10 ^ s + (1 / 2 :: rat) = of_int (n * 10 ^ s) + 1 / 2" by simp
  moreover have "\<lfloor>of_int (n * 10 ^ s) + (1 / 2 :: rat)\<rfloor> = n * 10 ^ s"
    by (rule floor_unique) simp_all
  ultimately show ?thesis using \<open>0 \<le> n\<close> by (simp add: pg_round_def)
qed

lemma map_update_rows:
  assumes "\<And>r. k (u r) = k r"
  shows "map k (update_rows p u rows) = map k rows"
  using assms by (induction rows) (auto simp: update_rows_def)

lemma set_update_rows: "set (update_rows p u rows) = (\<lambda>r. if p r then u r else r) ` set rows"
  by (simp add: update_rows_def)

lemma in_update_rowsI:
  "r \<in> set rows \<Longrightarrow> p r \<Longrightarrow> u r \<in> set (update_rows p u rows)"
  "r \<in> set rows \<Longrightarrow> \<not> p r \<Longrightarrow> r \<in> set (update_rows p u rows)"
  by (induction rows) (auto simp: update_rows_def)

lemma in_update_rowsD: "x \<in> set (update_rows p u rows) \<Longrightarrow> \<exists>r \<in> set rows. x = (if p r then u r else r)"
  by (induction rows) (auto simp: update_rows_def)

lemma ball_update_rows:
  "(\<forall>r \<in> set (update_rows p u rows). P r) \<longleftrightarrow> (\<forall>r \<in> set rows. P (if p r then u r else r))"
  by (induction rows) (auto simp: update_rows_def)

lemma returning_nil_iff: "returning p u rows = [] \<longleftrightarrow> (\<forall>r \<in> set rows. \<not> p r)"
  by (simp add: returning_def filter_empty_conv)

lemma returning_consD:
  "returning p u rows = r' # rs \<Longrightarrow> \<exists>r \<in> set rows. p r \<and> r' = u r"
  by (auto simp: returning_def map_eq_Cons_conv filter_eq_Cons_iff)

lemma update_rows_none: "\<forall>r \<in> set rows. \<not> p r \<Longrightarrow> update_rows p u rows = rows"
  by (induction rows) (auto simp: update_rows_def)

lemma filter_update_rows:
  assumes "\<And>r. r \<in> set rows \<Longrightarrow> p r \<Longrightarrow> q (u r) = q r"
  shows "length (filter q (update_rows p u rows)) = length (filter q rows)"
  using assms by (induction rows) (auto simp: update_rows_def)

lemma find_by_key:
  assumes "distinct (map k rows)" and "r \<in> set rows" and "k r = x"
  shows "filter (\<lambda>r. k r = x) rows = [r]"
  using assms
proof (induction rows)
  case (Cons a rows)
  then show ?case
    by (cases "a = r") (auto simp: filter_empty_conv image_iff)
qed simp

end
