(* ===== verification/World.thy ===== *)
theory World
  imports Database
begin

text \<open>
  What the processes act on: the PostgreSQL database and its open transaction, Redis, Kafka, the
  environment and the state of the API process. Every call to a server takes the next entry of the
  schedule \<open>w_faults\<close>: it is served (\<open>Ok\<close>), its request is lost (\<open>Lost\<close>) or its answer is lost
  after the server has done the work (\<open>Late\<close>); the last two raise \<open>Unavailable\<close> in the caller. An
  exhausted schedule serves everything.

  A transaction works on a copy of the database. After an error in it every further statement
  fails until \<open>ROLLBACK\<close>, and \<open>COMMIT\<close> of such a transaction rolls it back without an error. A
  connection that is lost takes its transaction with it. Transactions are serial here: the row
  locks the code takes (\<open>FOR UPDATE\<close>, \<open>SKIP LOCKED\<close>) have no one to wait for; transactions side by
  side are the subject of the theory Transactions.
\<close>

section \<open>State\<close>

datatype fault = Ok | Lost | Late

record tx =
  tx_db :: db
  tx_aborted :: bool

record world =
  w_db :: db
  w_tx :: "tx option"
  w_sys :: sys
  w_geo :: "(string \<times> point) list"
  w_surge :: "(string \<times> (string \<times> string) list) list"
  w_kafka :: "kafka_message list"
  w_faults :: "fault list"
  w_env :: env
  w_outboxRunning :: bool
  w_tripMetrics :: "string list"

text \<open>Functions of the servers the source calls: PostGIS, Redis GEO and
  \<open>gen_random_uuid\<close>; \<open>x_parseJson\<close> is \<open>JSON.parse\<close>, \<open>None\<close> where it throws.\<close>

record ext =
  x_uuid :: "nat \<Rightarrow> string"
  x_distance :: "point \<Rightarrow> point \<Rightarrow> rat"
  x_covers :: "string \<Rightarrow> point \<Rightarrow> bool"
  x_geo_distance :: "point \<Rightarrow> point \<Rightarrow> rat"
  x_asGeoJSON :: "point \<Rightarrow> string"
  x_parseJson :: "string \<Rightarrow> json option"

type_synonym 'a act = "(world, 'a) eff"

section \<open>Calls\<close>

fun next_fault :: "fault list \<Rightarrow> fault" where
  "next_fault [] = Ok"
| "next_fault (f # fs) = f"

definition take_fault :: "world \<Rightarrow> world" where
  "take_fault w = w\<lparr>w_faults := tl (w_faults w)\<rparr>"

definition call :: "string \<Rightarrow> 'a act \<Rightarrow> 'a act" where
  "call server f = (\<lambda>w.
     (case next_fault (w_faults w) of
        Ok \<Rightarrow> f (take_fault w)
      | Lost \<Rightarrow> (Inl (Unavailable server), take_fault w)
      | Late \<Rightarrow> (Inl (Unavailable server), snd (f (take_fault w)))))"

subsection \<open>PostgreSQL\<close>

definition run_stmt :: "'a stmt \<Rightarrow> 'a act" where
  "run_stmt st = (\<lambda>w.
     (case w_tx w of
        None \<Rightarrow>
          (case st (w_sys w) (w_db w) of
             (Inl e, s') \<Rightarrow> (Inl e, w\<lparr>w_sys := s'\<rparr>)
           | (Inr (x, d'), s') \<Rightarrow> (Inr x, w\<lparr>w_sys := s', w_db := d'\<rparr>))
      | Some t \<Rightarrow>
          if tx_aborted t then (Inl in_failed_transaction, w)
          else
            (case st (w_sys w) (tx_db t) of
               (Inl e, s') \<Rightarrow> (Inl e, w\<lparr>w_sys := s', w_tx := Some (t\<lparr>tx_aborted := True\<rparr>)\<rparr>)
             | (Inr (x, d'), s') \<Rightarrow> (Inr x, w\<lparr>w_sys := s', w_tx := Some (t\<lparr>tx_db := d'\<rparr>)\<rparr>))))"

definition abort_tx :: "world \<Rightarrow> world" where
  "abort_tx w = w\<lparr>w_tx := map_option (\<lambda>t. t\<lparr>tx_aborted := True\<rparr>) (w_tx w)\<rparr>"

text \<open>\<open>client.query(...)\<close> inside a transaction, \<open>pool.query(...)\<close> outside.\<close>

definition query :: "'a stmt \<Rightarrow> 'a act" where
  "query st = (\<lambda>w.
     (case call ''postgres'' (run_stmt st) w of
        (Inl e, w') \<Rightarrow> (Inl e, abort_tx w')
      | (Inr x, w') \<Rightarrow> (Inr x, w')))"

definition connect :: "unit act" where
  "connect = call ''postgres'' (ret ())"

definition begin_tx :: "unit act" where
  "begin_tx = call ''postgres''
     (set_state (\<lambda>w. w\<lparr>w_tx := Some \<lparr>tx_db = w_db w, tx_aborted = False\<rparr>\<rparr>))"

definition close_tx :: "world \<Rightarrow> world" where
  "close_tx w = w\<lparr>w_tx := None\<rparr>"

definition commit_now :: "world \<Rightarrow> world" where
  "commit_now w =
     (case w_tx w of
        None \<Rightarrow> w
      | Some t \<Rightarrow> if tx_aborted t then close_tx w else close_tx (w\<lparr>w_db := tx_db t\<rparr>))"

definition commit :: "unit act" where
  "commit = (\<lambda>w.
     (case call ''postgres'' (set_state commit_now) w of (r, w') \<Rightarrow> (r, close_tx w')))"

definition rollback :: "unit act" where
  "rollback = (\<lambda>w. (case call ''postgres'' (ret ()) w of (r, w') \<Rightarrow> (r, close_tx w')))"

text \<open>\<open>client.release()\<close>: the pool drops what is left of a transaction on a broken connection.\<close>

definition release :: "unit act" where
  "release = set_state close_tx"

subsection \<open>Redis\<close>

definition geo_valid :: "point \<Rightarrow> bool" where
  "geo_valid p \<longleftrightarrow> \<bar>pt_lon p\<bar> \<le> 180 \<and> \<bar>pt_lat p\<bar> \<le> 8505112878 / 10 ^ 8"

definition geoadd :: "string \<Rightarrow> point \<Rightarrow> unit act" where
  "geoadd member p = call ''redis'' (\<lambda>w.
     if geo_valid p then (Inr (), w\<lparr>w_geo := al_set member p (w_geo w)\<rparr>)
     else (Inl (JsError ''ERR invalid longitude,latitude pair''), w))"

definition zrem :: "string \<Rightarrow> unit act" where
  "zrem member = call ''redis'' (set_state (\<lambda>w. w\<lparr>w_geo := al_del member (w_geo w)\<rparr>))"

fun insert_by :: "('a \<Rightarrow> rat) \<Rightarrow> 'a \<Rightarrow> 'a list \<Rightarrow> 'a list" where
  "insert_by f x [] = [x]"
| "insert_by f x (y # ys) = (if f x \<le> f y then x # y # ys else y # insert_by f x ys)"

text \<open>\<open>GEOSEARCH driver:online FROMLONLAT ... BYRADIUS r m COUNT n ASC\<close>.\<close>

definition geosearch :: "ext \<Rightarrow> point \<Rightarrow> rat \<Rightarrow> nat \<Rightarrow> ((string \<times> point) list) act" where
  "geosearch X p r n = call ''redis'' (\<lambda>w.
     if geo_valid p
     then (Inr (take n (foldr (insert_by (\<lambda>(_, q). x_geo_distance X p q))
             (filter (\<lambda>(_, q). x_geo_distance X p q \<le> r) (w_geo w)) [])), w)
     else (Inl (JsError ''ERR invalid longitude,latitude pair''), w))"

definition hget :: "string \<Rightarrow> string \<Rightarrow> (string option) act" where
  "hget key field = call ''redis'' (get_state (\<lambda>w.
     (case map_of (w_surge w) key of None \<Rightarrow> None | Some h \<Rightarrow> map_of h field)))"

definition hset :: "string \<Rightarrow> (string \<times> string) list \<Rightarrow> unit act" where
  "hset key kvs = call ''redis'' (set_state (\<lambda>w. w\<lparr>w_surge :=
     al_set key (foldl (\<lambda>h (f, v). al_set f v h)
       (case map_of (w_surge w) key of None \<Rightarrow> [] | Some h \<Rightarrow> h) kvs) (w_surge w)\<rparr>))"

subsection \<open>Kafka and the environment\<close>

definition kafka_send :: "kafka_message \<Rightarrow> unit act" where
  "kafka_send m = call ''kafka'' (set_state (\<lambda>w. w\<lparr>w_kafka := w_kafka w @ [m]\<rparr>))"

definition env_var :: "string \<Rightarrow> string act" where
  "env_var name = (\<lambda>w. of_sum (requiredEnv (w_env w) name no_options) w)"

definition count_trip_event :: "string \<Rightarrow> unit act" where
  "count_trip_event kind = set_state (\<lambda>w. w\<lparr>w_tripMetrics := w_tripMetrics w @ [kind]\<rparr>)"

section \<open>Transactions as the code writes them\<close>

text \<open>\<open>catch (e) { await client.query('ROLLBACK'); throw e; }\<close>, and the variant that ignores a
  failing \<open>ROLLBACK\<close>.\<close>

definition rollback_rethrow :: "exn \<Rightarrow> 'a act" where
  "rollback_rethrow e = await rollback (\<lambda>_. throw e)"

definition rollback_quietly :: "unit act" where
  "rollback_quietly = try_catch rollback (\<lambda>_. ret ())"

text \<open>\<open>const client = await db.connect(); try { ... } finally { client.release(); }\<close>.\<close>

definition with_client :: "'a act \<Rightarrow> 'a act" where
  "with_client body = await connect (\<lambda>_. finally_do body release)"

section \<open>Reasoning about handlers\<close>

text \<open>
  \<open>idle I\<close>: no transaction is open and the database satisfies \<open>I\<close>; \<open>open_tx I J\<close>: one is open,
  the committed database satisfies \<open>I\<close> and the working copy \<open>J\<close> unless the transaction has
  failed; \<open>some_tx I\<close>: the committed database satisfies \<open>I\<close>, the transaction is in any state.
\<close>

definition idle :: "(db \<Rightarrow> bool) \<Rightarrow> world \<Rightarrow> bool" where
  "idle I w \<longleftrightarrow> I (w_db w) \<and> w_tx w = None"

definition open_tx :: "(db \<Rightarrow> bool) \<Rightarrow> (db \<Rightarrow> bool) \<Rightarrow> world \<Rightarrow> bool" where
  "open_tx I J w \<longleftrightarrow> I (w_db w) \<and> (\<exists>t. w_tx w = Some t \<and> (tx_aborted t \<or> J (tx_db t)))"

definition some_tx :: "(db \<Rightarrow> bool) \<Rightarrow> world \<Rightarrow> bool" where
  "some_tx I w \<longleftrightarrow> I (w_db w)"

lemma idle_some_tx: "idle I w \<Longrightarrow> some_tx I w"
  by (simp add: idle_def some_tx_def)

lemma open_some_tx: "open_tx I J w \<Longrightarrow> some_tx I w"
  by (auto simp: open_tx_def some_tx_def)

lemma open_tx_mono: "open_tx I J w \<Longrightarrow> (\<And>d. J d \<Longrightarrow> K d) \<Longrightarrow> open_tx I K w"
  by (auto simp: open_tx_def)

definition db_neutral :: "'a act \<Rightarrow> bool" where
  "db_neutral m \<longleftrightarrow> (\<forall>w. w_db (snd (m w)) = w_db w \<and> w_tx (snd (m w)) = w_tx w)"

lemma db_neutral_call:
  assumes "db_neutral f"
  shows "db_neutral (call server f)"
  using assms by (auto simp: db_neutral_def call_def take_fault_def split: fault.splits)

lemma db_neutral_simple [simp]:
  "db_neutral (ret x)" "db_neutral (throw e)" "db_neutral (get_state f)" "db_neutral (of_sum r)"
  by (auto simp: db_neutral_def effect_simps of_sum_def split: sum.splits)

lemma db_neutral_set:
  assumes "\<And>w. w_db (u w) = w_db w \<and> w_tx (u w) = w_tx w"
  shows "db_neutral (set_state u)"
  using assms by (auto simp: db_neutral_def effect_simps)

lemma db_neutral_if:
  assumes "\<And>w. (c w \<longrightarrow> w_db (snd (f w)) = w_db w \<and> w_tx (snd (f w)) = w_tx w) \<and>
    (\<not> c w \<longrightarrow> w_db (snd (g w)) = w_db w \<and> w_tx (snd (g w)) = w_tx w)"
  shows "db_neutral (\<lambda>w. if c w then f w else g w)"
  using assms by (auto simp: db_neutral_def)

lemma db_neutral_servers:
  "db_neutral connect" "db_neutral (geoadd m p)" "db_neutral (zrem m)"
  "db_neutral (geosearch X p r n)" "db_neutral (hget k f)" "db_neutral (hset k kvs)"
  "db_neutral (kafka_send msg)" "db_neutral (env_var name)" "db_neutral (count_trip_event kind)"
  unfolding connect_def geoadd_def zrem_def geosearch_def hget_def hset_def kafka_send_def
    env_var_def count_trip_event_def
  by (auto intro!: db_neutral_call db_neutral_set simp: db_neutral_if)
     (simp_all add: db_neutral_def of_sum_def effect_simps split: sum.split)

lemma valid_neutral:
  assumes "db_neutral m"
  shows "valid (idle I) m (\<lambda>_. idle I) (\<lambda>_. idle I)"
    and "valid (open_tx I J) m (\<lambda>_. open_tx I J) (\<lambda>_. open_tx I J)"
    and "valid (some_tx I) m (\<lambda>_. some_tx I) (\<lambda>_. some_tx I)"
proof -
  have "w_db w' = w_db w \<and> w_tx w' = w_tx w" if "m w = (r, w')" for w r w'
    using assms that unfolding db_neutral_def by (metis snd_conv)
  then show "valid (idle I) m (\<lambda>_. idle I) (\<lambda>_. idle I)"
    and "valid (open_tx I J) m (\<lambda>_. open_tx I J) (\<lambda>_. open_tx I J)"
    and "valid (some_tx I) m (\<lambda>_. some_tx I) (\<lambda>_. some_tx I)"
    by (auto simp: valid_def idle_def open_tx_def some_tx_def)
qed

lemma call_cases:
  obtains (ok) "call server f w = f (take_fault w)"
    | (lost) "call server f w = (Inl (Unavailable server), take_fault w)"
    | (late) "call server f w = (Inl (Unavailable server), snd (f (take_fault w)))"
  by (cases "next_fault (w_faults w)") (auto simp: call_def)

lemma take_fault_simps [simp]:
  "w_db (take_fault w) = w_db w" "w_tx (take_fault w) = w_tx w" "w_sys (take_fault w) = w_sys w"
  "w_geo (take_fault w) = w_geo w" "w_kafka (take_fault w) = w_kafka w"
  "w_surge (take_fault w) = w_surge w" "w_env (take_fault w) = w_env w"
  "w_outboxRunning (take_fault w) = w_outboxRunning w"
  "w_tripMetrics (take_fault w) = w_tripMetrics w"
  by (simp_all add: take_fault_def)

lemma abort_tx_simps [simp]:
  "w_db (abort_tx w) = w_db w" "w_tx w = None \<Longrightarrow> w_tx (abort_tx w) = None"
  by (simp_all add: abort_tx_def)

lemma close_tx_simps [simp]: "w_db (close_tx w) = w_db w" "w_tx (close_tx w) = None"
  by (simp_all add: close_tx_def)

text \<open>A statement that takes databases satisfying \<open>J\<close> to rows \<open>x\<close> and databases satisfying \<open>K x\<close>.\<close>

definition stmt_ok :: "(db \<Rightarrow> bool) \<Rightarrow> 'a stmt \<Rightarrow> ('a \<Rightarrow> db \<Rightarrow> bool) \<Rightarrow> bool" where
  "stmt_ok J st K \<longleftrightarrow> (\<forall>s d x d' s'. J d \<longrightarrow> st s d = (Inr (x, d'), s') \<longrightarrow> K x d')"

lemma stmt_okI: "(\<And>s d x d' s'. J d \<Longrightarrow> st s d = (Inr (x, d'), s') \<Longrightarrow> K x d') \<Longrightarrow> stmt_ok J st K"
  by (auto simp: stmt_ok_def)

lemma stmt_okD: "st s d = (Inr (x, d'), s') \<Longrightarrow> stmt_ok J st K \<Longrightarrow> J d \<Longrightarrow> K x d'"
  unfolding stmt_ok_def by blast

lemma stmt_ok_select: "(\<And>d. J d \<Longrightarrow> K (f d) d) \<Longrightarrow> stmt_ok J (select f) K"
  by (auto simp: stmt_ok_def select_def)

lemma run_stmt_tx:
  assumes "open_tx I J w" and "stmt_ok J st K"
  shows "run_stmt st w = (Inr x, w') \<Longrightarrow> open_tx I (K x) w'" and "some_tx I (snd (run_stmt st w))"
  using assms
  by (auto simp: run_stmt_def open_tx_def some_tx_def
      split: if_splits prod.splits sum.splits dest: stmt_okD)

text \<open>A failed statement leaves the transaction open and aborted.\<close>

definition failed_tx :: "(db \<Rightarrow> bool) \<Rightarrow> world \<Rightarrow> bool" where
  "failed_tx I w \<longleftrightarrow> I (w_db w) \<and> (\<exists>t. w_tx w = Some t \<and> tx_aborted t)"

lemma failed_open_tx: "failed_tx I w \<Longrightarrow> open_tx I J w"
  by (auto simp: failed_tx_def open_tx_def)

lemma failed_some_tx: "failed_tx I w \<Longrightarrow> some_tx I w"
  by (auto simp: failed_tx_def some_tx_def)

lemma run_stmt_tx_open:
  "w_tx w = Some t \<Longrightarrow> \<exists>t'. w_tx (snd (run_stmt st w)) = Some t' \<and> w_db (snd (run_stmt st w)) = w_db w"
  by (auto simp: run_stmt_def split: prod.splits sum.splits)

lemma valid_query_tx_failed:
  assumes "stmt_ok J st K"
  shows "valid (open_tx I J) (query st) (\<lambda>x. open_tx I (K x)) (\<lambda>_. failed_tx I)"
proof (rule validI)
  fix w x w' assume w: "open_tx I J w" and q: "query st w = (Inr x, w')"
  have "open_tx I J (take_fault w)" using w by (simp add: open_tx_def)
  note r = run_stmt_tx [OF this assms]
  show "open_tx I (K x) w'"
    by (rule call_cases [of "''postgres''" "run_stmt st" w])
      (use q r(1) in \<open>auto simp: query_def split: prod.splits sum.splits\<close>)
next
  fix w e w' assume w: "open_tx I J w" and q: "query st w = (Inl e, w')"
  then obtain t where t: "w_tx w = Some t" by (auto simp: open_tx_def)
  obtain w1 where w': "w' = abort_tx w1" and w1: "call ''postgres'' (run_stmt st) w = (Inl e, w1)"
    using q by (auto simp: query_def split: prod.splits sum.splits)
  then have snd_call: "w1 = snd (call ''postgres'' (run_stmt st) w)" by simp
  have "w_db w1 = w_db w \<and> (\<exists>t'. w_tx w1 = Some t')"
    unfolding snd_call
    by (rule call_cases [of "''postgres''" "run_stmt st" w])
      (use t run_stmt_tx_open [of "take_fault w" t st] in auto)
  then show "failed_tx I w'"
    using w by (auto simp: w' failed_tx_def abort_tx_def open_tx_def)
qed

lemma valid_query_tx:
  assumes "stmt_ok J st K"
  shows "valid (open_tx I J) (query st) (\<lambda>x. open_tx I (K x)) (\<lambda>_. some_tx I)"
  by (rule valid_conseq [OF valid_query_tx_failed [OF assms]]) (auto dest: failed_some_tx)

lemma run_stmt_auto:
  assumes "idle I w" and "stmt_ok I st (\<lambda>x d. K x d \<and> I d)"
  shows "run_stmt st w = (Inr x, w') \<Longrightarrow> idle I w' \<and> K x (w_db w')" and "idle I (snd (run_stmt st w))"
  using assms
  by (auto simp: run_stmt_def idle_def split: if_splits prod.splits sum.splits dest: stmt_okD)

lemma valid_query_auto:
  assumes "stmt_ok I st (\<lambda>x d. K x d \<and> I d)"
  shows "valid (idle I) (query st) (\<lambda>x w. idle I w \<and> K x (w_db w)) (\<lambda>_. idle I)"
proof (rule validI)
  fix w x w' assume w: "idle I w" and q: "query st w = (Inr x, w')"
  have "idle I (take_fault w)" using w by (simp add: idle_def)
  note r = run_stmt_auto [OF this assms]
  show "idle I w' \<and> K x (w_db w')"
    by (rule call_cases [of "''postgres''" "run_stmt st" w])
      (use q r(1) in \<open>auto simp: query_def split: prod.splits sum.splits\<close>)
next
  fix w e w' assume w: "idle I w" and q: "query st w = (Inl e, w')"
  have "idle I (take_fault w)" using w by (simp add: idle_def)
  note r = run_stmt_auto(2) [OF this assms]
  show "idle I w'"
    by (rule call_cases [of "''postgres''" "run_stmt st" w])
      (use q r w in \<open>auto simp: query_def idle_def split: prod.splits sum.splits\<close>)
qed

lemma valid_begin:
  "(\<And>d. I d \<Longrightarrow> J d) \<Longrightarrow> valid (idle I) begin_tx (\<lambda>_. open_tx I J) (\<lambda>_. some_tx I)"
  by (auto simp: valid_def begin_tx_def call_def effect_simps idle_def open_tx_def some_tx_def
      split: fault.splits)

lemma valid_begin_same: "valid (idle I) begin_tx (\<lambda>_. open_tx I I) (\<lambda>_. some_tx I)"
  by (rule valid_begin)

lemma valid_commit:
  "(\<And>d. J d \<Longrightarrow> I d) \<Longrightarrow> valid (open_tx I J) commit (\<lambda>_. idle I) (\<lambda>_. idle I)"
  by (auto simp: valid_def commit_def commit_now_def call_def effect_simps idle_def open_tx_def
      split: fault.splits)

lemma valid_rollback: "valid (some_tx I) rollback (\<lambda>_. idle I) (\<lambda>_. idle I)"
  by (auto simp: valid_def rollback_def call_def effect_simps idle_def some_tx_def
      split: fault.splits)

lemma valid_release: "valid (some_tx I) release (\<lambda>_. idle I) E"
  by (auto simp: valid_def release_def effect_simps idle_def some_tx_def)

lemma valid_rollback_rethrow: "valid (some_tx I) (rollback_rethrow e) Q (\<lambda>_. idle I)"
  unfolding rollback_rethrow_def
  by (rule valid_await [OF valid_rollback]) (simp add: valid_throw)

lemma valid_rollback_quietly: "valid (some_tx I) rollback_quietly (\<lambda>_. idle I) E"
  unfolding rollback_quietly_def
  by (rule valid_try_catch [OF valid_rollback]) (simp add: valid_ret)

text \<open>The whole pattern: connect, a transaction with its handler, release.\<close>

lemma valid_with_client:
  assumes "valid (idle I) body (\<lambda>_. some_tx I) (\<lambda>_. some_tx I)"
  shows "valid (idle I) (with_client body) (\<lambda>_. idle I) (\<lambda>_. idle I)"
  unfolding with_client_def
  by (rule valid_await [OF valid_neutral(1)])
    (auto intro!: valid_finally [OF assms] valid_release db_neutral_servers)

section \<open>What a handler commits\<close>

text \<open>\<open>commits S m\<close>: started with no transaction open, \<open>m\<close> leaves none open and moves the committed
  database by steps of \<open>S\<close>, however the calls it makes fare and whether or not it throws.\<close>

definition commit_rel :: "(db \<Rightarrow> db \<Rightarrow> bool) \<Rightarrow> world \<Rightarrow> world \<Rightarrow> bool" where
  "commit_rel S w w' \<longleftrightarrow> (w_tx w = None \<longrightarrow> w_tx w' = None \<and> S\<^sup>*\<^sup>* (w_db w) (w_db w'))"

definition commits :: "(db \<Rightarrow> db \<Rightarrow> bool) \<Rightarrow> 'a act \<Rightarrow> bool" where
  "commits S m \<longleftrightarrow> keeps (commit_rel S) m"

interpretation commit_rel: effect_relation "commit_rel S" for S
  by unfold_locales (auto simp: commit_rel_def)

lemmas commits_await = commit_rel.keeps_await [folded commits_def]
lemmas commits_ret = commit_rel.keeps_ret [folded commits_def]
lemmas commits_throw = commit_rel.keeps_throw [folded commits_def]
lemmas commits_get = commit_rel.keeps_get [folded commits_def]
lemmas commits_try = commit_rel.keeps_try [folded commits_def]
lemmas commits_finally = commit_rel.keeps_finally [folded commits_def]
lemmas commits_of_sum = commit_rel.keeps_of_sum [folded commits_def]
lemmas commits_for_each = commit_rel.keeps_for_each [folded commits_def]

lemma commitsD:
  assumes "commits S m" and "w_tx w = None" and "m w = (r, w')"
  shows "w_tx w' = None" and "S\<^sup>*\<^sup>* (w_db w) (w_db w')"
  using assms unfolding commits_def keeps_def commit_rel_def by (metis snd_conv)+

lemma commits_mono:
  assumes "commits S m" and "\<And>d d'. S d d' \<Longrightarrow> T d d'"
  shows "commits T m"
proof -
  have "T\<^sup>*\<^sup>* d d'" if "S\<^sup>*\<^sup>* d d'" for d d'
    using that by (induction rule: rtranclp_induct) (auto intro: assms(2) rtranclp.rtrancl_into_rtrancl)
  with assms(1) show ?thesis unfolding commits_def keeps_def commit_rel_def by simp
qed

lemma commits_neutral: "db_neutral m \<Longrightarrow> commits S m"
  by (simp add: commits_def keeps_def commit_rel_def db_neutral_def)

lemma commitsI:
  assumes "\<And>d0. valid (idle (S\<^sup>*\<^sup>* d0)) m (\<lambda>_. idle (S\<^sup>*\<^sup>* d0)) (\<lambda>_. idle (S\<^sup>*\<^sup>* d0))"
  shows "commits S m"
proof -
  have "w_tx w' = None \<and> S\<^sup>*\<^sup>* (w_db w) (w_db w')" if "w_tx w = None" "m w = (r, w')" for w r w'
  proof -
    have "idle (S\<^sup>*\<^sup>* (w_db w)) w" using that(1) by (simp add: idle_def)
    from validD [OF assms this] that(2) have "idle (S\<^sup>*\<^sup>* (w_db w)) w'" by (cases r) auto
    then show ?thesis by (simp add: idle_def)
  qed
  then show ?thesis unfolding commits_def keeps_def commit_rel_def by (metis prod.collapse)
qed

lemma commits_valid:
  assumes "commits S m"
  shows "valid (idle (S\<^sup>*\<^sup>* d0)) m (\<lambda>_. idle (S\<^sup>*\<^sup>* d0)) (\<lambda>_. idle (S\<^sup>*\<^sup>* d0))"
  by (rule validI) (auto simp: idle_def dest: commitsD [OF assms])

lemma commits_query:
  assumes "\<And>s d x d' s'. st s d = (Inr (x, d'), s') \<Longrightarrow> S\<^sup>*\<^sup>* d d'"
  shows "commits S (query st)"
proof (rule commitsI)
  fix d0
  have "stmt_ok (S\<^sup>*\<^sup>* d0) st (\<lambda>_ d'. True \<and> S\<^sup>*\<^sup>* d0 d')"
    by (rule stmt_okI) (auto dest: assms)
  from valid_query_auto [OF this]
  show "valid (idle (S\<^sup>*\<^sup>* d0)) (query st) (\<lambda>_. idle (S\<^sup>*\<^sup>* d0)) (\<lambda>_. idle (S\<^sup>*\<^sup>* d0))"
    by (rule valid_conseq) auto
qed

lemma commits_with_client:
  assumes "\<And>d0. valid (idle (S\<^sup>*\<^sup>* d0)) body (\<lambda>_. some_tx (S\<^sup>*\<^sup>* d0)) (\<lambda>_. some_tx (S\<^sup>*\<^sup>* d0))"
  shows "commits S (with_client body)"
  by (rule commitsI, rule valid_with_client, rule assms)

text \<open>\<open>BEGIN\<close>, a body that ends with \<open>COMMIT\<close>, and a handler for what it throws.\<close>

lemma commits_tx:
  assumes "\<And>d0. valid (open_tx (S\<^sup>*\<^sup>* d0) (S\<^sup>*\<^sup>* d0)) body (\<lambda>_. some_tx (S\<^sup>*\<^sup>* d0)) (\<lambda>_. some_tx (S\<^sup>*\<^sup>* d0))"
    and "\<And>d0 e. valid (some_tx (S\<^sup>*\<^sup>* d0)) (h e) (\<lambda>_. some_tx (S\<^sup>*\<^sup>* d0)) (\<lambda>_. some_tx (S\<^sup>*\<^sup>* d0))"
  shows "commits S (with_client (try_catch (await begin_tx (\<lambda>_. body)) h))"
  by (rule commits_with_client, rule valid_try_catch [OF valid_await [OF valid_begin_same assms(1)] assms(2)])

lemma rollback_rethrow_some:
  "valid (some_tx I) (rollback_rethrow e) (\<lambda>_. some_tx I) (\<lambda>_. some_tx I)"
  by (rule valid_conseq [OF valid_rollback_rethrow]) (auto dest: idle_some_tx)

lemma rollback_quietly_throw_some:
  "valid (some_tx I) (await rollback_quietly (\<lambda>_. throw e)) (\<lambda>_. some_tx I) (\<lambda>_. some_tx I)"
  by (rule valid_await [OF valid_rollback_quietly]) (auto intro!: valid_throw dest: idle_some_tx)

lemma valid_commit_ret: "valid (open_tx I I) (await commit (\<lambda>_. ret x)) (\<lambda>_. some_tx I) (\<lambda>_. some_tx I)"
proof (rule valid_await [where R = "\<lambda>_. some_tx I"])
  show "valid (open_tx I I) commit (\<lambda>_. some_tx I) (\<lambda>_. some_tx I)"
    by (rule valid_conseq [OF valid_commit]) (auto dest: idle_some_tx)
qed (simp add: valid_ret)

end
