(* ===== verification/TripService.thy ===== *)
theory TripService
  imports World
begin

text \<open>
  The trip service of the API, \<open>apps/api/src/trips/trips.service.ts\<close>, with its statements, the
  transactional outbox and the fare. One definition per method, in the order of the file; a
  statement is the definition before the method that issues it. The service's own state
  (\<open>outboxRunning\<close>, the trip counters) is in the world.
\<close>

section \<open>Requests\<close>

text \<open>\<open>CreateTripDto\<close>: \<open>IsLatitude\<close> and \<open>IsLongitude\<close> let a coordinate be a number or a numeric
  string, so a coordinate is the JSON value as it came.\<close>

record geo_point_dto =
  gp_lat :: json
  gp_lon :: json

record create_trip_dto =
  ct_pickup :: geo_point_dto
  ct_dropoff :: geo_point_dto
  ct_pickup_address :: "string option"
  ct_dropoff_address :: "string option"

record rate_trip_dto =
  rd_rating :: int
  rd_comment :: "string option"

text \<open>\<open>JwtPayload\<close>.\<close>

record actor =
  ac_sub :: string
  ac_role :: string

definition geo_point_json :: "geo_point_dto \<Rightarrow> json" where
  "geo_point_json g = JObj [(''lat'', gp_lat g), (''lon'', gp_lon g)]"

definition optional_field :: "string \<Rightarrow> string option \<Rightarrow> (string \<times> json) list" where
  "optional_field k v = (case v of None \<Rightarrow> [] | Some s \<Rightarrow> [(k, JStr s)])"

definition create_trip_json :: "create_trip_dto \<Rightarrow> json" where
  "create_trip_json dto =
     JObj ([(''pickup'', geo_point_json (ct_pickup dto)), (''dropoff'', geo_point_json (ct_dropoff dto))]
           @ optional_field ''pickup_address'' (ct_pickup_address dto)
           @ optional_field ''dropoff_address'' (ct_dropoff_address dto))"

text \<open>A coordinate as a \<open>float8\<close> parameter of a statement.\<close>

definition float8_param :: "json \<Rightarrow> rat option" where
  "float8_param j = (case to_number j of Num q \<Rightarrow> Some q | _ \<Rightarrow> None)"

definition point_param :: "geo_point_dto \<Rightarrow> point option" where
  "point_param g =
     (case (float8_param (gp_lon g), float8_param (gp_lat g)) of
        (Some lon, Some lat) \<Rightarrow> Some \<lparr>pt_lon = lon, pt_lat = lat\<rparr>
      | _ \<Rightarrow> None)"

section \<open>Events\<close>

definition insert_trip_event :: "string \<Rightarrow> string \<Rightarrow> json \<Rightarrow> int stmt" where
  "insert_trip_event tripId eventType payload = (\<lambda>s d.
     (let s' = s\<lparr>sys_events := sys_events s + 1\<rparr>;
          row = \<lparr>te_id = sys_events s, te_trip_id = tripId, te_event_type = eventType,
                 te_payload = payload, te_created_at = sys_now s, te_published_at = None,
                 te_publish_attempts = 0, te_last_publish_error = None\<rparr>
      in if tripId \<notin> tr_id ` set (db_trips d) then (Inl foreign_key_violation, s')
         else if te_id row \<in> te_id ` set (db_trip_events d) then (Inl (unique_violation ''trip_events_pkey''), s')
         else (Inr (te_id row, d\<lparr>db_trip_events := db_trip_events d @ [row]\<rparr>), s')))"

definition recordTripEvent :: "string \<Rightarrow> string \<Rightarrow> (string \<times> json) list \<Rightarrow> unit act" where
  "recordTripEvent tripId eventType payload =
     await (query (insert_trip_event tripId eventType (JObj payload))) (\<lambda>_. ret ())"

definition key_of :: "json option \<Rightarrow> string option" where
  "key_of v = (case v of Some (JStr s) \<Rightarrow> Some s | _ \<Rightarrow> None)"

definition publishTripEvent :: "(string \<times> json) list \<Rightarrow> unit act" where
  "publishTripEvent payload =
     await (env_var ''TOPIC_TRIP_EVENTS'') (\<lambda>topic.
       kafka_send \<lparr>km_topic = topic, km_key = key_of (map_of payload ''trip_id''),
                   km_value = Some (JsonText (JObj payload))\<rparr>)"

text \<open>What the spread \<open>...parsed\<close> copies: the entries of an object, the elements of an array or the
  characters of a string by index, nothing of other values.\<close>

definition spread_entries :: "json \<Rightarrow> (string \<times> json) list" where
  "spread_entries j =
     (case j of
        JObj kvs \<Rightarrow> kvs
      | JArr xs \<Rightarrow> map (\<lambda>i. (show_int (int i), xs ! i)) [0..<length xs]
      | JStr s \<Rightarrow> map (\<lambda>i. (show_int (int i), JStr [s ! i])) [0..<length s]
      | _ \<Rightarrow> [])"

definition outboxPayload :: "ext \<Rightarrow> string \<Rightarrow> string \<Rightarrow> json \<Rightarrow> exn + (string \<times> json) list" where
  "outboxPayload X tripId eventType payload =
     (let base = [(''type'', JStr (''trip.'' @ eventType)), (''trip_id'', JStr tripId)]
      in case payload of
           JStr s \<Rightarrow>
             (case x_parseJson X s of
                None \<Rightarrow> Inl (JsError ''SyntaxError'')
              | Some j \<Rightarrow> Inr (spread base (spread_entries j)))
         | JNull \<Rightarrow> Inr base
         | j \<Rightarrow> Inr (spread base (spread_entries j)))"

subsection \<open>The outbox\<close>

definition select_pending :: "(trip_event_row list) stmt" where
  "select_pending = select (\<lambda>d.
     take 50 (sort_key te_id (filter (\<lambda>e. te_published_at e = None) (db_trip_events d))))"

definition update_events :: "int \<Rightarrow> (rat \<Rightarrow> trip_event_row \<Rightarrow> trip_event_row) \<Rightarrow> unit stmt" where
  "update_events eid u = (\<lambda>s d.
     (Inr ((), d\<lparr>db_trip_events :=
        update_rows (\<lambda>e. te_id e = eid) (u (sys_now s)) (db_trip_events d)\<rparr>), s))"

definition mark_published :: "int \<Rightarrow> unit stmt" where
  "mark_published eid = update_events eid (\<lambda>now e.
     e\<lparr>te_published_at := Some now, te_publish_attempts := te_publish_attempts e + 1,
       te_last_publish_error := None\<rparr>)"

definition mark_publish_failed :: "int \<Rightarrow> string \<Rightarrow> unit stmt" where
  "mark_publish_failed eid err = update_events eid (\<lambda>now e.
     e\<lparr>te_publish_attempts := te_publish_attempts e + 1,
       te_last_publish_error := Some (take 500 err)\<rparr>)"

text \<open>\<open>String(e)\<close>.\<close>

fun exn_text :: "exn \<Rightarrow> string" where
  "exn_text (Http status code msg) = ''HttpException: '' @ msg"
| "exn_text (Pg code _) = ''error: '' @ code"
| "exn_text (Unavailable server) = ''Error: '' @ server @ '' unavailable''"
| "exn_text (JsError msg) = ''Error: '' @ msg"

definition of_exn :: "exn + 'a \<Rightarrow> 'a act" where
  "of_exn r = (case r of Inl e \<Rightarrow> throw e | Inr x \<Rightarrow> ret x)"

definition publish_row :: "ext \<Rightarrow> trip_event_row \<Rightarrow> unit act" where
  "publish_row X row =
     await (of_exn (outboxPayload X (te_trip_id row) (te_event_type row) (te_payload row)))
       (\<lambda>eventPayload.
         try_catch
           (await (publishTripEvent eventPayload) (\<lambda>_. query (mark_published (te_id row))))
           (\<lambda>e. query (mark_publish_failed (te_id row) (exn_text e))))"

definition outbox_flush :: "ext \<Rightarrow> unit act" where
  "outbox_flush X =
     await begin_tx (\<lambda>_.
     await (query select_pending) (\<lambda>rows.
     await (for_each rows (publish_row X)) (\<lambda>_.
     commit)))"

definition publishPendingTripEvents :: "ext \<Rightarrow> unit act" where
  "publishPendingTripEvents X =
     await (get_state w_outboxRunning) (\<lambda>running.
     if running then ret ()
     else
       await (set_state (\<lambda>w. w\<lparr>w_outboxRunning := True\<rparr>)) (\<lambda>_.
       await connect (\<lambda>_.
       finally_do
         (try_catch (outbox_flush X) (\<lambda>e. rollback_quietly))
         (await release (\<lambda>_. set_state (\<lambda>w. w\<lparr>w_outboxRunning := False\<rparr>))))))"

text \<open>\<open>onModuleInit\<close>: the interval of the outbox timer, and a first flush.\<close>

definition onModuleInit :: "ext \<Rightarrow> rat act" where
  "onModuleInit X =
     await (get_state w_env) (\<lambda>env.
     await (of_sum (requiredNumberEnv env ''TRIP_EVENT_OUTBOX_INTERVAL_MS'' (Some 1000) None))
       (\<lambda>intervalMs.
     await (try_catch (publishPendingTripEvents X) (\<lambda>_. ret ())) (\<lambda>_.
     ret (max 1000 intervalMs))))"

definition select_location :: "string \<Rightarrow> (point option) stmt" where
  "select_location driverId = select (\<lambda>d.
     map_option dl_location (find (\<lambda>l. dl_driver_id l = driverId) (db_driver_locations d)))"

definition restoreDriverGeoIndex :: "string \<Rightarrow> unit act" where
  "restoreDriverGeoIndex driverId =
     await (query (select_location driverId)) (\<lambda>row.
       case row of None \<Rightarrow> ret () | Some p \<Rightarrow> geoadd driverId p)"

section \<open>Requesting a trip\<close>

record trip_ref =
  ref_id :: string
  ref_status :: trip_status
  ref_requested_at :: rat

definition trip_ref_of :: "trip_row \<Rightarrow> trip_ref" where
  "trip_ref_of t = \<lparr>ref_id = tr_id t, ref_status = tr_status t, ref_requested_at = tr_requested_at t\<rparr>"

definition new_trip :: "ext \<Rightarrow> sys \<Rightarrow> string \<Rightarrow> create_trip_dto \<Rightarrow> point \<Rightarrow> point \<Rightarrow> trip_row" where
  "new_trip X s riderId dto pickup dropoff =
     \<lparr>tr_id = x_uuid X (sys_uuids s), tr_rider_id = riderId, tr_driver_id = None,
      tr_vehicle_id = None, tr_status = Requested, tr_pickup = pickup, tr_dropoff = dropoff,
      tr_pickup_address = ct_pickup_address dto, tr_dropoff_address = ct_dropoff_address dto,
      tr_requested_at = sys_now s, tr_matched_at = None, tr_started_at = None,
      tr_completed_at = None, tr_fare_total = None, tr_currency = ''USD''\<rparr>"

definition insert_trip :: "ext \<Rightarrow> string \<Rightarrow> create_trip_dto \<Rightarrow> (trip_ref list) stmt" where
  "insert_trip X riderId dto = (\<lambda>s d.
     (case (point_param (ct_pickup dto), point_param (ct_dropoff dto)) of
        (Some pickup, Some dropoff) \<Rightarrow>
          (let s' = s\<lparr>sys_uuids := sys_uuids s + 1\<rparr>; row = new_trip X s riderId dto pickup dropoff
           in if riderId \<notin> us_id ` set (db_users d) then (Inl foreign_key_violation, s')
              else if tr_id row \<in> tr_id ` set (db_trips d) then (Inl (unique_violation ''trips_pkey''), s')
              else (Inr ([trip_ref_of row], d\<lparr>db_trips := db_trips d @ [row]\<rparr>), s'))
      | _ \<Rightarrow> (Inl (Pg ''22P02'' None), s)))"

definition create :: "ext \<Rightarrow> create_trip_dto \<Rightarrow> string \<Rightarrow> trip_ref act" where
  "create X dto riderId =
     await (with_client
       (try_catch
         (await begin_tx (\<lambda>_.
          await (query (insert_trip X riderId dto)) (\<lambda>rows.
          case rows of
            [] \<Rightarrow> throw (Http 400 None ''trip could not be created'')
          | created # _ \<Rightarrow>
              await (recordTripEvent (ref_id created) ''requested''
                       [(''rider_id'', JStr riderId), (''dto'', create_trip_json dto)]) (\<lambda>_.
              await commit (\<lambda>_. ret created)))))
         rollback_rethrow)) (\<lambda>trip.
     await (publishPendingTripEvents X) (\<lambda>_.
     await (count_trip_event ''requested'') (\<lambda>_.
     ret trip)))"

section \<open>Reading trips\<close>

definition allowedStatuses :: "string list" where
  "allowedStatuses = [''requested'', ''matched'', ''in_progress'', ''completed'',
     ''cancelled_by_rider'', ''cancelled_by_driver'', ''expired'']"

definition visible_to :: "actor \<Rightarrow> trip_row \<Rightarrow> bool" where
  "visible_to actor t \<longleftrightarrow>
     ac_role actor = ''admin'' \<or>
     (ac_role actor = ''rider'' \<and> tr_rider_id t = ac_sub actor) \<or>
     (ac_role actor = ''driver'' \<and> tr_driver_id t = Some (ac_sub actor))"

record trip_summary =
  su_id :: string
  su_status :: trip_status
  su_requested_at :: rat
  su_fare_total :: "rat option"
  su_currency :: string

definition trip_summary_of :: "trip_row \<Rightarrow> trip_summary" where
  "trip_summary_of t = \<lparr>su_id = tr_id t, su_status = tr_status t, su_requested_at = tr_requested_at t,
     su_fare_total = tr_fare_total t, su_currency = tr_currency t\<rparr>"

definition safe_limit :: "jsnum \<Rightarrow> rat" where
  "safe_limit limit =
     min 100 (max 1 (case limit of Num q \<Rightarrow> of_int (floor q) | _ \<Rightarrow> 50))"

definition select_trips :: "string option \<Rightarrow> rat \<Rightarrow> actor \<Rightarrow> (trip_summary list) stmt" where
  "select_trips status maxRows actor = select (\<lambda>d.
     map trip_summary_of (take (nat (floor maxRows)) (sort_key (\<lambda>t. - tr_requested_at t)
       (filter (\<lambda>t. (status = None \<or> Some (trip_status_text (tr_status t)) = status) \<and>
                    visible_to actor t) (db_trips d)))))"

definition list_trips :: "string option \<Rightarrow> jsnum \<Rightarrow> actor \<Rightarrow> (trip_summary list) act" where
  "list_trips status limit actor =
     (if (case status of None \<Rightarrow> False | Some st \<Rightarrow> st \<noteq> [] \<and> st \<notin> set allowedStatuses)
      then throw (Http 400 None (''status must be one of: '' @ join_with '', '' allowedStatuses))
      else query (select_trips status (safe_limit limit) actor))"

record trip_detail =
  td_id :: string
  td_rider_id :: string
  td_driver_id :: "string option"
  td_status :: trip_status
  td_pickup_geo :: string
  td_dropoff_geo :: string
  td_requested_at :: rat
  td_matched_at :: "rat option"
  td_completed_at :: "rat option"
  td_fare_total :: "rat option"
  td_currency :: string

definition trip_detail_of :: "ext \<Rightarrow> trip_row \<Rightarrow> trip_detail" where
  "trip_detail_of X t = \<lparr>td_id = tr_id t, td_rider_id = tr_rider_id t, td_driver_id = tr_driver_id t,
     td_status = tr_status t, td_pickup_geo = x_asGeoJSON X (tr_pickup t),
     td_dropoff_geo = x_asGeoJSON X (tr_dropoff t), td_requested_at = tr_requested_at t,
     td_matched_at = tr_matched_at t, td_completed_at = tr_completed_at t,
     td_fare_total = tr_fare_total t, td_currency = tr_currency t\<rparr>"

definition byId :: "ext \<Rightarrow> string \<Rightarrow> actor \<Rightarrow> trip_detail act" where
  "byId X tripId actor =
     await (query (select (\<lambda>d. map (trip_detail_of X)
       (filter (\<lambda>t. tr_id t = tripId \<and> visible_to actor t) (db_trips d))))) (\<lambda>rows.
     case rows of
       [] \<Rightarrow> throw (Http 404 None (''trip '' @ tripId @ '' not found''))
     | row # _ \<Rightarrow> ret row)"

section \<open>Cancelling and starting\<close>

definition update_trips ::
    "(trip_row \<Rightarrow> bool) \<Rightarrow> (rat \<Rightarrow> trip_row \<Rightarrow> trip_row) \<Rightarrow> (trip_row list) stmt" where
  "update_trips p u = (\<lambda>s d.
     (Inr (returning p (u (sys_now s)) (db_trips d),
           d\<lparr>db_trips := update_rows p (u (sys_now s)) (db_trips d)\<rparr>), s))"

definition set_driver_status :: "string \<Rightarrow> driver_status \<Rightarrow> unit stmt" where
  "set_driver_status userId st = (\<lambda>s d.
     (Inr ((), d\<lparr>db_drivers :=
        update_rows (\<lambda>r. dr_user_id r = userId) (\<lambda>r. r\<lparr>dr_status := st\<rparr>) (db_drivers d)\<rparr>), s))"

definition cancel_trip_stmt :: "string \<Rightarrow> string \<Rightarrow> bool \<Rightarrow> (trip_row list) stmt" where
  "cancel_trip_stmt tripId actorId by_driver = update_trips
     (\<lambda>t. tr_id t = tripId \<and>
        (if by_driver then tr_driver_id t = Some actorId else tr_rider_id t = actorId) \<and>
        tr_status t \<in> {Requested, Matched})
     (\<lambda>now t. t\<lparr>tr_status := if by_driver then CancelledByDriver else CancelledByRider\<rparr>)"

definition cancel :: "ext \<Rightarrow> string \<Rightarrow> string \<Rightarrow> string \<Rightarrow> trip_row act" where
  "cancel X tripId actorId actorRole =
     (if actorRole \<noteq> ''rider'' \<and> actorRole \<noteq> ''driver''
      then throw (Http 400 None ''only rider or driver can cancel trips'')
      else
        let by_driver = (actorRole = ''driver'');
            newStatus = (if by_driver then CancelledByDriver else CancelledByRider)
        in
        await (with_client
          (try_catch
            (await begin_tx (\<lambda>_.
             await (query (cancel_trip_stmt tripId actorId by_driver)) (\<lambda>rows.
             await (case rows of
                      [] \<Rightarrow> ret ()
                    | row # _ \<Rightarrow>
                        await (case tr_driver_id row of
                                 None \<Rightarrow> ret ()
                               | Some driverId \<Rightarrow> query (set_driver_status driverId Online)) (\<lambda>_.
                        recordTripEvent tripId ''cancelled''
                          [(''by'', JStr actorRole), (''status'', JStr (trip_status_text newStatus))]))
               (\<lambda>_.
             await commit (\<lambda>_. ret rows)))))
            rollback_rethrow)) (\<lambda>rows.
        case rows of
          [] \<Rightarrow> throw (Http 404 None (''trip '' @ tripId @ '' not cancellable''))
        | row # _ \<Rightarrow>
            await (case tr_driver_id row of None \<Rightarrow> ret () | Some driverId \<Rightarrow> restoreDriverGeoIndex driverId)
              (\<lambda>_.
            await (publishPendingTripEvents X) (\<lambda>_.
            await (count_trip_event ''cancelled'') (\<lambda>_.
            ret row)))))"

definition start_trip_stmt :: "string \<Rightarrow> string \<Rightarrow> (trip_row list) stmt" where
  "start_trip_stmt tripId driverId = update_trips
     (\<lambda>t. tr_id t = tripId \<and> tr_driver_id t = Some driverId \<and> tr_status t = Matched)
     (\<lambda>now t. t\<lparr>tr_status := InProgress, tr_started_at := Some now\<rparr>)"

definition start :: "ext \<Rightarrow> string \<Rightarrow> actor \<Rightarrow> trip_row act" where
  "start X tripId actor =
     (if ac_role actor \<noteq> ''driver''
      then throw (Http 400 None ''only the matched driver can start a trip'')
      else
        await (with_client
          (try_catch
            (await begin_tx (\<lambda>_.
             await (query (start_trip_stmt tripId (ac_sub actor))) (\<lambda>rows.
             await (case rows of
                      [] \<Rightarrow> ret ()
                    | _ \<Rightarrow> recordTripEvent tripId ''started'' [(''driver_id'', JStr (ac_sub actor))]) (\<lambda>_.
             await commit (\<lambda>_. ret rows)))))
            rollback_rethrow)) (\<lambda>rows.
        case rows of
          [] \<Rightarrow> throw (Http 404 None (''trip '' @ tripId @ '' not startable''))
        | trip # _ \<Rightarrow>
            await (publishPendingTripEvents X) (\<lambda>_.
            await (count_trip_event ''started'') (\<lambda>_.
            ret trip))))"

section \<open>Completing: the fare\<close>

text \<open>The number a numeric text of the server stands for; the server prints no other text.\<close>

definition num_val :: "jsnum \<Rightarrow> rat" where
  "num_val x = (case x of Num q \<Rightarrow> q | _ \<Rightarrow> 0)"

definition surge_of_cache :: "string option \<Rightarrow> rat option" where
  "surge_of_cache cached =
     (case cached of
        None \<Rightarrow> None
      | Some c \<Rightarrow>
          if c = [] then None
          else (case js_Number c of Num n \<Rightarrow> if 1 \<le> n then Some n else None | _ \<Rightarrow> None))"

definition surge_fallback :: "string option \<Rightarrow> rat" where
  "surge_fallback pgMultiplier =
     (let fallback = (case pgMultiplier of
                        None \<Rightarrow> Num 1
                      | Some s \<Rightarrow> if s = [] then Num 1 else js_Number s)
      in case fallback of Num n \<Rightarrow> if 1 \<le> n then n else 1 | _ \<Rightarrow> 1)"

definition resolveSurge :: "string option \<Rightarrow> string option \<Rightarrow> rat act" where
  "resolveSurge zoneId pgMultiplier =
     (case zoneId of
        None \<Rightarrow> ret 1
      | Some z \<Rightarrow>
          if z = [] then ret 1
          else
            await (try_catch
                     (await (hget (''surge:zone:'' @ z) ''multiplier'') (\<lambda>cached. ret (surge_of_cache cached)))
                     (\<lambda>e. ret None)) (\<lambda>found.
            case found of Some n \<Rightarrow> ret n | None \<Rightarrow> ret (surge_fallback pgMultiplier)))"

definition fare_total :: "rat \<Rightarrow> rat \<Rightarrow> rat \<Rightarrow> rat" where
  "fare_total distanceKm durationMin surgeMultiplier =
     round_cents
       (fl (fl (fl (5 / 2 + fl (distanceKm * fl (8 / 10))) + fl (durationMin * fl (18 / 100)))
            * surgeMultiplier))"

record completed_row =
  cp_id :: string
  cp_distance_km :: string
  cp_duration_min :: string
  cp_zone_id :: "string option"
  cp_zone_multiplier :: "string option"

definition duration_minutes :: "trip_row \<Rightarrow> rat \<Rightarrow> rat" where
  "duration_minutes t completed_at =
     (let since = (case tr_started_at t of
                     Some s \<Rightarrow> s
                   | None \<Rightarrow> (case tr_matched_at t of Some m \<Rightarrow> m | None \<Rightarrow> tr_requested_at t))
      in pg_round 2 (max ((completed_at - since) / 1000 / 60) 1))"

definition zone_of :: "ext \<Rightarrow> db \<Rightarrow> point \<Rightarrow> surge_zone_row option" where
  "zone_of X d p = find (\<lambda>z. x_covers X (sz_polygon z) p) (db_surge_zones d)"

definition complete_trip_stmt :: "ext \<Rightarrow> string \<Rightarrow> string \<Rightarrow> (completed_row list) stmt" where
  "complete_trip_stmt X tripId driverId = (\<lambda>s d.
     (let p = (\<lambda>t. tr_id t = tripId \<and> tr_driver_id t = Some driverId \<and> tr_status t = InProgress);
          u = (\<lambda>t. t\<lparr>tr_status := Completed, tr_completed_at := Some (sys_now s)\<rparr>);
          r = (\<lambda>t. \<lparr>cp_id = tr_id t,
                 cp_distance_km = pg_numeric_text 3
                   (pg_round 3 (x_distance X (tr_pickup t) (tr_dropoff t) / 1000)),
                 cp_duration_min = pg_numeric_text 2 (duration_minutes t (sys_now s)),
                 cp_zone_id = map_option sz_id (zone_of X d (tr_pickup t)),
                 cp_zone_multiplier =
                   map_option (\<lambda>z. pg_numeric_text 2 (sz_base_multiplier z)) (zone_of X d (tr_pickup t))\<rparr>)
      in (Inr (map r (returning p u (db_trips d)), d\<lparr>db_trips := update_rows p u (db_trips d)\<rparr>), s)))"

definition upsert_fare :: "string \<Rightarrow> rat \<Rightarrow> rat \<Rightarrow> rat \<Rightarrow> rat \<Rightarrow> rat \<Rightarrow> unit stmt" where
  "upsert_fare tripId base distanceKm durationMin surge fareTotal = (\<lambda>s d.
     (case (pg_numeric 10 2 (js_decimal base), pg_numeric 7 3 (js_decimal distanceKm),
            pg_numeric 7 2 (js_decimal durationMin), pg_numeric 3 2 (js_decimal surge),
            pg_numeric 10 2 (js_decimal fareTotal)) of
        (Some b, Some km, Some mins, Some sm, Some tot) \<Rightarrow>
          if km < 0 \<or> mins < 0 \<or> sm < 1 then (Inl check_violation, s)
          else if tripId \<notin> tr_id ` set (db_trips d) then (Inl foreign_key_violation, s)
          else if tripId \<in> fr_trip_id ` set (db_fare_records d)
          then (Inr ((), d\<lparr>db_fare_records := update_rows (\<lambda>f. fr_trip_id f = tripId)
                 (\<lambda>f. f\<lparr>fr_distance_km := km, fr_duration_min := mins, fr_surge_multiplier := sm,
                        fr_total := tot, fr_currency := ''USD''\<rparr>) (db_fare_records d)\<rparr>), s)
          else (Inr ((), d\<lparr>db_fare_records := db_fare_records d @
                 [\<lparr>fr_trip_id = tripId, fr_base_fare = b, fr_distance_km = km, fr_duration_min = mins,
                   fr_surge_multiplier = sm, fr_total = tot, fr_currency = ''USD''\<rparr>]\<rparr>), s)
      | _ \<Rightarrow> (Inl numeric_out_of_range, s)))"

definition set_fare_total :: "string \<Rightarrow> rat \<Rightarrow> unit stmt" where
  "set_fare_total tripId fareTotal = (\<lambda>s d.
     (case pg_numeric 10 2 (js_decimal fareTotal) of
        None \<Rightarrow> (Inl numeric_out_of_range, s)
      | Some tot \<Rightarrow>
          (Inr ((), d\<lparr>db_trips := update_rows (\<lambda>t. tr_id t = tripId)
             (\<lambda>t. t\<lparr>tr_fare_total := Some tot, tr_currency := ''USD''\<rparr>) (db_trips d)\<rparr>), s)))"

record completed_result =
  co_id :: string
  co_status :: string
  co_distance_km :: string
  co_duration_min :: string
  co_surge_multiplier :: string
  co_total :: string
  co_fare_total :: string
  co_currency :: string

definition complete_body :: "ext \<Rightarrow> string \<Rightarrow> actor \<Rightarrow> completed_result act" where
  "complete_body X tripId actor =
     await begin_tx (\<lambda>_.
     await (query (complete_trip_stmt X tripId (ac_sub actor))) (\<lambda>rows.
     case rows of
       [] \<Rightarrow>
         await rollback (\<lambda>_. throw (Http 404 None (''trip '' @ tripId @ '' not completable'')))
     | fare # _ \<Rightarrow>
         let distanceKm = num_val (js_Number (cp_distance_km fare));
             durationMin = num_val (js_Number (cp_duration_min fare))
         in
         await (resolveSurge (cp_zone_id fare) (cp_zone_multiplier fare)) (\<lambda>surgeMultiplier.
         let fareTotal = fare_total distanceKm durationMin surgeMultiplier;
             result = \<lparr>co_id = tripId, co_status = ''completed'',
                       co_distance_km = to_fixed 3 distanceKm, co_duration_min = to_fixed 2 durationMin,
                       co_surge_multiplier = to_fixed 2 surgeMultiplier, co_total = to_fixed 2 fareTotal,
                       co_fare_total = to_fixed 2 fareTotal, co_currency = ''USD''\<rparr>
         in
         await (query (upsert_fare tripId (5 / 2) distanceKm durationMin surgeMultiplier fareTotal)) (\<lambda>_.
         await (query (set_fare_total tripId fareTotal)) (\<lambda>_.
         await (query (set_driver_status (ac_sub actor) Online)) (\<lambda>_.
         await (recordTripEvent tripId ''completed''
                  [(''driver_id'', JStr (ac_sub actor)), (''fare_total'', JStr (co_total result)),
                   (''distance_km'', JStr (co_distance_km result)),
                   (''duration_min'', JStr (co_duration_min result)),
                   (''surge_multiplier'', JStr (co_surge_multiplier result))]) (\<lambda>_.
         await commit (\<lambda>_. ret result))))))))"

definition complete :: "ext \<Rightarrow> string \<Rightarrow> actor \<Rightarrow> completed_result act" where
  "complete X tripId actor =
     (if ac_role actor \<noteq> ''driver''
      then throw (Http 400 None ''only the matched driver can complete a trip'')
      else
        await (with_client
          (try_catch (complete_body X tripId actor)
             (\<lambda>e. await rollback_quietly (\<lambda>_. throw e)))) (\<lambda>result.
        await (restoreDriverGeoIndex (ac_sub actor)) (\<lambda>_.
        await (publishPendingTripEvents X) (\<lambda>_.
        await (count_trip_event ''completed'') (\<lambda>_.
        ret result)))))"

section \<open>Rating\<close>

definition select_rateable :: "string \<Rightarrow> string \<Rightarrow> (string list) stmt" where
  "select_rateable tripId riderId = select (\<lambda>d.
     List.map_filter tr_driver_id
       (filter (\<lambda>t. tr_id t = tripId \<and> tr_rider_id t = riderId \<and> tr_status t = Completed)
          (db_trips d)))"

text \<open>The trigger \<open>trip_ratings_apply\<close> of \<open>0004_trip_ratings.sql\<close>.\<close>

definition apply_rating :: "int \<Rightarrow> driver_row \<Rightarrow> driver_row" where
  "apply_rating rating r =
     (let new_count = dr_rating_count r + 1;
          new_avg = pg_round 2 ((dr_rating_avg r * of_int (dr_rating_count r) + of_int rating)
                                / of_int new_count)
      in r\<lparr>dr_rating_count := new_count, dr_rating_avg := new_avg\<rparr>)"

definition insert_rating :: "string \<Rightarrow> string \<Rightarrow> string \<Rightarrow> rate_trip_dto \<Rightarrow> unit stmt" where
  "insert_rating tripId riderId driverId dto = (\<lambda>s d.
     (if \<not> (1 \<le> rd_rating dto \<and> rd_rating dto \<le> 5) then (Inl check_violation, s)
      else if tripId \<in> rt_trip_id ` set (db_trip_ratings d) then (Inl (unique_violation ''trip_ratings_pkey''), s)
      else if tripId \<notin> tr_id ` set (db_trips d) \<or> riderId \<notin> us_id ` set (db_users d) \<or>
              driverId \<notin> dr_user_id ` set (db_drivers d) then (Inl foreign_key_violation, s)
      else (Inr ((), d\<lparr>db_trip_ratings := db_trip_ratings d @
                [\<lparr>rt_trip_id = tripId, rt_rider_id = riderId, rt_driver_id = driverId,
                  rt_rating = rd_rating dto, rt_comment = rd_comment dto\<rparr>],
              db_drivers := update_rows (\<lambda>r. dr_user_id r = driverId) (apply_rating (rd_rating dto))
                (db_drivers d)\<rparr>), s)))"

definition rate :: "ext \<Rightarrow> string \<Rightarrow> string \<Rightarrow> rate_trip_dto \<Rightarrow> (string \<times> int) act" where
  "rate X tripId riderId dto =
     await (with_client
       (try_catch
         (await begin_tx (\<lambda>_.
          await (query (select_rateable tripId riderId)) (\<lambda>rows.
          case rows of
            [] \<Rightarrow>
              await rollback (\<lambda>_. throw (Http 404 None (''trip '' @ tripId @ '' not rateable'')))
          | driverId # _ \<Rightarrow>
              await (query (insert_rating tripId riderId driverId dto)) (\<lambda>_.
              await (recordTripEvent tripId ''rated'' [(''rating'', JNum (of_int (rd_rating dto)))]) (\<lambda>_.
              commit)))))
         (\<lambda>e. await rollback_quietly (\<lambda>_.
            if is_unique_violation e then throw (Http 409 None ''trip already rated'')
            else throw e)))) (\<lambda>_.
     await (publishPendingTripEvents X) (\<lambda>_.
     await (count_trip_event ''rated'') (\<lambda>_.
     ret (tripId, rd_rating dto))))"

end
