(* ===== verification/RegistrySpec.thy ===== *)
theory RegistrySpec
  imports World
begin

text \<open>
  What the database promises about accounts, drivers and vehicles: the relation \<open>registry_step\<close> lists
  the changes a committed statement may make to these tables, and to the positions and surge zones,
  which no booking depends on. The bookings are the subject of the theory BookingSpec, which has
  these steps among its own.
\<close>

section \<open>Rows\<close>

definition plate_char :: "char \<Rightarrow> bool" where
  "plate_char c \<longleftrightarrow> is_digit c \<or> c = CHR ''-'' \<or> (let n = (of_char c :: int) in 65 \<le> n \<and> n \<le> 90)"

definition plate_ok :: "string \<Rightarrow> bool" where
  "plate_ok s \<longleftrightarrow> 3 \<le> length s \<and> length s \<le> 16 \<and> list_all plate_char s"

definition name_ok :: "nat \<Rightarrow> string \<Rightarrow> bool" where
  "name_ok n s \<longleftrightarrow> 1 \<le> length s \<and> length s \<le> n"

definition vehicle_ok :: "vehicle_row \<Rightarrow> bool" where
  "vehicle_ok v \<longleftrightarrow> plate_ok (ve_plate v) \<and> name_ok 64 (ve_make v) \<and> name_ok 64 (ve_model v) \<and>
     1990 \<le> ve_year v \<and> ve_year v \<le> 2100 \<and> name_ok 32 (ve_color v) \<and>
     1 \<le> ve_capacity v \<and> ve_capacity v \<le> 8"

text \<open>A plate is registered once, and a driver has at most one active vehicle.\<close>

definition vehicle_keys_ok :: "vehicle_row list \<Rightarrow> bool" where
  "vehicle_keys_ok vs \<longleftrightarrow> distinct (map ve_plate vs) \<and> distinct (map ve_driver_id (filter ve_is_active vs))"

section \<open>The steps\<close>

definition same_bookings :: "db \<Rightarrow> db \<Rightarrow> bool" where
  "same_bookings d d' \<longleftrightarrow> db_trips d' = db_trips d \<and> db_trip_events d' = db_trip_events d \<and>
     db_fare_records d' = db_fare_records d \<and> db_trip_ratings d' = db_trip_ratings d"

inductive registry_step :: "db \<Rightarrow> db \<Rightarrow> bool" where
  sign_up:
    "us_id u \<notin> us_id ` set (db_users d) \<Longrightarrow> us_email u \<notin> us_email ` set (db_users d) \<Longrightarrow>
     us_phone u \<notin> us_phone ` set (db_users d) \<Longrightarrow> us_role u \<in> {''rider'', ''driver''} \<Longrightarrow>
     us_is_active u \<Longrightarrow> registry_step d (d\<lparr>db_users := db_users d @ [u]\<rparr>)"
| join_driver:
    "u \<in> set (db_users d) \<Longrightarrow> us_id u = dr_user_id r \<Longrightarrow> us_role u = ''driver'' \<Longrightarrow>
     dr_user_id r \<notin> dr_user_id ` set (db_drivers d) \<Longrightarrow>
     dr_license_number r \<notin> dr_license_number ` set (db_drivers d) \<Longrightarrow> dr_status r = Offline \<Longrightarrow>
     registry_step d (d\<lparr>db_drivers := db_drivers d @ [r]\<rparr>)"
| add_vehicle:
    "vehicle_ok v \<Longrightarrow> ve_id v \<notin> ve_id ` set (db_vehicles d) \<Longrightarrow>
     ve_driver_id v \<in> dr_user_id ` set (db_drivers d) \<Longrightarrow> vehicle_keys_ok (db_vehicles d @ [v]) \<Longrightarrow>
     registry_step d (d\<lparr>db_vehicles := db_vehicles d @ [v]\<rparr>)"
| change_vehicle:
    "(\<And>v. ve_id (u v) = ve_id v \<and> ve_driver_id (u v) = ve_driver_id v \<and> (vehicle_ok v \<longrightarrow> vehicle_ok (u v))) \<Longrightarrow>
     vs = update_rows (\<lambda>v. ve_id v = vehicleId \<and> ve_driver_id v = driverId) u (db_vehicles d) \<Longrightarrow>
     vehicle_keys_ok vs \<Longrightarrow> registry_step d (d\<lparr>db_vehicles := vs\<rparr>)"
| park_vehicles:
    "registry_step d (d\<lparr>db_vehicles :=
       update_rows (\<lambda>v. ve_driver_id v = driverId \<and> ve_is_active v \<and> ve_id v \<noteq> vehicleId)
         (\<lambda>v. v\<lparr>ve_is_active := False\<rparr>) (db_vehicles d)\<rparr>)"
| remove_vehicle:
    "(\<And>v. v \<in> set (db_vehicles d) \<Longrightarrow> ve_id v = vehicleId \<Longrightarrow> ve_driver_id v = driverId \<Longrightarrow>
       Some (ve_id v) \<notin> tr_vehicle_id ` set (db_trips d)) \<Longrightarrow>
     registry_step d (d\<lparr>db_vehicles :=
       filter (\<lambda>v. \<not> (ve_id v = vehicleId \<and> ve_driver_id v = driverId)) (db_vehicles d)\<rparr>)"
| elsewhere:
    "same_bookings d d' \<Longrightarrow> db_users d' = db_users d \<Longrightarrow> db_drivers d' = db_drivers d \<Longrightarrow>
     db_vehicles d' = db_vehicles d \<Longrightarrow> registry_step d d'"

lemma registry_step_bookings:
  assumes "registry_step d d'"
  shows "same_bookings d d'" and "set (db_drivers d) \<subseteq> set (db_drivers d')"
    and "distinct (map dr_user_id (db_drivers d)) \<Longrightarrow> distinct (map dr_user_id (db_drivers d'))"
    and "us_id ` set (db_users d) \<subseteq> us_id ` set (db_users d')"
  using assms by (induction rule: registry_step.induct) (auto simp: same_bookings_def)

section \<open>What they keep\<close>

definition accounts_ok :: "db \<Rightarrow> bool" where
  "accounts_ok d \<longleftrightarrow> distinct (map us_id (db_users d)) \<and> distinct (map us_email (db_users d)) \<and>
     distinct (map us_phone (db_users d)) \<and>
     (\<forall>u \<in> set (db_users d). us_role u \<in> {''rider'', ''driver'', ''admin''}) \<and>
     distinct (map dr_user_id (db_drivers d)) \<and> distinct (map dr_license_number (db_drivers d)) \<and>
     (\<forall>r \<in> set (db_drivers d). \<exists>u \<in> set (db_users d). us_id u = dr_user_id r \<and> us_role u = ''driver'')"

definition fleet_ok :: "db \<Rightarrow> bool" where
  "fleet_ok d \<longleftrightarrow> distinct (map ve_id (db_vehicles d)) \<and> vehicle_keys_ok (db_vehicles d) \<and>
     (\<forall>v \<in> set (db_vehicles d). vehicle_ok v \<and> ve_driver_id v \<in> dr_user_id ` set (db_drivers d)) \<and>
     (\<forall>t \<in> set (db_trips d). \<forall>i. tr_vehicle_id t = Some i \<longrightarrow>
        (\<exists>v \<in> set (db_vehicles d). ve_id v = i \<and> tr_driver_id t = Some (ve_driver_id v)))"

definition registry_ok :: "db \<Rightarrow> bool" where
  "registry_ok d \<longleftrightarrow> accounts_ok d \<and> fleet_ok d"

text \<open>Accounts stay as they are, and nobody joins as an administrator.\<close>

definition accounts_grow :: "db \<Rightarrow> db \<Rightarrow> bool" where
  "accounts_grow d d' \<longleftrightarrow> (\<exists>us. db_users d' = db_users d @ us \<and> (\<forall>u \<in> set us. us_role u \<in> {''rider'', ''driver''}))"

lemma accounts_grow_same: "db_users d' = db_users d \<Longrightarrow> accounts_grow d d'"
  by (simp add: accounts_grow_def)

lemma accounts_grow_trans: "accounts_grow a b \<Longrightarrow> accounts_grow b c \<Longrightarrow> accounts_grow a c"
  unfolding accounts_grow_def by (elim exE conjE, rule_tac x = "us @ usa" in exI) auto

lemma registry_step_grows: "registry_step d d' \<Longrightarrow> accounts_grow d d'"
  by (induction rule: registry_step.induct) (auto simp: accounts_grow_def)

lemma in_update_rows: "v \<in> set rows \<Longrightarrow> (if p v then u v else v) \<in> set (update_rows p u rows)"
  by (simp add: update_rows_def)

lemma vehicle_keys_park:
  "vehicle_keys_ok vs \<Longrightarrow> vehicle_keys_ok (update_rows p (\<lambda>v. v\<lparr>ve_is_active := False\<rparr>) vs)"
proof -
  let ?u = "\<lambda>v :: vehicle_row. v\<lparr>ve_is_active := False\<rparr>"
  have "map ve_driver_id (filter ve_is_active (update_rows p ?u vs)) =
      map ve_driver_id (filter (\<lambda>v. ve_is_active v \<and> \<not> p v) vs)"
    by (induction vs) (auto simp: update_rows_def)
  moreover have "map ve_plate (update_rows p ?u vs) = map ve_plate vs"
    by (induction vs) (auto simp: update_rows_def)
  moreover have "distinct (map f (filter (\<lambda>v. q v \<and> r v) vs))" if "distinct (map f (filter q vs))" for f :: "vehicle_row \<Rightarrow> string" and q r
    using that by (induction vs) (auto split: if_splits)
  ultimately show "vehicle_keys_ok vs \<Longrightarrow> vehicle_keys_ok (update_rows p ?u vs)"
    by (simp add: vehicle_keys_ok_def)
qed

lemma vehicle_keys_remove: "vehicle_keys_ok vs \<Longrightarrow> vehicle_keys_ok (filter p vs)"
proof -
  have "distinct (map f (filter q (filter p vs)))" if "distinct (map f (filter q vs))" for f :: "vehicle_row \<Rightarrow> string" and q
    using that by (induction vs) (auto split: if_splits)
  from this [of _ "\<lambda>_. True"] this show "vehicle_keys_ok vs \<Longrightarrow> vehicle_keys_ok (filter p vs)"
    by (simp add: vehicle_keys_ok_def)
qed

lemma registry_step_ok:
  assumes "registry_step d d'" and "registry_ok d"
  shows "registry_ok d'"
  using assms
proof (induction rule: registry_step.induct)
  case (change_vehicle u vs vehicleId driverId d)
  have ids: "map ve_id vs = map ve_id (db_vehicles d)"
    unfolding change_vehicle(2) by (rule map_update_rows) (use change_vehicle(1) in blast)
  have "vehicle_ok v \<and> ve_driver_id v \<in> dr_user_id ` set (db_drivers d)" if "v \<in> set vs" for v
    using that change_vehicle by (auto simp: registry_ok_def fleet_ok_def update_rows_def)
  moreover have "\<exists>v' \<in> set vs. ve_id v' = ve_id v \<and> ve_driver_id v' = ve_driver_id v" if "v \<in> set (db_vehicles d)" for v
    using in_update_rows [OF that, of _ u] change_vehicle(1) unfolding change_vehicle(2) by (metis (no_types, lifting))
  ultimately show ?case
    using change_vehicle(3,4) ids by (fastforce simp: registry_ok_def fleet_ok_def accounts_ok_def)
next
  case (park_vehicles d driverId vehicleId)
  let ?p = "\<lambda>v. ve_driver_id v = driverId \<and> ve_is_active v \<and> ve_id v \<noteq> vehicleId"
  let ?u = "\<lambda>v :: vehicle_row. v\<lparr>ve_is_active := False\<rparr>"
  have "map ve_id (update_rows ?p ?u (db_vehicles d)) = map ve_id (db_vehicles d)"
    by (rule map_update_rows) simp
  moreover have "vehicle_ok (?u v) = vehicle_ok v" for v by (simp add: vehicle_ok_def)
  moreover have "\<exists>v' \<in> set (update_rows ?p ?u (db_vehicles d)). ve_id v' = ve_id v \<and> ve_driver_id v' = ve_driver_id v"
    if "v \<in> set (db_vehicles d)" for v
    using in_update_rows [OF that, of ?p ?u] by (intro bexI [OF _ in_update_rows [OF that]]) auto
  ultimately show ?case
    using park_vehicles vehicle_keys_park [of "db_vehicles d" ?p]
    by (fastforce simp: registry_ok_def fleet_ok_def accounts_ok_def ball_update_rows)
next
  case (remove_vehicle d vehicleId driverId)
  then have fleet: "fleet_ok d" by (simp add: registry_ok_def)
  let ?q = "\<lambda>v. \<not> (ve_id v = vehicleId \<and> ve_driver_id v = driverId)"
  have "\<exists>v \<in> set (filter ?q (db_vehicles d)). ve_id v = i \<and> tr_driver_id t = Some (ve_driver_id v)"
    if t: "t \<in> set (db_trips d)" "tr_vehicle_id t = Some i" for t i
  proof -
    from fleet t obtain v where v: "v \<in> set (db_vehicles d)" "ve_id v = i" "tr_driver_id t = Some (ve_driver_id v)"
      unfolding fleet_ok_def by blast
    have "Some (ve_id v) \<in> tr_vehicle_id ` set (db_trips d)" using t v(2) by force
    with remove_vehicle(1) [OF v(1)] v show ?thesis by auto
  qed
  with remove_vehicle(2) vehicle_keys_remove show ?case
    by (simp add: registry_ok_def fleet_ok_def accounts_ok_def distinct_map_filter)
next
  case (sign_up u d)
  then have "accounts_ok (d\<lparr>db_users := db_users d @ [u]\<rparr>)" by (auto simp: registry_ok_def accounts_ok_def)
  then show ?case using sign_up by (simp add: registry_ok_def fleet_ok_def)
next
  case (join_driver u d r)
  then have "accounts_ok (d\<lparr>db_drivers := db_drivers d @ [r]\<rparr>)" by (auto simp: registry_ok_def accounts_ok_def)
  moreover have "fleet_ok (d\<lparr>db_drivers := db_drivers d @ [r]\<rparr>)"
    using join_driver by (simp add: registry_ok_def fleet_ok_def)
  ultimately show ?case by (simp add: registry_ok_def)
next
  case (add_vehicle v d)
  then have "fleet_ok (d\<lparr>db_vehicles := db_vehicles d @ [v]\<rparr>)" by (auto simp: registry_ok_def fleet_ok_def)
  then show ?case using add_vehicle by (simp add: registry_ok_def accounts_ok_def)
next
  case (elsewhere d d')
  then show ?case by (simp add: registry_ok_def accounts_ok_def fleet_ok_def same_bookings_def)
qed

end
