(* ===== verification/BookingSpec.thy ===== *)
theory BookingSpec
  imports RegistrySpec
begin

text \<open>
  What the booking database promises, apart from the code: the relation \<open>booking_step\<close> lists the
  changes a committed transaction may make to it, one rule per business operation, and the
  invariants are proved of that relation alone. The service theories show that each handler, under
  every fault schedule, commits only such steps; the invariants then hold of the running system.

  A trip's status moves along \<open>trip_edge\<close>; \<open>bookings_ok\<close> ties the trips, the drivers and their
  statuses together; \<open>log_ok\<close> makes the status of a trip the one its events add up to;
  \<open>fares_ok\<close> and \<open>ratings_ok\<close> tie the fare records and ratings to the completed trips.
\<close>

section \<open>The steps\<close>

definition active :: "trip_row \<Rightarrow> bool" where
  "active t \<longleftrightarrow> tr_status t = Matched \<or> tr_status t = InProgress"

definition event_row :: "int \<Rightarrow> rat \<Rightarrow> string \<Rightarrow> string \<Rightarrow> (string \<times> json) list \<Rightarrow> trip_event_row" where
  "event_row eid now tripId eventType payload =
     \<lparr>te_id = eid, te_trip_id = tripId, te_event_type = eventType, te_payload = JObj payload,
      te_created_at = now, te_published_at = None, te_publish_attempts = 0,
      te_last_publish_error = None\<rparr>"

definition log_event ::
    "int \<Rightarrow> rat \<Rightarrow> string \<Rightarrow> string \<Rightarrow> (string \<times> json) list \<Rightarrow> db \<Rightarrow> db" where
  "log_event eid now tripId eventType payload d =
     d\<lparr>db_trip_events := db_trip_events d @ [event_row eid now tripId eventType payload]\<rparr>"

definition fresh_event :: "int \<Rightarrow> db \<Rightarrow> bool" where
  "fresh_event eid d \<longleftrightarrow> eid \<notin> te_id ` set (db_trip_events d)"

definition with_driver_status :: "string \<Rightarrow> driver_status \<Rightarrow> db \<Rightarrow> db" where
  "with_driver_status userId st d =
     d\<lparr>db_drivers :=
        update_rows (\<lambda>r. dr_user_id r = userId) (\<lambda>r. r\<lparr>dr_status := st\<rparr>) (db_drivers d)\<rparr>"

definition with_trips :: "(trip_row \<Rightarrow> bool) \<Rightarrow> (trip_row \<Rightarrow> trip_row) \<Rightarrow> db \<Rightarrow> db" where
  "with_trips p u d = d\<lparr>db_trips := update_rows p u (db_trips d)\<rparr>"

definition free_driver :: "string option \<Rightarrow> db \<Rightarrow> db" where
  "free_driver driver d = (case driver of None \<Rightarrow> d | Some v \<Rightarrow> with_driver_status v Online d)"

definition cancellable :: "string \<Rightarrow> string \<Rightarrow> bool \<Rightarrow> trip_row \<Rightarrow> bool" where
  "cancellable tripId actorId by_driver t \<longleftrightarrow>
     tr_id t = tripId \<and>
     (if by_driver then tr_driver_id t = Some actorId else tr_rider_id t = actorId) \<and>
     tr_status t \<in> {Requested, Matched}"

text \<open>What of a trip never changes.\<close>

definition same_order :: "trip_row \<Rightarrow> trip_row \<Rightarrow> bool" where
  "same_order t t' \<longleftrightarrow> tr_id t' = tr_id t \<and> tr_rider_id t' = tr_rider_id t \<and>
     tr_pickup t' = tr_pickup t \<and> tr_dropoff t' = tr_dropoff t \<and>
     tr_requested_at t' = tr_requested_at t"

inductive core_step :: "db \<Rightarrow> db \<Rightarrow> bool" where
  request_trip:
    "tr_id t \<notin> tr_id ` set (db_trips d) \<Longrightarrow> tr_rider_id t \<in> us_id ` set (db_users d) \<Longrightarrow>
     tr_status t = Requested \<Longrightarrow> tr_driver_id t = None \<Longrightarrow> tr_vehicle_id t = None \<Longrightarrow>
     tr_fare_total t = None \<Longrightarrow> fresh_event eid d \<Longrightarrow>
     core_step d (log_event eid now (tr_id t) ''requested'' payload
       (d\<lparr>db_trips := db_trips d @ [t]\<rparr>))"
| match_trip:
    "r \<in> set (db_drivers d) \<Longrightarrow> dr_user_id r = driverId \<Longrightarrow> dr_status r = Online \<Longrightarrow>
     v \<in> set (db_vehicles d) \<Longrightarrow> ve_driver_id v = driverId \<Longrightarrow> ve_is_active v \<Longrightarrow>
     t \<in> set (db_trips d) \<Longrightarrow> tr_id t = tripId \<Longrightarrow> tr_status t = Requested \<Longrightarrow> fresh_event eid d \<Longrightarrow>
     core_step d (log_event eid now tripId ''matched'' payload
       (with_driver_status driverId OnTrip
         (with_trips (\<lambda>t. tr_id t = tripId \<and> tr_status t = Requested)
           (\<lambda>t. t\<lparr>tr_driver_id := Some driverId, tr_vehicle_id := Some (ve_id v),
                  tr_status := Matched, tr_matched_at := Some since\<rparr>) d)))"
| cancel_trip:
    "t \<in> set (db_trips d) \<Longrightarrow> cancellable tripId actorId by_driver t \<Longrightarrow> fresh_event eid d \<Longrightarrow>
     jget (JObj payload) ''status'' = Some (JStr (trip_status_text
       (if by_driver then CancelledByDriver else CancelledByRider))) \<Longrightarrow>
     core_step d (log_event eid now tripId ''cancelled'' payload
       (free_driver (tr_driver_id t)
         (with_trips (cancellable tripId actorId by_driver)
           (\<lambda>t. t\<lparr>tr_status := if by_driver then CancelledByDriver else CancelledByRider\<rparr>) d)))"
| start_trip:
    "t \<in> set (db_trips d) \<Longrightarrow> tr_id t = tripId \<Longrightarrow> tr_driver_id t = Some driverId \<Longrightarrow>
     tr_status t = Matched \<Longrightarrow> fresh_event eid d \<Longrightarrow>
     core_step d (log_event eid now tripId ''started'' payload
       (with_trips (\<lambda>t. tr_id t = tripId \<and> tr_driver_id t = Some driverId \<and> tr_status t = Matched)
         (\<lambda>t. t\<lparr>tr_status := InProgress, tr_started_at := Some since\<rparr>) d))"
| complete_trip:
    "t \<in> set (db_trips d) \<Longrightarrow> tr_id t = tripId \<Longrightarrow> tr_driver_id t = Some driverId \<Longrightarrow>
     tr_status t = InProgress \<Longrightarrow> fresh_event eid d \<Longrightarrow>
     fr_trip_id f = tripId \<Longrightarrow> 0 \<le> fr_distance_km f \<Longrightarrow> 0 \<le> fr_duration_min f \<Longrightarrow>
     1 \<le> fr_surge_multiplier f \<Longrightarrow>
     fares' = (if tripId \<in> fr_trip_id ` set (db_fare_records d)
               then update_rows (\<lambda>g. fr_trip_id g = tripId)
                      (\<lambda>g. f\<lparr>fr_base_fare := fr_base_fare g\<rparr>) (db_fare_records d)
               else db_fare_records d @ [f]) \<Longrightarrow>
     core_step d (log_event eid now tripId ''completed'' payload
       (with_driver_status driverId Online
         (with_trips (\<lambda>t. tr_id t = tripId)
           (\<lambda>t. t\<lparr>tr_fare_total := Some (fr_total f), tr_currency := ''USD''\<rparr>)
           ((with_trips (\<lambda>t. tr_id t = tripId \<and> tr_driver_id t = Some driverId \<and> tr_status t = InProgress)
             (\<lambda>t. t\<lparr>tr_status := Completed, tr_completed_at := Some since\<rparr>) d)
            \<lparr>db_fare_records := fares'\<rparr>))))"
| rate_trip:
    "t \<in> set (db_trips d) \<Longrightarrow> tr_id t = tripId \<Longrightarrow> tr_rider_id t = riderId \<Longrightarrow>
     tr_status t = Completed \<Longrightarrow> tr_driver_id t = Some driverId \<Longrightarrow>
     tripId \<notin> rt_trip_id ` set (db_trip_ratings d) \<Longrightarrow> 1 \<le> stars \<Longrightarrow> stars \<le> 5 \<Longrightarrow>
     fresh_event eid d \<Longrightarrow> (\<And>r. dr_user_id (f r) = dr_user_id r \<and> dr_status (f r) = dr_status r \<and>
       dr_license_number (f r) = dr_license_number r) \<Longrightarrow>
     core_step d (log_event eid now tripId ''rated'' payload
       (d\<lparr>db_trip_ratings := db_trip_ratings d @
            [\<lparr>rt_trip_id = tripId, rt_rider_id = riderId, rt_driver_id = driverId, rt_rating = stars,
              rt_comment = comment\<rparr>],
          db_drivers := update_rows (\<lambda>r. dr_user_id r = driverId) f (db_drivers d)\<rparr>))"
| publish_event:
    "(\<And>e. te_id (f e) = te_id e \<and> te_trip_id (f e) = te_trip_id e \<and>
          te_event_type (f e) = te_event_type e \<and> te_payload (f e) = te_payload e \<and>
          (te_published_at e \<noteq> None \<longrightarrow> te_published_at (f e) \<noteq> None)) \<Longrightarrow>
     core_step d
       (d\<lparr>db_trip_events := update_rows (\<lambda>e. te_id e = eid) f (db_trip_events d)\<rparr>)"
| patch_status:
    "st \<noteq> Suspended \<Longrightarrow>
     (st = Online \<Longrightarrow> \<not> (\<exists>t \<in> set (db_trips d). tr_driver_id t = Some driverId \<and> active t)) \<Longrightarrow>
     core_step d (d\<lparr>db_drivers := update_rows
        (\<lambda>r. dr_user_id r = driverId \<and> dr_status r \<noteq> Suspended)
        (\<lambda>r. r\<lparr>dr_status := st\<rparr>) (db_drivers d)\<rparr>)"
| ping:
    "r \<in> set (db_drivers d) \<Longrightarrow> dr_user_id r = driverId \<Longrightarrow> dr_status r \<noteq> Suspended \<Longrightarrow>
     dr_status r \<noteq> OnTrip \<Longrightarrow>
     \<not> (\<exists>t \<in> set (db_trips d). tr_driver_id t = Some driverId \<and> active t) \<Longrightarrow>
     core_step d ((with_driver_status driverId Online d)\<lparr>db_driver_locations := locations\<rparr>)"
| registers: "registry_step d d' \<Longrightarrow> core_step d d'"

lemma registry_step_same:
  assumes "registry_step d d'"
  shows "db_trips d' = db_trips d" and "db_trip_events d' = db_trip_events d"
    and "db_fare_records d' = db_fare_records d" and "db_trip_ratings d' = db_trip_ratings d"
  using registry_step_bookings(1) [OF assms] by (simp_all add: same_bookings_def)

text \<open>The one change the invariants do not survive: a driver on a trip is set online.\<close>

definition online_mid_trip :: "db \<Rightarrow> db \<Rightarrow> bool" where
  "online_mid_trip d d' \<longleftrightarrow>
     (\<exists>driverId. (\<exists>t \<in> set (db_trips d). tr_driver_id t = Some driverId \<and> active t) \<and>
        d' = d\<lparr>db_drivers := update_rows (\<lambda>r. dr_user_id r = driverId \<and> dr_status r \<noteq> Suspended)
               (\<lambda>r. r\<lparr>dr_status := Online\<rparr>) (db_drivers d)\<rparr>)"

definition booking_step :: "db \<Rightarrow> db \<Rightarrow> bool" where
  "booking_step d d' \<longleftrightarrow> core_step d d' \<or> online_mid_trip d d'"

section \<open>The status machine\<close>

definition trip_edge :: "(trip_status \<times> trip_status) set" where
  "trip_edge =
     {(Requested, Matched), (Requested, CancelledByRider), (Requested, CancelledByDriver),
      (Matched, InProgress), (Matched, CancelledByRider), (Matched, CancelledByDriver),
      (InProgress, Completed)}"

definition terminal :: "trip_status \<Rightarrow> bool" where
  "terminal s \<longleftrightarrow> s \<in> {Completed, CancelledByRider, CancelledByDriver, Expired}"

lemma terminal_stuck: "(s, s') \<in> trip_edge\<^sup>* \<Longrightarrow> terminal s \<Longrightarrow> s' = s"
  by (erule converse_rtranclE) (auto simp: trip_edge_def terminal_def)

lemma edge_intros [intro]:
  "(Requested, Matched) \<in> trip_edge" "(Requested, CancelledByRider) \<in> trip_edge"
  "(Requested, CancelledByDriver) \<in> trip_edge" "(Matched, InProgress) \<in> trip_edge"
  "(Matched, CancelledByRider) \<in> trip_edge" "(Matched, CancelledByDriver) \<in> trip_edge"
  "(InProgress, Completed) \<in> trip_edge"
  by (simp_all add: trip_edge_def)

definition trip_of :: "db \<Rightarrow> string \<Rightarrow> trip_row option" where
  "trip_of d tripId = find (\<lambda>t. tr_id t = tripId) (db_trips d)"

lemma find_append: "find p (xs @ ys) = (case find p xs of None \<Rightarrow> find p ys | Some x \<Rightarrow> Some x)"
  by (induction xs) auto

lemma find_update_rows:
  assumes "\<And>r. k (u r) = k r"
  shows "find (\<lambda>r. k r = x) (update_rows p u rows) =
         map_option (\<lambda>r. if p r then u r else r) (find (\<lambda>r. k r = x) rows)"
  using assms by (induction rows) (auto simp: update_rows_def)

text \<open>A trip before and after a step.\<close>

definition trip_moves :: "db \<Rightarrow> db \<Rightarrow> string \<Rightarrow> bool" where
  "trip_moves d d' tripId \<longleftrightarrow>
     (case (trip_of d tripId, trip_of d' tripId) of
        (None, None) \<Rightarrow> True
      | (None, Some t') \<Rightarrow> tr_status t' = Requested
      | (Some t, None) \<Rightarrow> False
      | (Some t, Some t') \<Rightarrow> same_order t t' \<and>
          (t' = t \<or> (tr_status t, tr_status t') \<in> trip_edge))"

lemma same_order_refl: "same_order t t"
  by (simp add: same_order_def)

lemma trip_moves_same: "db_trips d' = db_trips d \<Longrightarrow> trip_moves d d' tripId"
  by (simp add: trip_moves_def trip_of_def same_order_def split: option.split)

lemma trip_moves_update:
  assumes "db_trips d' = update_rows p u (db_trips d)"
    and "\<And>t. same_order t (u t)" and "\<And>t. p t \<Longrightarrow> (tr_status t, tr_status (u t)) \<in> trip_edge"
  shows "trip_moves d d' tripId"
proof -
  have k: "tr_id (u t) = tr_id t" for t using assms(2) by (simp add: same_order_def)
  have "same_order t t" for t by (simp add: same_order_def)
  then show ?thesis
    using assms find_update_rows [of tr_id u tripId p "db_trips d", OF k]
    by (auto simp: trip_moves_def trip_of_def split: option.splits)
qed

section \<open>What the steps keep\<close>

lemma step_tables [simp, table_simps]:
  "db_trips (log_event eid now tid ty p d) = db_trips d"
  "db_drivers (log_event eid now tid ty p d) = db_drivers d"
  "db_users (log_event eid now tid ty p d) = db_users d"
  "db_fare_records (log_event eid now tid ty p d) = db_fare_records d"
  "db_trip_ratings (log_event eid now tid ty p d) = db_trip_ratings d"
  "db_trip_events (log_event eid now tid ty p d) = db_trip_events d @ [event_row eid now tid ty p]"
  "db_trips (with_driver_status v st d) = db_trips d"
  "db_users (with_driver_status v st d) = db_users d"
  "db_trip_events (with_driver_status v st d) = db_trip_events d"
  "db_fare_records (with_driver_status v st d) = db_fare_records d"
  "db_trip_ratings (with_driver_status v st d) = db_trip_ratings d"
  "db_trips (with_trips q u d) = update_rows q u (db_trips d)"
  "db_drivers (with_trips q u d) = db_drivers d"
  "db_users (with_trips q u d) = db_users d"
  "db_trip_events (with_trips q u d) = db_trip_events d"
  "db_fare_records (with_trips q u d) = db_fare_records d"
  "db_trip_ratings (with_trips q u d) = db_trip_ratings d"
  "db_trips (free_driver v' d) = db_trips d"
  "db_users (free_driver v' d) = db_users d"
  "db_trip_events (free_driver v' d) = db_trip_events d"
  "db_fare_records (free_driver v' d) = db_fare_records d"
  "db_trip_ratings (free_driver v' d) = db_trip_ratings d"
  by (simp_all add: log_event_def with_driver_status_def with_trips_def free_driver_def
      split: option.splits)

lemma event_row_sel [simp]:
  "te_id (event_row eid now tid ty p) = eid" "te_trip_id (event_row eid now tid ty p) = tid"
  "te_event_type (event_row eid now tid ty p) = ty" "te_payload (event_row eid now tid ty p) = JObj p"
  "te_published_at (event_row eid now tid ty p) = None"
  by (simp_all add: event_row_def)

lemma with_driver_status_drivers:
  "db_drivers (with_driver_status v st d) =
     update_rows (\<lambda>r. dr_user_id r = v) (\<lambda>r. r\<lparr>dr_status := st\<rparr>) (db_drivers d)"
  by (simp add: with_driver_status_def)

lemma free_driver_drivers:
  "db_drivers (free_driver v d) =
     (case v of None \<Rightarrow> db_drivers d
      | Some v \<Rightarrow> update_rows (\<lambda>r. dr_user_id r = v) (\<lambda>r. r\<lparr>dr_status := Online\<rparr>) (db_drivers d))"
  by (simp add: free_driver_def with_driver_status_def split: option.splits)

subsection \<open>Keys\<close>

definition keys_ok :: "db \<Rightarrow> bool" where
  "keys_ok d \<longleftrightarrow> distinct (map tr_id (db_trips d)) \<and> distinct (map dr_user_id (db_drivers d)) \<and>
     distinct (map te_id (db_trip_events d))"

lemma keys_ok_step:
  assumes "core_step d d'" and "keys_ok d"
  shows "keys_ok d'"
  using assms
  by (induction rule: core_step.induct)
    (auto simp: keys_ok_def map_update_rows with_driver_status_drivers free_driver_drivers
      fresh_event_def registry_step_same split: option.split dest: registry_step_bookings)

lemma find_distinct:
  "distinct (map k xs) \<Longrightarrow> x \<in> set xs \<Longrightarrow> find (\<lambda>r. k r = k x) xs = Some x"
proof (induction xs)
  case (Cons a xs)
  show ?case
  proof (cases "x = a")
    case False
    with Cons.prems have "x \<in> set xs" and "k a \<noteq> k x" by auto
    with Cons show ?thesis by simp
  qed simp
qed simp

lemma find_in_set: "find p xs = Some x \<Longrightarrow> x \<in> set xs \<and> p x"
  by (induction xs) (auto split: if_splits)

lemma find_none_key: "x \<notin> k ` set xs \<Longrightarrow> find (\<lambda>r. k r = x) xs = None"
  by (induction xs) auto

lemma trip_of_eq:
  assumes "keys_ok d" and "t \<in> set (db_trips d)"
  shows "trip_of d (tr_id t) = Some t"
  using assms by (simp add: trip_of_def keys_ok_def find_distinct)

lemma trip_of_SomeD: "trip_of d tid = Some t \<Longrightarrow> t \<in> set (db_trips d) \<and> tr_id t = tid"
  unfolding trip_of_def by (drule find_in_set) simp

lemma same_id_same_trip:
  assumes "keys_ok d" and "t \<in> set (db_trips d)" and "t' \<in> set (db_trips d)" and "tr_id t = tr_id t'"
  shows "t = t'"
  using trip_of_eq [OF assms(1,2)] trip_of_eq [OF assms(1,3)] assms(4) by (metis option.inject)

lemma step_moves_trips:
  assumes "core_step d d'" and "keys_ok d"
  shows "trip_moves d d' tripId"
  using assms
proof (induction rule: core_step.induct)
  case (request_trip t d eid now payload)
  let ?d' = "log_event eid now (tr_id t) ''requested'' payload (d\<lparr>db_trips := db_trips d @ [t]\<rparr>)"
  have eq: "trip_of ?d' tripId =
      (case trip_of d tripId of None \<Rightarrow> if tr_id t = tripId then Some t else None | Some x \<Rightarrow> Some x)"
    by (cases "find (\<lambda>t. tr_id t = tripId) (db_trips d)") (simp_all add: trip_of_def find_append)
  show ?case
    unfolding trip_moves_def eq using request_trip(3) same_order_refl
    by (cases "trip_of d tripId") auto
next
  case (complete_trip t d tid driverId eid f fares' now payload since)
  let ?p = "\<lambda>t. tr_id t = tid \<and> tr_driver_id t = Some driverId \<and> tr_status t = InProgress"
  let ?u = "\<lambda>t. t\<lparr>tr_status := Completed, tr_completed_at := Some since\<rparr>"
  let ?v = "\<lambda>t. t\<lparr>tr_fare_total := Some (fr_total f), tr_currency := ''USD''\<rparr>"
  have *: "find (\<lambda>t. tr_id t = tripId) (update_rows (\<lambda>t. tr_id t = tid) ?v (update_rows ?p ?u (db_trips d))) =
    map_option (\<lambda>t. if tr_id t = tid then ?v t else t) (map_option (\<lambda>t. if ?p t then ?u t else t)
      (trip_of d tripId))"
    by (simp add: trip_of_def find_update_rows)
  show ?case
  proof (cases "trip_of d tripId")
    case None
    with * show ?thesis by (simp add: trip_moves_def trip_of_def)
  next
    case (Some t0)
    then have t0: "t0 \<in> set (db_trips d)" "tr_id t0 = tripId" by (simp_all add: trip_of_SomeD)
    have "t0 = t" if "tr_id t0 = tid"
      using same_id_same_trip [OF complete_trip.prems t0(1) complete_trip(1)] that complete_trip(2) by simp
    with * Some complete_trip(2-4) show ?thesis
      by (auto simp: trip_moves_def trip_of_def same_order_def)
  qed
next
  case (match_trip r d driverId v t tid eid now payload since)
  show ?case by (rule trip_moves_update, simp only: step_tables) (auto simp: same_order_def)
next
  case (cancel_trip t d tid actorId by_driver eid payload now)
  show ?case by (rule trip_moves_update, simp only: step_tables) (auto simp: same_order_def cancellable_def)
next
  case (start_trip t d tid driverId eid now payload since)
  show ?case by (rule trip_moves_update, simp only: step_tables) (auto simp: same_order_def)
qed (auto intro!: trip_moves_same simp: registry_step_same)

subsection \<open>Bookings\<close>

definition user_ids :: "db \<Rightarrow> string set" where
  "user_ids d = us_id ` set (db_users d)"

definition driver_ids :: "db \<Rightarrow> string set" where
  "driver_ids d = dr_user_id ` set (db_drivers d)"

definition trip_ok :: "db \<Rightarrow> trip_row \<Rightarrow> bool" where
  "trip_ok d t \<longleftrightarrow> tr_rider_id t \<in> user_ids d \<and> tr_status t \<noteq> Expired \<and>
     (tr_status t = Requested \<longrightarrow> tr_driver_id t = None \<and> tr_vehicle_id t = None) \<and>
     (tr_status t = Matched \<or> tr_status t = InProgress \<or> tr_status t = Completed \<longrightarrow>
        (\<exists>v. tr_driver_id t = Some v \<and> v \<in> driver_ids d) \<and> tr_vehicle_id t \<noteq> None)"

definition bookings_ok :: "db \<Rightarrow> bool" where
  "bookings_ok d \<longleftrightarrow> keys_ok d \<and> (\<forall>t \<in> set (db_trips d). trip_ok d t)"

lemma trip_ok_mono:
  assumes "trip_ok d t" and "user_ids d \<subseteq> user_ids d'" and "driver_ids d \<subseteq> driver_ids d'"
  shows "trip_ok d' t"
  using assms by (auto simp: trip_ok_def)

lemma driver_ids_update:
  assumes "\<And>r. dr_user_id (u r) = dr_user_id r"
  shows "dr_user_id ` set (update_rows p u rows) = dr_user_id ` set rows"
  using map_update_rows [of dr_user_id u p rows, OF assms] by (metis list.set_map)

lemma step_grows:
  assumes "core_step d d'"
  shows "user_ids d \<subseteq> user_ids d' \<and> driver_ids d \<subseteq> driver_ids d'"
  using assms unfolding user_ids_def driver_ids_def
proof (induction rule: core_step.induct)
  case (registers d d')
  from registry_step_bookings [OF this] show ?case by blast
qed (auto simp: with_driver_status_drivers free_driver_drivers driver_ids_update split: option.split)

lemma bookings_ok_step:
  assumes step: "core_step d d'" and ok: "bookings_ok d"
  shows "bookings_ok d'"
proof -
  have keys: "keys_ok d'" using keys_ok_step [OF step] ok by (simp add: bookings_ok_def)
  have old: "\<forall>t \<in> set (db_trips d). trip_ok d' t"
    using ok step_grows [OF step] trip_ok_mono by (auto simp: bookings_ok_def)
  have "\<forall>t \<in> set (db_trips d'). trip_ok d' t"
    using step
  proof cases
    case (request_trip t eid now payload)
    have "trip_ok d' t"
      using request_trip by (simp add: trip_ok_def user_ids_def)
    with old show ?thesis by (simp add: request_trip(1))
  next
    case (match_trip r driverId v t tid eid now payload since)
    have "driverId \<in> driver_ids d'"
      using step_grows [OF step] match_trip(2,3) by (auto simp: driver_ids_def)
    then show ?thesis
      using old by (auto simp: match_trip(1) ball_update_rows trip_ok_def)
  next
    case (cancel_trip t tid actorId by_driver eid payload now)
    show ?thesis
      using old by (auto simp: cancel_trip(1) ball_update_rows trip_ok_def)
  next
    case (start_trip t tid driverId eid now payload since)
    show ?thesis
      using old by (auto simp: start_trip(1) ball_update_rows trip_ok_def)
  next
    case (complete_trip t tid driverId eid f fares' now payload since)
    show ?thesis
      using old by (auto simp: complete_trip(1) ball_update_rows trip_ok_def)
  qed (use old in \<open>auto simp: registry_step_same\<close>)
  with keys show ?thesis by (simp add: bookings_ok_def)
qed

text \<open>No driver serves two trips at once, and none is on offer while serving one.\<close>

definition exclusive :: "db \<Rightarrow> bool" where
  "exclusive d \<longleftrightarrow>
     (\<forall>t \<in> set (db_trips d). \<forall>t' \<in> set (db_trips d).
        active t \<longrightarrow> active t' \<longrightarrow> tr_driver_id t = tr_driver_id t' \<longrightarrow> t = t') \<and>
     (\<forall>t \<in> set (db_trips d). \<forall>r \<in> set (db_drivers d).
        active t \<longrightarrow> tr_driver_id t = Some (dr_user_id r) \<longrightarrow> dr_status r \<noteq> Online)"

lemma exclusiveD:
  assumes "exclusive d" and "t \<in> set (db_trips d)" and "active t"
  shows "t' \<in> set (db_trips d) \<Longrightarrow> active t' \<Longrightarrow> tr_driver_id t = tr_driver_id t' \<Longrightarrow> t = t'"
    and "r \<in> set (db_drivers d) \<Longrightarrow> tr_driver_id t = Some (dr_user_id r) \<Longrightarrow> dr_status r \<noteq> Online"
  using assms by (auto simp: exclusive_def)

text \<open>Steps after which every active trip was already active, and a driver who is online either was
  so or serves no trip, keep the trips exclusive.\<close>

lemma exclusiveI_old:
  assumes "exclusive d" and "keys_ok d'"
    and "\<And>t'. t' \<in> set (db_trips d') \<Longrightarrow> active t' \<Longrightarrow>
      \<exists>t \<in> set (db_trips d). active t \<and> tr_id t = tr_id t' \<and> tr_driver_id t = tr_driver_id t'"
    and "\<And>r' t'. r' \<in> set (db_drivers d') \<Longrightarrow> dr_status r' = Online \<Longrightarrow> t' \<in> set (db_trips d') \<Longrightarrow>
      active t' \<Longrightarrow> tr_driver_id t' = Some (dr_user_id r') \<Longrightarrow>
      \<exists>r \<in> set (db_drivers d). dr_user_id r = dr_user_id r' \<and> dr_status r = Online"
  shows "exclusive d'"
proof -
  have "t1 = t2" if t: "t1 \<in> set (db_trips d')" "t2 \<in> set (db_trips d')" "active t1" "active t2"
    "tr_driver_id t1 = tr_driver_id t2" for t1 t2
  proof -
    obtain s1 s2 where "s1 \<in> set (db_trips d)" "active s1" "tr_id s1 = tr_id t1" "tr_driver_id s1 = tr_driver_id t1"
      "s2 \<in> set (db_trips d)" "active s2" "tr_id s2 = tr_id t2" "tr_driver_id s2 = tr_driver_id t2"
      using assms(3) [OF t(1,3)] assms(3) [OF t(2,4)] by blast
    with exclusiveD(1) [OF assms(1)] t(5) have "tr_id t1 = tr_id t2" by metis
    with same_id_same_trip [OF assms(2)] t show ?thesis by blast
  qed
  moreover have "dr_status r \<noteq> Online"
    if "t \<in> set (db_trips d')" "r \<in> set (db_drivers d')" "active t" "tr_driver_id t = Some (dr_user_id r)" for t r
    using assms(3) [OF that(1,3)] assms(4) [OF that(2) _ that(1,3,4)] exclusiveD(2) [OF assms(1)] that(4)
    by metis
  ultimately show ?thesis unfolding exclusive_def by blast
qed

lemma no_longer_active:
  assumes "keys_ok d" and "exclusive d" and "t \<in> set (db_trips d)" and "active t"
    and "t' \<in> set (db_trips d)" and "active t'" and "tr_id t' \<noteq> tr_id t"
  shows "tr_driver_id t' \<noteq> tr_driver_id t"
  using exclusiveD(1) [OF assms(2,3,4,5,6)] assms(7) by metis

lemma same_driver_row:
  assumes "keys_ok d" and "r \<in> set (db_drivers d)" and "r' \<in> set (db_drivers d)"
    and "dr_user_id r = dr_user_id r'"
  shows "r = r'"
proof -
  have d: "distinct (map dr_user_id (db_drivers d))" using assms(1) by (simp add: keys_ok_def)
  show ?thesis
    using find_distinct [OF d assms(2)] find_distinct [OF d assms(3)] assms(4) by (metis option.inject)
qed

text \<open>A driver who is set online while serving no other trip.\<close>

lemma exclusive_freed:
  assumes "exclusive d" and "keys_ok d'"
    and drivers: "db_drivers d' = update_rows (\<lambda>r. dr_user_id r = v \<and> q r) (\<lambda>r. r\<lparr>dr_status := Online\<rparr>) (db_drivers d)"
    and trips: "\<And>t'. t' \<in> set (db_trips d') \<Longrightarrow> active t' \<Longrightarrow>
      \<exists>t \<in> set (db_trips d). active t \<and> tr_id t = tr_id t' \<and> tr_driver_id t = tr_driver_id t'"
    and idle: "\<And>t'. t' \<in> set (db_trips d') \<Longrightarrow> active t' \<Longrightarrow> tr_driver_id t' \<noteq> Some v"
  shows "exclusive d'"
proof (rule exclusiveI_old [OF assms(1,2) trips])
  fix r' t' assume r': "r' \<in> set (db_drivers d')" "dr_status r' = Online"
    and t': "t' \<in> set (db_trips d')" "active t'" "tr_driver_id t' = Some (dr_user_id r')"
  obtain r where r: "r \<in> set (db_drivers d)"
    "r' = (if dr_user_id r = v \<and> q r then r\<lparr>dr_status := Online\<rparr> else r)"
    using r'(1) by (auto simp: drivers update_rows_def)
  have "\<not> (dr_user_id r = v \<and> q r)"
  proof
    assume "dr_user_id r = v \<and> q r"
    then have "dr_user_id r' = v" using r(2) by simp
    with idle [OF t'(1,2)] t'(3) show False by simp
  qed
  then have "r' = r" using r(2) by argo
  with r(1) r'(2) show "\<exists>r \<in> set (db_drivers d). dr_user_id r = dr_user_id r' \<and> dr_status r = Online" by blast
qed

lemma exclusive_step:
  assumes step: "core_step d d'" and ok: "bookings_ok d" and ex: "exclusive d"
  shows "exclusive d'"
proof -
  have keys: "keys_ok d" "keys_ok d'"
    using keys_ok_step [OF step] ok by (simp_all add: bookings_ok_def)
  note old = exclusiveI_old [OF ex keys(2)]
  note freed = exclusive_freed [OF ex keys(2)]
  from step show ?thesis
  proof cases
    case (request_trip t eid now payload)
    show ?thesis
      by (rule old) (use request_trip in \<open>auto simp: active_def\<close>)
  next
    case (match_trip r driverId v t tid eid now payload since)
    let ?u = "\<lambda>t. t\<lparr>tr_driver_id := Some driverId, tr_vehicle_id := Some (ve_id v),
        tr_status := Matched, tr_matched_at := Some since\<rparr>"
    have none: "tr_driver_id s \<noteq> Some driverId" if "s \<in> set (db_trips d)" "active s" for s
      using exclusiveD(2) [OF ex that match_trip(2)] match_trip(3,4) by auto
    have trips: "s' = ?u t \<or> (s' \<in> set (db_trips d) \<and> active s')"
      if s': "s' \<in> set (db_trips d')" "active s'" for s'
    proof -
      obtain s where s: "s \<in> set (db_trips d)"
        "s' = (if tr_id s = tid \<and> tr_status s = Requested then ?u s else s)"
        using s'(1) by (auto simp: match_trip(1) dest: in_update_rowsD)
      then show ?thesis
        using same_id_same_trip [OF keys(1) s(1) match_trip(8)] match_trip(9) s'(2) by (auto split: if_splits)
    qed
    have "s = s'" if "s \<in> set (db_trips d')" "active s" "s' \<in> set (db_trips d')" "active s'"
      "tr_driver_id s = tr_driver_id s'" for s s'
      using trips [OF that(1,2)] trips [OF that(3,4)] that(5) none [of s] none [of s'] exclusiveD(1) [OF ex, of s s']
      by auto
    moreover have "dr_status r' \<noteq> Online"
      if s: "s \<in> set (db_trips d')" "active s" "r' \<in> set (db_drivers d')" "tr_driver_id s = Some (dr_user_id r')"
      for s r'
    proof -
      obtain r0 where r0: "r0 \<in> set (db_drivers d)"
        "r' = (if dr_user_id r0 = driverId then r0\<lparr>dr_status := OnTrip\<rparr> else r0)"
        using s(3) by (auto simp: match_trip(1) with_driver_status_drivers dest: in_update_rowsD)
      then show ?thesis
        using trips [OF s(1,2)] s(4) exclusiveD(2) [OF ex _ _ r0(1)] by (auto split: if_splits)
    qed
    ultimately show ?thesis unfolding exclusive_def by blast
  next
    case (cancel_trip t tid actorId by_driver eid payload now)
    have kept: "t' \<in> set (db_trips d) \<and> active t' \<and> tr_id t' \<noteq> tid"
      if t': "t' \<in> set (db_trips d')" "active t'" for t'
    proof -
      obtain s where s: "s \<in> set (db_trips d)"
        "t' = (if cancellable tid actorId by_driver s
               then s\<lparr>tr_status := if by_driver then CancelledByDriver else CancelledByRider\<rparr> else s)"
        using t'(1) by (auto simp: cancel_trip(1) dest: in_update_rowsD)
      then have "\<not> cancellable tid actorId by_driver s" "t' = s"
        using t'(2) by (auto simp: active_def split: if_splits)
      with s(1) t'(2) same_id_same_trip [OF keys(1) _ cancel_trip(2)] cancel_trip(3)
      show ?thesis by (auto simp: cancellable_def)
    qed
    show ?thesis
    proof (cases "tr_driver_id t")
      case None
      then show ?thesis
        by (intro old) (use kept in \<open>auto simp: cancel_trip(1) free_driver_def\<close>)
    next
      case (Some v)
      have "active t"
        using ok cancel_trip(2,3) Some by (auto simp: bookings_ok_def trip_ok_def cancellable_def active_def)
      then have "tr_driver_id t' \<noteq> Some v" if "t' \<in> set (db_trips d')" "active t'" for t'
        using no_longer_active [OF keys(1) ex cancel_trip(2)] kept [OF that] Some cancel_trip(3)
        by (auto simp: cancellable_def)
      then show ?thesis
        by (intro freed [where v = v and q = "\<lambda>_. True"])
          (use kept Some in \<open>auto simp: cancel_trip(1) free_driver_drivers\<close>)
    qed
  next
    case (start_trip t tid driverId eid now payload since)
    show ?thesis
      by (rule old) (use start_trip in \<open>auto simp: active_def update_rows_def split: if_splits\<close>)
  next
    case (complete_trip t tid driverId eid f fares' now payload since)
    have t: "active t" using complete_trip(5) by (simp add: active_def)
    have kept: "t' \<in> set (db_trips d) \<and> active t' \<and> tr_id t' \<noteq> tid"
      if t': "t' \<in> set (db_trips d')" "active t'" for t'
    proof -
      let ?u = "\<lambda>t. t\<lparr>tr_status := Completed, tr_completed_at := Some since\<rparr>"
      let ?v = "\<lambda>t. t\<lparr>tr_fare_total := Some (fr_total f), tr_currency := ''USD''\<rparr>"
      obtain s1 where s1: "s1 \<in> set (update_rows (\<lambda>t. tr_id t = tid \<and> tr_driver_id t = Some driverId \<and>
          tr_status t = InProgress) ?u (db_trips d))" "t' = (if tr_id s1 = tid then ?v s1 else s1)"
        using t'(1) by (auto simp: complete_trip(1) dest: in_update_rowsD)
      from in_update_rowsD [OF this(1)] obtain s where s: "s \<in> set (db_trips d)"
        and "s1 = (if tr_id s = tid \<and> tr_driver_id s = Some driverId \<and> tr_status s = InProgress
                   then ?u s else s)" by blast
      with s1(2) have eq: "t' = s \<and> tr_id s \<noteq> tid \<or> tr_id s = tid \<and>
          (tr_driver_id s = Some driverId \<and> tr_status s = InProgress \<longrightarrow> tr_status t' = Completed) \<and>
          tr_id t' = tid"
        by (auto split: if_splits)
      have "tr_id s \<noteq> tid"
      proof
        assume "tr_id s = tid"
        then have "s = t" using same_id_same_trip [OF keys(1) s complete_trip(2)] complete_trip(3) by simp
        with eq complete_trip(3-5) have "tr_status t' = Completed" by auto
        with t'(2) show False by (simp add: active_def)
      qed
      with eq have "t' = s" by blast
      with s t'(2) \<open>tr_id s \<noteq> tid\<close> show ?thesis by blast
    qed
    have idle: "tr_driver_id t' \<noteq> Some driverId" if "t' \<in> set (db_trips d')" "active t'" for t'
      using no_longer_active [OF keys(1) ex complete_trip(2) t] kept [OF that] complete_trip(3,4) by auto
    show ?thesis
    proof (rule freed [where v = driverId and q = "\<lambda>_. True"])
      show "db_drivers d' = update_rows (\<lambda>r. dr_user_id r = driverId \<and> True)
          (\<lambda>r. r\<lparr>dr_status := Online\<rparr>) (db_drivers d)"
        by (simp add: complete_trip(1) with_driver_status_drivers)
    qed (use kept idle in blast)+
  next
    case (rate_trip t tid riderId driverId stars eid f now payload comment)
    show ?thesis
      by (rule old) (use rate_trip in \<open>auto simp: update_rows_def split: if_splits\<close>)
  next
    case (publish_event f eid)
    show ?thesis by (rule old) (auto simp: publish_event(1))
  next
    case (patch_status st driverId)
    show ?thesis
    proof (cases "st = Online")
      case True
      then show ?thesis
        by (intro freed [where v = driverId and q = "\<lambda>r. dr_status r \<noteq> Suspended"])
          (use patch_status in auto)
    next
      case False
      then show ?thesis
        by (intro old) (auto simp: patch_status(1) update_rows_def split: if_splits)
    qed
  next
    case (ping r driverId locations)
    then show ?thesis
      by (intro freed [where v = driverId and q = "\<lambda>_. True"])
        (auto simp: with_driver_status_drivers)
  next
    case registers
    show ?thesis
    proof (rule old)
      fix r' t' assume r': "r' \<in> set (db_drivers d')" "dr_status r' = Online"
        and t': "t' \<in> set (db_trips d')" "active t'" "tr_driver_id t' = Some (dr_user_id r')"
      have "trip_ok d t'" using ok registers t'(1) by (simp add: registry_step_same bookings_ok_def)
      then obtain r where "r \<in> set (db_drivers d)" "dr_user_id r = dr_user_id r'"
        using t'(2,3) by (auto simp: trip_ok_def active_def driver_ids_def)
      moreover from this registry_step_bookings(2) [OF registers] have "r = r'" using same_driver_row [OF keys(2) _ r'(1)] by blast
      ultimately show "\<exists>r \<in> set (db_drivers d). dr_user_id r = dr_user_id r' \<and> dr_status r = Online"
        using r'(2) by blast
    qed (use registers in \<open>auto simp: registry_step_same\<close>)
  qed
qed

subsection \<open>Fares and ratings\<close>

lemma completed_kept:
  assumes "core_step d d'" and "keys_ok d" and "t \<in> set (db_trips d)" and "terminal (tr_status t)"
  shows "t \<in> set (db_trips d')"
proof -
  note m = step_moves_trips [OF assms(1,2), of "tr_id t", unfolded trip_moves_def trip_of_eq [OF assms(2,3)]]
  obtain t' where t': "trip_of d' (tr_id t) = Some t'"
    using m by (cases "trip_of d' (tr_id t)") auto
  then have "t' = t \<or> (tr_status t, tr_status t') \<in> trip_edge" using m by simp
  with assms(4) have "t' = t" by (auto simp: trip_edge_def terminal_def)
  with trip_of_SomeD [OF t'] show ?thesis by simp
qed

lemma trip_before:
  assumes "core_step d d'" and "keys_ok d" and "t' \<in> set (db_trips d')"
  obtains (new) "tr_status t' = Requested" "trip_of d (tr_id t') = None"
    | (same) "t' \<in> set (db_trips d)"
    | (moved) t where "t \<in> set (db_trips d)" "tr_id t = tr_id t'" "same_order t t'"
        "(tr_status t, tr_status t') \<in> trip_edge"
proof (cases "trip_of d (tr_id t')")
  case None
  with step_moves_trips [OF assms(1,2), of "tr_id t'"]
  have "tr_status t' = Requested"
    by (simp add: trip_moves_def trip_of_eq [OF keys_ok_step [OF assms(1,2)] assms(3)])
  with None show ?thesis by (rule that(1) [rotated])
next
  case (Some t)
  with step_moves_trips [OF assms(1,2), of "tr_id t'"]
  have "same_order t t'" "t' = t \<or> (tr_status t, tr_status t') \<in> trip_edge"
    by (simp_all add: trip_moves_def trip_of_eq [OF keys_ok_step [OF assms(1,2)] assms(3)])
  with trip_of_SomeD [OF Some] show ?thesis using that(2,3) by metis
qed

definition fare_of :: "db \<Rightarrow> fare_record_row \<Rightarrow> trip_row \<Rightarrow> bool" where
  "fare_of d f t \<longleftrightarrow> t \<in> set (db_trips d) \<and> tr_id t = fr_trip_id f \<and> tr_status t = Completed \<and>
     tr_fare_total t = Some (fr_total f)"

definition fares_ok :: "db \<Rightarrow> bool" where
  "fares_ok d \<longleftrightarrow> distinct (map fr_trip_id (db_fare_records d)) \<and>
     (\<forall>f \<in> set (db_fare_records d). (\<exists>t. fare_of d f t) \<and> 0 \<le> fr_distance_km f \<and>
        0 \<le> fr_duration_min f \<and> 1 \<le> fr_surge_multiplier f) \<and>
     (\<forall>t \<in> set (db_trips d). tr_status t = Completed \<longrightarrow> tr_id t \<in> fr_trip_id ` set (db_fare_records d))"

lemma fares_ok_keep:
  assumes "core_step d d'" and "keys_ok d" and "fares_ok d"
    and "db_fare_records d' = db_fare_records d"
    and "\<And>t'. t' \<in> set (db_trips d') \<Longrightarrow> tr_status t' = Completed \<Longrightarrow> t' \<in> set (db_trips d)"
  shows "fares_ok d'"
proof -
  have "fare_of d' f t" if "fare_of d f t" for f t
    using that completed_kept [OF assms(1,2), of t] by (simp add: fare_of_def terminal_def)
  with assms(3-5) show ?thesis unfolding fares_ok_def by metis
qed

lemma completed_before:
  assumes "core_step d d'" and "keys_ok d" and "t' \<in> set (db_trips d')" and "tr_status t' = Completed"
    and "\<And>t. t \<in> set (db_trips d) \<Longrightarrow> tr_id t = tr_id t' \<Longrightarrow> tr_status t \<noteq> InProgress"
  shows "t' \<in> set (db_trips d)"
proof (rule trip_before [OF assms(1-3)])
  fix t assume "t \<in> set (db_trips d)" "tr_id t = tr_id t'" "(tr_status t, tr_status t') \<in> trip_edge"
  with assms(4,5) show ?thesis by (auto simp: trip_edge_def)
qed (use assms(4) in auto)

lemma fares_ok_step:
  assumes step: "core_step d d'" and keys: "keys_ok d" and ok: "fares_ok d"
  shows "fares_ok d'"
proof -
  note keep = fares_ok_keep [OF step keys ok]
  from step show ?thesis
  proof cases
    case (request_trip t eid now payload)
    show ?thesis by (rule keep) (use request_trip in auto)
  next
    case (match_trip r driverId v t tid eid now payload since)
    show ?thesis
      by (rule keep) (auto simp: match_trip(1) update_rows_def split: if_splits)
  next
    case (cancel_trip t tid actorId by_driver eid payload now)
    show ?thesis
      by (rule keep) (auto simp: cancel_trip(1) update_rows_def split: if_splits)
  next
    case (start_trip t tid driverId eid now payload since)
    show ?thesis by (rule keep) (auto simp: start_trip(1) update_rows_def split: if_splits)
  next
    case (complete_trip t tid driverId eid f fares' now payload since)
    have "tid \<notin> fr_trip_id ` set (db_fare_records d)"
    proof
      assume "tid \<in> fr_trip_id ` set (db_fare_records d)"
      then obtain g s where "fare_of d g s" "fr_trip_id g = tid" using ok by (auto simp: fares_ok_def)
      then have "s = t"
        using same_id_same_trip [OF keys _ complete_trip(2)] complete_trip(3) by (simp add: fare_of_def)
      with \<open>fare_of d g s\<close> complete_trip(5) show False by (simp add: fare_of_def)
    qed
    then have fares: "db_fare_records d' = db_fare_records d @ [f]"
      using complete_trip(11) by (simp add: complete_trip(1))
    obtain t' where t': "t' \<in> set (db_trips d')" "tr_id t' = tid" "tr_status t' = Completed"
      "tr_fare_total t' = Some (fr_total f)"
    proof
      let ?t1 = "t\<lparr>tr_status := Completed, tr_completed_at := Some since\<rparr>"
      let ?t' = "?t1\<lparr>tr_fare_total := Some (fr_total f), tr_currency := ''USD''\<rparr>"
      have "?t1 \<in> set (update_rows (\<lambda>t. tr_id t = tid \<and> tr_driver_id t = Some driverId \<and>
          tr_status t = InProgress) (\<lambda>t. t\<lparr>tr_status := Completed, tr_completed_at := Some since\<rparr>) (db_trips d))"
        by (rule in_update_rowsI(1)) (use complete_trip(2-5) in simp_all)
      then have "?t' \<in> set (update_rows (\<lambda>t. tr_id t = tid)
          (\<lambda>t. t\<lparr>tr_fare_total := Some (fr_total f), tr_currency := ''USD''\<rparr>)
          (update_rows (\<lambda>t. tr_id t = tid \<and> tr_driver_id t = Some driverId \<and> tr_status t = InProgress)
            (\<lambda>t. t\<lparr>tr_status := Completed, tr_completed_at := Some since\<rparr>) (db_trips d)))"
        by (rule in_update_rowsI(1)) (use complete_trip(3) in simp)
      then show "?t' \<in> set (db_trips d')" by (simp add: complete_trip(1))
    qed (use complete_trip(3) in simp_all)
    have old: "t2 \<in> set (db_trips d)" if t2: "t2 \<in> set (db_trips d')" "tr_status t2 = Completed" "tr_id t2 \<noteq> tid" for t2
    proof (rule completed_before [OF step keys t2(1,2)])
      fix s assume s: "s \<in> set (db_trips d)" "tr_id s = tr_id t2"
      then have "s \<in> set (db_trips d')"
        using t2(3) by (force simp: complete_trip(1) update_rows_def)
      then have "s = t2" using same_id_same_trip [OF keys_ok_step [OF step keys] _ t2(1) s(2)] by simp
      with t2(2) show "tr_status s \<noteq> InProgress" by simp
    qed
    have mono: "fare_of d' g s" if "fare_of d g s" for g s
      using that completed_kept [OF step keys, of s] by (simp add: fare_of_def terminal_def)
    have "tr_id t2 \<in> fr_trip_id ` set (db_fare_records d')"
      if "t2 \<in> set (db_trips d')" "tr_status t2 = Completed" for t2
      using old [OF that] ok that(2) complete_trip(7) by (cases "tr_id t2 = tid") (auto simp: fares fares_ok_def)
    moreover have "fare_of d' f t'" using t' complete_trip(7) by (simp add: fare_of_def)
    moreover have "distinct (map fr_trip_id (db_fare_records d'))"
      using ok \<open>tid \<notin> _\<close> complete_trip(7) by (simp add: fares fares_ok_def)
    moreover have "(\<exists>t. fare_of d' g t) \<and> 0 \<le> fr_distance_km g \<and> 0 \<le> fr_duration_min g \<and>
        1 \<le> fr_surge_multiplier g" if "g \<in> set (db_fare_records d')" for g
    proof (cases "g = f")
      case True
      then show ?thesis using \<open>fare_of d' f t'\<close> complete_trip(8-10) by blast
    next
      case False
      then have "g \<in> set (db_fare_records d)" using that by (simp add: fares)
      then show ?thesis using ok mono unfolding fares_ok_def by blast
    qed
    ultimately show ?thesis unfolding fares_ok_def by blast
  qed (rule keep; auto simp: registry_step_same)+
qed

definition ratings_ok :: "db \<Rightarrow> bool" where
  "ratings_ok d \<longleftrightarrow> distinct (map rt_trip_id (db_trip_ratings d)) \<and>
     (\<forall>x \<in> set (db_trip_ratings d). 1 \<le> rt_rating x \<and> rt_rating x \<le> 5 \<and>
        (\<exists>t \<in> set (db_trips d). tr_id t = rt_trip_id x \<and> tr_status t = Completed \<and>
           tr_rider_id t = rt_rider_id x \<and> tr_driver_id t = Some (rt_driver_id x)))"

lemma ratings_ok_step:
  assumes step: "core_step d d'" and keys: "keys_ok d" and ok: "ratings_ok d"
  shows "ratings_ok d'"
proof -
  have keep: "ratings_ok d'" if "db_trip_ratings d' = db_trip_ratings d"
    using ok completed_kept [OF step keys] unfolding ratings_ok_def that terminal_def
    by (metis insertCI)
  from step show ?thesis
  proof cases
    case (rate_trip t tid riderId driverId stars eid f now payload comment)
    then show ?thesis using ok by (auto simp: ratings_ok_def)
  qed (rule keep; simp add: registry_step_same)+
qed

subsection \<open>The event log\<close>

text \<open>The status machine read off the events of a trip; an event out of place gives \<open>Expired\<close>, a
  status no trip has.\<close>

definition apply_event :: "trip_status option \<Rightarrow> trip_event_row \<Rightarrow> trip_status option" where
  "apply_event st e =
     (let ty = te_event_type e; by = jget (te_payload e) ''status''
      in case st of
           None \<Rightarrow> Some (if ty = ''requested'' then Requested else Expired)
         | Some s \<Rightarrow> Some
             (if ty = ''matched'' \<and> s = Requested then Matched
              else if ty = ''started'' \<and> s = Matched then InProgress
              else if ty = ''completed'' \<and> s = InProgress then Completed
              else if ty = ''rated'' \<and> s = Completed then Completed
              else if ty = ''cancelled'' \<and> s \<in> {Requested, Matched} then
                (if by = Some (JStr (trip_status_text CancelledByDriver)) then CancelledByDriver
                 else if by = Some (JStr (trip_status_text CancelledByRider)) then CancelledByRider
                 else Expired)
              else Expired))"

definition replay :: "db \<Rightarrow> string \<Rightarrow> trip_status option" where
  "replay d tripId = foldl apply_event None (filter (\<lambda>e. te_trip_id e = tripId) (db_trip_events d))"

definition log_ok :: "db \<Rightarrow> bool" where
  "log_ok d \<longleftrightarrow> (\<forall>t \<in> set (db_trips d). replay d (tr_id t) = Some (tr_status t)) \<and>
     (\<forall>e \<in> set (db_trip_events d). te_trip_id e \<in> tr_id ` set (db_trips d))"

lemma replay_append:
  assumes "db_trip_events d' = db_trip_events d @ [e]"
  shows "replay d' tripId =
    (if te_trip_id e = tripId then apply_event (replay d tripId) e else replay d tripId)"
  using assms by (simp add: replay_def)

lemma replay_cong: "db_trip_events d' = db_trip_events d \<Longrightarrow> replay d' tripId = replay d tripId"
  by (simp add: replay_def)

lemma replay_update:
  assumes "db_trip_events d' = update_rows p f (db_trip_events d)"
    and "\<And>e. te_trip_id (f e) = te_trip_id e \<and> te_event_type (f e) = te_event_type e \<and>
           te_payload (f e) = te_payload e"
  shows "replay d' tripId = replay d tripId"
proof -
  have "foldl apply_event st (filter (\<lambda>e. te_trip_id e = tripId) (update_rows p f es)) =
        foldl apply_event st (filter (\<lambda>e. te_trip_id e = tripId) es)" for st es
    using assms(2) by (induction es arbitrary: st) (auto simp: update_rows_def apply_event_def)
  then show ?thesis by (simp add: replay_def assms(1))
qed

lemma log_ok_event:
  assumes "log_ok d" and "t \<in> set (db_trips d)"
    and "db_trip_events d' = db_trip_events d @ [e]" and "te_trip_id e = tr_id t"
    and "\<And>t'. t' \<in> set (db_trips d') \<Longrightarrow> tr_id t' = tr_id t \<Longrightarrow>
      apply_event (Some (tr_status t)) e = Some (tr_status t')"
    and "\<And>t'. t' \<in> set (db_trips d') \<Longrightarrow> tr_id t' \<noteq> tr_id t \<Longrightarrow> t' \<in> set (db_trips d)"
    and "tr_id ` set (db_trips d) \<subseteq> tr_id ` set (db_trips d')"
  shows "log_ok d'"
proof -
  have "replay d' (tr_id t') = Some (tr_status t')" if t': "t' \<in> set (db_trips d')" for t'
  proof (cases "tr_id t' = tr_id t")
    case True
    have "replay d (tr_id t) = Some (tr_status t)" using assms(1,2) by (simp add: log_ok_def)
    then show ?thesis using assms(5) [OF t' True] True assms(4) by (simp add: replay_append [OF assms(3)])
  next
    case False
    then have "replay d (tr_id t') = Some (tr_status t')"
      using assms(1) assms(6) [OF t' False] by (simp add: log_ok_def)
    then show ?thesis using False assms(4) by (simp add: replay_append [OF assms(3)])
  qed
  moreover have "te_trip_id x \<in> tr_id ` set (db_trips d')" if "x \<in> set (db_trip_events d')" for x
    using that assms(1-4,7) by (auto simp: log_ok_def)
  ultimately show ?thesis by (simp add: log_ok_def)
qed

lemma trip_ids_kept:
  assumes "core_step d d'" and "keys_ok d"
  shows "tr_id ` set (db_trips d) \<subseteq> tr_id ` set (db_trips d')"
proof
  fix x assume "x \<in> tr_id ` set (db_trips d)"
  then obtain t where t: "t \<in> set (db_trips d)" "x = tr_id t" by blast
  with step_moves_trips [OF assms, of x] trip_of_eq [OF assms(2) t(1)]
  obtain t' where "trip_of d' x = Some t'" by (auto simp: trip_moves_def split: option.splits)
  then show "x \<in> tr_id ` set (db_trips d')" by (auto dest: trip_of_SomeD)
qed

lemma updated_trip:
  assumes "keys_ok d" and "t \<in> set (db_trips d)" and "\<And>s. p s \<Longrightarrow> tr_id s = tr_id t"
    and "\<And>s. tr_id (u s) = tr_id s" and "t' \<in> set (update_rows p u (db_trips d))"
  shows "if tr_id t' = tr_id t then t' = (if p t then u t else t) else t' \<in> set (db_trips d)"
proof -
  obtain s where s: "s \<in> set (db_trips d)" "t' = (if p s then u s else s)"
    using in_update_rowsD [OF assms(5)] by blast
  have same: "s = t" if "tr_id s = tr_id t" by (rule same_id_same_trip [OF assms(1) s(1) assms(2) that])
  show ?thesis
  proof (cases "p s")
    case True
    with same assms(3) have "s = t" by blast
    with True s(2) assms(4) show ?thesis by simp
  next
    case False
    with same s show ?thesis by auto
  qed
qed

lemma log_ok_update:
  assumes "keys_ok d" and "log_ok d" and "t \<in> set (db_trips d)" and "p t"
    and "\<And>s. p s \<Longrightarrow> tr_id s = tr_id t" and "\<And>s. tr_id (u s) = tr_id s"
    and "db_trips d' = update_rows p u (db_trips d)"
    and "db_trip_events d' = db_trip_events d @ [e]" and "te_trip_id e = tr_id t"
    and "apply_event (Some (tr_status t)) e = Some (tr_status (u t))"
  shows "log_ok d'"
proof (rule log_ok_event [OF assms(2,3,8,9)])
  fix t' assume t': "t' \<in> set (db_trips d')"
  then have t'': "t' \<in> set (update_rows p u (db_trips d))" by (simp add: assms(7))
  note up = updated_trip [OF assms(1,3,5,6) t'']
  {
    assume "tr_id t' = tr_id t"
    with up assms(4) have "t' = u t" by simp
    with assms(10) show "apply_event (Some (tr_status t)) e = Some (tr_status t')" by simp
  next
    assume "tr_id t' \<noteq> tr_id t"
    with up show "t' \<in> set (db_trips d)" by simp
  }
next
  have "tr_id ` set (update_rows p u (db_trips d)) = tr_id ` set (db_trips d)"
    using map_update_rows [of tr_id u p "db_trips d", OF assms(6)] by (metis list.set_map)
  then show "tr_id ` set (db_trips d) \<subseteq> tr_id ` set (db_trips d')" by (simp add: assms(7))
qed

lemma log_ok_step:
  assumes step: "core_step d d'" and keys: "keys_ok d" and ok: "log_ok d"
  shows "log_ok d'"
  using step
proof cases
  case (request_trip t eid now payload)
  have "\<not> (\<exists>e \<in> set (db_trip_events d). te_trip_id e = tr_id t)"
    using ok request_trip(2) unfolding log_ok_def by metis
  then have "replay d (tr_id t) = None" by (simp add: replay_def filter_False)
  moreover have "tr_id s \<noteq> tr_id t" if "s \<in> set (db_trips d)" for s
    using that request_trip(2) by (metis imageI)
  ultimately show ?thesis
    using ok request_trip(4) by (auto simp: log_ok_def request_trip(1) replay_append apply_event_def)
next
  case (match_trip r driverId v t tid eid now payload since)
  show ?thesis
    by (rule log_ok_update [OF keys ok match_trip(8), where p = "\<lambda>t. tr_id t = tid \<and> tr_status t = Requested"
        and e = "event_row eid now tid ''matched'' payload"
        and u = "\<lambda>t. t\<lparr>tr_driver_id := Some driverId, tr_vehicle_id := Some (ve_id v),
                       tr_status := Matched, tr_matched_at := Some since\<rparr>"])
      (use match_trip(9,10) in \<open>simp_all add: match_trip(1) apply_event_def\<close>)
next
  case (cancel_trip t tid actorId by_driver eid payload now)
  have "tr_id t = tid" "tr_status t \<in> {Requested, Matched}" using cancel_trip(3) by (simp_all add: cancellable_def)
  then show ?thesis
    by (intro log_ok_update [OF keys ok cancel_trip(2), where p = "cancellable tid actorId by_driver"
        and e = "event_row eid now tid ''cancelled'' payload"
        and u = "\<lambda>t. t\<lparr>tr_status := if by_driver then CancelledByDriver else CancelledByRider\<rparr>"])
      (use cancel_trip(3,5) in \<open>auto simp: cancel_trip(1) apply_event_def cancellable_def\<close>)
next
  case (start_trip t tid driverId eid now payload since)
  show ?thesis
    by (rule log_ok_update [OF keys ok start_trip(2),
        where p = "\<lambda>t. tr_id t = tid \<and> tr_driver_id t = Some driverId \<and> tr_status t = Matched"
        and e = "event_row eid now tid ''started'' payload"
        and u = "\<lambda>t. t\<lparr>tr_status := InProgress, tr_started_at := Some since\<rparr>"])
      (use start_trip(3-5) in \<open>simp_all add: start_trip(1) apply_event_def\<close>)
next
  case (rate_trip t tid riderId driverId stars eid f now payload comment)
  let ?e = "event_row eid now tid ''rated'' payload"
  show ?thesis
  proof (rule log_ok_event [where e = ?e, OF ok rate_trip(2)])
    fix t' assume t': "t' \<in> set (db_trips d')" "tr_id t' = tr_id t"
    then have "t' = t" using same_id_same_trip [OF keys _ rate_trip(2)] by (simp add: rate_trip(1))
    then show "apply_event (Some (tr_status t)) ?e = Some (tr_status t')"
      using rate_trip(5) by (simp add: apply_event_def)
  qed (simp_all add: rate_trip(1,3))
next
  case (publish_event f eid)
  have ev: "db_trip_events d' = update_rows (\<lambda>e. te_id e = eid) f (db_trip_events d)"
    by (simp add: publish_event(1))
  have r: "replay d' x = replay d x" for x by (rule replay_update [OF ev]) (use publish_event(2) in blast)
  show ?thesis
    unfolding log_ok_def r
    using ok publish_event(2) by (auto simp: log_ok_def publish_event(1) update_rows_def)
next
  case (complete_trip t tid driverId eid f fares' now payload since)
  note u1 = updated_trip [OF keys complete_trip(2),
      where p = "\<lambda>t. tr_id t = tid \<and> tr_driver_id t = Some driverId \<and> tr_status t = InProgress"
      and u = "\<lambda>t. t\<lparr>tr_status := Completed, tr_completed_at := Some since\<rparr>"]
  have other: "if tr_id t' = tid then tr_status t' = Completed else t' \<in> set (db_trips d)"
    if t': "t' \<in> set (db_trips d')" for t'
  proof -
    obtain s where "s \<in> set (update_rows (\<lambda>t. tr_id t = tid \<and> tr_driver_id t = Some driverId \<and>
        tr_status t = InProgress) (\<lambda>t. t\<lparr>tr_status := Completed, tr_completed_at := Some since\<rparr>) (db_trips d))"
      and "t' = (if tr_id s = tid then s\<lparr>tr_fare_total := Some (fr_total f), tr_currency := ''USD''\<rparr> else s)"
      using t' by (auto simp: complete_trip(1) dest: in_update_rowsD)
    with u1 [of s] complete_trip(3-5) show ?thesis by (auto split: if_splits)
  qed
  show ?thesis
    by (rule log_ok_event [OF ok complete_trip(2) _ _ _ _ trip_ids_kept [OF step keys]])
      (use other complete_trip(3,5) in \<open>auto simp: complete_trip(1) apply_event_def split: if_splits\<close>)
qed (use ok in \<open>auto simp: log_ok_def replay_def registry_step_same\<close>)

section \<open>All of it, along any run\<close>

definition db_ok :: "db \<Rightarrow> bool" where
  "db_ok d \<longleftrightarrow> bookings_ok d \<and> log_ok d \<and> fares_ok d \<and> ratings_ok d"

lemma db_ok_keys: "db_ok d \<Longrightarrow> keys_ok d"
  by (simp add: db_ok_def bookings_ok_def)

lemma db_ok_core: "core_step d d' \<Longrightarrow> db_ok d \<Longrightarrow> db_ok d'"
  using bookings_ok_step log_ok_step fares_ok_step ratings_ok_step
  by (auto simp: db_ok_def bookings_ok_def)

lemma online_mid_trip_same:
  assumes "online_mid_trip d d'"
  shows "same_bookings d d'" and "db_users d' = db_users d" and "driver_ids d' = driver_ids d"
    and "map dr_user_id (db_drivers d') = map dr_user_id (db_drivers d)"
proof -
  obtain v where "d' = d\<lparr>db_drivers := update_rows (\<lambda>r. dr_user_id r = v \<and> dr_status r \<noteq> Suspended)
      (\<lambda>r. r\<lparr>dr_status := Online\<rparr>) (db_drivers d)\<rparr>"
    using assms by (auto simp: online_mid_trip_def)
  then show "same_bookings d d'" and "db_users d' = db_users d" and "driver_ids d' = driver_ids d"
    and "map dr_user_id (db_drivers d') = map dr_user_id (db_drivers d)"
    by (simp_all add: same_bookings_def driver_ids_def map_update_rows driver_ids_update)
qed

lemma db_ok_mid_trip:
  assumes "online_mid_trip d d'" and "db_ok d"
  shows "db_ok d'"
proof -
  note same = online_mid_trip_same [OF assms(1)]
  have "bookings_ok d'"
    using assms(2) same
    by (auto simp: db_ok_def bookings_ok_def keys_ok_def same_bookings_def trip_ok_def user_ids_def)
  moreover have "log_ok d'" "fares_ok d'" "ratings_ok d'"
    using assms(2) same(1)
    by (auto simp: db_ok_def log_ok_def replay_def fares_ok_def fare_of_def ratings_ok_def same_bookings_def)
  ultimately show ?thesis by (simp add: db_ok_def)
qed

lemma db_ok_step: "booking_step d d' \<Longrightarrow> db_ok d \<Longrightarrow> db_ok d'"
  using db_ok_core db_ok_mid_trip by (auto simp: booking_step_def)

lemma db_ok_steps: "booking_step\<^sup>*\<^sup>* d d' \<Longrightarrow> db_ok d \<Longrightarrow> db_ok d'"
  by (induction rule: rtranclp_induct) (auto intro: db_ok_step)

lemma core_steps_ok:
  "core_step\<^sup>*\<^sup>* d d' \<Longrightarrow> db_ok d \<Longrightarrow> exclusive d \<Longrightarrow> db_ok d' \<and> exclusive d'"
proof (induction rule: rtranclp_induct)
  case (step d1 d2)
  then show ?case
    using db_ok_core [OF step(2)] exclusive_step [OF step(2)] by (simp add: db_ok_def)
qed simp

text \<open>A trip over any number of steps.\<close>

definition trip_follows :: "db \<Rightarrow> db \<Rightarrow> string \<Rightarrow> bool" where
  "trip_follows d d' tripId \<longleftrightarrow>
     (case (trip_of d tripId, trip_of d' tripId) of
        (None, None) \<Rightarrow> True
      | (None, Some t') \<Rightarrow> (Requested, tr_status t') \<in> trip_edge\<^sup>*
      | (Some t, None) \<Rightarrow> False
      | (Some t, Some t') \<Rightarrow> same_order t t' \<and> (tr_status t, tr_status t') \<in> trip_edge\<^sup>* \<and>
          (terminal (tr_status t) \<longrightarrow> t' = t))"

lemma same_order_trans: "same_order a b \<Longrightarrow> same_order b c \<Longrightarrow> same_order a c"
  by (simp add: same_order_def)

lemma trip_moves_booking:
  assumes "booking_step d d'" and "keys_ok d"
  shows "trip_moves d d' tripId"
  using assms step_moves_trips trip_moves_same [of d' d]
  by (auto simp: booking_step_def dest: online_mid_trip_same(1) simp: same_bookings_def)

lemma trip_follows_move:
  assumes "trip_follows d d1 tripId" and "trip_moves d1 d2 tripId"
  shows "trip_follows d d2 tripId"
proof (cases "trip_of d2 tripId")
  case None
  then show ?thesis using assms
    by (cases "trip_of d tripId"; cases "trip_of d1 tripId") (simp_all add: trip_follows_def trip_moves_def)
next
  case (Some t2)
  show ?thesis
  proof (cases "trip_of d1 tripId")
    case None
    then show ?thesis using assms Some
      by (cases "trip_of d tripId") (simp_all add: trip_follows_def trip_moves_def)
  next
    case (Some t1)
    with assms(2) \<open>trip_of d2 tripId = Some t2\<close>
    have so: "same_order t1 t2" and edge: "t2 = t1 \<or> (tr_status t1, tr_status t2) \<in> trip_edge"
      by (simp_all add: trip_moves_def)
    then have run: "(s, tr_status t1) \<in> trip_edge\<^sup>* \<Longrightarrow> (s, tr_status t2) \<in> trip_edge\<^sup>*" for s
      by (auto intro: rtrancl_into_rtrancl)
    have stuck: "terminal (tr_status t1) \<Longrightarrow> t2 = t1"
      using edge by (auto simp: trip_edge_def terminal_def)
    show ?thesis
      using assms(1) Some \<open>trip_of d2 tripId = Some t2\<close> run so stuck same_order_trans
      by (cases "trip_of d tripId") (auto simp: trip_follows_def)
  qed
qed

lemma trip_follows_steps:
  assumes "booking_step\<^sup>*\<^sup>* d d'" and "db_ok d"
  shows "trip_follows d d' tripId"
  using assms(1)
proof (induction rule: rtranclp_induct)
  case base
  show ?case by (simp add: trip_follows_def same_order_refl split: option.split)
next
  case (step d1 d2)
  have "keys_ok d1" using db_ok_keys [OF db_ok_steps [OF step(1) assms(2)]] .
  from trip_follows_move [OF step(3) trip_moves_booking [OF step(2) this]] show ?case .
qed

end
