(* ===== verification/TripRefinement.thy ===== *)
theory TripRefinement
  imports TripService BookingSpec
begin

text \<open>
  The handlers of the trip service commit only steps of \<open>BookingSpec\<close>, under every schedule of
  faults. The outbox is treated first, for any database property that does not depend on the
  publication fields of events (locale \<open>outbox_stable\<close>).
\<close>

section \<open>The outbox\<close>

locale outbox_stable =
  fixes I :: "db \<Rightarrow> bool"
  assumes publish_stable:
    "I d \<Longrightarrow>
     (\<And>e. te_id (f e) = te_id e \<and> te_trip_id (f e) = te_trip_id e \<and>
          te_event_type (f e) = te_event_type e \<and> te_payload (f e) = te_payload e \<and>
          (te_published_at e \<noteq> None \<longrightarrow> te_published_at (f e) \<noteq> None)) \<Longrightarrow>
     I (d\<lparr>db_trip_events := update_rows (\<lambda>e. te_id e = eid) f (db_trip_events d)\<rparr>)"
begin

lemma mark_ok: "stmt_ok I (mark_published eid) (\<lambda>_. I)" "stmt_ok I (mark_publish_failed eid err) (\<lambda>_. I)"
  by (auto simp: stmt_ok_def mark_published_def mark_publish_failed_def update_events_def
      intro!: publish_stable)

lemma publishTripEvent_neutral: "db_neutral (publishTripEvent p)"
proof -
  have "db_neutral (await (env_var n) (\<lambda>topic. kafka_send (f topic)))" for n f
    using db_neutral_servers(7,8) by (auto simp: db_neutral_def await_def split: prod.splits sum.splits)
      (metis snd_conv)+
  then show ?thesis by (simp add: publishTripEvent_def)
qed

lemma publish_row_valid: "valid (open_tx I I) (publish_row X row) (\<lambda>_. open_tx I I) (\<lambda>_. some_tx I)"
  unfolding publish_row_def
proof (rule valid_await)
  show "valid (open_tx I I) (of_exn (outboxPayload X (te_trip_id row) (te_event_type row) (te_payload row)))
      (\<lambda>_. open_tx I I) (\<lambda>_. some_tx I)"
    by (cases "outboxPayload X (te_trip_id row) (te_event_type row) (te_payload row)")
      (auto simp: of_exn_def intro!: valid_ret valid_throw dest: open_some_tx)
next
  fix p
  show "valid (open_tx I I)
      (try_catch (await (publishTripEvent p) (\<lambda>_. query (mark_published (te_id row))))
        (\<lambda>e. query (mark_publish_failed (te_id row) (exn_text e))))
      (\<lambda>_. open_tx I I) (\<lambda>_. some_tx I)"
  proof (rule valid_try_catch [where R = "\<lambda>_. open_tx I I"])
    show "valid (open_tx I I) (await (publishTripEvent p) (\<lambda>_. query (mark_published (te_id row))))
        (\<lambda>_. open_tx I I) (\<lambda>_. open_tx I I)"
      by (rule valid_await [OF valid_neutral(2) [OF publishTripEvent_neutral]])
        (rule valid_conseq [OF valid_query_tx_failed [OF mark_ok(1)]], auto intro: failed_open_tx)
  qed (rule valid_query_tx [OF mark_ok(2)])
qed

lemma outbox_flush_valid:
  "valid (idle I) (outbox_flush X) (\<lambda>_. some_tx I) (\<lambda>_. some_tx I)"
  unfolding outbox_flush_def
proof (rule valid_await [OF valid_begin_same])
  show "valid (open_tx I I) (await (query select_pending) (\<lambda>rows.
      await (for_each rows (publish_row X)) (\<lambda>_. commit))) (\<lambda>_. some_tx I) (\<lambda>_. some_tx I)"
  proof (rule valid_await [OF valid_query_tx])
    show "stmt_ok I select_pending (\<lambda>_. I)"
      unfolding select_pending_def by (rule stmt_ok_select)
    fix rows
    show "valid (open_tx I I) (await (for_each rows (publish_row X)) (\<lambda>_. commit))
        (\<lambda>_. some_tx I) (\<lambda>_. some_tx I)"
      by (rule valid_await [OF valid_for_each [OF publish_row_valid]])
        (rule valid_conseq [OF valid_commit], auto dest: idle_some_tx)
  qed
qed

lemma publishPending_valid:
  "valid (idle I) (publishPendingTripEvents X) (\<lambda>_. idle I) (\<lambda>_. idle I)"
  unfolding publishPendingTripEvents_def
proof (rule valid_await [where R = "\<lambda>_. idle I"])
  fix running :: bool
  have finish: "valid (some_tx I) (await release (\<lambda>_. set_state (\<lambda>w. w\<lparr>w_outboxRunning := False\<rparr>)))
      (\<lambda>_. idle I) E" for E
    by (rule valid_await [OF valid_release]) (auto intro!: valid_set simp: idle_def)
  have flush: "valid (idle I) (try_catch (outbox_flush X) (\<lambda>e. rollback_quietly)) (\<lambda>_. some_tx I) (\<lambda>_. some_tx I)"
    by (rule valid_try_catch [OF outbox_flush_valid])
      (rule valid_conseq [OF valid_rollback_quietly], auto dest: idle_some_tx)
  have locked: "valid (idle I) (set_state (\<lambda>w. w\<lparr>w_outboxRunning := True\<rparr>)) (\<lambda>_. idle I) (\<lambda>_. idle I)"
    by (auto intro!: valid_set simp: idle_def)
  have run: "valid (idle I)
      (await (set_state (\<lambda>w. w\<lparr>w_outboxRunning := True\<rparr>)) (\<lambda>_. await connect (\<lambda>_.
         finally_do (try_catch (outbox_flush X) (\<lambda>e. rollback_quietly))
           (await release (\<lambda>_. set_state (\<lambda>w. w\<lparr>w_outboxRunning := False\<rparr>))))))
      (\<lambda>_. idle I) (\<lambda>_. idle I)"
    by (rule valid_await [OF locked], rule valid_await [OF valid_neutral(1) [OF db_neutral_servers(1)]],
        rule valid_finally [OF flush finish finish])
  show "valid (idle I)
      (if running then ret ()
       else await (set_state (\<lambda>w. w\<lparr>w_outboxRunning := True\<rparr>)) (\<lambda>_. await connect (\<lambda>_.
         finally_do (try_catch (outbox_flush X) (\<lambda>e. rollback_quietly))
           (await release (\<lambda>_. set_state (\<lambda>w. w\<lparr>w_outboxRunning := False\<rparr>))))))
      (\<lambda>_. idle I) (\<lambda>_. idle I)"
    using run by (simp add: valid_ret)
qed (rule valid_get, simp)

end

interpretation core_outbox: outbox_stable "core_step\<^sup>*\<^sup>* d0" for d0
  by unfold_locales (rule rtranclp.rtrancl_into_rtrancl, assumption, rule core_step.publish_event, blast)

lemma publishPending_commits: "commits core_step (publishPendingTripEvents X)"
  by (rule commitsI) (rule core_outbox.publishPending_valid)

section \<open>Handlers\<close>

lemma insert_event_ok:
  assumes "\<And>d eid now. J d \<Longrightarrow> fresh_event eid d \<Longrightarrow> tripId \<in> tr_id ` set (db_trips d) \<Longrightarrow>
    I (log_event eid now tripId ty payload d)"
  shows "stmt_ok J (insert_trip_event tripId ty (JObj payload)) (\<lambda>_. I)"
proof (rule stmt_okI)
  fix s d x d' s'
  assume J: "J d" and run: "insert_trip_event tripId ty (JObj payload) s d = (Inr (x, d'), s')"
  then have "tripId \<in> tr_id ` set (db_trips d)" "fresh_event (sys_events s) d"
    and "d' = log_event (sys_events s) (sys_now s) tripId ty payload d"
    by (auto simp: insert_trip_event_def Let_def fresh_event_def log_event_def event_row_def split: if_splits)
  with assms [OF J] show "I d'" by blast
qed

lemma valid_record:
  assumes "\<And>d eid now. J d \<Longrightarrow> fresh_event eid d \<Longrightarrow> tripId \<in> tr_id ` set (db_trips d) \<Longrightarrow>
    I (log_event eid now tripId ty payload d)"
  shows "valid (open_tx I J) (recordTripEvent tripId ty payload) (\<lambda>_. open_tx I I) (\<lambda>_. some_tx I)"
  unfolding recordTripEvent_def
proof (rule valid_await [OF valid_query_tx])
  show "stmt_ok J (insert_trip_event tripId ty (JObj payload)) (\<lambda>_. I)"
    by (rule insert_event_ok) (rule assms)
qed (rule valid_ret, assumption)

text \<open>A last step of \<open>core_step\<close> after any run of them.\<close>

lemma core_last: "core_step\<^sup>*\<^sup>* d0 d \<Longrightarrow> core_step d d' \<Longrightarrow> core_step\<^sup>*\<^sup>* d0 d'"
  by (rule rtranclp.rtrancl_into_rtrancl)

lemma insert_trip_Inr:
  assumes "insert_trip X riderId dto s d = (Inr (rows, d'), s')"
  obtains pickup dropoff where
    "rows = [trip_ref_of (new_trip X s riderId dto pickup dropoff)]"
    "d' = d\<lparr>db_trips := db_trips d @ [new_trip X s riderId dto pickup dropoff]\<rparr>"
    "tr_id (new_trip X s riderId dto pickup dropoff) \<notin> tr_id ` set (db_trips d)"
    "riderId \<in> us_id ` set (db_users d)"
    "point_param (ct_pickup dto) = Some pickup" "point_param (ct_dropoff dto) = Some dropoff"
  using assms by (auto simp: insert_trip_def Let_def split: option.splits if_splits)

lemma create_commits: "commits core_step (create X dto riderId)"
proof -
  let ?ev = "\<lambda>c. recordTripEvent (ref_id c) ''requested''
      [(''rider_id'', JStr riderId), (''dto'', create_trip_json dto)]"
  have body: "valid (open_tx I I)
     (await (query (insert_trip X riderId dto)) (\<lambda>rows.
        case rows of
          [] \<Rightarrow> throw (Http 400 None ''trip could not be created'')
        | created # _ \<Rightarrow> await (?ev created) (\<lambda>_. await commit (\<lambda>_. ret created))))
     (\<lambda>_. some_tx I) (\<lambda>_. some_tx I)" (is "valid _ (await _ ?rest) _ _")
    if I: "I = core_step\<^sup>*\<^sup>* d0" for I d0
  proof -
    define K where "K = (\<lambda>rows d'. \<exists>d t. I d \<and> tr_id t \<notin> tr_id ` set (db_trips d) \<and>
        tr_rider_id t \<in> us_id ` set (db_users d) \<and> tr_status t = Requested \<and> tr_driver_id t = None \<and>
        tr_vehicle_id t = None \<and> tr_fare_total t = None \<and> rows = [trip_ref_of t] \<and>
        d' = d\<lparr>db_trips := db_trips d @ [t]\<rparr>)"
    have "stmt_ok I (insert_trip X riderId dto) K"
    proof (rule stmt_okI, erule insert_trip_Inr)
      fix s d rows d' pickup dropoff
      let ?t = "new_trip X s riderId dto pickup dropoff"
      assume "I d" "rows = [trip_ref_of ?t]" "d' = d\<lparr>db_trips := db_trips d @ [?t]\<rparr>"
        "tr_id ?t \<notin> tr_id ` set (db_trips d)" "riderId \<in> us_id ` set (db_users d)"
      then show "K rows d'"
        unfolding K_def by (intro exI [of _ d] exI [of _ ?t]) (simp add: new_trip_def)
    qed
    moreover have "valid (open_tx I (K rows)) (?rest rows) (\<lambda>_. some_tx I) (\<lambda>_. some_tx I)" for rows
    proof (cases rows)
      case Nil
      then show ?thesis by (auto intro!: valid_throw dest: open_some_tx)
    next
      case (Cons c cs)
      have "valid (open_tx I (K rows)) (?ev c) (\<lambda>_. open_tx I I) (\<lambda>_. some_tx I)"
      proof (rule valid_record)
        fix d eid now assume "K rows d" "fresh_event eid d"
        then obtain d1 t where "I d1" and t: "tr_id t \<notin> tr_id ` set (db_trips d1)"
          "tr_rider_id t \<in> us_id ` set (db_users d1)" "tr_status t = Requested" "tr_driver_id t = None"
          "tr_vehicle_id t = None" "tr_fare_total t = None"
          and "c = trip_ref_of t" and d: "d = d1\<lparr>db_trips := db_trips d1 @ [t]\<rparr>"
          by (auto simp: K_def Cons)
        moreover have "fresh_event eid d1" using \<open>fresh_event eid d\<close> by (simp add: d fresh_event_def)
        ultimately show "I (log_event eid now (ref_id c) ''requested''
            [(''rider_id'', JStr riderId), (''dto'', create_trip_json dto)] d)"
          using core_step.request_trip [OF t] by (auto simp: I trip_ref_of_def intro: core_last)
      qed
      then show ?thesis by (auto simp: Cons intro!: valid_await [OF _ valid_commit_ret])
    qed
    ultimately show ?thesis by (rule valid_await [OF valid_query_tx])
  qed
  show ?thesis
    unfolding create_def
    by (intro commits_await commits_tx publishPending_commits commits_ret commits_neutral
        rollback_rethrow_some db_neutral_servers body [OF refl])
qed

lemma update_trips_eq:
  "update_trips p u s d = (Inr (returning p (u (sys_now s)) (db_trips d), with_trips p (u (sys_now s)) d), s)"
  by (simp add: update_trips_def with_trips_def)

lemma set_driver_status_eq:
  "set_driver_status v st s d = (Inr ((), with_driver_status v st d), s)"
  by (simp add: set_driver_status_def with_driver_status_def)

lemma update_trips_ok:
  assumes "\<And>d now. I d \<Longrightarrow> \<forall>t \<in> set (db_trips d). \<not> p t \<Longrightarrow> K [] d"
    and "\<And>d now t rs. I d \<Longrightarrow> t \<in> set (db_trips d) \<Longrightarrow> p t \<Longrightarrow> K (u now t # rs) (with_trips p (u now) d)"
  shows "stmt_ok I (update_trips p u) K"
proof (rule stmt_okI)
  fix s d rows d' s'
  assume I: "I d" and "update_trips p u s d = (Inr (rows, d'), s')"
  then have rows: "returning p (u (sys_now s)) (db_trips d) = rows" and d': "d' = with_trips p (u (sys_now s)) d"
    by (auto simp: update_trips_eq)
  show "K rows d'"
  proof (cases rows)
    case Nil
    with rows have "\<forall>t \<in> set (db_trips d). \<not> p t" by (simp add: returning_nil_iff)
    moreover from this have "d' = d" by (simp add: d' with_trips_def update_rows_none)
    ultimately show ?thesis using assms(1) [OF I] Nil by simp
  next
    case (Cons r rs)
    with returning_consD [of p "u (sys_now s)" "db_trips d" r rs] rows
    obtain t where "t \<in> set (db_trips d)" "p t" "r = u (sys_now s) t" by auto
    with assms(2) [OF I] show ?thesis by (simp add: d' Cons)
  qed
qed

lemma fresh_event_step [simp]:
  "fresh_event eid (with_trips p u d) = fresh_event eid d"
  "fresh_event eid (free_driver v d) = fresh_event eid d"
  "fresh_event eid (with_driver_status v' st d) = fresh_event eid d"
  "fresh_event eid (d\<lparr>db_fare_records := fs\<rparr>) = fresh_event eid d"
  by (simp_all add: fresh_event_def)

lemma valid_case_list:
  assumes "xs = [] \<Longrightarrow> valid P m Q E" and "\<And>y ys. xs = y # ys \<Longrightarrow> valid P (f y ys) Q E"
  shows "valid P (case xs of [] \<Rightarrow> m | y # ys \<Rightarrow> f y ys) Q E"
  using assms by (cases xs) simp_all

lemmas commits_servers = db_neutral_servers [THEN commits_neutral]

lemma commits_if: "commits S m \<Longrightarrow> commits S m' \<Longrightarrow> commits S (if c then m else m')"
  by simp

lemma commits_list:
  "commits S m \<Longrightarrow> (\<And>y ys. commits S (f y ys)) \<Longrightarrow> commits S (case xs of [] \<Rightarrow> m | y # ys \<Rightarrow> f y ys)"
  by (cases xs) simp_all

lemma commits_option:
  "commits S m \<Longrightarrow> (\<And>y. commits S (f y)) \<Longrightarrow> commits S (case x of None \<Rightarrow> m | Some y \<Rightarrow> f y)"
  by (cases x) simp_all

lemma commits_restore: "commits S (restoreDriverGeoIndex v)"
  unfolding restoreDriverGeoIndex_def
  by (intro commits_await commits_query)
    (auto simp: select_location_def select_def intro!: commits_neutral db_neutral_servers split: option.split)

lemma cancel_commits: "commits core_step (cancel X tripId actorId actorRole)"
proof -
  have body: "valid (open_tx I I)
     (await (query (cancel_trip_stmt tripId actorId by_driver)) (\<lambda>rows.
       await (case rows of
                [] \<Rightarrow> ret ()
              | row # _ \<Rightarrow>
                  await (case tr_driver_id row of
                           None \<Rightarrow> ret ()
                         | Some driverId \<Rightarrow> query (set_driver_status driverId Online)) (\<lambda>_.
                  recordTripEvent tripId ''cancelled''
                    [(''by'', JStr actorRole), (''status'', JStr (trip_status_text
                       (if by_driver then CancelledByDriver else CancelledByRider)))]))
         (\<lambda>_. await commit (\<lambda>_. ret rows))))
     (\<lambda>_. some_tx I) (\<lambda>_. some_tx I)" (is "valid _ (await _ (\<lambda>rows. await (?rest rows) _)) _ _")
    if I: "I = core_step\<^sup>*\<^sup>* d0" for I d0 by_driver
  proof -
    let ?u = "\<lambda>t. t\<lparr>tr_status := if by_driver then CancelledByDriver else CancelledByRider\<rparr>"
    let ?p = "cancellable tripId actorId by_driver"
    define K where "K = (\<lambda>rows d'. case rows of [] \<Rightarrow> I d' | row # _ \<Rightarrow>
        \<exists>d t. I d \<and> t \<in> set (db_trips d) \<and> ?p t \<and> row = ?u t \<and> d' = with_trips ?p ?u d)"
    have p_eq: "(\<lambda>t. tr_id t = tripId \<and>
        (if by_driver then tr_driver_id t = Some actorId else tr_rider_id t = actorId) \<and>
        tr_status t \<in> {Requested, Matched}) = ?p"
      by (simp add: cancellable_def fun_eq_iff)
    have "stmt_ok I (cancel_trip_stmt tripId actorId by_driver) K"
      unfolding cancel_trip_stmt_def p_eq
      by (rule update_trips_ok) (unfold K_def list.case, assumption, blast)
    moreover have "valid (open_tx I (K rows)) (?rest rows) (\<lambda>_. open_tx I I) (\<lambda>_. some_tx I)" for rows
    proof (rule valid_case_list)
      assume "rows = []"
      then show "valid (open_tx I (K rows)) (ret ()) (\<lambda>_. open_tx I I) (\<lambda>_. some_tx I)"
        by (simp add: K_def valid_ret)
    next
      fix row rs assume rows: "rows = row # rs"
      define K2 where "K2 = (\<lambda>d'. \<exists>d t. I d \<and> t \<in> set (db_trips d) \<and> ?p t \<and> row = ?u t \<and>
          d' = free_driver (tr_driver_id t) (with_trips ?p ?u d))"
      have "valid (open_tx I (K rows))
          (case tr_driver_id row of None \<Rightarrow> ret () | Some v \<Rightarrow> query (set_driver_status v Online))
          (\<lambda>_. open_tx I K2) (\<lambda>_. some_tx I)"
      proof (cases "tr_driver_id row")
        case None
        have "K2 d'" if K: "K rows d'" for d'
        proof -
          obtain d t where *: "I d" "t \<in> set (db_trips d)" "?p t" "row = ?u t" "d' = with_trips ?p ?u d"
            using K unfolding K_def rows list.case by blast
          then have "d' = free_driver (tr_driver_id t) (with_trips ?p ?u d)"
            using None by (simp add: free_driver_def)
          with * show ?thesis unfolding K2_def by blast
        qed
        then show ?thesis unfolding None option.case by (intro valid_ret) (rule open_tx_mono)
      next
        case (Some v)
        have "stmt_ok (K rows) (set_driver_status v Online) (\<lambda>_. K2)"
        proof (rule stmt_okI)
          fix s d1 x d2 s' assume K: "K rows d1" and "set_driver_status v Online s d1 = (Inr (x, d2), s')"
          then have d2: "d2 = with_driver_status v Online d1" by (simp add: set_driver_status_eq)
          obtain d t where *: "I d" "t \<in> set (db_trips d)" "?p t" "row = ?u t" "d1 = with_trips ?p ?u d"
            using K unfolding K_def rows list.case by blast
          then have "d2 = free_driver (tr_driver_id t) (with_trips ?p ?u d)"
            using Some d2 by (simp add: free_driver_def)
          with * show "K2 d2" unfolding K2_def by blast
        qed
        then show ?thesis using Some by (simp add: valid_query_tx)
      qed
      moreover have "valid (open_tx I K2) (recordTripEvent tripId ''cancelled''
          [(''by'', JStr actorRole), (''status'', JStr (trip_status_text
             (if by_driver then CancelledByDriver else CancelledByRider)))]) (\<lambda>_. open_tx I I) (\<lambda>_. some_tx I)"
      proof (rule valid_record)
        fix d eid now assume "K2 d" and fresh: "fresh_event eid d"
        then obtain d1 t where *: "I d1" "t \<in> set (db_trips d1)" "?p t"
          and d: "d = free_driver (tr_driver_id t) (with_trips ?p ?u d1)"
          unfolding K2_def by blast
        have "core_step d1 (log_event eid now tripId ''cancelled'' [(''by'', JStr actorRole),
            (''status'', JStr (trip_status_text (if by_driver then CancelledByDriver else CancelledByRider)))] d)"
          unfolding d
          by (rule core_step.cancel_trip [OF *(2,3)]) (use fresh d in \<open>simp_all\<close>)
        with *(1) show "I (log_event eid now tripId ''cancelled'' [(''by'', JStr actorRole),
            (''status'', JStr (trip_status_text (if by_driver then CancelledByDriver else CancelledByRider)))] d)"
          unfolding I by (rule core_last)
      qed
      ultimately show "valid (open_tx I (K rows))
          (await (case tr_driver_id row of None \<Rightarrow> ret () | Some v \<Rightarrow> query (set_driver_status v Online))
            (\<lambda>_. recordTripEvent tripId ''cancelled''
              [(''by'', JStr actorRole), (''status'', JStr (trip_status_text
                 (if by_driver then CancelledByDriver else CancelledByRider)))]))
          (\<lambda>_. open_tx I I) (\<lambda>_. some_tx I)"
        by (rule valid_await)
    qed
    ultimately show ?thesis
      by (intro valid_await [OF valid_query_tx] valid_await [OF _ valid_commit_ret])
  qed
  show ?thesis
    unfolding cancel_def Let_def
    by (intro commits_if commits_await commits_list commits_option commits_throw commits_ret commits_restore
        publishPending_commits commits_servers commits_tx rollback_rethrow_some body [OF refl])
qed

lemma start_commits: "commits core_step (start X tripId actor)"
proof -
  let ?ev = "recordTripEvent tripId ''started'' [(''driver_id'', JStr (ac_sub actor))]"
  let ?p = "\<lambda>t. tr_id t = tripId \<and> tr_driver_id t = Some (ac_sub actor) \<and> tr_status t = Matched"
  let ?u = "\<lambda>now t. t\<lparr>tr_status := InProgress, tr_started_at := Some now\<rparr>"
  have body: "valid (open_tx I I)
     (await (query (start_trip_stmt tripId (ac_sub actor))) (\<lambda>rows.
       await (case rows of [] \<Rightarrow> ret () | _ \<Rightarrow> ?ev) (\<lambda>_. await commit (\<lambda>_. ret rows))))
     (\<lambda>_. some_tx I) (\<lambda>_. some_tx I)"
    if I: "I = core_step\<^sup>*\<^sup>* d0" for I d0
  proof -
    define K where "K = (\<lambda>(rows :: trip_row list) d'. case rows of [] \<Rightarrow> I d' | _ # _ \<Rightarrow>
        \<exists>d now t. I d \<and> t \<in> set (db_trips d) \<and> ?p t \<and> d' = with_trips ?p (?u now) d)"
    have "stmt_ok I (start_trip_stmt tripId (ac_sub actor)) K"
      unfolding start_trip_stmt_def
      by (rule update_trips_ok) (unfold K_def list.case, assumption, blast)
    moreover have "valid (open_tx I (K rows)) (case rows of [] \<Rightarrow> ret () | _ # _ \<Rightarrow> ?ev)
        (\<lambda>_. open_tx I I) (\<lambda>_. some_tx I)" for rows
    proof (rule valid_case_list)
      assume "rows = []"
      then show "valid (open_tx I (K rows)) (ret ()) (\<lambda>_. open_tx I I) (\<lambda>_. some_tx I)"
        by (simp add: K_def valid_ret)
    next
      fix row rs assume rows: "rows = row # rs"
      show "valid (open_tx I (K rows)) ?ev (\<lambda>_. open_tx I I) (\<lambda>_. some_tx I)"
      proof (rule valid_record)
        fix d eid now assume "K rows d" and fresh: "fresh_event eid d"
        then obtain d1 since t where *: "I d1" "t \<in> set (db_trips d1)" "?p t"
          and d: "d = with_trips ?p (?u since) d1"
          unfolding K_def rows list.case by blast
        have "core_step d1 (log_event eid now tripId ''started'' [(''driver_id'', JStr (ac_sub actor))] d)"
          unfolding d by (rule core_step.start_trip [OF *(2)]) (use *(3) fresh d in simp_all)
        with *(1) show "I (log_event eid now tripId ''started'' [(''driver_id'', JStr (ac_sub actor))] d)"
          unfolding I by (rule core_last)
      qed
    qed
    ultimately show ?thesis
      by (intro valid_await [OF valid_query_tx] valid_await [OF _ valid_commit_ret])
  qed
  show ?thesis
    unfolding start_def
    by (intro commits_if commits_await commits_list commits_throw commits_ret publishPending_commits
        commits_servers commits_tx rollback_rethrow_some body [OF refl])
qed

lemma valid_rollback_throw:
  assumes "\<And>w. P w \<Longrightarrow> some_tx I w"
  shows "valid P (await rollback (\<lambda>_. throw e)) Q (\<lambda>_. some_tx I)"
proof (rule valid_await)
  show "valid P rollback (\<lambda>_. idle I) (\<lambda>_. some_tx I)"
    by (rule valid_conseq [OF valid_rollback]) (auto dest: assms idle_some_tx)
qed (auto intro: valid_throw dest: idle_some_tx)

lemma apply_rating_same: "dr_user_id (apply_rating n r) = dr_user_id r \<and> dr_status (apply_rating n r) = dr_status r \<and>
    dr_license_number (apply_rating n r) = dr_license_number r"
  by (simp add: apply_rating_def Let_def)

lemma rate_commits: "commits core_step (rate X tripId riderId dto)"
proof -
  let ?ev = "recordTripEvent tripId ''rated'' [(''rating'', JNum (of_int (rd_rating dto)))]"
  let ?t = "\<lambda>v t. tr_id t = tripId \<and> tr_rider_id t = riderId \<and> tr_status t = Completed \<and> tr_driver_id t = Some v"
  let ?ins = "\<lambda>v d. d\<lparr>db_trip_ratings := db_trip_ratings d @
                [\<lparr>rt_trip_id = tripId, rt_rider_id = riderId, rt_driver_id = v,
                  rt_rating = rd_rating dto, rt_comment = rd_comment dto\<rparr>],
              db_drivers := update_rows (\<lambda>r. dr_user_id r = v) (apply_rating (rd_rating dto)) (db_drivers d)\<rparr>"
  have body: "valid (open_tx I I)
     (await (query (select_rateable tripId riderId)) (\<lambda>rows.
       case rows of
         [] \<Rightarrow> await rollback (\<lambda>_. throw (Http 404 None (''trip '' @ tripId @ '' not rateable'')))
       | driverId # _ \<Rightarrow>
           await (query (insert_rating tripId riderId driverId dto)) (\<lambda>_. await ?ev (\<lambda>_. commit))))
     (\<lambda>_. some_tx I) (\<lambda>_. some_tx I)" (is "valid _ (await _ ?rest) _ _")
    if I: "I = core_step\<^sup>*\<^sup>* d0" for I d0
  proof -
    define K where "K = (\<lambda>rows d. I d \<and> (case rows of [] \<Rightarrow> True | v # _ \<Rightarrow> \<exists>t \<in> set (db_trips d). ?t v t))"
    have "stmt_ok I (select_rateable tripId riderId) K"
      unfolding select_rateable_def
    proof (rule stmt_ok_select)
      fix d assume "I d"
      moreover have "\<exists>t \<in> set (db_trips d). ?t v t"
        if "List.map_filter tr_driver_id (filter (\<lambda>t. tr_id t = tripId \<and> tr_rider_id t = riderId \<and>
              tr_status t = Completed) (db_trips d)) = v # vs" for v vs
      proof -
        have "v \<in> set (List.map_filter tr_driver_id (filter (\<lambda>t. tr_id t = tripId \<and>
            tr_rider_id t = riderId \<and> tr_status t = Completed) (db_trips d)))"
          by (simp add: that)
        then show ?thesis by (auto simp: map_filter_def)
      qed
      ultimately show "K (List.map_filter tr_driver_id (filter (\<lambda>t. tr_id t = tripId \<and>
          tr_rider_id t = riderId \<and> tr_status t = Completed) (db_trips d))) d"
        unfolding K_def by (simp split: list.split)
    qed
    moreover have "valid (open_tx I (K rows)) (?rest rows) (\<lambda>_. some_tx I) (\<lambda>_. some_tx I)" for rows
    proof (rule valid_case_list)
      show "valid (open_tx I (K rows))
          (await rollback (\<lambda>_. throw (Http 404 None (''trip '' @ tripId @ '' not rateable''))))
          (\<lambda>_. some_tx I) (\<lambda>_. some_tx I)"
        by (rule valid_rollback_throw) (rule open_some_tx)
    next
      fix v vs assume rows: "rows = v # vs"
      define K2 where "K2 = (\<lambda>d'. \<exists>d t. I d \<and> t \<in> set (db_trips d) \<and> ?t v t \<and> d' = ?ins v d \<and>
          tripId \<notin> rt_trip_id ` set (db_trip_ratings d) \<and> 1 \<le> rd_rating dto \<and> rd_rating dto \<le> 5)"
      have ins: "stmt_ok (K rows) (insert_rating tripId riderId v dto) (\<lambda>_. K2)"
      proof (rule stmt_okI)
        fix s d x d' s' assume "K rows d" and "insert_rating tripId riderId v dto s d = (Inr (x, d'), s')"
        then show "K2 d'"
          unfolding K_def K2_def rows insert_rating_def list.case by (auto split: if_splits)
      qed
      have ev: "valid (open_tx I K2) ?ev (\<lambda>_. open_tx I I) (\<lambda>_. some_tx I)"
      proof (rule valid_record)
        fix d eid now assume "K2 d" and fresh: "fresh_event eid d"
        then obtain d1 t where *: "I d1" "t \<in> set (db_trips d1)" "?t v t" and d: "d = ?ins v d1"
          and r: "tripId \<notin> rt_trip_id ` set (db_trip_ratings d1)" "1 \<le> rd_rating dto" "rd_rating dto \<le> 5"
          unfolding K2_def by blast
        have "core_step d1 (log_event eid now tripId ''rated'' [(''rating'', JNum (of_int (rd_rating dto)))] d)"
          unfolding d by (rule core_step.rate_trip [OF *(2) _ _ _ _ r])
            (use *(3) fresh d apply_rating_same in \<open>simp_all add: fresh_event_def\<close>)
        with *(1) show "I (log_event eid now tripId ''rated'' [(''rating'', JNum (of_int (rd_rating dto)))] d)"
          unfolding I by (rule core_last)
      qed
      have "valid (open_tx I I) commit (\<lambda>_. some_tx I) (\<lambda>_. some_tx I)"
        by (rule valid_conseq [OF valid_commit]) (auto dest: idle_some_tx)
      then show "valid (open_tx I (K rows)) (await (query (insert_rating tripId riderId v dto))
          (\<lambda>_. await ?ev (\<lambda>_. commit))) (\<lambda>_. some_tx I) (\<lambda>_. some_tx I)"
        by (rule valid_await [OF valid_query_tx [OF ins] valid_await [OF ev]])
    qed
    ultimately show ?thesis by (rule valid_await [OF valid_query_tx])
  qed
  have handler: "valid (some_tx I) (await rollback_quietly (\<lambda>_. if is_unique_violation e
      then throw (Http 409 None ''trip already rated'') else throw e)) (\<lambda>_. some_tx I) (\<lambda>_. some_tx I)"
    for I and e :: exn
    by (simp add: rollback_quietly_throw_some)
  show ?thesis
    unfolding rate_def
    by (intro commits_await commits_ret publishPending_commits commits_servers commits_tx handler body [OF refl])
qed

section \<open>Completing\<close>

interpretation neutral: effect_relation "\<lambda>w w'. w_db w' = w_db w \<and> w_tx w' = w_tx w"
  by unfold_locales auto

lemma db_neutral_keeps: "db_neutral = keeps (\<lambda>w w'. w_db w' = w_db w \<and> w_tx w' = w_tx w)"
  by (simp add: fun_eq_iff db_neutral_def keeps_def)

lemma neutral_await: "db_neutral m \<Longrightarrow> (\<And>x. db_neutral (f x)) \<Longrightarrow> db_neutral (await m f)"
  unfolding db_neutral_keeps by (rule neutral.keeps_await)

lemma neutral_try: "db_neutral m \<Longrightarrow> (\<And>e. db_neutral (h e)) \<Longrightarrow> db_neutral (try_catch m h)"
  unfolding db_neutral_keeps by (rule neutral.keeps_try)

lemma db_neutral_option:
  "db_neutral m \<Longrightarrow> (\<And>y. db_neutral (f y)) \<Longrightarrow> db_neutral (case x of None \<Rightarrow> m | Some y \<Rightarrow> f y)"
  by (cases x) simp_all

lemma resolveSurge_neutral: "db_neutral (resolveSurge z m)"
proof -
  have "db_neutral (try_catch (await (hget k f) (\<lambda>cached. ret (surge_of_cache cached))) (\<lambda>e. ret None))" for k f
    by (intro neutral_try neutral_await db_neutral_servers db_neutral_simple)
  moreover have "db_neutral (case found of None \<Rightarrow> ret (surge_fallback m) | Some n \<Rightarrow> ret n)" for found
    by (intro db_neutral_option db_neutral_simple)
  ultimately have "db_neutral (await (try_catch (await (hget k f) (\<lambda>cached. ret (surge_of_cache cached)))
      (\<lambda>e. ret None)) (\<lambda>found. case found of None \<Rightarrow> ret (surge_fallback m) | Some n \<Rightarrow> ret n))" for k f
    by (rule neutral_await)
  then show ?thesis by (simp add: resolveSurge_def split: option.split)
qed

definition with_fare :: "fare_record_row \<Rightarrow> db \<Rightarrow> db" where
  "with_fare f d = d\<lparr>db_fare_records :=
     (if fr_trip_id f \<in> fr_trip_id ` set (db_fare_records d)
      then update_rows (\<lambda>g. fr_trip_id g = fr_trip_id f) (\<lambda>g. f\<lparr>fr_base_fare := fr_base_fare g\<rparr>) (db_fare_records d)
      else db_fare_records d @ [f])\<rparr>"

lemma update_rows_cong:
  "(\<And>r. p r \<Longrightarrow> u r = v r) \<Longrightarrow> update_rows p u rows = update_rows p v rows"
  by (simp add: update_rows_def)

lemma upsert_fare_row:
  assumes "upsert_fare tripId base km mins surge amount s d = (Inr (x, d'), s')"
  obtains f where "d' = with_fare f d" and "fr_trip_id f = tripId" and "fr_currency f = ''USD''"
    and "pg_numeric 10 2 (js_decimal base) = Some (fr_base_fare f)"
    and "pg_numeric 7 3 (js_decimal km) = Some (fr_distance_km f)" and "0 \<le> fr_distance_km f"
    and "pg_numeric 7 2 (js_decimal mins) = Some (fr_duration_min f)" and "0 \<le> fr_duration_min f"
    and "pg_numeric 3 2 (js_decimal surge) = Some (fr_surge_multiplier f)" and "1 \<le> fr_surge_multiplier f"
    and "pg_numeric 10 2 (js_decimal amount) = Some (fr_total f)"
    and "tripId \<in> tr_id ` set (db_trips d)"
proof -
  obtain b km' mins' sm tot where v: "pg_numeric 10 2 (js_decimal base) = Some b"
    "pg_numeric 7 3 (js_decimal km) = Some km'" "pg_numeric 7 2 (js_decimal mins) = Some mins'"
    "pg_numeric 3 2 (js_decimal surge) = Some sm" "pg_numeric 10 2 (js_decimal amount) = Some tot"
    using assms by (simp add: upsert_fare_def split: option.splits)
  let ?f = "\<lparr>fr_trip_id = tripId, fr_base_fare = b, fr_distance_km = km', fr_duration_min = mins',
     fr_surge_multiplier = sm, fr_total = tot, fr_currency = ''USD''\<rparr>"
  have "update_rows (\<lambda>g. fr_trip_id g = tripId) (\<lambda>g. g\<lparr>fr_distance_km := km', fr_duration_min := mins',
        fr_surge_multiplier := sm, fr_total := tot, fr_currency := ''USD''\<rparr>) rows =
      update_rows (\<lambda>g. fr_trip_id g = tripId) (\<lambda>g. ?f\<lparr>fr_base_fare := fr_base_fare g\<rparr>) rows" for rows
    by (rule update_rows_cong) simp
  with assms v have "d' = with_fare ?f d" and "0 \<le> km'" "0 \<le> mins'" "1 \<le> sm"
    "tripId \<in> tr_id ` set (db_trips d)"
    by (auto simp: upsert_fare_def with_fare_def split: if_splits)
  with v show thesis by (intro that [of ?f]) simp_all
qed

lemma upsert_fare_Inr:
  assumes "upsert_fare tripId base km mins surge amount s d = (Inr (x, d'), s')"
  obtains f where "d' = with_fare f d" and "fr_trip_id f = tripId" and "0 \<le> fr_distance_km f"
    and "0 \<le> fr_duration_min f" and "1 \<le> fr_surge_multiplier f"
    and "pg_numeric 10 2 (js_decimal amount) = Some (fr_total f)"
    and "tripId \<in> tr_id ` set (db_trips d)"
  using assms by (rule upsert_fare_row) (rule that)

lemma set_fare_total_Inr:
  assumes "set_fare_total tripId amount s d = (Inr (x, d'), s')"
  obtains tot where "pg_numeric 10 2 (js_decimal amount) = Some tot"
    and "d' = with_trips (\<lambda>t. tr_id t = tripId)
      (\<lambda>t. t\<lparr>tr_fare_total := Some tot, tr_currency := ''USD''\<rparr>) d"
  using assms by (auto simp: set_fare_total_def with_trips_def split: option.splits)

text \<open>The four statements after the trip is marked completed, then the event: one \<open>complete_trip\<close> step.\<close>

lemma complete_tail:
  fixes tripId v :: string
  defines "p \<equiv> \<lambda>t. tr_id t = tripId \<and> tr_driver_id t = Some v \<and> tr_status t = InProgress"
  defines "u \<equiv> \<lambda>now t. t\<lparr>tr_status := Completed, tr_completed_at := Some now\<rparr>"
  assumes I: "I = core_step\<^sup>*\<^sup>* d0"
  shows "valid (open_tx I (\<lambda>d'. \<exists>d since t. I d \<and> t \<in> set (db_trips d) \<and> p t \<and> d' = with_trips p (u since) d))
     (await (query (upsert_fare tripId base km mins surge amount)) (\<lambda>_.
      await (query (set_fare_total tripId amount)) (\<lambda>_.
      await (query (set_driver_status v Online)) (\<lambda>_.
      await (recordTripEvent tripId ''completed'' payload) (\<lambda>_.
      await commit (\<lambda>_. ret result))))))
     (\<lambda>_. some_tx I) (\<lambda>_. some_tx I)" (is "valid (open_tx I ?C) _ _ _")
proof -
  define A where "A = (\<lambda>d (f :: fare_record_row). I d \<and> (\<exists>t \<in> set (db_trips d). p t) \<and> fr_trip_id f = tripId \<and>
     0 \<le> fr_distance_km f \<and> 0 \<le> fr_duration_min f \<and> 1 \<le> fr_surge_multiplier f \<and>
     pg_numeric 10 2 (js_decimal amount) = Some (fr_total f))"
  define w where "w = (\<lambda>f :: fare_record_row. with_trips (\<lambda>t. tr_id t = tripId)
      (\<lambda>t. t\<lparr>tr_fare_total := Some (fr_total f), tr_currency := ''USD''\<rparr>))"
  define C2 where "C2 = (\<lambda>d'. \<exists>d since f. A d f \<and> d' = with_fare f (with_trips p (u since) d))"
  define C3 where "C3 = (\<lambda>d'. \<exists>d since f. A d f \<and> d' = w f (with_fare f (with_trips p (u since) d)))"
  define C4 where "C4 = (\<lambda>d'. \<exists>d since f. A d f \<and>
      d' = with_driver_status v Online (w f (with_fare f (with_trips p (u since) d))))"
  have 1: "stmt_ok ?C (upsert_fare tripId base km mins surge amount) (\<lambda>_. C2)"
  proof (rule stmt_okI, erule upsert_fare_Inr)
    fix d1 d2 f assume "?C d1" and f: "d2 = with_fare f d1" "fr_trip_id f = tripId" "0 \<le> fr_distance_km f"
      "0 \<le> fr_duration_min f" "1 \<le> fr_surge_multiplier f" "pg_numeric 10 2 (js_decimal amount) = Some (fr_total f)"
    then obtain d since t where *: "I d" "t \<in> set (db_trips d)" "p t" "d1 = with_trips p (u since) d" by blast
    then have "A d f" using f unfolding A_def by blast
    then show "C2 d2" using f(1) *(4) unfolding C2_def by blast
  qed
  have 2: "stmt_ok C2 (set_fare_total tripId amount) (\<lambda>_. C3)"
  proof (rule stmt_okI, erule set_fare_total_Inr)
    fix d1 d2 tot assume "C2 d1" and tot: "pg_numeric 10 2 (js_decimal amount) = Some tot"
      and d2: "d2 = with_trips (\<lambda>t. tr_id t = tripId) (\<lambda>t. t\<lparr>tr_fare_total := Some tot, tr_currency := ''USD''\<rparr>) d1"
    then obtain d since f where A: "A d f" and d1: "d1 = with_fare f (with_trips p (u since) d)"
      unfolding C2_def by blast
    with tot have "tot = fr_total f" by (simp add: A_def)
    with d1 d2 have "d2 = w f (with_fare f (with_trips p (u since) d))" by (simp add: w_def)
    with A show "C3 d2" unfolding C3_def by blast
  qed
  have 3: "stmt_ok C3 (set_driver_status v Online) (\<lambda>_. C4)"
    unfolding C3_def C4_def by (rule stmt_okI) (unfold set_driver_status_eq, blast)
  have 4: "valid (open_tx I C4) (recordTripEvent tripId ''completed'' payload) (\<lambda>_. open_tx I I) (\<lambda>_. some_tx I)"
  proof (rule valid_record)
    fix d' eid now assume "C4 d'" and fresh: "fresh_event eid d'"
    then obtain d since f where A: "A d f"
      and d': "d' = with_driver_status v Online (w f (with_fare f (with_trips p (u since) d)))"
      unfolding C4_def by blast
    obtain t where t: "t \<in> set (db_trips d)" "p t" using A by (auto simp: A_def)
    have "core_step d (log_event eid now tripId ''completed'' payload d')"
      unfolding d' w_def with_fare_def p_def u_def
      by (rule core_step.complete_trip [OF t(1)])
        (use t(2) A fresh in \<open>simp_all add: A_def d' w_def with_fare_def p_def u_def\<close>)
    with A show "I (log_event eid now tripId ''completed'' payload d')"
      unfolding I A_def by (blast intro: core_last)
  qed
  show ?thesis
    by (intro valid_await [OF valid_query_tx [OF 1]] valid_await [OF valid_query_tx [OF 2]]
        valid_await [OF valid_query_tx [OF 3]] valid_await [OF 4] valid_commit_ret)
qed

lemma complete_commits: "commits core_step (complete X tripId actor)"
proof -
  let ?v = "ac_sub actor"
  let ?p = "\<lambda>t. tr_id t = tripId \<and> tr_driver_id t = Some ?v \<and> tr_status t = InProgress"
  let ?u = "\<lambda>now t. t\<lparr>tr_status := Completed, tr_completed_at := Some now\<rparr>"
  have body: "valid (idle I) (complete_body X tripId actor) (\<lambda>_. some_tx I) (\<lambda>_. some_tx I)"
    if I: "I = core_step\<^sup>*\<^sup>* d0" for I d0
  proof -
    let ?C = "\<lambda>d'. \<exists>d since t. I d \<and> t \<in> set (db_trips d) \<and> ?p t \<and> d' = with_trips ?p (?u since) d"
    define K where "K = (\<lambda>(rows :: completed_row list) d'. case rows of [] \<Rightarrow> I d' | _ # _ \<Rightarrow> ?C d')"
    have stmt: "stmt_ok I (complete_trip_stmt X tripId ?v) K"
    proof (rule stmt_okI)
      fix s d rows d' s' assume "I d" and run: "complete_trip_stmt X tripId ?v s d = (Inr (rows, d'), s')"
      then have d': "d' = with_trips ?p (?u (sys_now s)) d"
        by (auto simp: complete_trip_stmt_def Let_def with_trips_def)
      show "K rows d'"
      proof (cases "\<exists>t \<in> set (db_trips d). ?p t")
        case True
        with \<open>I d\<close> d' have "?C d'" by blast
        moreover have "rows \<noteq> []"
          using run True by (auto simp: complete_trip_stmt_def Let_def returning_def filter_empty_conv)
        ultimately show ?thesis unfolding K_def by (cases rows) simp_all
      next
        case False
        then have "d' = d" and "rows = []"
          using run by (auto simp: complete_trip_stmt_def Let_def returning_def filter_empty_conv update_rows_none)
        with \<open>I d\<close> show ?thesis by (simp add: K_def)
      qed
    qed
    show ?thesis
      unfolding complete_body_def Let_def
      by (intro valid_await [OF valid_begin_same] valid_await [OF valid_query_tx [OF stmt]] valid_case_list,
          rule valid_rollback_throw [OF open_some_tx], assumption, hypsubst, unfold K_def list.case,
          rule valid_await [OF valid_conseq [OF valid_neutral(2) [OF resolveSurge_neutral]]],
          assumption, assumption, erule open_some_tx, rule complete_tail [OF I])
  qed
  show ?thesis
    unfolding complete_def
    by (intro commits_if commits_await commits_throw commits_ret commits_restore publishPending_commits
        commits_servers commits_with_client valid_try_catch [OF body [OF refl]] rollback_quietly_throw_some)
qed

end
