(* ===== verification/Ingestor.thy ===== *)
theory Ingestor
  imports TripRefinement
begin

text \<open>
  The location ingestor, \<open>services/ingestor/src\<close>: the route \<open>POST /v1/locations\<close>
  (\<open>location.routes.ts\<close>) with its statements, and the error handler of \<open>index.ts\<close>. The token is
  checked by \<open>verifyJwt\<close>, whose base64url decoder and HMAC stay parameters. The row keeps heading
  and speed as they were sent; the column is a 4-byte \<open>REAL\<close>, of which the model has the range only.
\<close>

section \<open>Requests and replies\<close>

record http_reply =
  rp_code :: int
  rp_body :: json

definition reply_error :: "int \<Rightarrow> string \<Rightarrow> http_reply" where
  "reply_error code msg = \<lparr>rp_code = code, rp_body = JObj [(''error'', JStr msg)]\<rparr>"

definition hex_char :: "char \<Rightarrow> bool" where
  "hex_char c \<longleftrightarrow> is_digit c \<or> c \<in> set ''abcdefABCDEF''"

definition UUID_RE :: "string \<Rightarrow> bool" where
  "UUID_RE s \<longleftrightarrow> length s = 36 \<and>
     list_all (\<lambda>(i, c). if i \<in> {8, 13, 18, 23} then c = CHR ''-'' else hex_char c) (enumerate 0 s)"

text \<open>\<open>header?.startsWith('Bearer ') ? header.slice(7) : null\<close>, empty and missing alike.\<close>

definition bearer_token :: "string option \<Rightarrow> string option" where
  "bearer_token auth =
     (case auth of
        None \<Rightarrow> None
      | Some a \<Rightarrow> if starts_with ''Bearer '' a \<and> drop 7 a \<noteq> [] then Some (drop 7 a) else None)"

definition number_field :: "json option \<Rightarrow> rat option" where
  "number_field v = (case v of Some (JNum q) \<Rightarrow> Some q | _ \<Rightarrow> None)"

definition in_interval :: "rat \<Rightarrow> rat \<Rightarrow> json option \<Rightarrow> bool" where
  "in_interval lo hi v = (case number_field v of None \<Rightarrow> False | Some q \<Rightarrow> lo \<le> q \<and> q \<le> hi)"

definition isValidLocationBody :: "json option \<Rightarrow> bool" where
  "isValidLocationBody body =
     (case body of
        None \<Rightarrow> False
      | Some b \<Rightarrow>
          (case jget b ''driver_id'' of Some (JStr s) \<Rightarrow> UUID_RE s | _ \<Rightarrow> False) \<and>
          in_interval (-90) 90 (jget b ''lat'') \<and> in_interval (-180) 180 (jget b ''lon'') \<and>
          (jget b ''heading_deg'' = None \<or> in_interval 0 360 (jget b ''heading_deg'')) \<and>
          (jget b ''speed_mps'' = None \<or>
             (case number_field (jget b ''speed_mps'') of None \<Rightarrow> False | Some q \<Rightarrow> 0 \<le> q)))"

record location_body =
  lb_driver_id :: string
  lb_lat :: rat
  lb_lon :: rat
  lb_heading_deg :: "rat option"
  lb_speed_mps :: "rat option"
  lb_ts :: "json option"
  lb_entries :: "(string \<times> json) list"

text \<open>A valid body as the type \<open>LocationBody\<close>.\<close>

definition location_body_of :: "json \<Rightarrow> location_body" where
  "location_body_of b =
     \<lparr>lb_driver_id = (case jget b ''driver_id'' of Some (JStr s) \<Rightarrow> s | _ \<Rightarrow> []),
      lb_lat = (case number_field (jget b ''lat'') of Some q \<Rightarrow> q | None \<Rightarrow> 0),
      lb_lon = (case number_field (jget b ''lon'') of Some q \<Rightarrow> q | None \<Rightarrow> 0),
      lb_heading_deg = number_field (jget b ''heading_deg''),
      lb_speed_mps = number_field (jget b ''speed_mps''), lb_ts = jget b ''ts'',
      lb_entries = spread_entries b\<rparr>"

definition lb_point :: "location_body \<Rightarrow> point" where
  "lb_point b = \<lparr>pt_lon = lb_lon b, pt_lat = lb_lat b\<rparr>"

section \<open>Statements\<close>

definition driver_not_found :: exn where
  "driver_not_found = JsError ''driver not found''"

definition has_active_trip :: "string \<Rightarrow> db \<Rightarrow> bool" where
  "has_active_trip driverId d \<longleftrightarrow>
     (\<exists>t \<in> set (db_trips d). tr_driver_id t = Some driverId \<and>
        (tr_status t = Matched \<or> tr_status t = InProgress))"

definition select_driver_state :: "string \<Rightarrow> ((driver_status \<times> bool) list) stmt" where
  "select_driver_state driverId = select (\<lambda>d.
     map (\<lambda>r. (dr_status r, has_active_trip (dr_user_id r) d))
       (filter (\<lambda>r. dr_user_id r = driverId \<and> dr_status r \<noteq> Suspended) (db_drivers d)))"

text \<open>
  \<open>new Date(ts)\<close> truncates to whole milliseconds and is invalid beyond 8.64e15; the server refuses
  the text of an invalid date, and dates before 4714-11-24 BC.
\<close>

definition timestamp_param :: "rat \<Rightarrow> exn + rat" where
  "timestamp_param ts =
     (if \<bar>ts\<bar> > 8640000000000000 then Inl (Pg ''22007'' None)
      else if ts < - 210866803200000 then Inl (Pg ''22008'' None)
      else Inr (if 0 \<le> ts then of_int \<lfloor>ts\<rfloor> else of_int \<lceil>ts\<rceil>))"

definition real_in_range :: "rat option \<Rightarrow> bool" where
  "real_in_range v = (case v of None \<Rightarrow> True | Some q \<Rightarrow> \<bar>q\<bar> < 2 ^ 128 - 2 ^ 103)"

definition upsert_location :: "location_body \<Rightarrow> rat \<Rightarrow> unit stmt" where
  "upsert_location b observedAt = (\<lambda>s d.
     (case timestamp_param observedAt of
        Inl e \<Rightarrow> (Inl e, s)
      | Inr seen \<Rightarrow>
          if \<not> (real_in_range (lb_heading_deg b) \<and> real_in_range (lb_speed_mps b))
          then (Inl numeric_out_of_range, s)
          else if lb_driver_id b \<notin> dr_user_id ` set (db_drivers d) then (Inl foreign_key_violation, s)
          else
            let row = \<lparr>dl_driver_id = lb_driver_id b, dl_location = lb_point b,
                       dl_heading_deg = lb_heading_deg b, dl_speed_mps = lb_speed_mps b,
                       dl_updated_at = seen\<rparr>
            in (Inr ((), d\<lparr>db_driver_locations :=
                 if lb_driver_id b \<in> dl_driver_id ` set (db_driver_locations d)
                 then update_rows (\<lambda>l. dl_driver_id l = lb_driver_id b) (\<lambda>_. row) (db_driver_locations d)
                 else db_driver_locations d @ [row]\<rparr>), s)))"

section \<open>The route\<close>

definition persistLocation :: "location_body \<Rightarrow> rat \<Rightarrow> bool act" where
  "persistLocation body observedAt =
     with_client
       (try_catch
         (await begin_tx (\<lambda>_.
          await (query (select_driver_state (lb_driver_id body))) (\<lambda>rows.
          case rows of
            [] \<Rightarrow> await rollback (\<lambda>_. throw driver_not_found)
          | row # _ \<Rightarrow>
              let indexAsOnline = (fst row \<noteq> OnTrip \<and> \<not> snd row) in
              await (if indexAsOnline then query (set_driver_status (lb_driver_id body) Online) else ret ())
                (\<lambda>_.
              await (query (upsert_location body observedAt)) (\<lambda>_.
              await commit (\<lambda>_. ret indexAsOnline))))))
         rollback_rethrow)"

definition updateAvailabilityIndex :: "location_body \<Rightarrow> bool \<Rightarrow> unit act" where
  "updateAvailabilityIndex body indexAsOnline =
     (if indexAsOnline then geoadd (lb_driver_id body) (lb_point body) else zrem (lb_driver_id body))"

definition publishLocation :: "string \<Rightarrow> location_body \<Rightarrow> rat \<Rightarrow> unit act" where
  "publishLocation topic body ts =
     kafka_send \<lparr>km_topic = topic, km_key = Some (lb_driver_id body),
       km_value = Some (JsonText (JObj (spread (lb_entries body) [(''ts'', JNum ts)])))\<rparr>"

definition post_location ::
    "(string \<Rightarrow> json option) \<Rightarrow> (string \<Rightarrow> string \<Rightarrow> string) \<Rightarrow> string \<Rightarrow> string \<Rightarrow>
     string option \<Rightarrow> json option \<Rightarrow> http_reply act" where
  "post_location decode hmac jwtSecret topic authorization body =
     await (get_state (\<lambda>w. sys_now (w_sys w))) (\<lambda>now.
     case bearer_token authorization of
       None \<Rightarrow> ret (reply_error 401 ''missing bearer token'')
     | Some token \<Rightarrow>
     (case verifyJwt decode hmac now token jwtSecret of
        Inl _ \<Rightarrow> ret (reply_error 401 ''invalid token'')
      | Inr user \<Rightarrow>
          if jget user ''role'' \<noteq> Some (JStr ''driver'') then ret (reply_error 403 ''driver role required'')
          else if \<not> isValidLocationBody body then ret (reply_error 400 ''invalid payload'')
          else
            let b = location_body_of (the body) in
            if jget user ''sub'' \<noteq> Some (JStr (lb_driver_id b))
            then ret (reply_error 403 ''drivers can only publish their own location'')
            else
              (case (case lb_ts b of None \<Rightarrow> Some (JNum now) | Some JNull \<Rightarrow> Some (JNum now) | v \<Rightarrow> v) of
                 Some (JNum ts) \<Rightarrow>
                   await (persistLocation b ts) (\<lambda>indexAsOnline.
                   await (updateAvailabilityIndex b indexAsOnline) (\<lambda>_.
                   await (publishLocation topic b ts) (\<lambda>_.
                   ret \<lparr>rp_code = 202, rp_body = JObj [(''ok'', JBool True), (''ts'', JNum ts)]\<rparr>)))
               | _ \<Rightarrow> ret (reply_error 400 ''invalid timestamp''))))"

definition ingestor_error_handler :: "exn \<Rightarrow> http_reply" where
  "ingestor_error_handler e =
     (if e = driver_not_found then reply_error 404 ''driver not found''
      else reply_error 500 ''internal error'')"

definition healthz :: http_reply where
  "healthz = \<lparr>rp_code = 200, rp_body = JObj [(''status'', JStr ''ok'')]\<rparr>"

definition ingest ::
    "(string \<Rightarrow> json option) \<Rightarrow> (string \<Rightarrow> string \<Rightarrow> string) \<Rightarrow> string \<Rightarrow> string \<Rightarrow>
     string option \<Rightarrow> json option \<Rightarrow> http_reply act" where
  "ingest decode hmac jwtSecret topic authorization body =
     try_catch (post_location decode hmac jwtSecret topic authorization body)
       (\<lambda>e. ret (ingestor_error_handler e))"

record ingestor_config =
  ic_jwtSecret :: string
  ic_topic :: string
  ic_brokers :: "string list"

text \<open>The variables \<open>index.ts\<close> reads before it connects; \<open>port\<close> and \<open>host\<close> are read after.\<close>

definition ingestor_start :: "env \<Rightarrow> string + ingestor_config" where
  "ingestor_start env =
     sum_bind (requiredEnv env ''LOG_LEVEL'' no_options) (\<lambda>_.
     sum_bind (requiredEnv env ''REDIS_URL'' no_options) (\<lambda>_.
     sum_bind (requiredEnv env ''DATABASE_URL'' no_options) (\<lambda>_.
     sum_bind (requiredEnv env ''KAFKA_BROKERS'' no_options) (\<lambda>brokers.
     sum_bind (requiredEnv env ''JWT_SECRET'' \<lparr>eo_minLength = Some 32, eo_secret = True\<rparr>) (\<lambda>secret.
     sum_bind (requiredEnv env ''TOPIC_DRIVER_LOCATION'' no_options) (\<lambda>topic.
     sum_bind (requiredNumberEnv env ''INGESTOR_PORT'' None None) (\<lambda>port.
     sum_bind (requiredEnv env ''INGESTOR_HOST'' no_options) (\<lambda>host.
     Inr \<lparr>ic_jwtSecret = secret, ic_topic = topic,
          ic_brokers = split_on (CHR '','') brokers\<rparr>))))))))"

section \<open>What the ingestor commits\<close>

lemma has_active_trip_iff:
  "has_active_trip v d \<longleftrightarrow> (\<exists>t \<in> set (db_trips d). tr_driver_id t = Some v \<and> active t)"
  by (simp add: has_active_trip_def active_def)

lemma upsert_location_Inr:
  assumes "upsert_location b ts s d = (Inr (x, d'), s')"
  shows "\<exists>ls. d' = d\<lparr>db_driver_locations := ls\<rparr>"
  using assms by (auto simp: upsert_location_def Let_def split: sum.splits if_splits)

lemma locations_elsewhere: "core_step d (d\<lparr>db_driver_locations := ls\<rparr>)"
  by (rule core_step.registers [OF registry_step.elsewhere]) (simp_all add: same_bookings_def)

lemma persistLocation_commits: "commits core_step (persistLocation body ts)"
proof -
  let ?v = "lb_driver_id body"
  have body: "valid (open_tx I I)
      (await (query (select_driver_state ?v)) (\<lambda>rows.
         case rows of
           [] \<Rightarrow> await rollback (\<lambda>_. throw driver_not_found)
         | row # _ \<Rightarrow>
             await (if fst row \<noteq> OnTrip \<and> \<not> snd row then query (set_driver_status ?v Online) else ret ()) (\<lambda>_.
             await (query (upsert_location body ts)) (\<lambda>_.
             await commit (\<lambda>_. ret (fst row \<noteq> OnTrip \<and> \<not> snd row))))))
      (\<lambda>_. some_tx I) (\<lambda>_. some_tx I)" if I: "I = core_step\<^sup>*\<^sup>* d0" for I d0
  proof (rule valid_await [OF valid_query_tx])
    let ?free = "\<lambda>d. \<exists>r \<in> set (db_drivers d). dr_user_id r = ?v \<and> dr_status r \<noteq> Suspended \<and>
        dr_status r \<noteq> OnTrip \<and> \<not> has_active_trip ?v d"
    define K where "K = (\<lambda>(rows :: (driver_status \<times> bool) list) d. I d \<and>
        (case rows of [] \<Rightarrow> True | row # _ \<Rightarrow> fst row \<noteq> OnTrip \<and> \<not> snd row \<longrightarrow> ?free d))"
    show "stmt_ok I (select_driver_state ?v) K"
      unfolding select_driver_state_def
      by (rule stmt_ok_select) (auto simp: K_def filter_eq_Cons_iff map_eq_Cons_conv split: list.split)
    define K2 where "K2 = (\<lambda>d'. I d' \<or> (\<exists>d. I d \<and> ?free d \<and> d' = with_driver_status ?v Online d))"
    fix rows
    show "valid (open_tx I (K rows))
      (case rows of
         [] \<Rightarrow> await rollback (\<lambda>_. throw driver_not_found)
       | row # _ \<Rightarrow>
           await (if fst row \<noteq> OnTrip \<and> \<not> snd row then query (set_driver_status ?v Online) else ret ()) (\<lambda>_.
           await (query (upsert_location body ts)) (\<lambda>_.
           await commit (\<lambda>_. ret (fst row \<noteq> OnTrip \<and> \<not> snd row)))))
      (\<lambda>_. some_tx I) (\<lambda>_. some_tx I)"
    proof (rule valid_case_list)
      show "valid (open_tx I (K rows)) (await rollback (\<lambda>_. throw driver_not_found))
          (\<lambda>_. some_tx I) (\<lambda>_. some_tx I)"
        by (rule valid_rollback_throw) (rule open_some_tx)
    next
      fix row rs assume rows: "rows = row # rs"
      have online: "stmt_ok (K rows) (set_driver_status ?v Online) (\<lambda>_. K2)"
        if "fst row \<noteq> OnTrip \<and> \<not> snd row"
        unfolding K_def K2_def rows list.case
        by (rule stmt_okI) (unfold set_driver_status_eq, use that in blast)
      have "valid (open_tx I (K rows))
          (if fst row \<noteq> OnTrip \<and> \<not> snd row then query (set_driver_status ?v Online) else ret ())
          (\<lambda>_. open_tx I K2) (\<lambda>_. some_tx I)"
        by (rule valid_if, rule valid_query_tx [OF online], assumption, rule valid_ret, erule open_tx_mono)
          (simp add: K_def K2_def)
      moreover have "stmt_ok K2 (upsert_location body ts) (\<lambda>_. I)"
      proof (rule stmt_okI)
        fix s d x d' s' assume K2: "K2 d" and "upsert_location body ts s d = (Inr (x, d'), s')"
        then obtain ls where d': "d' = d\<lparr>db_driver_locations := ls\<rparr>" by (auto dest: upsert_location_Inr)
        from K2 show "I d'"
          unfolding K2_def
        proof (elim disjE exE conjE bexE)
          assume "I d"
          then show "I d'" using locations_elsewhere unfolding I d' by (rule core_last)
        next
          fix d1 r assume "I d1" and r: "r \<in> set (db_drivers d1)" "dr_user_id r = ?v" "dr_status r \<noteq> Suspended"
            "dr_status r \<noteq> OnTrip" "\<not> has_active_trip ?v d1" and "d = with_driver_status ?v Online d1"
          then have "core_step d1 d'"
            unfolding d' by (auto simp: has_active_trip_iff intro!: core_step.ping)
          with \<open>I d1\<close> show "I d'" unfolding I by (rule core_last)
        qed
      qed
      ultimately show "valid (open_tx I (K rows))
          (await (if fst row \<noteq> OnTrip \<and> \<not> snd row then query (set_driver_status ?v Online) else ret ()) (\<lambda>_.
           await (query (upsert_location body ts)) (\<lambda>_.
           await commit (\<lambda>_. ret (fst row \<noteq> OnTrip \<and> \<not> snd row)))))
          (\<lambda>_. some_tx I) (\<lambda>_. some_tx I)"
        by (intro valid_await [OF _ valid_await [OF valid_query_tx valid_commit_ret]])
    qed
  qed
  show ?thesis
    unfolding persistLocation_def Let_def by (rule commits_tx [OF body [OF refl] rollback_rethrow_some])
qed

lemma post_location_commits: "commits core_step (post_location decode hmac secret topic auth body)"
proof -
  have run: "commits core_step (await (persistLocation b ts) (\<lambda>i. await (updateAvailabilityIndex b i) (\<lambda>_.
      await (publishLocation topic b ts) (\<lambda>_. ret r))))" for b ts r
    unfolding updateAvailabilityIndex_def publishLocation_def
    by (intro commits_await commits_if persistLocation_commits commits_servers commits_ret)
  show ?thesis
    unfolding post_location_def
    by (intro commits_await commits_get)
      (auto simp: Let_def commits_ret run split: option.split sum.split json.split)
qed

lemma ingest_commits: "commits core_step (ingest decode hmac secret topic auth body)"
  unfolding ingest_def by (intro commits_try post_location_commits commits_ret)

end
