(* ===== verification/DriverService.thy ===== *)
theory DriverService
  imports Ingestor
begin

text \<open>
  The driver service of the API, \<open>apps/api/src/drivers/drivers.module.ts\<close>: the drivers near a point
  and the status a driver sets. The positions Redis returns are the ones it was given (it keeps
  them to 52 bits). \<open>setStatus_commits\<close> is where the booking invariant can be left: the statement
  does not look at the driver's trips, so the step may be \<open>online_mid_trip\<close>.
\<close>

section \<open>Near a point\<close>

record nearby_driver =
  nd_driver_id :: string
  nd_lon :: rat
  nd_lat :: rat

definition nearby :: "ext \<Rightarrow> jsnum \<Rightarrow> jsnum \<Rightarrow> jsnum \<Rightarrow> (nearby_driver list) act" where
  "nearby X lon lat radiusMeters =
     (case lon of
        Num x \<Rightarrow>
          if x < -180 \<or> 180 < x then throw (Http 400 None ''lon must be between -180 and 180'')
          else (case lat of
            Num y \<Rightarrow>
              if y < -90 \<or> 90 < y then throw (Http 400 None ''lat must be between -90 and 90'')
              else (case radiusMeters of
                Num r \<Rightarrow>
                  if r \<le> 0 \<or> 10000 < r then throw (Http 400 None ''radius_m must be between 1 and 10000'')
                  else
                    await (geosearch X \<lparr>pt_lon = x, pt_lat = y\<rparr> r 25) (\<lambda>raw.
                    ret (map (\<lambda>(driverId, p). \<lparr>nd_driver_id = driverId, nd_lon = pt_lon p, nd_lat = pt_lat p\<rparr>)
                           raw))
              | _ \<Rightarrow> throw (Http 400 None ''radius_m must be between 1 and 10000''))
          | _ \<Rightarrow> throw (Http 400 None ''lat must be between -90 and 90''))
      | _ \<Rightarrow> throw (Http 400 None ''lon must be between -180 and 180''))"

section \<open>Setting the status\<close>

fun runtime_status :: "json option \<Rightarrow> driver_status option" where
  "runtime_status (Some (JStr s)) =
     (if s = ''online'' then Some Online
      else if s = ''offline'' then Some Offline
      else if s = ''on_trip'' then Some OnTrip
      else None)"
| "runtime_status _ = None"

record status_result =
  sr_driverId :: string
  sr_status :: driver_status
  sr_redis_indexed :: bool

definition update_status :: "string \<Rightarrow> driver_status \<Rightarrow> (driver_row list) stmt" where
  "update_status driverId st = (\<lambda>s d.
     (let p = (\<lambda>r. dr_user_id r = driverId \<and> dr_status r \<noteq> Suspended); u = (\<lambda>r. r\<lparr>dr_status := st\<rparr>)
      in (Inr (returning p u (db_drivers d), d\<lparr>db_drivers := update_rows p u (db_drivers d)\<rparr>), s)))"

definition setStatus :: "string \<Rightarrow> json option \<Rightarrow> status_result act" where
  "setStatus driverId status =
     (case runtime_status status of
        None \<Rightarrow> throw (Http 400 None ''status must be online, offline, or on_trip'')
      | Some st \<Rightarrow>
          await (query (update_status driverId st)) (\<lambda>rows.
          case rows of
            [] \<Rightarrow> throw (Http 404 None (''driver '' @ driverId @ '' not found''))
          | row # _ \<Rightarrow>
              if st \<noteq> Online
              then await (zrem driverId) (\<lambda>_.
                   ret \<lparr>sr_driverId = dr_user_id row, sr_status = dr_status row, sr_redis_indexed = False\<rparr>)
              else
                await (query (select_location driverId)) (\<lambda>latest.
                await (case latest of None \<Rightarrow> ret () | Some p \<Rightarrow> geoadd driverId p) (\<lambda>_.
                ret \<lparr>sr_driverId = dr_user_id row, sr_status = dr_status row,
                     sr_redis_indexed = (latest \<noteq> None)\<rparr>))))"

section \<open>What the service commits\<close>

lemma nearby_neutral: "db_neutral (nearby X lon lat r)"
  unfolding nearby_def
  by (auto intro!: neutral_await db_neutral_servers split: jsnum.split)

lemma runtime_status_not_suspended: "runtime_status v = Some st \<Longrightarrow> st \<noteq> Suspended"
  by (induction v rule: runtime_status.induct) (auto split: if_splits)

lemma update_status_step:
  assumes "update_status v st s d = (Inr (rows, d'), s')" and "st \<noteq> Suspended"
  shows "booking_step d d'"
proof -
  have d': "d' = d\<lparr>db_drivers := update_rows (\<lambda>r. dr_user_id r = v \<and> dr_status r \<noteq> Suspended)
      (\<lambda>r. r\<lparr>dr_status := st\<rparr>) (db_drivers d)\<rparr>"
    using assms(1) by (auto simp: update_status_def Let_def)
  show ?thesis
  proof (cases "st = Online \<and> (\<exists>t \<in> set (db_trips d). tr_driver_id t = Some v \<and> active t)")
    case True
    then have "online_mid_trip d d'" unfolding d' online_mid_trip_def by blast
    then show ?thesis by (simp add: booking_step_def)
  next
    case False
    then have "core_step d d'" unfolding d' using assms(2) by (intro core_step.patch_status) auto
    then show ?thesis by (simp add: booking_step_def)
  qed
qed

lemma setStatus_commits: "commits booking_step (setStatus v status)"
proof -
  have loc: "commits booking_step (query (select_location v))"
    by (intro commits_query) (auto simp: select_location_def select_def)
  have "commits booking_step (query (update_status v st))" if "runtime_status status = Some st" for st
    using update_status_step runtime_status_not_suspended [OF that]
    by (intro commits_query r_into_rtranclp) blast
  then show ?thesis
    unfolding setStatus_def
    by (auto intro!: commits_throw commits_await commits_list commits_if commits_option commits_ret
        commits_servers loc split: option.split)
qed

end
