(* ===== verification/Validation.thy ===== *)
theory Validation
  imports DriverService
begin

text \<open>
  The request bodies of the API: the DTO classes of \<open>apps/api/src/trips/dto\<close>,
  \<open>vehicles/vehicle.dto.ts\<close> and \<open>auth/dto.ts\<close> as tables of fields, and what the global
  \<open>ValidationPipe\<close> of \<open>main.ts\<close> (\<open>whitelist\<close>, \<open>forbidNonWhitelisted\<close>, \<open>transform\<close>, status 422)
  makes of them. Every decorator is one \<open>rule\<close>; the three validators whose grammar is the
  package's own (e-mail, latitude, longitude) are parameters.
\<close>

section \<open>Fields and rules\<close>

datatype rule =
  IsString | IsNotEmpty | Matches "string \<Rightarrow> bool" | MinLength nat | MaxLength nat
| IsInt | AtLeast int | AtMost int | IsBoolean | IsEnum "string list" | IsDefined | IsObject
| IsA "json \<Rightarrow> bool"

record field =
  fd_name :: string
  fd_optional :: bool
  fd_validate_if :: "(string \<times> json) list \<Rightarrow> bool"
  fd_transform :: "json \<Rightarrow> json"
  fd_rules :: "rule list"

record validators =
  vx_isEmail :: "json \<Rightarrow> bool"
  vx_isLatitude :: "json \<Rightarrow> bool"
  vx_isLongitude :: "json \<Rightarrow> bool"

text \<open>A rule of a value that is present; a rule of \<open>undefined\<close> fails.\<close>

fun rule_holds :: "rule \<Rightarrow> json \<Rightarrow> bool" where
  "rule_holds IsString v = (case v of JStr _ \<Rightarrow> True | _ \<Rightarrow> False)"
| "rule_holds IsNotEmpty v = (v \<noteq> JNull \<and> v \<noteq> JStr [])"
| "rule_holds (Matches p) v = (case v of JStr s \<Rightarrow> p s | _ \<Rightarrow> False)"
| "rule_holds (MinLength n) v = (case v of JStr s \<Rightarrow> n \<le> length s | _ \<Rightarrow> False)"
| "rule_holds (MaxLength n) v = (case v of JStr s \<Rightarrow> length s \<le> n | _ \<Rightarrow> False)"
| "rule_holds IsInt v = (case v of JNum q \<Rightarrow> q = of_int \<lfloor>q\<rfloor> | _ \<Rightarrow> False)"
| "rule_holds (AtLeast n) v = (case v of JNum q \<Rightarrow> of_int n \<le> q | _ \<Rightarrow> False)"
| "rule_holds (AtMost n) v = (case v of JNum q \<Rightarrow> q \<le> of_int n | _ \<Rightarrow> False)"
| "rule_holds IsBoolean v = (case v of JBool _ \<Rightarrow> True | _ \<Rightarrow> False)"
| "rule_holds (IsEnum vs) v = (case v of JStr s \<Rightarrow> s \<in> set vs | _ \<Rightarrow> False)"
| "rule_holds IsDefined v = (v \<noteq> JNull)"
| "rule_holds IsObject v = (case v of JObj _ \<Rightarrow> True | _ \<Rightarrow> False)"
| "rule_holds (IsA p) v = p v"

definition field_ok :: "(string \<times> json) list \<Rightarrow> field \<Rightarrow> bool" where
  "field_ok kvs f \<longleftrightarrow>
     (fd_validate_if f kvs \<longrightarrow>
       (case map_of (rev kvs) (fd_name f) of
          None \<Rightarrow> fd_optional f
        | Some v \<Rightarrow> (fd_optional f \<and> v = JNull) \<or> list_all (\<lambda>r. rule_holds r v) (fd_rules f)))"

definition transform_entry :: "field list \<Rightarrow> string \<times> json \<Rightarrow> string \<times> json" where
  "transform_entry fs kv =
     (case find (\<lambda>f. fd_name f = fst kv) fs of
        None \<Rightarrow> kv | Some f \<Rightarrow> (fst kv, fd_transform f (snd kv)))"

definition validate :: "field list \<Rightarrow> json option \<Rightarrow> exn + (string \<times> json) list" where
  "validate fs body =
     (let reject = Inl (Http 422 None ''Unprocessable Entity'') in
      case (case body of None \<Rightarrow> JObj [] | Some JNull \<Rightarrow> JObj [] | Some b \<Rightarrow> b) of
        JObj raw \<Rightarrow>
          let kvs = map (transform_entry fs) raw in
          if set (map fst kvs) \<subseteq> set (map fd_name fs) \<and> list_all (field_ok kvs) fs
          then Inr kvs else reject
      | _ \<Rightarrow> reject)"

definition plain :: "string \<Rightarrow> rule list \<Rightarrow> field" where
  "plain n rs = \<lparr>fd_name = n, fd_optional = False, fd_validate_if = (\<lambda>_. True),
     fd_transform = (\<lambda>v. v), fd_rules = rs\<rparr>"

definition optional :: "field \<Rightarrow> field" where
  "optional f = f\<lparr>fd_optional := True\<rparr>"

definition transformed :: "(json \<Rightarrow> json) \<Rightarrow> field \<Rightarrow> field" where
  "transformed t f = f\<lparr>fd_transform := t\<rparr>"

text \<open>Reading a validated field.\<close>

definition str_of :: "(string \<times> json) list \<Rightarrow> string \<Rightarrow> string" where
  "str_of kvs k = (case map_of (rev kvs) k of Some (JStr s) \<Rightarrow> s | _ \<Rightarrow> [])"

definition opt_str_of :: "(string \<times> json) list \<Rightarrow> string \<Rightarrow> string option" where
  "opt_str_of kvs k = (case map_of (rev kvs) k of Some (JStr s) \<Rightarrow> Some s | _ \<Rightarrow> None)"

definition int_of_field :: "(string \<times> json) list \<Rightarrow> string \<Rightarrow> int" where
  "int_of_field kvs k = (case map_of (rev kvs) k of Some (JNum q) \<Rightarrow> \<lfloor>q\<rfloor> | _ \<Rightarrow> 0)"

section \<open>Trips\<close>

definition point_fields :: "validators \<Rightarrow> field list" where
  "point_fields V = [plain ''lat'' [IsA (vx_isLatitude V)], plain ''lon'' [IsA (vx_isLongitude V)]]"

definition valid_point :: "validators \<Rightarrow> json \<Rightarrow> bool" where
  "valid_point V v = (case validate (point_fields V) (Some v) of Inl _ \<Rightarrow> False | Inr _ \<Rightarrow> True)"

definition create_trip_fields :: "validators \<Rightarrow> field list" where
  "create_trip_fields V =
     [plain ''pickup'' [IsDefined, IsObject, IsA (valid_point V)],
      plain ''dropoff'' [IsDefined, IsObject, IsA (valid_point V)],
      optional (plain ''pickup_address'' [IsString, MaxLength 256]),
      optional (plain ''dropoff_address'' [IsString, MaxLength 256])]"

definition point_of_json :: "json \<Rightarrow> geo_point_dto" where
  "point_of_json v =
     \<lparr>gp_lat = (case jget v ''lat'' of Some j \<Rightarrow> j | None \<Rightarrow> JNull),
      gp_lon = (case jget v ''lon'' of Some j \<Rightarrow> j | None \<Rightarrow> JNull)\<rparr>"

definition create_trip_dto_of :: "validators \<Rightarrow> json option \<Rightarrow> exn + create_trip_dto" where
  "create_trip_dto_of V body = sum_bind (validate (create_trip_fields V) body) (\<lambda>kvs.
     let pt = (\<lambda>k. point_of_json (case map_of (rev kvs) k of Some v \<Rightarrow> v | None \<Rightarrow> JNull)) in
     Inr \<lparr>ct_pickup = pt ''pickup'', ct_dropoff = pt ''dropoff'',
          ct_pickup_address = opt_str_of kvs ''pickup_address'',
          ct_dropoff_address = opt_str_of kvs ''dropoff_address''\<rparr>)"

definition rate_trip_fields :: "field list" where
  "rate_trip_fields =
     [plain ''rating'' [IsInt, AtLeast 1, AtMost 5],
      optional (plain ''comment'' [IsString, MaxLength 512])]"

definition rate_trip_dto_of :: "json option \<Rightarrow> exn + rate_trip_dto" where
  "rate_trip_dto_of body = sum_bind (validate rate_trip_fields body) (\<lambda>kvs.
     Inr \<lparr>rd_rating = int_of_field kvs ''rating'', rd_comment = opt_str_of kvs ''comment''\<rparr>)"

section \<open>Vehicles\<close>

definition letter :: "char \<Rightarrow> bool" where
  "letter c \<longleftrightarrow> (let n = (of_char c :: int) in 65 \<le> n \<and> n \<le> 90 \<or> 97 \<le> n \<and> n \<le> 122)"

definition VEHICLE_PLATE_PATTERN :: "string \<Rightarrow> bool" where
  "VEHICLE_PLATE_PATTERN s \<longleftrightarrow> 3 \<le> length s \<and> length s \<le> 16 \<and>
     list_all (\<lambda>c. is_digit c \<or> c = CHR ''-'' \<or> letter c) s"

definition trimString :: "json \<Rightarrow> json" where
  "trimString v = (case v of JStr s \<Rightarrow> JStr (trim s) | _ \<Rightarrow> v)"

definition normalizePlate :: "json \<Rightarrow> json" where
  "normalizePlate v = (case v of JStr s \<Rightarrow> JStr (to_upper (trim s)) | _ \<Rightarrow> v)"

record create_vehicle_dto =
  cv_plate :: string
  cv_make :: string
  cv_model :: string
  cv_year :: int
  cv_color :: string
  cv_capacity :: int

definition create_vehicle_fields :: "field list" where
  "create_vehicle_fields =
     [transformed normalizePlate (plain ''plate'' [IsString, Matches VEHICLE_PLATE_PATTERN, MinLength 3, MaxLength 16]),
      transformed trimString (plain ''make'' [IsString, MinLength 1, MaxLength 64]),
      transformed trimString (plain ''model'' [IsString, MinLength 1, MaxLength 64]),
      plain ''year'' [IsInt, AtLeast 1990, AtMost 2100],
      transformed trimString (plain ''color'' [IsString, MinLength 1, MaxLength 32]),
      plain ''capacity'' [IsInt, AtLeast 1, AtMost 8]]"

definition create_vehicle_dto_of :: "json option \<Rightarrow> exn + create_vehicle_dto" where
  "create_vehicle_dto_of body = sum_bind (validate create_vehicle_fields body) (\<lambda>kvs.
     Inr \<lparr>cv_plate = str_of kvs ''plate'', cv_make = str_of kvs ''make'', cv_model = str_of kvs ''model'',
          cv_year = int_of_field kvs ''year'', cv_color = str_of kvs ''color'',
          cv_capacity = int_of_field kvs ''capacity''\<rparr>)"

definition update_vehicle_fields :: "field list" where
  "update_vehicle_fields =
     [optional (transformed normalizePlate (plain ''plate'' [Matches VEHICLE_PLATE_PATTERN])),
      optional (transformed trimString (plain ''make'' [IsString, MinLength 1, MaxLength 64])),
      optional (transformed trimString (plain ''model'' [IsString, MinLength 1, MaxLength 64])),
      optional (transformed trimString (plain ''color'' [IsString, MinLength 1, MaxLength 32])),
      optional (plain ''year'' [IsInt, AtLeast 1990, AtMost 2100]),
      optional (plain ''capacity'' [IsInt, AtLeast 1, AtMost 8]),
      optional (plain ''is_active'' [IsBoolean])]"

text \<open>The validated fields as they came: an explicit \<open>null\<close> passes \<open>IsOptional\<close> and stays.\<close>

definition update_vehicle_dto_of :: "json option \<Rightarrow> exn + (string \<times> json) list" where
  "update_vehicle_dto_of body = validate update_vehicle_fields body"

section \<open>Accounts\<close>

definition phone_pattern :: "string \<Rightarrow> bool" where
  "phone_pattern s \<longleftrightarrow> (case s of [] \<Rightarrow> False | c # ds \<Rightarrow>
     c = CHR ''+'' \<and> 8 \<le> length ds \<and> length ds \<le> 15 \<and> list_all is_digit ds)"

definition date_pattern :: "string \<Rightarrow> bool" where
  "date_pattern s \<longleftrightarrow> length s = 10 \<and>
     list_all (\<lambda>(i, c). if i = 4 \<or> i = 7 then c = CHR ''-'' else is_digit c) (enumerate 0 s)"

record signup_dto =
  sg_role :: string
  sg_full_name :: string
  sg_email :: string
  sg_phone :: string
  sg_password :: string
  sg_license_number :: "string option"
  sg_license_expires_on :: "string option"

definition driver_only :: "field \<Rightarrow> field" where
  "driver_only f = f\<lparr>fd_validate_if := (\<lambda>kvs. map_of (rev kvs) ''role'' = Some (JStr ''driver''))\<rparr>"

definition signup_fields :: "validators \<Rightarrow> field list" where
  "signup_fields V =
     [plain ''role'' [IsEnum [''rider'', ''driver'']],
      plain ''full_name'' [IsString, IsNotEmpty],
      plain ''email'' [IsA (vx_isEmail V)],
      plain ''phone'' [Matches phone_pattern],
      plain ''password'' [MinLength 8],
      driver_only (plain ''license_number'' [IsString, MinLength 4]),
      driver_only (plain ''license_expires_on'' [Matches date_pattern])]"

definition signup_dto_of :: "validators \<Rightarrow> json option \<Rightarrow> exn + signup_dto" where
  "signup_dto_of V body = sum_bind (validate (signup_fields V) body) (\<lambda>kvs.
     Inr \<lparr>sg_role = str_of kvs ''role'', sg_full_name = str_of kvs ''full_name'',
          sg_email = str_of kvs ''email'', sg_phone = str_of kvs ''phone'',
          sg_password = str_of kvs ''password'', sg_license_number = opt_str_of kvs ''license_number'',
          sg_license_expires_on = opt_str_of kvs ''license_expires_on''\<rparr>)"

record login_dto =
  ln_phone :: string
  ln_password :: string

definition login_fields :: "field list" where
  "login_fields = [plain ''phone'' [Matches phone_pattern], plain ''password'' [MinLength 8]]"

definition login_dto_of :: "json option \<Rightarrow> exn + login_dto" where
  "login_dto_of body = sum_bind (validate login_fields body) (\<lambda>kvs.
     Inr \<lparr>ln_phone = str_of kvs ''phone'', ln_password = str_of kvs ''password''\<rparr>)"

record demo_login_dto =
  dm_phone :: string
  dm_expected_role :: "string option"

definition demo_login_fields :: "field list" where
  "demo_login_fields =
     [plain ''phone'' [Matches phone_pattern],
      optional (plain ''expected_role'' [IsEnum [''rider'', ''driver'', ''admin'']])]"

definition demo_login_dto_of :: "json option \<Rightarrow> exn + demo_login_dto" where
  "demo_login_dto_of body = sum_bind (validate demo_login_fields body) (\<lambda>kvs.
     Inr \<lparr>dm_phone = str_of kvs ''phone'', dm_expected_role = opt_str_of kvs ''expected_role''\<rparr>)"

section \<open>What a validated body is\<close>

lemma validate_Inr:
  assumes "validate fs body = Inr kvs"
  shows "list_all (field_ok kvs) fs" and "\<exists>raw. kvs = map (transform_entry fs) raw"
  using assms by (auto simp: validate_def Let_def split: option.splits json.splits if_splits)

lemma validated_rules:
  assumes "validate fs body = Inr kvs" and "f \<in> set fs" and "fd_validate_if f kvs"
    and "map_of (rev kvs) (fd_name f) = Some v" and "fd_optional f \<longrightarrow> v \<noteq> JNull"
  shows "list_all (\<lambda>r. rule_holds r v) (fd_rules f)"
  using validate_Inr(1) [OF assms(1)] assms(2-5) by (auto simp: list_all_iff field_ok_def)

lemma validated_present:
  assumes "validate fs body = Inr kvs" and "f \<in> set fs" and "fd_validate_if f kvs" and "\<not> fd_optional f"
  obtains v where "map_of (rev kvs) (fd_name f) = Some v" and "list_all (\<lambda>r. rule_holds r v) (fd_rules f)"
  using validate_Inr(1) [OF assms(1)] assms(2-4) by (auto simp: list_all_iff field_ok_def split: option.splits)

lemma find_named: "distinct (map fd_name fs) \<Longrightarrow> f \<in> set fs \<Longrightarrow> find (\<lambda>g. fd_name g = fd_name f) fs = Some f"
  by (induction fs) auto

lemma validated_transform:
  assumes "validate fs body = Inr kvs" and "f \<in> set fs" and "distinct (map fd_name fs)"
    and "map_of (rev kvs) (fd_name f) = Some v"
  shows "\<exists>raw. v = fd_transform f raw"
proof -
  from validate_Inr(2) [OF assms(1)] obtain raw where kvs: "kvs = map (transform_entry fs) raw" by blast
  from map_of_SomeD [OF assms(4)] kvs obtain kv where "(fd_name f, v) = transform_entry fs kv" by auto
  moreover from this have "fst kv = fd_name f" by (auto simp: transform_entry_def split: option.splits)
  ultimately show ?thesis using find_named [OF assms(3,2)] by (auto simp: transform_entry_def)
qed

lemma upper_char_letter: "letter (upper_char c) \<Longrightarrow> (of_char (upper_char c) :: int) \<le> 90"
  by (auto simp: upper_char_def letter_def Let_def split: if_splits)

lemma plate_of_pattern:
  assumes "VEHICLE_PLATE_PATTERN (to_upper s)"
  shows "plate_ok (to_upper s)"
proof -
  have "plate_char c" if "c \<in> set (to_upper s)" for c
  proof -
    from that obtain c' where "c = upper_char c'" by (auto simp: to_upper_def)
    with upper_char_letter [of c'] assms that show ?thesis
      by (auto simp: VEHICLE_PLATE_PATTERN_def list_all_iff plate_char_def letter_def Let_def)
  qed
  with assms show ?thesis by (simp add: VEHICLE_PLATE_PATTERN_def plate_ok_def list_all_iff)
qed

lemma normalized_plate:
  assumes "v = normalizePlate raw" and "rule_holds (Matches VEHICLE_PLATE_PATTERN) v"
  shows "\<exists>s. v = JStr s \<and> plate_ok s"
  using assms plate_of_pattern by (cases raw) (auto simp: normalizePlate_def)

lemma int_rules:
  assumes "rule_holds IsInt v" and "rule_holds (AtLeast a) v" and "rule_holds (AtMost b) v"
  shows "\<exists>q. v = JNum q \<and> a \<le> \<lfloor>q\<rfloor> \<and> \<lfloor>q\<rfloor> \<le> b"
proof (cases v)
  case (JNum q)
  with assms(2,3) have "of_int a \<le> q" "q \<le> of_int b" by simp_all
  then have "a \<le> \<lfloor>q\<rfloor>" "\<lfloor>q\<rfloor> \<le> b" by linarith+
  with JNum show ?thesis by blast
qed (use assms(1) in simp_all)

lemma name_rules:
  assumes "rule_holds (MinLength 1) v" and "rule_holds (MaxLength n) v"
  shows "\<exists>s. v = JStr s \<and> name_ok n s"
  using assms by (cases v) (auto simp: name_ok_def)

definition vehicle_dto_ok :: "create_vehicle_dto \<Rightarrow> bool" where
  "vehicle_dto_ok dto \<longleftrightarrow> plate_ok (cv_plate dto) \<and> name_ok 64 (cv_make dto) \<and> name_ok 64 (cv_model dto) \<and>
     1990 \<le> cv_year dto \<and> cv_year dto \<le> 2100 \<and> name_ok 32 (cv_color dto) \<and>
     1 \<le> cv_capacity dto \<and> cv_capacity dto \<le> 8"

lemma create_vehicle_dto_ok:
  assumes "create_vehicle_dto_of body = Inr dto"
  shows "vehicle_dto_ok dto"
proof -
  from assms obtain kvs where kvs: "validate create_vehicle_fields body = Inr kvs"
    and dto: "dto = \<lparr>cv_plate = str_of kvs ''plate'', cv_make = str_of kvs ''make'', cv_model = str_of kvs ''model'',
      cv_year = int_of_field kvs ''year'', cv_color = str_of kvs ''color'', cv_capacity = int_of_field kvs ''capacity''\<rparr>"
    by (auto simp: create_vehicle_dto_of_def sum_bind_def split: sum.splits)
  have rules: "\<exists>v. map_of (rev kvs) (fd_name f) = Some v \<and> list_all (\<lambda>r. rule_holds r v) (fd_rules f) \<and>
      (\<exists>raw. v = fd_transform f raw)" if f: "f \<in> set create_vehicle_fields" for f
  proof -
    have "fd_validate_if f kvs" "\<not> fd_optional f" using f by (auto simp: create_vehicle_fields_def plain_def transformed_def)
    from validated_present [OF kvs f this] obtain v where
      v: "map_of (rev kvs) (fd_name f) = Some v" "list_all (\<lambda>r. rule_holds r v) (fd_rules f)" .
    have "distinct (map fd_name create_vehicle_fields)" by (simp add: create_vehicle_fields_def plain_def transformed_def)
    from validated_transform [OF kvs f this v(1)] v show ?thesis by blast
  qed
  note [simp] = create_vehicle_fields_def plain_def transformed_def str_of_def int_of_field_def
  have "plate_ok (str_of kvs ''plate'')"
    using rules [of "create_vehicle_fields ! 0"] normalized_plate by fastforce
  moreover have "name_ok 64 (str_of kvs ''make'')" "name_ok 64 (str_of kvs ''model'')" "name_ok 32 (str_of kvs ''color'')"
    using rules [of "create_vehicle_fields ! 1"] rules [of "create_vehicle_fields ! 2"]
      rules [of "create_vehicle_fields ! 4"] name_rules by fastforce+
  moreover have "1990 \<le> int_of_field kvs ''year'' \<and> int_of_field kvs ''year'' \<le> 2100"
    "1 \<le> int_of_field kvs ''capacity'' \<and> int_of_field kvs ''capacity'' \<le> 8"
    using rules [of "create_vehicle_fields ! 3"] rules [of "create_vehicle_fields ! 5"] int_rules by fastforce+
  ultimately show ?thesis by (simp add: vehicle_dto_ok_def dto)
qed

lemma signup_role:
  assumes "signup_dto_of V body = Inr dto"
  shows "sg_role dto \<in> {''rider'', ''driver''}"
proof -
  from assms obtain kvs where kvs: "validate (signup_fields V) body = Inr kvs" and "sg_role dto = str_of kvs ''role''"
    by (auto simp: signup_dto_of_def sum_bind_def split: sum.splits)
  moreover have "plain ''role'' [IsEnum [''rider'', ''driver'']] \<in> set (signup_fields V)" by (simp add: signup_fields_def)
  from validated_present [OF kvs this] obtain v where "map_of (rev kvs) ''role'' = Some v"
    "rule_holds (IsEnum [''rider'', ''driver'']) v" by (auto simp: plain_def)
  ultimately show ?thesis by (cases v) (auto simp: str_of_def)
qed

end
