(* ===== verification/Matcher.thy ===== *)
theory Matcher
  imports TripRefinement HashRing
begin

text \<open>
  The matcher, \<open>services/matcher/src\<close>: the consumer of trip events that reserves a driver and a
  vehicle (\<open>trip-consumer.ts\<close>), the consumer of driver locations with the replica ring
  (\<open>location-consumer.ts\<close>), and the configuration \<open>index.ts\<close> reads. A handler is one computation
  over the world; logging is left out. \<open>matcher_commits\<close> shows that handling any message commits
  only steps of \<open>BookingSpec\<close>, whatever fails.
\<close>

section \<open>Trip events\<close>

record match_result =
  mr_tripId :: string
  mr_driverId :: string
  mr_vehicleId :: string
  mr_eventId :: int

text \<open>
  A field of a message as a \<open>uuid\<close> parameter: an absent field is sent as \<open>NULL\<close>, a string as it
  is, and the server refuses the text of any other value.
\<close>

definition uuid_param :: "json option \<Rightarrow> exn + string option" where
  "uuid_param v =
     (case v of
        None \<Rightarrow> Inr None
      | Some JNull \<Rightarrow> Inr None
      | Some (JStr s) \<Rightarrow> Inr (Some s)
      | Some _ \<Rightarrow> Inl (Pg ''22P02'' None))"

definition by_uuid :: "json option \<Rightarrow> (string option \<Rightarrow> 'a stmt) \<Rightarrow> 'a stmt" where
  "by_uuid v st = (\<lambda>s d. (case uuid_param v of Inl e \<Rightarrow> (Inl e, s) | Inr p \<Rightarrow> st p s d))"

text \<open>\<open>evt.dto?.pickup\<close>, \<open>null\<close> and \<open>undefined\<close> alike.\<close>

definition event_pickup :: "json \<Rightarrow> json option" where
  "event_pickup evt =
     (case jget evt ''dto'' of
        None \<Rightarrow> None
      | Some dto \<Rightarrow> (case jget dto ''pickup'' of Some JNull \<Rightarrow> None | p \<Rightarrow> p))"

text \<open>The check of the coordinates: \<open>Number.isFinite\<close> holds of numbers only.\<close>

definition finite_coord :: "json option \<Rightarrow> rat option" where
  "finite_coord v = (case v of Some (JNum q) \<Rightarrow> Some q | _ \<Rightarrow> None)"

definition pickup_point :: "json \<Rightarrow> point option" where
  "pickup_point j =
     (case (finite_coord (jget j ''lon''), finite_coord (jget j ''lat'')) of
        (Some lon, Some lat) \<Rightarrow> Some \<lparr>pt_lon = lon, pt_lat = lat\<rparr>
      | _ \<Rightarrow> None)"

definition loadTripPickup :: "json option \<Rightarrow> (point option) act" where
  "loadTripPickup tripId = query (by_uuid tripId (\<lambda>p. select (\<lambda>d.
     map_option tr_pickup (find (\<lambda>t. Some (tr_id t) = p) (db_trips d)))))"

subsection \<open>Reserving a driver\<close>

definition select_vehicle :: "string \<Rightarrow> (string list) stmt" where
  "select_vehicle driverId = select (\<lambda>d.
     take 1 (concat (map (\<lambda>r. map ve_id
         (filter (\<lambda>v. ve_driver_id v = dr_user_id r \<and> ve_is_active v) (db_vehicles d)))
       (filter (\<lambda>r. dr_user_id r = driverId \<and> dr_status r = Online) (db_drivers d)))))"

definition claim_trip :: "json option \<Rightarrow> string \<Rightarrow> string \<Rightarrow> (trip_row list) stmt" where
  "claim_trip tripId driverId vehicleId = by_uuid tripId (\<lambda>p. update_trips
     (\<lambda>t. Some (tr_id t) = p \<and> tr_status t = Requested)
     (\<lambda>now t. t\<lparr>tr_driver_id := Some driverId, tr_vehicle_id := Some vehicleId,
               tr_status := Matched, tr_matched_at := Some now\<rparr>))"

definition assignDriver :: "json option \<Rightarrow> string \<Rightarrow> (match_result option) act" where
  "assignDriver tripId driverId =
     with_client
       (try_catch
         (await begin_tx (\<lambda>_.
          await (query (select_vehicle driverId)) (\<lambda>vehicles.
          case vehicles of
            [] \<Rightarrow> await rollback (\<lambda>_. await (zrem driverId) (\<lambda>_. ret None))
          | vehicleId # _ \<Rightarrow>
              await (query (claim_trip tripId driverId vehicleId)) (\<lambda>trips.
              case trips of
                [] \<Rightarrow> await rollback (\<lambda>_. ret None)
              | trip # _ \<Rightarrow>
                  await (query (set_driver_status driverId OnTrip)) (\<lambda>_.
                  await (query (insert_trip_event (tr_id trip) ''matched''
                           (JObj [(''driver_id'', JStr driverId), (''vehicle_id'', JStr vehicleId)])))
                    (\<lambda>eventId.
                  await commit (\<lambda>_.
                  await (zrem driverId) (\<lambda>_.
                  ret (Some \<lparr>mr_tripId = tr_id trip, mr_driverId = driverId,
                             mr_vehicleId = vehicleId, mr_eventId = eventId\<rparr>)))))))))
         rollback_rethrow)"

definition select_unpublished :: "int \<Rightarrow> nat stmt" where
  "select_unpublished eventId = select (\<lambda>d.
     length (filter (\<lambda>e. te_id e = eventId \<and> te_published_at e = None) (db_trip_events d)))"

definition publishMatchedEvent :: "string \<Rightarrow> int \<Rightarrow> string \<Rightarrow> (string \<times> json) list \<Rightarrow> unit act" where
  "publishMatchedEvent tripTopic eventId tripId payload =
     with_client
       (try_catch
         (await begin_tx (\<lambda>_.
          await (query (select_unpublished eventId)) (\<lambda>rowCount.
          if rowCount = 0 then commit
          else
            await (try_catch
                     (await (kafka_send \<lparr>km_topic = tripTopic, km_key = Some tripId,
                                         km_value = Some (JsonText (JObj payload))\<rparr>)
                        (\<lambda>_. query (mark_published eventId)))
                     (\<lambda>e. query (mark_publish_failed eventId (exn_text e))))
              (\<lambda>_. commit))))
         (\<lambda>e. await rollback_quietly (\<lambda>_. throw e)))"

text \<open>The loop over the candidates stops at the first that is assigned.\<close>

fun try_candidates :: "string \<Rightarrow> json option \<Rightarrow> string list \<Rightarrow> unit act" where
  "try_candidates tripTopic tripId [] = ret ()"
| "try_candidates tripTopic tripId (driverId # rest) =
     await (assignDriver tripId driverId) (\<lambda>found.
     case found of
       None \<Rightarrow> try_candidates tripTopic tripId rest
     | Some m \<Rightarrow>
         publishMatchedEvent tripTopic (mr_eventId m) (mr_tripId m)
           [(''type'', JStr ''trip.matched''), (''trip_id'', JStr (mr_tripId m)),
            (''driver_id'', JStr (mr_driverId m)), (''vehicle_id'', JStr (mr_vehicleId m))])"

definition handleTripEvent :: "ext \<Rightarrow> string \<Rightarrow> kafka_message \<Rightarrow> unit act" where
  "handleTripEvent X tripTopic message =
     (case parseJsonMessage message of
        None \<Rightarrow> ret ()
      | Some evt \<Rightarrow>
          if jget evt ''type'' \<noteq> Some (JStr ''trip.requested'') then ret ()
          else
            let tripId = jget evt ''trip_id'' in
            await (case event_pickup evt of
                     Some p \<Rightarrow> ret (pickup_point p)
                   | None \<Rightarrow> loadTripPickup tripId) (\<lambda>pickup.
            case pickup of
              None \<Rightarrow> ret ()
            | Some p \<Rightarrow>
                await (geosearch X p 2000 10) (\<lambda>nearby.
                try_candidates tripTopic tripId (map fst nearby))))"

section \<open>Driver locations\<close>

text \<open>\<open>for (let i = 0; i < vnodes; i++)\<close> runs once per integer below \<open>vnodes\<close>.\<close>

definition buildReplicaRing :: "string list \<Rightarrow> rat \<Rightarrow> 32 word ring" where
  "buildReplicaRing replicas vnodes = foldl addNode (new_ring (nat \<lceil>vnodes\<rceil>) murmur3) replicas"

text \<open>The ping a replica takes from a message, if it is the one to process it.\<close>

definition handleLocation :: "32 word ring \<Rightarrow> string \<Rightarrow> kafka_message \<Rightarrow> json option" where
  "handleLocation ring selfId message =
     (case (km_value message, km_key message) of
        (Some _, Some driverId) \<Rightarrow>
          if getNode ring driverId \<noteq> Some selfId then None
          else (case parseJsonMessage message of
                  Some ping \<Rightarrow> if truthy ping then Some ping else None
                | None \<Rightarrow> None)
      | _ \<Rightarrow> None)"

section \<open>Configuration\<close>

record matcher_config =
  mc_selfId :: string
  mc_ring :: "32 word ring"
  mc_clientId :: string
  mc_brokers :: "string list"
  mc_locationGroup :: string
  mc_locationTopic :: string
  mc_tripTopic :: string

definition matcher_main :: "env \<Rightarrow> string + matcher_config" where
  "matcher_main env =
     sum_bind (requiredEnv env ''LOG_LEVEL'' no_options) (\<lambda>_.
     sum_bind (requiredEnv env ''HOSTNAME'' no_options) (\<lambda>selfId.
     sum_bind (requiredEnv env ''MATCHER_REPLICA_IDS'' no_options) (\<lambda>replicas.
     sum_bind (requiredNumberEnv env ''MATCHER_RING_VNODES'' None None) (\<lambda>vnodes.
     sum_bind (requiredEnv env ''REDIS_URL'' no_options) (\<lambda>_.
     sum_bind (requiredEnv env ''DATABASE_URL'' no_options) (\<lambda>_.
     sum_bind (requiredEnv env ''KAFKA_BROKERS'' no_options) (\<lambda>brokers.
     sum_bind (requiredEnv env ''TOPIC_DRIVER_LOCATION'' no_options) (\<lambda>locationTopic.
     sum_bind (requiredEnv env ''TOPIC_TRIP_EVENTS'' no_options) (\<lambda>tripTopic.
     Inr \<lparr>mc_selfId = selfId,
          mc_ring = buildReplicaRing (split_on (CHR '','') replicas) vnodes,
          mc_clientId = ''matcher-'' @ selfId, mc_brokers = split_on (CHR '','') brokers,
          mc_locationGroup = ''matcher-loc-'' @ selfId, mc_locationTopic = locationTopic,
          mc_tripTopic = tripTopic\<rparr>)))))))))"

section \<open>What the matcher commits\<close>

lemma stmt_ok_by_uuid:
  assumes "\<And>p. uuid_param v = Inr p \<Longrightarrow> stmt_ok J (st p) K"
  shows "stmt_ok J (by_uuid v st) K"
  using assms by (cases "uuid_param v") (auto simp: stmt_ok_def by_uuid_def)

lemma valid_commit_then:
  assumes "db_neutral m"
  shows "valid (open_tx I I) (await commit (\<lambda>_. m)) (\<lambda>_. some_tx I) (\<lambda>_. some_tx I)"
proof (rule valid_await [where R = "\<lambda>_. some_tx I"])
  show "valid (open_tx I I) commit (\<lambda>_. some_tx I) (\<lambda>_. some_tx I)"
    by (rule valid_conseq [OF valid_commit]) (auto dest: idle_some_tx)
qed (rule valid_neutral(3) [OF assms])

lemma valid_rollback_then:
  assumes "db_neutral m" and "\<And>w. P w \<Longrightarrow> some_tx I w"
  shows "valid P (await rollback (\<lambda>_. m)) (\<lambda>_. some_tx I) (\<lambda>_. some_tx I)"
proof (rule valid_await [where R = "\<lambda>_. some_tx I"])
  show "valid P rollback (\<lambda>_. some_tx I) (\<lambda>_. some_tx I)"
    by (rule valid_conseq [OF valid_rollback]) (auto dest: idle_some_tx assms(2))
qed (rule valid_neutral(3) [OF assms(1)])

lemma zrem_ret_neutral: "db_neutral (await (zrem v) (\<lambda>_. ret x))"
  by (intro neutral_await db_neutral_servers db_neutral_simple)

lemma assignDriver_commits: "commits core_step (assignDriver tripId driverId)"
proof -
  let ?free = "\<lambda>(d :: db) vid. \<exists>r v. r \<in> set (db_drivers d) \<and> dr_user_id r = driverId \<and> dr_status r = Online \<and>
      v \<in> set (db_vehicles d) \<and> ve_driver_id v = driverId \<and> ve_is_active v \<and> vid = ve_id v"
  let ?p = "\<lambda>tid t. tr_id t = tid \<and> tr_status t = Requested"
  let ?u = "\<lambda>vid now t. t\<lparr>tr_driver_id := Some driverId, tr_vehicle_id := Some vid,
               tr_status := Matched, tr_matched_at := Some now\<rparr>"
  let ?ev = "\<lambda>vid. [(''driver_id'', JStr driverId), (''vehicle_id'', JStr vid)]"
  let ?then = "\<lambda>vid trip. await (query (set_driver_status driverId OnTrip)) (\<lambda>_.
      await (query (insert_trip_event (tr_id trip) ''matched'' (JObj (?ev vid)))) (\<lambda>eventId.
      await commit (\<lambda>_. await (zrem driverId) (\<lambda>_.
      ret (Some \<lparr>mr_tripId = tr_id trip, mr_driverId = driverId, mr_vehicleId = vid,
                 mr_eventId = eventId\<rparr>)))))"
  have claimed: "valid (open_tx I (\<lambda>d'. \<exists>d since t. I d \<and> ?free d vid \<and> t \<in> set (db_trips d) \<and>
        ?p (tr_id trip) t \<and> d' = with_trips (?p (tr_id trip)) (?u vid since) d))
      (?then vid trip) (\<lambda>_. some_tx I) (\<lambda>_. some_tx I)" (is "valid (open_tx I ?C) _ _ _")
    if I: "I = core_step\<^sup>*\<^sup>* d0" for I d0 vid and trip :: trip_row
  proof -
    let ?C2 = "\<lambda>d'. \<exists>d. ?C d \<and> d' = with_driver_status driverId OnTrip d"
    have set: "stmt_ok ?C (set_driver_status driverId OnTrip) (\<lambda>_. ?C2)"
      by (rule stmt_okI) (unfold set_driver_status_eq, blast)
    have ev: "stmt_ok ?C2 (insert_trip_event (tr_id trip) ''matched'' (JObj (?ev vid))) (\<lambda>_. I)"
    proof (rule insert_event_ok)
      fix d' eid now assume "?C2 d'" and fresh: "fresh_event eid d'"
      then obtain d since t r v where "I d" and *: "r \<in> set (db_drivers d)" "dr_user_id r = driverId"
        "dr_status r = Online" "v \<in> set (db_vehicles d)" "ve_driver_id v = driverId" "ve_is_active v"
        "t \<in> set (db_trips d)" "tr_id t = tr_id trip" "tr_status t = Requested" and vid: "vid = ve_id v"
        and d': "d' = with_driver_status driverId OnTrip (with_trips (?p (tr_id trip)) (?u vid since) d)"
        by blast
      have "core_step d (log_event eid now (tr_id trip) ''matched'' (?ev vid) d')"
        unfolding d' vid by (rule core_step.match_trip [OF *]) (use fresh d' in simp)
      with \<open>I d\<close> show "I (log_event eid now (tr_id trip) ''matched'' (?ev vid) d')"
        unfolding I by (rule core_last)
    qed
    show ?thesis
      by (rule valid_await [OF valid_query_tx [OF set] valid_await [OF valid_query_tx [OF ev]
            valid_commit_then [OF zrem_ret_neutral]]])
  qed
  have body: "valid (open_tx I I)
     (await (query (select_vehicle driverId)) (\<lambda>vehicles.
        case vehicles of
          [] \<Rightarrow> await rollback (\<lambda>_. await (zrem driverId) (\<lambda>_. ret None))
        | vehicleId # _ \<Rightarrow>
            await (query (claim_trip tripId driverId vehicleId)) (\<lambda>trips.
            case trips of [] \<Rightarrow> await rollback (\<lambda>_. ret None) | trip # _ \<Rightarrow> ?then vehicleId trip)))
     (\<lambda>_. some_tx I) (\<lambda>_. some_tx I)" if I: "I = core_step\<^sup>*\<^sup>* d0" for I d0
  proof (rule valid_await [OF valid_query_tx])
    let ?K = "\<lambda>(rows :: string list) (d :: db). I d \<and> (\<forall>vid. rows \<noteq> [] \<and> vid = hd rows \<longrightarrow> ?free d vid)"
    show "stmt_ok I (select_vehicle driverId) ?K"
      unfolding select_vehicle_def
    proof (rule stmt_ok_select)
      fix d :: db
      let ?rows = "concat (map (\<lambda>r. map ve_id (filter (\<lambda>v. ve_driver_id v = dr_user_id r \<and> ve_is_active v)
          (db_vehicles d))) (filter (\<lambda>r. dr_user_id r = driverId \<and> dr_status r = Online) (db_drivers d)))"
      assume "I d"
      moreover have "?free d (hd (take 1 ?rows))" if "take 1 ?rows \<noteq> []"
      proof -
        have "hd (take 1 ?rows) \<in> set ?rows" using that by (cases ?rows) auto
        then show ?thesis
          unfolding set_concat set_map set_filter Union_iff bex_simps image_iff mem_Collect_eq
          by (auto 0 3 simp del: set_concat) 
      qed
      ultimately show "?K (take 1 ?rows) d" by blast
    qed
    fix rows
    show "valid (open_tx I (?K rows))
      (case rows of
         [] \<Rightarrow> await rollback (\<lambda>_. await (zrem driverId) (\<lambda>_. ret None))
       | vehicleId # _ \<Rightarrow>
           await (query (claim_trip tripId driverId vehicleId)) (\<lambda>trips.
           case trips of [] \<Rightarrow> await rollback (\<lambda>_. ret None) | trip # _ \<Rightarrow> ?then vehicleId trip))
      (\<lambda>_. some_tx I) (\<lambda>_. some_tx I)"
    proof (rule valid_case_list)
      show "valid (open_tx I (?K rows)) (await rollback (\<lambda>_. await (zrem driverId) (\<lambda>_. ret None)))
          (\<lambda>_. some_tx I) (\<lambda>_. some_tx I)"
        by (rule valid_rollback_then [OF zrem_ret_neutral open_some_tx])
    next
      fix vid vids assume rows: "rows = vid # vids"
      define K2 where "K2 = (\<lambda>(trips :: trip_row list) d'. case trips of [] \<Rightarrow> I d' | trip # _ \<Rightarrow>
          \<exists>d since t. I d \<and> ?free d vid \<and> t \<in> set (db_trips d) \<and>
            ?p (tr_id trip) t \<and> d' = with_trips (?p (tr_id trip)) (?u vid since) d)"
      have "stmt_ok (?K rows) (claim_trip tripId driverId vid) K2"
        unfolding claim_trip_def
      proof (rule stmt_ok_by_uuid, rule update_trips_ok)
        fix p d assume "?K rows d"
        then show "K2 [] d" by (simp add: K2_def)
      next
        fix p d now t rs assume K: "?K rows d" and t: "t \<in> set (db_trips d)"
          "Some (tr_id t) = p \<and> tr_status t = Requested"
        have p: "p = Some (tr_id t)" using t(2) by simp
        have "I d" "?free d vid" using K rows by simp_all
        then show "K2 (?u vid now t # rs)
            (with_trips (\<lambda>s. Some (tr_id s) = p \<and> tr_status s = Requested) (?u vid now) d)"
          unfolding K2_def list.case using t by (intro exI [of _ d] exI [of _ now] exI [of _ t]) (simp add: p)
      qed
      moreover have "valid (open_tx I (K2 trips))
          (case trips of [] \<Rightarrow> await rollback (\<lambda>_. ret None) | trip # _ \<Rightarrow> ?then vid trip)
          (\<lambda>_. some_tx I) (\<lambda>_. some_tx I)" for trips
      proof (rule valid_case_list)
        show "valid (open_tx I (K2 trips)) (await rollback (\<lambda>_. ret None)) (\<lambda>_. some_tx I) (\<lambda>_. some_tx I)"
          by (rule valid_rollback_then [OF db_neutral_simple(1) open_some_tx])
      next
        fix trip ts assume trips: "trips = trip # ts"
        show "valid (open_tx I (K2 trips)) (?then vid trip) (\<lambda>_. some_tx I) (\<lambda>_. some_tx I)"
          using claimed [OF I] unfolding trips K2_def list.case .
      qed
      ultimately show "valid (open_tx I (?K rows))
          (await (query (claim_trip tripId driverId vid)) (\<lambda>trips.
             case trips of [] \<Rightarrow> await rollback (\<lambda>_. ret None) | trip # _ \<Rightarrow> ?then vid trip))
          (\<lambda>_. some_tx I) (\<lambda>_. some_tx I)"
        by (rule valid_await [OF valid_query_tx])
    qed
  qed
  show ?thesis
    unfolding assignDriver_def by (rule commits_tx [OF body [OF refl] rollback_rethrow_some])
qed

lemma publishMatchedEvent_commits: "commits core_step (publishMatchedEvent topic eventId tripId payload)"
proof -
  let ?send = "\<lambda>m. try_catch (await (kafka_send m) (\<lambda>_. query (mark_published eventId)))
      (\<lambda>e. query (mark_publish_failed eventId (exn_text e)))"
  have commit_some: "valid (open_tx I I) commit (\<lambda>_. some_tx I) (\<lambda>_. some_tx I)" for I
    by (rule valid_conseq [OF valid_commit]) (auto dest: idle_some_tx)
  have body: "valid (open_tx I I)
      (await (query (select_unpublished eventId)) (\<lambda>rowCount.
         if rowCount = 0 then commit else await (?send m) (\<lambda>_. commit)))
      (\<lambda>_. some_tx I) (\<lambda>_. some_tx I)" if I: "I = core_step\<^sup>*\<^sup>* d0" for I d0 m
  proof (rule valid_await [OF valid_query_tx])
    show "stmt_ok I (select_unpublished eventId) (\<lambda>_. I)"
      unfolding select_unpublished_def by (rule stmt_ok_select)
    have "valid (open_tx I I) (?send m) (\<lambda>_. open_tx I I) (\<lambda>_. some_tx I)"
    proof (rule valid_try_catch [where R = "\<lambda>_. open_tx I I"])
      show "valid (open_tx I I) (await (kafka_send m) (\<lambda>_. query (mark_published eventId)))
          (\<lambda>_. open_tx I I) (\<lambda>_. open_tx I I)"
        unfolding I
        by (rule valid_await [OF valid_neutral(2) [OF db_neutral_servers(7)]],
            rule valid_conseq [OF valid_query_tx_failed [OF core_outbox.mark_ok(1)]])
          (auto intro: failed_open_tx)
    qed (unfold I, rule valid_query_tx [OF core_outbox.mark_ok(2)])
    then show "valid (open_tx I I) (if rowCount = 0 then commit else await (?send m) (\<lambda>_. commit))
        (\<lambda>_. some_tx I) (\<lambda>_. some_tx I)" for rowCount
      using valid_await [OF _ commit_some] commit_some by (auto intro!: valid_if)
  qed
  show ?thesis
    unfolding publishMatchedEvent_def
    by (rule commits_tx [OF body [OF refl] rollback_quietly_throw_some])
qed

lemma try_candidates_commits: "commits core_step (try_candidates topic tripId drivers)"
proof (induction drivers)
  case Nil
  then show ?case by (simp add: commits_ret)
next
  case (Cons v vs)
  show ?case unfolding try_candidates.simps
    by (intro commits_await assignDriver_commits commits_option Cons publishMatchedEvent_commits)
qed

lemma loadTripPickup_commits: "commits S (loadTripPickup tripId)"
  unfolding loadTripPickup_def
  by (intro commits_query) (auto simp: by_uuid_def select_def split: sum.splits)

lemma handleTripEvent_commits: "commits core_step (handleTripEvent X topic message)"
proof -
  have start: "commits core_step (case event_pickup evt of None \<Rightarrow> loadTripPickup tripId
      | Some p \<Rightarrow> ret (pickup_point p))" for evt tripId
    by (intro commits_option loadTripPickup_commits commits_ret)
  show ?thesis
    unfolding handleTripEvent_def Let_def
    by (intro commits_option commits_if commits_await start commits_servers try_candidates_commits commits_ret)
qed

end
