(* ===== verification/VehicleService.thy ===== *)
theory VehicleService
  imports Validation Matcher
begin

text \<open>
  The vehicle service of the API, \<open>apps/api/src/vehicles/vehicles.service.ts\<close>, with the constraints
  of the table: the plate is unique, and the partial index \<open>one_active_vehicle_per_driver\<close> lets a
  driver have at most one active vehicle. A vehicle that trips refer to cannot be deleted.
\<close>

section \<open>Statements\<close>

definition vehicles_constraint :: "vehicle_row list \<Rightarrow> exn option" where
  "vehicles_constraint vs =
     (if \<not> list_all (\<lambda>v. 1990 \<le> ve_year v \<and> ve_year v \<le> 2100 \<and> 1 \<le> ve_capacity v \<and> ve_capacity v \<le> 8) vs
      then Some check_violation
      else if \<not> distinct (map ve_plate vs) then Some (unique_violation ''vehicles_plate_key'')
      else if \<not> distinct (map ve_driver_id (filter ve_is_active vs))
      then Some (unique_violation ''one_active_vehicle_per_driver'')
      else None)"

definition select_vehicles :: "string \<Rightarrow> (vehicle_row list) stmt" where
  "select_vehicles driverId = select (\<lambda>d.
     sort_key (\<lambda>v. - ve_created_at v) (filter (\<lambda>v. ve_driver_id v = driverId) (db_vehicles d)))"

definition has_active :: "string \<Rightarrow> bool stmt" where
  "has_active driverId = select (\<lambda>d.
     list_ex (\<lambda>v. ve_driver_id v = driverId \<and> ve_is_active v) (db_vehicles d))"

definition insert_vehicle :: "ext \<Rightarrow> string \<Rightarrow> create_vehicle_dto \<Rightarrow> bool \<Rightarrow> (vehicle_row list) stmt" where
  "insert_vehicle X driverId dto shouldActivate = (\<lambda>s d.
     (let s' = s\<lparr>sys_uuids := sys_uuids s + 1\<rparr>;
          row = \<lparr>ve_id = x_uuid X (sys_uuids s), ve_driver_id = driverId, ve_plate = cv_plate dto,
                 ve_make = cv_make dto, ve_model = cv_model dto, ve_year = cv_year dto,
                 ve_color = cv_color dto, ve_capacity = cv_capacity dto, ve_is_active = shouldActivate,
                 ve_created_at = sys_now s\<rparr>;
          vs = db_vehicles d @ [row]
      in if ve_id row \<in> ve_id ` set (db_vehicles d) then (Inl (unique_violation ''vehicles_pkey''), s')
         else (case vehicles_constraint vs of
                 Some e \<Rightarrow> (Inl e, s')
               | None \<Rightarrow>
                   if driverId \<notin> dr_user_id ` set (db_drivers d) then (Inl foreign_key_violation, s')
                   else (Inr ([row], d\<lparr>db_vehicles := vs\<rparr>), s'))))"

text \<open>\<open>SET column = $n\<close> for one field of the DTO.\<close>

fun set_column :: "string \<times> json \<Rightarrow> vehicle_row \<Rightarrow> vehicle_row" where
  "set_column (c, JStr s) v =
     (if c = ''plate'' then v\<lparr>ve_plate := s\<rparr> else if c = ''make'' then v\<lparr>ve_make := s\<rparr>
      else if c = ''model'' then v\<lparr>ve_model := s\<rparr> else if c = ''color'' then v\<lparr>ve_color := s\<rparr> else v)"
| "set_column (c, JNum q) v =
     (if c = ''year'' then v\<lparr>ve_year := \<lfloor>q\<rfloor>\<rparr> else if c = ''capacity'' then v\<lparr>ve_capacity := \<lfloor>q\<rfloor>\<rparr> else v)"
| "set_column (c, JBool b) v = (if c = ''is_active'' then v\<lparr>ve_is_active := b\<rparr> else v)"
| "set_column _ v = v"

definition update_vehicle :: "string \<Rightarrow> string \<Rightarrow> (string \<times> json) list \<Rightarrow> (vehicle_row list) stmt" where
  "update_vehicle driverId vehicleId columns = (\<lambda>s d.
     (let p = (\<lambda>v. ve_id v = vehicleId \<and> ve_driver_id v = driverId); u = fold set_column columns;
          rows = returning p u (db_vehicles d); vs = update_rows p u (db_vehicles d)
      in if rows = [] then (Inr ([], d), s)
         else if JNull \<in> snd ` set columns then (Inl (Pg ''23502'' None), s)
         else (case vehicles_constraint vs of
                 Some e \<Rightarrow> (Inl e, s) | None \<Rightarrow> (Inr (rows, d\<lparr>db_vehicles := vs\<rparr>), s))))"

definition deactivate_others :: "string \<Rightarrow> string \<Rightarrow> unit stmt" where
  "deactivate_others driverId vehicleId = (\<lambda>s d.
     (Inr ((), d\<lparr>db_vehicles :=
        update_rows (\<lambda>v. ve_driver_id v = driverId \<and> ve_is_active v \<and> ve_id v \<noteq> vehicleId)
          (\<lambda>v. v\<lparr>ve_is_active := False\<rparr>) (db_vehicles d)\<rparr>), s))"

definition delete_vehicle :: "string \<Rightarrow> string \<Rightarrow> nat stmt" where
  "delete_vehicle driverId vehicleId = (\<lambda>s d.
     (let gone = filter (\<lambda>v. ve_id v = vehicleId \<and> ve_driver_id v = driverId) (db_vehicles d)
      in if \<exists>v \<in> set gone. Some (ve_id v) \<in> tr_vehicle_id ` set (db_trips d)
         then (Inl foreign_key_violation, s)
         else (Inr (length gone, d\<lparr>db_vehicles :=
                 filter (\<lambda>v. \<not> (ve_id v = vehicleId \<and> ve_driver_id v = driverId)) (db_vehicles d)\<rparr>), s)))"

section \<open>Conflicts\<close>

definition uniqueViolationConstraint :: "exn \<Rightarrow> string option" where
  "uniqueViolationConstraint e =
     (case e of
        Pg code constraint \<Rightarrow>
          if code = ''23505'' then Some (case constraint of Some c \<Rightarrow> c | None \<Rightarrow> ''unknown'') else None
      | _ \<Rightarrow> None)"

text \<open>\<open>throwVehicleConflict(e); throw e\<close>: the exception that leaves the \<open>catch\<close>.\<close>

definition throwVehicleConflict :: "exn \<Rightarrow> exn" where
  "throwVehicleConflict e =
     (case uniqueViolationConstraint e of
        None \<Rightarrow> e
      | Some constraint \<Rightarrow>
          if constraint = [] then e
          else if constraint = ''vehicles_plate_key'' then Http 409 None ''plate already registered''
          else if constraint = ''one_active_vehicle_per_driver''
          then Http 409 None ''driver already has an active vehicle''
          else Http 409 None ''vehicle conflict'')"

section \<open>Operations\<close>

definition VEHICLE_UPDATE_COLUMNS :: "string list" where
  "VEHICLE_UPDATE_COLUMNS =
     [''plate'', ''make'', ''model'', ''year'', ''color'', ''capacity'', ''is_active'']"

definition vehicleUpdateSet :: "(string \<times> json) list \<Rightarrow> (string \<times> json) list" where
  "vehicleUpdateSet dto =
     List.map_filter (\<lambda>column. map_option (\<lambda>v. (column, v)) (map_of (rev dto) column))
       VEHICLE_UPDATE_COLUMNS"

definition list_vehicles :: "string \<Rightarrow> (vehicle_row list) act" where
  "list_vehicles driverId = query (select_vehicles driverId)"

definition create_vehicle :: "ext \<Rightarrow> string \<Rightarrow> create_vehicle_dto \<Rightarrow> (vehicle_row option) act" where
  "create_vehicle X driverId dto =
     with_client
       (try_catch
         (await begin_tx (\<lambda>_.
          await (query (has_active driverId)) (\<lambda>active.
          await (query (insert_vehicle X driverId dto (\<not> active))) (\<lambda>rows.
          await commit (\<lambda>_. ret (case rows of [] \<Rightarrow> None | row # _ \<Rightarrow> Some row))))))
         (\<lambda>e. await rollback (\<lambda>_. throw (throwVehicleConflict e))))"

definition vehicle_not_found :: "string \<Rightarrow> exn" where
  "vehicle_not_found vehicleId = Http 404 None (''vehicle '' @ vehicleId @ '' not found'')"

definition updateAndActivate :: "string \<Rightarrow> string \<Rightarrow> (string \<times> json) list \<Rightarrow> vehicle_row act" where
  "updateAndActivate driverId vehicleId columns =
     with_client
       (try_catch
         (await begin_tx (\<lambda>_.
          await (query (deactivate_others driverId vehicleId)) (\<lambda>_.
          await (query (update_vehicle driverId vehicleId columns)) (\<lambda>rows.
          await commit (\<lambda>_.
          case rows of [] \<Rightarrow> throw (vehicle_not_found vehicleId) | row # _ \<Rightarrow> ret row)))))
         (\<lambda>e. await rollback (\<lambda>_. throw (throwVehicleConflict e))))"

definition update :: "string \<Rightarrow> string \<Rightarrow> (string \<times> json) list \<Rightarrow> vehicle_row act" where
  "update driverId vehicleId dto =
     (let columns = vehicleUpdateSet dto in
      if columns = [] then throw (Http 400 None ''no fields to update'')
      else if map_of (rev dto) ''is_active'' = Some (JBool True)
      then updateAndActivate driverId vehicleId columns
      else
        try_catch
          (await (query (update_vehicle driverId vehicleId columns)) (\<lambda>rows.
           case rows of [] \<Rightarrow> throw (vehicle_not_found vehicleId) | row # _ \<Rightarrow> ret row))
          (\<lambda>e. throw (throwVehicleConflict e)))"

definition remove_vehicle :: "string \<Rightarrow> string \<Rightarrow> string act" where
  "remove_vehicle driverId vehicleId =
     await (query (delete_vehicle driverId vehicleId)) (\<lambda>rowCount.
     if rowCount = 0 then throw (vehicle_not_found vehicleId) else ret vehicleId)"

section \<open>What the service commits\<close>

text \<open>A statement whose changes are steps of the registry.\<close>

definition registers_only :: "'a stmt \<Rightarrow> bool" where
  "registers_only st \<longleftrightarrow> (\<forall>s d x d' s'. st s d = (Inr (x, d'), s') \<longrightarrow> d' = d \<or> registry_step d d')"

lemma registers_only_ok:
  assumes "registers_only st" and "I = core_step\<^sup>*\<^sup>* d0"
  shows "stmt_ok I st (\<lambda>_. I)"
  using assms unfolding stmt_ok_def registers_only_def by (metis core_last core_step.registers)

lemma registers_only_commits:
  assumes "registers_only st"
  shows "commits core_step (query st)"
  using assms core_step.registers unfolding registers_only_def
  by (intro commits_query) (metis r_into_rtranclp rtranclp.rtrancl_refl)

lemma vehicles_constraint_keys: "vehicles_constraint vs = None \<longleftrightarrow> vehicle_keys_ok vs \<and>
    list_all (\<lambda>v. 1990 \<le> ve_year v \<and> ve_year v \<le> 2100 \<and> 1 \<le> ve_capacity v \<and> ve_capacity v \<le> 8) vs"
  by (auto simp: vehicles_constraint_def vehicle_keys_ok_def)

lemma insert_vehicle_registers:
  assumes "vehicle_dto_ok dto"
  shows "registers_only (insert_vehicle X v dto b)"
proof -
  have "registry_step d d'" if "insert_vehicle X v dto b s d = (Inr (x, d'), s')" for s d x d' s'
  proof -
    let ?row = "\<lparr>ve_id = x_uuid X (sys_uuids s), ve_driver_id = v, ve_plate = cv_plate dto,
      ve_make = cv_make dto, ve_model = cv_model dto, ve_year = cv_year dto, ve_color = cv_color dto,
      ve_capacity = cv_capacity dto, ve_is_active = b, ve_created_at = sys_now s\<rparr>"
    have "vehicle_ok ?row" using assms by (simp add: vehicle_ok_def vehicle_dto_ok_def)
    moreover from that have "ve_id ?row \<notin> ve_id ` set (db_vehicles d)" "v \<in> dr_user_id ` set (db_drivers d)"
      "vehicles_constraint (db_vehicles d @ [?row]) = None" "d' = d\<lparr>db_vehicles := db_vehicles d @ [?row]\<rparr>"
      by (auto simp: insert_vehicle_def Let_def split: if_splits option.splits)
    ultimately show ?thesis
      using registry_step.add_vehicle [of ?row d] by (simp add: vehicles_constraint_keys)
  qed
  then show ?thesis unfolding registers_only_def by blast
qed

text \<open>The columns of an update are well typed.\<close>

definition columns_ok :: "(string \<times> json) list \<Rightarrow> bool" where
  "columns_ok cs \<longleftrightarrow> (\<forall>c \<in> set cs. \<forall>v. snd c \<noteq> JNull \<longrightarrow> vehicle_ok v \<longrightarrow> vehicle_ok (set_column c v))"

lemma set_column_keys: "ve_id (set_column c v) = ve_id v \<and> ve_driver_id (set_column c v) = ve_driver_id v"
  by (induction c v rule: set_column.induct) auto

lemma set_columns:
  "ve_id (fold set_column cs v) = ve_id v \<and> ve_driver_id (fold set_column cs v) = ve_driver_id v"
  "columns_ok cs \<Longrightarrow> JNull \<notin> snd ` set cs \<Longrightarrow> vehicle_ok v \<Longrightarrow> vehicle_ok (fold set_column cs v)"
  by (induction cs arbitrary: v) (auto simp: set_column_keys columns_ok_def)

lemma update_columns_ok:
  assumes "update_vehicle_dto_of body = Inr dto"
  shows "columns_ok (vehicleUpdateSet dto)"
  unfolding columns_ok_def
proof (intro ballI allI impI)
  fix c v assume c: "c \<in> set (vehicleUpdateSet dto)" "snd c \<noteq> JNull" and v: "vehicle_ok v"
  from c(1) obtain k j where k: "c = (k, j)" "map_of (rev dto) k = Some j" "k \<in> set VEHICLE_UPDATE_COLUMNS"
    by (auto simp: vehicleUpdateSet_def map_filter_def)
  have rules: "list_all (\<lambda>r. rule_holds r j) (fd_rules f) \<and> (\<exists>raw. j = fd_transform f raw)"
    if f: "f \<in> set update_vehicle_fields" "fd_name f = k" for f
  proof -
    have "fd_validate_if f dto" using f by (auto simp: update_vehicle_fields_def plain_def transformed_def optional_def)
    moreover have "distinct (map fd_name update_vehicle_fields)"
      by (simp add: update_vehicle_fields_def plain_def transformed_def optional_def)
    ultimately show ?thesis
      using validated_rules validated_transform assms [unfolded update_vehicle_dto_of_def] f k c(2) by (metis snd_conv)
  qed
  note [simp] = update_vehicle_fields_def plain_def transformed_def optional_def
  have "k = ''plate'' \<or> k = ''make'' \<or> k = ''model'' \<or> k = ''year'' \<or> k = ''color'' \<or> k = ''capacity'' \<or> k = ''is_active''"
    using k(3) unfolding VEHICLE_UPDATE_COLUMNS_def by (simp only: set_simps insert_iff empty_iff simp_thms)
  then show "vehicle_ok (set_column c v)"
  proof (elim disjE)
    assume k1: "k = ''plate''"
    then have "\<exists>s. j = JStr s \<and> plate_ok s"
      using rules [of "update_vehicle_fields ! 0"] normalized_plate by fastforce
    with k1 k(1) v show ?thesis by (auto simp: vehicle_ok_def)
  next
    assume k2: "k = ''make''"
    then have "\<exists>s. j = JStr s \<and> name_ok 64 s" using rules [of "update_vehicle_fields ! 1"] name_rules by fastforce
    with k2 k(1) v show ?thesis by (auto simp: vehicle_ok_def)
  next
    assume k3: "k = ''model''"
    then have "\<exists>s. j = JStr s \<and> name_ok 64 s" using rules [of "update_vehicle_fields ! 2"] name_rules by fastforce
    with k3 k(1) v show ?thesis by (auto simp: vehicle_ok_def)
  next
    assume k4: "k = ''year''"
    then have "\<exists>q. j = JNum q \<and> 1990 \<le> \<lfloor>q\<rfloor> \<and> \<lfloor>q\<rfloor> \<le> 2100"
      using rules [of "update_vehicle_fields ! 4"] int_rules by fastforce
    with k4 k(1) v show ?thesis by (auto simp: vehicle_ok_def)
  next
    assume k5: "k = ''color''"
    then have "\<exists>s. j = JStr s \<and> name_ok 32 s" using rules [of "update_vehicle_fields ! 3"] name_rules by fastforce
    with k5 k(1) v show ?thesis by (auto simp: vehicle_ok_def)
  next
    assume k6: "k = ''capacity''"
    then have "\<exists>q. j = JNum q \<and> 1 \<le> \<lfloor>q\<rfloor> \<and> \<lfloor>q\<rfloor> \<le> 8"
      using rules [of "update_vehicle_fields ! 5"] int_rules by fastforce
    with k6 k(1) v show ?thesis by (auto simp: vehicle_ok_def)
  next
    assume k7: "k = ''is_active''"
    with k(1) v show ?thesis by (cases j) (auto simp: vehicle_ok_def)
  qed
qed

lemma update_vehicle_registers:
  assumes "columns_ok cs"
  shows "registers_only (update_vehicle v vid cs)"
proof -
  let ?u = "fold set_column cs" and ?p = "\<lambda>x. ve_id x = vid \<and> ve_driver_id x = v"
  have "d' = d \<or> registry_step d d'" if "update_vehicle v vid cs s d = (Inr (x, d'), s')" for s d x d' s'
  proof (cases "returning ?p ?u (db_vehicles d) = []")
    case True
    with that show ?thesis by (auto simp: update_vehicle_def Let_def)
  next
    case False
    with that have null: "JNull \<notin> snd ` set cs"
      and keys: "vehicles_constraint (update_rows ?p ?u (db_vehicles d)) = None"
      and d': "d' = d\<lparr>db_vehicles := update_rows ?p ?u (db_vehicles d)\<rparr>"
      by (auto simp: update_vehicle_def Let_def split: if_splits option.splits)
    have "registry_step d d'"
      unfolding d' by (rule registry_step.change_vehicle [OF _ refl])
        (use keys set_columns(1) set_columns(2) [OF assms null] in \<open>simp_all add: vehicles_constraint_keys\<close>)
    then show ?thesis ..
  qed
  then show ?thesis unfolding registers_only_def by blast
qed

lemma vehicle_registers:
  "registers_only (select f)" "registers_only (has_active v)" "registers_only (select_vehicles v)"
  "registers_only (deactivate_others v vid)" "registers_only (delete_vehicle v vid)"
proof -
  have "registry_step d d'" if "delete_vehicle v vid s d = (Inr (x, d'), s')" for s d x d' s'
    using that registry_step.remove_vehicle [of d vid v]
    by (auto simp: delete_vehicle_def Let_def split: if_splits)
  then show "registers_only (delete_vehicle v vid)" by (auto simp: registers_only_def)
qed (auto simp: registers_only_def select_def select_vehicles_def has_active_def deactivate_others_def
    intro: registry_step.park_vehicles)

lemma rollback_throw_some:
  "valid (some_tx I) (await rollback (\<lambda>_. throw e)) (\<lambda>_. some_tx I) (\<lambda>_. some_tx I)"
  by (rule valid_rollback_throw)

lemma create_vehicle_commits:
  assumes "vehicle_dto_ok dto"
  shows "commits core_step (create_vehicle X v dto)"
  unfolding create_vehicle_def
  by (rule commits_tx [OF _ rollback_throw_some],
      intro valid_await [OF valid_query_tx [OF registers_only_ok [OF vehicle_registers(2) refl]]]
        valid_await [OF valid_query_tx [OF registers_only_ok [OF insert_vehicle_registers [OF assms] refl]]]
        valid_commit_ret)

lemma updateAndActivate_commits:
  assumes "columns_ok cs"
  shows "commits core_step (updateAndActivate v vid cs)"
  unfolding updateAndActivate_def
  by (rule commits_tx [OF _ rollback_throw_some],
      intro valid_await [OF valid_query_tx [OF registers_only_ok [OF vehicle_registers(4) refl]]]
        valid_await [OF valid_query_tx [OF registers_only_ok [OF update_vehicle_registers [OF assms] refl]]]
        valid_commit_then) (simp split: list.split)

lemma update_commits:
  assumes "update_vehicle_dto_of body = Inr dto"
  shows "commits core_step (update v vid dto)"
  unfolding update_def Let_def
  by (intro registers_only_commits update_vehicle_registers update_columns_ok [OF assms] commits_if commits_throw
      updateAndActivate_commits commits_try commits_await commits_list commits_ret)

lemma vehicle_commits:
  "commits core_step (list_vehicles v)" "commits core_step (remove_vehicle v vid)"
  unfolding list_vehicles_def remove_vehicle_def
  by (intro registers_only_commits vehicle_registers commits_if commits_throw commits_await commits_ret)+

end
