(* ===== verification/AuthService.thy ===== *)
theory AuthService
  imports VehicleService
begin

text \<open>
  Accounts and tokens: \<open>apps/api/src/auth/auth.service.ts\<close>, \<open>demo-users.ts\<close>, the global guard
  \<open>jwt.guard.ts\<close> and the profile of \<open>users/users.module.ts\<close>. The password hash of argon2 and the
  tokens of \<open>@nestjs/jwt\<close> are parameters; what the code relies on is that a password verifies
  against its own hash.
\<close>

record auth_ext =
  ax_hash :: "string \<Rightarrow> string"
  ax_verify :: "string \<Rightarrow> string \<Rightarrow> bool"
  ax_sign :: "rat \<Rightarrow> string \<Rightarrow> string \<Rightarrow> string"
  ax_verifyToken :: "rat \<Rightarrow> string \<Rightarrow> json option"

section \<open>Statements\<close>

definition select_same_contact :: "string \<Rightarrow> string \<Rightarrow> nat stmt" where
  "select_same_contact email phone = select (\<lambda>d.
     length (filter (\<lambda>u. us_email u = email \<or> us_phone u = phone) (db_users d)))"

definition insert_user :: "ext \<Rightarrow> string \<Rightarrow> string \<Rightarrow> string \<Rightarrow> string \<Rightarrow> string \<Rightarrow> user_row stmt" where
  "insert_user X role full_name email phone password_hash = (\<lambda>s d.
     (let s' = s\<lparr>sys_uuids := sys_uuids s + 1\<rparr>;
          row = \<lparr>us_id = x_uuid X (sys_uuids s), us_role = role, us_full_name = full_name,
                 us_email = email, us_phone = phone, us_password_hash = password_hash,
                 us_is_active = True, us_created_at = sys_now s\<rparr>
      in if us_id row \<in> us_id ` set (db_users d) then (Inl (unique_violation ''users_pkey''), s')
         else if email \<in> us_email ` set (db_users d) then (Inl (unique_violation ''users_email_key''), s')
         else if phone \<in> us_phone ` set (db_users d) then (Inl (unique_violation ''users_phone_key''), s')
         else (Inr (row, d\<lparr>db_users := db_users d @ [row]\<rparr>), s')))"

text \<open>The cast of \<open>YYYY-MM-DD\<close> to \<open>date\<close>: a day of the Gregorian calendar after the year 0.\<close>

definition days_in_month :: "int \<Rightarrow> int \<Rightarrow> int" where
  "days_in_month y m =
     (if m \<in> {4, 6, 9, 11} then 30
      else if m = 2 then (if y mod 4 = 0 \<and> (y mod 100 \<noteq> 0 \<or> y mod 400 = 0) then 29 else 28)
      else 31)"

definition date_cast :: "string \<Rightarrow> bool" where
  "date_cast s \<longleftrightarrow> (let y = digits_val (take 4 s); m = digits_val (take 2 (drop 5 s));
                       dd = digits_val (drop 8 s)
     in date_pattern s \<and> 1 \<le> y \<and> 1 \<le> m \<and> m \<le> 12 \<and> 1 \<le> dd \<and> dd \<le> days_in_month y m)"

definition insert_driver :: "string \<Rightarrow> string option \<Rightarrow> string option \<Rightarrow> unit stmt" where
  "insert_driver userId license expires = (\<lambda>s d.
     (case (license, expires) of
        (Some l, Some ex) \<Rightarrow>
          if \<not> date_cast ex then (Inl (Pg ''22008'' None), s)
          else if userId \<in> dr_user_id ` set (db_drivers d) then (Inl (unique_violation ''drivers_pkey''), s)
          else if l \<in> dr_license_number ` set (db_drivers d)
          then (Inl (unique_violation ''drivers_license_number_key''), s)
          else if userId \<notin> us_id ` set (db_users d) then (Inl foreign_key_violation, s)
          else (Inr ((), d\<lparr>db_drivers := db_drivers d @
                 [\<lparr>dr_user_id = userId, dr_license_number = l, dr_license_expires_on = ex,
                   dr_status = Offline, dr_rating_avg = 5, dr_rating_count = 0\<rparr>]\<rparr>), s)
      | _ \<Rightarrow> (Inl (Pg ''23502'' None), s)))"

definition select_credentials :: "string \<Rightarrow> (user_row option) stmt" where
  "select_credentials phone = select (\<lambda>d. find (\<lambda>u. us_phone u = phone) (db_users d))"

section \<open>The service\<close>

record session =
  se_id :: string
  se_role :: string
  se_token :: string

definition signToken :: "auth_ext \<Rightarrow> string \<Rightarrow> string \<Rightarrow> string act" where
  "signToken A sub role = get_state (\<lambda>w. ax_sign A (sys_now (w_sys w)) sub role)"

definition signup :: "ext \<Rightarrow> auth_ext \<Rightarrow> signup_dto \<Rightarrow> session act" where
  "signup X A dto =
     await (query (select_same_contact (sg_email dto) (sg_phone dto))) (\<lambda>rowCount.
     if rowCount > 0 then throw (Http 409 None ''email or phone in use'')
     else
       with_client
         (try_catch
           (await begin_tx (\<lambda>_.
            await (query (insert_user X (sg_role dto) (sg_full_name dto) (sg_email dto) (sg_phone dto)
                     (ax_hash A (sg_password dto)))) (\<lambda>user.
            await (if sg_role dto = ''driver''
                   then query (insert_driver (us_id user) (sg_license_number dto) (sg_license_expires_on dto))
                   else ret ()) (\<lambda>_.
            await commit (\<lambda>_.
            await (signToken A (us_id user) (us_role user)) (\<lambda>token.
            ret \<lparr>se_id = us_id user, se_role = us_role user, se_token = token\<rparr>))))))
           rollback_rethrow))"

definition loginWithPassword :: "auth_ext \<Rightarrow> string \<Rightarrow> string \<Rightarrow> session act" where
  "loginWithPassword A phone password =
     await (query (select_credentials phone)) (\<lambda>user.
     case user of
       None \<Rightarrow> throw (Http 401 None ''bad credentials'')
     | Some u \<Rightarrow>
         if \<not> us_is_active u then throw (Http 401 None ''bad credentials'')
         else if \<not> ax_verify A (us_password_hash u) password then throw (Http 401 None ''bad credentials'')
         else
           await (signToken A (us_id u) (us_role u)) (\<lambda>token.
           ret \<lparr>se_id = us_id u, se_role = us_role u, se_token = token\<rparr>))"

definition login :: "auth_ext \<Rightarrow> login_dto \<Rightarrow> session act" where
  "login A dto = loginWithPassword A (ln_phone dto) (ln_password dto)"

definition demoPhonesFromEnv :: "string option \<Rightarrow> string list" where
  "demoPhonesFromEnv raw =
     remdups (filter (\<lambda>p. p \<noteq> [])
       (map trim (split_on (CHR '','') (case raw of None \<Rightarrow> [] | Some r \<Rightarrow> r))))"

definition demoLogin :: "auth_ext \<Rightarrow> demo_login_dto \<Rightarrow> session act" where
  "demoLogin A dto =
     await (get_state w_env) (\<lambda>env.
     if env ''RIDEX_DEMO_LOGIN_ENABLED'' \<noteq> Some ''true''
     then throw (Http 503 None ''demo login is disabled for this deployment'')
     else
       let allowedPhones = demoPhonesFromEnv (env ''RIDEX_DEMO_LOGIN_PHONES'') in
       if allowedPhones = [] then throw (Http 503 None ''demo login allow-list is not configured'')
       else if dm_phone dto \<notin> set allowedPhones then throw (Http 401 None ''demo account is not allowed'')
       else
         case env ''RIDEX_SEED_PASSWORD'' of
           None \<Rightarrow> throw (Http 503 None ''demo login is not configured'')
         | Some seedPassword \<Rightarrow>
             if seedPassword = [] then throw (Http 503 None ''demo login is not configured'')
             else
               await (loginWithPassword A (dm_phone dto) seedPassword) (\<lambda>session.
               case dm_expected_role dto of
                 None \<Rightarrow> ret session
               | Some role \<Rightarrow>
                   if role \<noteq> [] \<and> se_role session \<noteq> role
                   then throw (Http 401 None (''demo account is '' @ se_role session @ '', not '' @ role))
                   else ret session))"

section \<open>The guard\<close>

definition jwt_guard ::
    "auth_ext \<Rightarrow> bool \<Rightarrow> string list \<Rightarrow> rat \<Rightarrow> string option \<Rightarrow> exn + json option" where
  "jwt_guard A isPublic requiredRoles now authorization =
     (if isPublic then Inr None
      else case authorization of
        None \<Rightarrow> Inl (Http 401 None ''missing bearer token'')
      | Some auth \<Rightarrow>
          if \<not> starts_with ''Bearer '' auth then Inl (Http 401 None ''missing bearer token'')
          else case ax_verifyToken A now (drop 7 auth) of
            None \<Rightarrow> Inl (Http 401 None ''invalid token'')
          | Some user \<Rightarrow>
              if requiredRoles \<noteq> [] \<and>
                 \<not> (\<exists>r \<in> set requiredRoles. jget user ''role'' = Some (JStr r))
              then Inl (Http 403 None (''requires role: '' @ join_with ''|'' requiredRoles))
              else Inr (Some user))"

section \<open>The profile\<close>

record driver_profile =
  dp_license_number :: "string option"
  dp_license_expires_on :: "string option"
  dp_status :: "string option"
  dp_rating_avg :: "rat option"
  dp_rating_count :: "int option"

record me_row =
  me_id :: string
  me_role :: string
  me_full_name :: string
  me_email :: string
  me_phone :: string
  me_is_active :: bool
  me_created_at :: rat
  me_driver :: "driver_profile option"

definition select_me :: "string \<Rightarrow> ((user_row \<times> driver_row option) option) stmt" where
  "select_me sub = select (\<lambda>d.
     map_option (\<lambda>u. (u, find (\<lambda>r. dr_user_id r = us_id u) (db_drivers d)))
       (find (\<lambda>u. us_id u = sub) (db_users d)))"

definition me :: "string \<Rightarrow> me_row act" where
  "me sub =
     await (query (select_me sub)) (\<lambda>row.
     case row of
       None \<Rightarrow> throw (Http 404 None (''user '' @ sub @ '' not found''))
     | Some (u, driver) \<Rightarrow>
         ret \<lparr>me_id = us_id u, me_role = us_role u, me_full_name = us_full_name u,
              me_email = us_email u, me_phone = us_phone u, me_is_active = us_is_active u,
              me_created_at = us_created_at u,
              me_driver =
                (if us_role u = ''driver''
                 then Some \<lparr>dp_license_number = map_option dr_license_number driver,
                            dp_license_expires_on = map_option dr_license_expires_on driver,
                            dp_status = map_option (driver_status_text \<circ> dr_status) driver,
                            dp_rating_avg = map_option (\<lambda>r. num_val (js_Number
                              (pg_numeric_text 2 (dr_rating_avg r)))) driver,
                            dp_rating_count = map_option dr_rating_count driver\<rparr>
                 else None)\<rparr>)"

section \<open>What the service commits\<close>

lemma insert_user_registers:
  assumes "insert_user X role n e p h s d = (Inr (u, d'), s')" and "role \<in> {''rider'', ''driver''}"
  shows "registry_step d d'" and "u \<in> set (db_users d')" and "us_role u = role"
  using assms registry_step.sign_up [of u d]
  by (auto simp: insert_user_def Let_def split: if_splits)

lemma insert_driver_registers:
  assumes "insert_driver (us_id u) l ex s d = (Inr (x, d'), s')" and "u \<in> set (db_users d)" and "us_role u = ''driver''"
  shows "registry_step d d'"
  using assms by (auto simp: insert_driver_def split: option.splits if_splits intro!: registry_step.join_driver [OF assms(2)])

lemma signToken_neutral: "db_neutral (signToken A s r)"
  by (simp add: signToken_def)

lemma signup_commits:
  assumes "sg_role dto \<in> {''rider'', ''driver''}"
  shows "commits core_step (signup X A dto)"
proof -
  define K where "K u I d \<longleftrightarrow> I d \<and> u \<in> set (db_users d) \<and> us_role u = sg_role dto" for u and I :: "db \<Rightarrow> bool" and d
  have tail: "valid (open_tx I I) (await commit (\<lambda>_. await (signToken A i r) (\<lambda>token. ret (f token))))
      (\<lambda>_. some_tx I) (\<lambda>_. some_tx I)" for I i r and f :: "string \<Rightarrow> session"
    by (intro valid_commit_then neutral_await signToken_neutral db_neutral_simple)
  have driver: "valid (open_tx I (K u I)) (if sg_role dto = ''driver'' then query (insert_driver (us_id u) l ex) else ret ())
      (\<lambda>_. open_tx I I) (\<lambda>_. some_tx I)" if I: "I = core_step\<^sup>*\<^sup>* d0" for I d0 u l ex
  proof (cases "sg_role dto = ''driver''")
    case True
    have "stmt_ok (K u I) (insert_driver (us_id u) l ex) (\<lambda>_. I)"
    proof (rule stmt_okI)
      fix s d x d' s' assume "K u I d" and "insert_driver (us_id u) l ex s d = (Inr (x, d'), s')"
      then have "registry_step d d'" and "I d" using True by (auto simp: K_def dest: insert_driver_registers)
      then show "I d'" unfolding I by (metis core_last core_step.registers)
    qed
    with True show ?thesis by (simp add: valid_query_tx)
  next
    case False
    have "valid (open_tx I (K u I)) (ret ()) (\<lambda>_. open_tx I I) (\<lambda>_. some_tx I)"
      by (rule valid_ret) (erule open_tx_mono, simp add: K_def)
    with False show ?thesis by simp
  qed
  have user: "stmt_ok I (insert_user X (sg_role dto) n e p h) (\<lambda>u. K u I)" if I: "I = core_step\<^sup>*\<^sup>* d0" for I d0 n e p h
  proof (rule stmt_okI)
    fix s d u d' s' assume "I d" and "insert_user X (sg_role dto) n e p h s d = (Inr (u, d'), s')"
    note u = insert_user_registers [OF this(2) assms]
    have "I d'" using \<open>I d\<close> core_step.registers [OF u(1)] unfolding I by (rule core_last)
    with u show "K u I d'" by (simp add: K_def)
  qed
  show ?thesis
    unfolding signup_def
    by (intro commits_await commits_if commits_throw commits_tx [OF _ rollback_rethrow_some]
        valid_await [OF valid_query_tx [OF user [OF refl]]] valid_await [OF driver [OF refl]] tail
        commits_query) (simp add: select_same_contact_def select_def)
qed

lemma loginWithPassword_commits: "commits S (loginWithPassword A phone password)"
  unfolding loginWithPassword_def
  by (intro commits_await commits_option commits_if commits_throw commits_ret commits_query
      commits_neutral [OF signToken_neutral]) (simp add: select_credentials_def select_def)

lemma login_commits: "commits S (login A dto)"
  unfolding login_def by (rule loginWithPassword_commits)

lemma demoLogin_commits: "commits S (demoLogin A dto)"
  unfolding demoLogin_def Let_def
  by (intro commits_await commits_get commits_if commits_throw commits_option commits_ret loginWithPassword_commits)

lemma me_commits: "commits S (me sub)"
proof -
  have "commits S (query (select_me sub))"
    by (intro commits_query) (simp add: select_me_def select_def)
  then show ?thesis
    unfolding me_def by (intro commits_await commits_option commits_throw) (auto simp: commits_ret split: prod.split)
qed

end
