(* ===== verification/MetricsRegistry.thy ===== *)
theory MetricsRegistry
  imports JsText "HOL-Library.List_Lexorder" "HOL-Library.Char_ord"
begin

text \<open>
  The in-process metrics of the API, \<open>apps/api/src/metrics/metrics.service.ts\<close>: counters, gauges and
  histograms in maps from metric name and serialised label set, and their text exposition. The
  counters of the nightly worker (\<open>services/cron/src/metrics.ts\<close>) are at the end.
\<close>

section \<open>Labels\<close>

type_synonym labels = "(string \<times> string) list"

text \<open>\<open>s.replace(/c/g, r)\<close> for one character \<open>c\<close>.\<close>

definition replace_char :: "char \<Rightarrow> string \<Rightarrow> string \<Rightarrow> string" where
  "replace_char c r s = concat (map (\<lambda>x. if x = c then r else [x]) s)"

definition backslash :: char where "backslash = CHR 0x5C"
definition dquote :: char where "dquote = CHR 0x22"
definition newline :: char where "newline = CHR 0x0A"

definition escapeLabel :: "string \<Rightarrow> string" where
  "escapeLabel v =
     replace_char newline [backslash, CHR ''n'']
       (replace_char dquote [backslash, dquote]
         (replace_char backslash [backslash, backslash] v))"

definition serialise :: "labels \<Rightarrow> string" where
  "serialise labels =
     (let keys = sort (map fst labels) in
      if keys = [] then []
      else CHR ''{'' # join_with '','' (map (\<lambda>k. k @ [CHR ''='', dquote] @
             escapeLabel (case map_of (rev labels) k of Some v \<Rightarrow> v | None \<Rightarrow> []) @ [dquote]) keys)
           @ ''}'')"

definition withLe :: "string \<Rightarrow> string \<Rightarrow> string" where
  "withLe existingLabels le =
     (let inner = ''le='' @ [dquote] @ le @ [dquote] in
      if existingLabels = [] then CHR ''{'' # inner @ ''}''
      else if last existingLabels = CHR ''}''
      then butlast existingLabels @ '','' @ inner @ ''}''
      else existingLabels)"

section \<open>The registry\<close>

definition HTTP_BUCKETS_S :: "rat list" where
  "HTTP_BUCKETS_S = map fl [5 / 1000, 1 / 100, 25 / 1000, 5 / 100, 1 / 10, 25 / 100, 5 / 10, 1, 25 / 10, 5, 10]"

record histogram_series =
  hs_bucketCounts :: "int list"
  hs_count :: int
  hs_sumS :: rat

record registry =
  mt_counters :: "(string \<times> (string \<times> rat) list) list"
  mt_gauges :: "(string \<times> (string \<times> rat) list) list"
  mt_histograms :: "(string \<times> (string \<times> histogram_series) list) list"

definition new_registry :: registry where
  "new_registry = \<lparr>mt_counters = [], mt_gauges = [], mt_histograms = []\<rparr>"

text \<open>\<open>ensureCounter\<close>, \<open>ensureGauge\<close> and \<open>ensureHistogram\<close>: the series of a metric, empty when new;
  writing it back with \<open>al_set\<close> adds the metric at the end of the map.\<close>

definition ensure :: "(string \<times> (string \<times> 'v) list) list \<Rightarrow> string \<Rightarrow> (string \<times> 'v) list" where
  "ensure m name = (case map_of m name of None \<Rightarrow> [] | Some s \<Rightarrow> s)"

definition inc :: "string \<Rightarrow> labels \<Rightarrow> rat \<Rightarrow> registry \<Rightarrow> registry" where
  "inc name labels by r =
     (let m = ensure (mt_counters r) name; k = serialise labels;
          v = (case map_of m k of None \<Rightarrow> 0 | Some v \<Rightarrow> v)
      in r\<lparr>mt_counters := al_set name (al_set k (fl (v + by)) m) (mt_counters r)\<rparr>)"

definition setGauge :: "string \<Rightarrow> rat \<Rightarrow> labels \<Rightarrow> registry \<Rightarrow> registry" where
  "setGauge name value labels r =
     r\<lparr>mt_gauges := al_set name (al_set (serialise labels) value (ensure (mt_gauges r) name)) (mt_gauges r)\<rparr>"

definition new_series :: histogram_series where
  "new_series = \<lparr>hs_bucketCounts = replicate (length HTTP_BUCKETS_S) 0, hs_count = 0, hs_sumS = 0\<rparr>"

definition observe :: "rat \<Rightarrow> histogram_series \<Rightarrow> histogram_series" where
  "observe value s =
     \<lparr>hs_bucketCounts =
        map2 (\<lambda>le c. if value \<le> le then c + 1 else c) HTTP_BUCKETS_S (hs_bucketCounts s),
      hs_count = hs_count s + 1, hs_sumS = fl (hs_sumS s + value)\<rparr>"

definition observeHistogram :: "string \<Rightarrow> rat \<Rightarrow> labels \<Rightarrow> registry \<Rightarrow> registry" where
  "observeHistogram name value labels r =
     (let m = ensure (mt_histograms r) name; k = serialise labels;
          s = (case map_of m k of None \<Rightarrow> new_series | Some s \<Rightarrow> s)
      in r\<lparr>mt_histograms := al_set name (al_set k (observe value s) m) (mt_histograms r)\<rparr>)"

definition tripEvent :: "string \<Rightarrow> registry \<Rightarrow> registry" where
  "tripEvent eventType = inc ''ridex_trip_events_total'' [(''event_type'', eventType)] 1"

definition rateLimitDecision :: "string \<Rightarrow> bool \<Rightarrow> registry \<Rightarrow> registry" where
  "rateLimitDecision bucket allowed =
     inc ''ridex_ratelimit_decisions_total''
       [(''bucket'', bucket), (''outcome'', if allowed then ''allowed'' else ''denied'')] 1"

definition setDriversOnline :: "rat \<Rightarrow> registry \<Rightarrow> registry" where
  "setDriversOnline count = setGauge ''ridex_drivers_online'' count []"

definition observeHttp :: "rat \<Rightarrow> string \<Rightarrow> string \<Rightarrow> int \<Rightarrow> registry \<Rightarrow> registry" where
  "observeHttp durationS route verb statusCode =
     observeHistogram ''http_server_request_duration_seconds'' durationS
       [(''http_route'', route), (''http_request_method'', verb),
        (''http_response_status_code'', show_int statusCode)]"

subsection \<open>Exposition\<close>

definition render_values :: "string \<Rightarrow> string \<times> (string \<times> rat) list \<Rightarrow> string list" where
  "render_values kind m =
     [''# HELP '' @ fst m @ '' '' @ kind, ''# TYPE '' @ fst m @ '' '' @ kind]
     @ map (\<lambda>(labels, v). fst m @ labels @ '' '' @ js_String v) (snd m)"

definition render_histogram :: "string \<times> (string \<times> histogram_series) list \<Rightarrow> string list" where
  "render_histogram m =
     [''# HELP '' @ fst m @ '' histogram'', ''# TYPE '' @ fst m @ '' histogram'']
     @ concat (map (\<lambda>(labels, h).
         map2 (\<lambda>le c. fst m @ ''_bucket'' @ withLe labels (js_String le) @ '' '' @ show_int c)
           HTTP_BUCKETS_S (hs_bucketCounts h)
         @ [fst m @ ''_bucket'' @ withLe labels ''+Inf'' @ '' '' @ show_int (hs_count h),
            fst m @ ''_count'' @ labels @ '' '' @ show_int (hs_count h),
            fst m @ ''_sum'' @ labels @ '' '' @ js_String (hs_sumS h)]) (snd m))"

definition render :: "registry \<Rightarrow> string" where
  "render r =
     join_with [newline]
       (concat (map (render_values ''counter'') (mt_counters r))
        @ concat (map (render_values ''gauge'') (mt_gauges r))
        @ concat (map render_histogram (mt_histograms r))) @ [newline]"

section \<open>Escaping is injective\<close>

definition escape_char :: "char \<Rightarrow> string" where
  "escape_char c =
     (if c = backslash then [backslash, backslash]
      else if c = dquote then [backslash, dquote]
      else if c = newline then [backslash, CHR ''n''] else [c])"

lemma special_chars: "backslash \<noteq> dquote" "backslash \<noteq> newline" "dquote \<noteq> newline" "newline \<noteq> CHR ''n''"
  "dquote \<noteq> CHR ''n''" "backslash \<noteq> CHR ''n''"
  by (simp_all add: backslash_def dquote_def newline_def)

lemma escapeLabel_chars: "escapeLabel v = concat (map escape_char v)"
  using special_chars
  by (induction v) (auto simp: escapeLabel_def replace_char_def escape_char_def)

lemma escape_first_char:
  assumes "escape_char a @ s = escape_char b @ t"
  shows "a = b \<and> s = t"
  using assms special_chars by (auto simp: escape_char_def split: if_splits)

lemma escaped_inj: "concat (map escape_char a) = concat (map escape_char b) \<Longrightarrow> a = b"
proof (induction a arbitrary: b)
  case Nil
  then show ?case by (cases b) (auto simp: escape_char_def split: if_splits)
next
  case (Cons x xs)
  show ?case
  proof (cases b)
    case Nil
    then show ?thesis using Cons.prems by (auto simp: escape_char_def split: if_splits)
  next
    case (Cons y ys)
    then have "escape_char x @ concat (map escape_char xs) = escape_char y @ concat (map escape_char ys)"
      using Cons.prems by simp
    from escape_first_char [OF this] Cons.IH [of ys] Cons show ?thesis by blast
  qed
qed

lemma escaped_plain:
  "newline \<notin> set (concat (map escape_char v))"
  using special_chars by (induction v) (auto simp: escape_char_def)

text \<open>Label values cannot forge or merge series: escaping a label value is injective, and the
  escaped value contains no newline, so that every sample stays on its own line.\<close>

theorem escapeLabel_injective:
  "(escapeLabel a = escapeLabel b \<longleftrightarrow> a = b) \<and> newline \<notin> set (escapeLabel a)"
  using escaped_inj escaped_plain unfolding escapeLabel_chars by blast

section \<open>Histograms\<close>

text \<open>The series of one metric after some observations, each with its labels.\<close>

definition observe_all :: "string \<Rightarrow> (labels \<times> rat) list \<Rightarrow> registry \<Rightarrow> registry" where
  "observe_all name obs r = foldl (\<lambda>r (l, v). observeHistogram name v l r) r obs"

definition series_of :: "string \<Rightarrow> labels \<Rightarrow> registry \<Rightarrow> histogram_series option" where
  "series_of name labels r = map_of (ensure (mt_histograms r) name) (serialise labels)"

lemma ensure_al_set: "ensure (al_set name m ms) n = (if n = name then m else ensure ms n)"
  by (simp add: ensure_def)

lemma series_observe:
  "series_of name labels (observeHistogram name v l r) =
     (if serialise l = serialise labels
      then Some (observe v (case series_of name labels r of None \<Rightarrow> new_series | Some s \<Rightarrow> s))
      else series_of name labels r)"
  by (simp add: series_of_def observeHistogram_def Let_def ensure_al_set)

lemma map2_self: "map2 f xs (map g xs) = map (\<lambda>x. f x (g x)) xs"
  by (induction xs) simp_all

lemma observe_counts:
  assumes "hs_bucketCounts s = map (\<lambda>le. int (length (filter (\<lambda>x. x \<le> le) vs))) HTTP_BUCKETS_S"
  shows "hs_bucketCounts (observe v s) =
    map (\<lambda>le. int (length (filter (\<lambda>x. x \<le> le) (vs @ [v])))) HTTP_BUCKETS_S"
  unfolding observe_def using assms by (simp add: map2_self cong: if_cong) 

definition observed :: "labels \<Rightarrow> (labels \<times> rat) list \<Rightarrow> rat list" where
  "observed labels obs = map snd (filter (\<lambda>ob. serialise (fst ob) = serialise labels) obs)"

definition counts_of :: "rat list \<Rightarrow> histogram_series \<Rightarrow> bool" where
  "counts_of vs h \<longleftrightarrow> hs_count h = int (length vs) \<and>
     hs_bucketCounts h = map (\<lambda>le. int (length (filter (\<lambda>x. x \<le> le) vs))) HTTP_BUCKETS_S"

lemma counts_new: "counts_of [] new_series"
  by (simp add: counts_of_def new_series_def map_replicate_const)

lemma counts_observe: "counts_of vs h \<Longrightarrow> counts_of (vs @ [v]) (observe v h)"
  using observe_counts [of h vs v] by (simp add: counts_of_def observe_def)

lemma observe_all_spec:
  "case series_of name labels (observe_all name obs new_registry) of
     None \<Rightarrow> observed labels obs = [] | Some h \<Rightarrow> counts_of (observed labels obs) h"
proof (induction obs rule: rev_induct)
  case Nil
  show ?case by (simp add: observe_all_def series_of_def ensure_def new_registry_def observed_def)
next
  case (snoc ob obs)
  obtain l v where ob: "ob = (l, v)" by (cases ob)
  let ?r = "observe_all name obs new_registry"
  have step: "observe_all name (obs @ [ob]) new_registry = observeHistogram name v l ?r"
    by (simp add: observe_all_def ob)
  show ?case
  proof (cases "serialise l = serialise labels")
    case True
    then have "observed labels (obs @ [ob]) = observed labels obs @ [v]" by (simp add: observed_def ob)
    moreover have "counts_of (observed labels obs)
        (case series_of name labels ?r of None \<Rightarrow> new_series | Some s \<Rightarrow> s)"
      using snoc.IH by (auto simp: counts_new split: option.splits)
    ultimately show ?thesis by (simp add: step series_observe True counts_observe)
  next
    case False
    then have "observed labels (obs @ [ob]) = observed labels obs" by (simp add: observed_def ob)
    then show ?thesis using snoc.IH False unfolding step series_observe by (simp only: if_False)
  qed
qed

text \<open>A histogram is the one Prometheus expects: after any observations, the series of a label set
  holds for every bound the number of values observed under these labels that do not exceed it, and
  their total number as the count; a label set that was never observed has no series.\<close>

theorem histogram_counts:
  "case series_of name labels (observe_all name obs new_registry) of
     None \<Rightarrow> filter (\<lambda>ob. serialise (fst ob) = serialise labels) obs = []
   | Some h \<Rightarrow>
       (let vs = map snd (filter (\<lambda>ob. serialise (fst ob) = serialise labels) obs) in
        hs_bucketCounts h = map (\<lambda>le. int (length (filter (\<lambda>x. x \<le> le) vs))) HTTP_BUCKETS_S \<and>
        hs_count h = int (length vs))"
  using observe_all_spec [where name = name and labels = labels and obs = obs]
  by (auto simp: observed_def counts_of_def Let_def split: option.splits)

section \<open>The nightly worker\<close>

record batch_metrics =
  bm_runs :: int
  bm_failures :: int

text \<open>\<open>safe(name, fn, onError)\<close>, given how \<open>fn\<close> ended: the new counts and the error reported.\<close>

definition safe :: "'e + unit \<Rightarrow> batch_metrics \<Rightarrow> batch_metrics \<times> 'e option" where
  "safe outcome m =
     (let m' = m\<lparr>bm_runs := bm_runs m + 1\<rparr> in
      case outcome of
        Inr _ \<Rightarrow> (m', None)
      | Inl e \<Rightarrow> (m'\<lparr>bm_failures := bm_failures m' + 1\<rparr>, Some e))"

definition renderPrometheus :: "batch_metrics \<Rightarrow> string" where
  "renderPrometheus m =
     ''# HELP ridex_batch_runs_total Number of batch jobs attempted'' @ [newline] @
     ''# TYPE ridex_batch_runs_total counter'' @ [newline] @
     ''ridex_batch_runs_total '' @ show_int (bm_runs m) @ [newline] @
     ''# HELP ridex_batch_failures_total Number of batch jobs that errored'' @ [newline] @
     ''# TYPE ridex_batch_failures_total counter'' @ [newline] @
     ''ridex_batch_failures_total '' @ show_int (bm_failures m) @ [newline]"

end
