(* ===== verification/ApiGateway.thy ===== *)
theory ApiGateway
  imports AuthService MetricsRegistry TokenBucket
begin

text \<open>
  What surrounds the services of the API: the error envelope (\<open>common/error.filter.ts\<close>), the rate
  limit (\<open>ratelimit.module.ts\<close>, \<open>ratelimit.guard.ts\<close>), the controllers with their roles, pipes and
  status codes, the HTTP metrics (\<open>http-metrics.interceptor.ts\<close>, \<open>metrics.controller.ts\<close>) and the
  health checks (\<open>health.controller.ts\<close>). A controller is one datatype of requests and one function
  that answers them.
\<close>

section \<open>Errors\<close>

record error_envelope =
  en_statusCode :: int
  en_code :: string
  en_message :: string

definition codeFor :: "int \<Rightarrow> string" where
  "codeFor status =
     (if status = 400 then ''bad_request''
      else if status = 401 then ''unauthorized''
      else if status = 403 then ''forbidden''
      else if status = 404 then ''not_found''
      else if status = 409 then ''conflict''
      else if status = 422 then ''validation_error''
      else if status = 429 then ''rate_limited''
      else ''error'')"

definition error_filter :: "exn \<Rightarrow> error_envelope" where
  "error_filter e =
     (case e of
        Http status code message \<Rightarrow>
          \<lparr>en_statusCode = status,
           en_code = (case code of Some c \<Rightarrow> c | None \<Rightarrow> codeFor status), en_message = message\<rparr>
      | _ \<Rightarrow> \<lparr>en_statusCode = 500, en_code = ''internal_error'', en_message = ''Internal server error''\<rparr>)"

section \<open>The rate limit\<close>

datatype limiter = RedisLimiter token_bucket redis_store | MemoryLimiter token_bucket memory_store

definition makeBucket :: "(redis_db \<times> bool) option \<Rightarrow> string \<Rightarrow> rat \<Rightarrow> rat \<Rightarrow> string + limiter" where
  "makeBucket redis prefix burst refillPerSecond =
     sum_bind (new_TokenBucket burst refillPerSecond) (\<lambda>b.
     Inr (case redis of
            Some (db, hasDefine) \<Rightarrow>
              RedisLimiter b (new_redis_store db hasDefine burst refillPerSecond (Some prefix))
          | None \<Rightarrow> MemoryLimiter b (new_memory_store None)))"

text \<open>The factories of the module; \<open>min: 0.001\<close> is checked here, the integer bound by \<open>requiredNumberEnv\<close>.\<close>

definition bucket_factory :: "env \<Rightarrow> (redis_db \<times> bool) option \<Rightarrow> string \<Rightarrow> string \<Rightarrow> string \<Rightarrow> string + limiter" where
  "bucket_factory env redis prefix burstName rateName =
     sum_bind (requiredNumberEnv env burstName (Some 1) None) (\<lambda>burst.
     sum_bind (requiredNumberEnv env rateName None None) (\<lambda>rate.
     if rate < fl (1 / 1000) then Inl (rateName @ '' must be >= 0.001'')
     else makeBucket redis prefix burst rate))"

definition auth_bucket :: "env \<Rightarrow> (redis_db \<times> bool) option \<Rightarrow> string + limiter" where
  "auth_bucket env redis =
     bucket_factory env redis ''rl:auth'' ''RATELIMIT_AUTH_BURST'' ''RATELIMIT_AUTH_PER_SECOND''"

definition user_bucket :: "env \<Rightarrow> (redis_db \<times> bool) option \<Rightarrow> string + limiter" where
  "user_bucket env redis =
     bucket_factory env redis ''rl:user'' ''RATELIMIT_USER_BURST'' ''RATELIMIT_USER_PER_SECOND''"

definition limiter_take ::
    "(rat \<Rightarrow> string) \<Rightarrow> rat \<Rightarrow> limiter \<Rightarrow> string \<Rightarrow> rat \<Rightarrow> string + (limiter \<times> decision)" where
  "limiter_take tostring server_ms l key now =
     (let decide = (\<lambda>r. \<lparr>de_allowed = sr_allowed r, de_remaining = floor (sr_tokens r),
                         de_retryAfterMs = sr_retryAfterMs r\<rparr>)
      in case l of
           RedisLimiter b s \<Rightarrow>
             sum_bind (redis_getAndUpdate tostring server_ms s key now) (\<lambda>(s', r). Inr (RedisLimiter b s', decide r))
         | MemoryLimiter b s \<Rightarrow>
             (case memory_getAndUpdate s key now (compute b) of (s', r) \<Rightarrow> Inr (MemoryLimiter b s', decide r)))"

record rl_request =
  rq_url :: "string option"
  rq_ip :: "string option"
  rq_remoteAddress :: "string option"
  rq_user :: "string option"

record rl_state =
  rl_auth :: limiter
  rl_user :: limiter
  rl_metrics :: registry

definition or_else :: "'a option \<Rightarrow> 'a option \<Rightarrow> 'a option" where
  "or_else x y = (case x of None \<Rightarrow> y | Some _ \<Rightarrow> x)"

definition rl_is_auth :: "rl_request \<Rightarrow> bool" where
  "rl_is_auth req \<longleftrightarrow> (case rq_url req of None \<Rightarrow> False | Some u \<Rightarrow> starts_with ''/auth'' u)"

definition rl_key :: "rl_request \<Rightarrow> string" where
  "rl_key req =
     (if rl_is_auth req
      then ''ip:'' @ the (or_else (or_else (rq_ip req) (rq_remoteAddress req)) (Some ''unknown''))
      else ''user:'' @ the (or_else (or_else (rq_user req) (rq_ip req)) (Some ''anon'')))"

text \<open>\<open>Math.max(1, Math.ceil(retryAfterMs / 1000))\<close>, printed.\<close>

definition retry_seconds :: "jsnum \<Rightarrow> string" where
  "retry_seconds ms =
     (case ms of Num q \<Rightarrow> js_String (max 1 (of_int \<lceil>fl (q / 1000)\<rceil>)) | PosInf \<Rightarrow> ''Infinity''
      | NegInf \<Rightarrow> ''1'' | NaN \<Rightarrow> ''NaN'')"

definition rate_limit_guard ::
    "(rat \<Rightarrow> string) \<Rightarrow> bool \<Rightarrow> rat \<Rightarrow> rl_request \<Rightarrow> rl_state
     \<Rightarrow> (exn + bool) \<times> (string \<times> string) list \<times> rl_state" where
  "rate_limit_guard tostring skip now req s =
     (if skip then (Inr True, [], s)
      else
        let isAuth = rl_is_auth req; key = rl_key req in
        case limiter_take tostring now (if isAuth then rl_auth s else rl_user s) key now of
          Inl e \<Rightarrow> (Inl (JsError e), [], s)
        | Inr (l, decision) \<Rightarrow>
            let s1 = (if isAuth then s\<lparr>rl_auth := l\<rparr> else s\<lparr>rl_user := l\<rparr>);
                s2 = s1\<lparr>rl_metrics := rateLimitDecision (if isAuth then ''auth'' else ''user'')
                          (de_allowed decision) (rl_metrics s1)\<rparr>;
                headers = [(''X-RateLimit-Remaining'', show_int (de_remaining decision))]
            in if de_allowed decision then (Inr True, headers, s2)
               else (Inl (Http 429 (Some ''rate_limited'') ''Too many requests''),
                     headers @ [(''Retry-After'', retry_seconds (de_retryAfterMs decision))], s2))"

section \<open>Controllers\<close>

definition uuid_pipe :: "string \<Rightarrow> 'a act \<Rightarrow> 'a act" where
  "uuid_pipe s m = (if UUID_RE s then m else throw (Http 422 None ''Validation failed (uuid is expected)''))"

definition body_pipe :: "exn + 'd \<Rightarrow> ('d \<Rightarrow> 'a act) \<Rightarrow> 'a act" where
  "body_pipe r f = (case r of Inl e \<Rightarrow> throw e | Inr dto \<Rightarrow> f dto)"

text \<open>\<open>DefaultValuePipe(50)\<close>, then \<open>ParseIntPipe\<close>: an optional minus and digits.\<close>

definition limit_pipe :: "string option \<Rightarrow> exn + rat" where
  "limit_pipe v =
     (case v of
        None \<Rightarrow> Inr 50
      | Some s \<Rightarrow>
          (let (neg, ds) = (case s of [] \<Rightarrow> (False, []) | c # cs \<Rightarrow> if c = CHR ''-'' then (True, cs) else (False, s));
               n = (if neg then - digits_val ds else digits_val ds)
           in if ds \<noteq> [] \<and> list_all is_digit ds \<and> is_finite (to_js (of_int n))
              then Inr (fl (of_int n))
              else Inl (Http 422 None ''Validation failed (numeric string is expected)'')))"

subsection \<open>Trips\<close>

datatype trips_request =
  PostTrip "json option"
| GetTrips "string option" "string option"
| GetTrip string
| PostCancel string
| PostStart string
| PostComplete string
| PostRating string "json option"

datatype trips_reply =
  TripRef trip_ref | TripList "trip_summary list" | TripDetail trip_detail | TripRow trip_row
| TripCompleted completed_result | TripRated "string \<times> int"

fun trips_roles :: "trips_request \<Rightarrow> string list" where
  "trips_roles (PostTrip _) = [''rider'']"
| "trips_roles (PostStart _) = [''driver'']"
| "trips_roles (PostComplete _) = [''driver'']"
| "trips_roles (PostRating _ _) = [''rider'']"
| "trips_roles _ = []"

definition fmap :: "('a \<Rightarrow> 'b) \<Rightarrow> 'a act \<Rightarrow> 'b act" where
  "fmap f m = await m (\<lambda>x. ret (f x))"

fun trips_controller :: "ext \<Rightarrow> validators \<Rightarrow> trips_request \<Rightarrow> actor \<Rightarrow> (int \<times> trips_reply) act" where
  "trips_controller X V (PostTrip body) user =
     body_pipe (create_trip_dto_of V body) (\<lambda>dto. fmap (\<lambda>r. (201, TripRef r)) (create X dto (ac_sub user)))"
| "trips_controller X V (GetTrips status limit) user =
     body_pipe (limit_pipe limit) (\<lambda>n. fmap (\<lambda>r. (200, TripList r)) (list_trips status (Num n) user))"
| "trips_controller X V (GetTrip i) user =
     uuid_pipe i (fmap (\<lambda>r. (200, TripDetail r)) (byId X i user))"
| "trips_controller X V (PostCancel i) user =
     uuid_pipe i (fmap (\<lambda>r. (200, TripRow r)) (cancel X i (ac_sub user) (ac_role user)))"
| "trips_controller X V (PostStart i) user =
     uuid_pipe i (fmap (\<lambda>r. (200, TripRow r)) (start X i user))"
| "trips_controller X V (PostComplete i) user =
     uuid_pipe i (fmap (\<lambda>r. (200, TripCompleted r)) (complete X i user))"
| "trips_controller X V (PostRating i body) user =
     uuid_pipe i (body_pipe (rate_trip_dto_of body) (\<lambda>dto.
       fmap (\<lambda>r. (201, TripRated r)) (rate X i (ac_sub user) dto)))"

subsection \<open>Drivers and vehicles\<close>

datatype drivers_request = GetNearby string string "string option" | PatchStatus string "json option"

datatype drivers_reply = NearbyList "nearby_driver list" | StatusReply status_result

fun drivers_roles :: "drivers_request \<Rightarrow> string list" where
  "drivers_roles (GetNearby _ _ _) = []"
| "drivers_roles (PatchStatus _ _) = [''driver'', ''admin'']"

text \<open>A body without DTO class is passed as it is; reading \<open>status\<close> of no body throws.\<close>

fun drivers_controller :: "ext \<Rightarrow> drivers_request \<Rightarrow> actor \<Rightarrow> (int \<times> drivers_reply) act" where
  "drivers_controller X (GetNearby lon lat radius) user =
     fmap (\<lambda>r. (200, NearbyList r))
       (nearby X (js_Number lon) (js_Number lat)
          (case radius of None \<Rightarrow> Num 2000 | Some r \<Rightarrow> if r = [] then Num 2000 else js_Number r))"
| "drivers_controller X (PatchStatus i body) user =
     uuid_pipe i
       (if ac_role user = ''driver'' \<and> ac_sub user \<noteq> i
        then throw (Http 403 None ''drivers can only change their own status'')
        else
          case body of
            None \<Rightarrow> throw (JsError ''TypeError'')
          | Some JNull \<Rightarrow> throw (JsError ''TypeError'')
          | Some b \<Rightarrow> fmap (\<lambda>r. (200, StatusReply r)) (setStatus i (jget b ''status'')))"

datatype vehicles_request =
  GetVehicles | PostVehicle "json option" | PatchVehicle string "json option" | DeleteVehicle string

datatype vehicles_reply = VehicleList "vehicle_row list" | Vehicle "vehicle_row option" | Deleted string

definition vehicles_roles :: "vehicles_request \<Rightarrow> string list" where
  "vehicles_roles _ = [''driver'']"

fun vehicles_controller :: "ext \<Rightarrow> vehicles_request \<Rightarrow> actor \<Rightarrow> (int \<times> vehicles_reply) act" where
  "vehicles_controller X GetVehicles user = fmap (\<lambda>r. (200, VehicleList r)) (list_vehicles (ac_sub user))"
| "vehicles_controller X (PostVehicle body) user =
     body_pipe (create_vehicle_dto_of body) (\<lambda>dto.
       fmap (\<lambda>r. (201, Vehicle r)) (create_vehicle X (ac_sub user) dto))"
| "vehicles_controller X (PatchVehicle i body) user =
     uuid_pipe i (body_pipe (update_vehicle_dto_of body) (\<lambda>dto.
       fmap (\<lambda>r. (200, Vehicle (Some r))) (update (ac_sub user) i dto)))"
| "vehicles_controller X (DeleteVehicle i) user =
     uuid_pipe i (fmap (\<lambda>r. (200, Deleted r)) (remove_vehicle (ac_sub user) i))"

subsection \<open>Accounts and administration\<close>

datatype auth_request = PostSignup "json option" | PostLogin "json option" | PostDemoLogin "json option"

fun auth_controller :: "ext \<Rightarrow> validators \<Rightarrow> auth_ext \<Rightarrow> auth_request \<Rightarrow> (int \<times> session) act" where
  "auth_controller X V A (PostSignup body) =
     body_pipe (signup_dto_of V body) (\<lambda>dto. fmap (\<lambda>r. (201, r)) (signup X A dto))"
| "auth_controller X V A (PostLogin body) =
     body_pipe (login_dto_of body) (\<lambda>dto. fmap (\<lambda>r. (200, r)) (login A dto))"
| "auth_controller X V A (PostDemoLogin body) =
     body_pipe (demo_login_dto_of body) (\<lambda>dto. fmap (\<lambda>r. (200, r)) (demoLogin A dto))"

record admin_zone =
  az_id :: string
  az_name :: string
  az_base_multiplier :: string
  az_polygon_geo :: string

definition admin_surge :: "(string \<Rightarrow> string) \<Rightarrow> (admin_zone list) act" where
  "admin_surge polygonAsGeoJSON = query (select (\<lambda>d.
     map (\<lambda>z. \<lparr>az_id = sz_id z, az_name = sz_name z,
              az_base_multiplier = pg_numeric_text 2 (sz_base_multiplier z),
              az_polygon_geo = polygonAsGeoJSON (sz_polygon z)\<rparr>)
       (sort_key sz_name (db_surge_zones d))))"

subsection \<open>From the guard to the envelope\<close>

definition actor_of :: "json \<Rightarrow> actor" where
  "actor_of user =
     \<lparr>ac_sub = (case jget user ''sub'' of Some (JStr s) \<Rightarrow> s | _ \<Rightarrow> []),
      ac_role = (case jget user ''role'' of Some (JStr s) \<Rightarrow> s | _ \<Rightarrow> [])\<rparr>"

definition respond ::
    "auth_ext \<Rightarrow> bool \<Rightarrow> string list \<Rightarrow> string option \<Rightarrow> (actor \<Rightarrow> (int \<times> 'a) act)
     \<Rightarrow> (error_envelope + int \<times> 'a) act" where
  "respond A isPublic roles authorization handler =
     (\<lambda>w. case jwt_guard A isPublic roles (sys_now (w_sys w)) authorization of
        Inl e \<Rightarrow> (Inr (Inl (error_filter e)), w)
      | Inr user \<Rightarrow>
          (case handler (actor_of (case user of Some u \<Rightarrow> u | None \<Rightarrow> JNull)) w of
             (Inl e, w') \<Rightarrow> (Inr (Inl (error_filter e)), w')
           | (Inr r, w') \<Rightarrow> (Inr (Inr r), w')))"

section \<open>HTTP metrics\<close>

definition http_status :: "exn + int \<Rightarrow> int" where
  "http_status outcome = (case outcome of Inr status \<Rightarrow> status | Inl (Http status _ _) \<Rightarrow> status | Inl _ \<Rightarrow> 500)"

definition intercept ::
    "rat \<Rightarrow> string option \<Rightarrow> string option \<Rightarrow> string option \<Rightarrow> exn + int \<Rightarrow> registry \<Rightarrow> registry" where
  "intercept elapsedNs routeUrl url verb outcome =
     observeHttp (fl (elapsedNs / 10 ^ 9))
       (case or_else routeUrl url of Some r \<Rightarrow> r | None \<Rightarrow> ''unknown'')
       (case verb of Some m \<Rightarrow> m | None \<Rightarrow> ''GET'') (http_status outcome)"

record metrics_state =
  mx_registry :: registry
  mx_lastRefreshMs :: rat

definition zcard :: "nat act" where
  "zcard = call ''redis'' (get_state (\<lambda>w. length (w_geo w)))"

definition count_online :: "nat stmt" where
  "count_online = select (\<lambda>d. length (filter (\<lambda>r. dr_status r = Online) (db_drivers d)))"

definition refreshGauges :: "metrics_state \<Rightarrow> metrics_state act" where
  "refreshGauges m =
     await (get_state (\<lambda>w. sys_now (w_sys w))) (\<lambda>now.
     if now - mx_lastRefreshMs m < 10000 then ret m
     else
       let m1 = m\<lparr>mx_lastRefreshMs := now\<rparr> in
       try_catch
         (await zcard (\<lambda>onlineRedis.
          await (query count_online) (\<lambda>onlineDb.
          ret (m1\<lparr>mx_registry :=
            setGauge ''ridex_drivers_online'' (of_nat onlineDb) []
              (setGauge ''ridex_drivers_online_redis'' (of_nat onlineRedis) [] (mx_registry m1))\<rparr>))))
         (\<lambda>_. ret m1))"

definition metrics_endpoint :: "metrics_state \<Rightarrow> (metrics_state \<times> string) act" where
  "metrics_endpoint m = await (refreshGauges m) (\<lambda>m'. ret (m', render (mx_registry m')))"

section \<open>Health\<close>

datatype indicator = Up | Down string

definition checkDb :: "indicator act" where
  "checkDb = try_catch (await (query (select (\<lambda>_. ()))) (\<lambda>_. ret Up)) (\<lambda>e. ret (Down (exn_text e)))"

text \<open>\<open>pong\<close> is what the server answers to \<open>PING\<close>.\<close>

definition checkRedis :: "string \<Rightarrow> indicator act" where
  "checkRedis pong =
     try_catch
       (await (call ''redis'' (ret pong)) (\<lambda>p.
        if p \<noteq> ''PONG'' then throw (JsError (''unexpected ping response: '' @ p)) else ret Up))
       (\<lambda>e. ret (Down (exn_text e)))"

text \<open>The variables are read before the \<open>try\<close>; \<open>slow\<close> is that the 1.5 s timer fires first.\<close>

definition checkKafka :: "bool \<Rightarrow> indicator act" where
  "checkKafka slow =
     await (env_var ''KAFKA_CLIENT_ID'') (\<lambda>_.
     await (env_var ''KAFKA_BROKERS'') (\<lambda>_.
     try_catch
       (await (call ''kafka'' (ret ())) (\<lambda>_.
        if slow then throw (JsError ''kafka health timeout'') else ret Up))
       (\<lambda>e. ret (Down (exn_text e)))))"

definition readiness :: "string \<Rightarrow> bool \<Rightarrow> (string \<times> indicator) list act" where
  "readiness pong slow =
     await checkDb (\<lambda>db.
     await (checkRedis pong) (\<lambda>redis.
     await (checkKafka slow) (\<lambda>kafka.
     let checks = [(''postgres'', db), (''redis'', redis), (''kafka'', kafka)] in
     if list_all (\<lambda>(_, i). i = Up) checks then ret checks
     else throw (Http 503 None ''Service Unavailable Exception''))))"

end
