(* ===== verification/SurgeEngine.thy ===== *)
theory SurgeEngine
  imports TripRefinement
begin

text \<open>
  The surge worker, \<open>services/surge-worker/src\<close>: the engine of \<open>surge-engine.ts\<close>, whose state is a
  map of zones with a ring of request counts, one slot per tick, and the configuration \<open>index.ts\<close>
  reads. A handler is a computation over the world and the engine, so that an exception leaves
  both as they are at that point.
\<close>

section \<open>State\<close>

record surge_config =
  sc_flushMs :: rat
  sc_maxMultiplier :: rat
  sc_thresholdHigh :: rat
  sc_thresholdLow :: rat
  sc_windowMs :: rat

record zone_counts =
  zc_requests :: int
  zc_lastSeenIdx :: "int list"
  zc_multiplier :: rat

record surge_engine =
  sn_config :: surge_config
  sn_counts :: "(string \<times> zone_counts) list"
  sn_tickRing :: nat
  sn_tickIdx :: nat

type_synonym 'a surge_act = "(world \<times> surge_engine, 'a) eff"

definition on_world :: "'a act \<Rightarrow> 'a surge_act" where
  "on_world m = (\<lambda>(w, g). case m w of (r, w') \<Rightarrow> (r, (w', g)))"

definition on_engine :: "(surge_engine \<Rightarrow> surge_engine) \<Rightarrow> unit surge_act" where
  "on_engine f = set_state (\<lambda>(w, g). (w, f g))"

definition engine :: "(surge_engine \<Rightarrow> 'a) \<Rightarrow> 'a surge_act" where
  "engine f = get_state (\<lambda>(w, g). f g)"

definition new_SurgeEngine :: "surge_config \<Rightarrow> surge_engine" where
  "new_SurgeEngine config =
     \<lparr>sn_config = config, sn_counts = [],
      sn_tickRing = nat (max 1 (math_round (fl (sc_windowMs config / 1000)))), sn_tickIdx = 0\<rparr>"

section \<open>The multiplier\<close>

definition nextMultiplier :: "surge_config \<Rightarrow> rat \<Rightarrow> rat \<Rightarrow> rat" where
  "nextMultiplier config current ratio =
     (let multiplier =
        (if sc_thresholdHigh config < ratio then min (sc_maxMultiplier config) (fl (current * fl (11 / 10)))
         else if ratio < sc_thresholdLow config then max 1 (fl (current * fl (97 / 100)))
         else current)
      in round_cents multiplier)"

section \<open>Zones and events\<close>

definition loadZones :: "unit surge_act" where
  "loadZones =
     await (on_world (query (select (\<lambda>d. map (\<lambda>z. (sz_id z, pg_numeric_text 2 (sz_base_multiplier z)))
       (db_surge_zones d))))) (\<lambda>rows.
     on_engine (\<lambda>g. g\<lparr>sn_counts := foldl (\<lambda>counts (zoneId, text).
       al_set zoneId \<lparr>zc_requests = 0, zc_lastSeenIdx = replicate (sn_tickRing g) 0,
                      zc_multiplier = num_val (js_Number text)\<rparr> counts) (sn_counts g) rows\<rparr>))"

text \<open>A coordinate as a statement parameter: nothing is \<open>NULL\<close>, which makes the point \<open>NULL\<close>.\<close>

definition coordinate_param :: "json option \<Rightarrow> exn + rat option" where
  "coordinate_param v =
     (case v of
        None \<Rightarrow> Inr None
      | Some JNull \<Rightarrow> Inr None
      | Some j \<Rightarrow> (case float8_param j of Some q \<Rightarrow> Inr (Some q) | None \<Rightarrow> Inl (Pg ''22P02'' None)))"

definition whichZone :: "ext \<Rightarrow> json option \<Rightarrow> json option \<Rightarrow> (string option) stmt" where
  "whichZone X lon lat = (\<lambda>s d.
     (case (coordinate_param lon, coordinate_param lat) of
        (Inr (Some x), Inr (Some y)) \<Rightarrow>
          (Inr (map_option sz_id (zone_of X d \<lparr>pt_lon = x, pt_lat = y\<rparr>), d), s)
      | (Inl e, _) \<Rightarrow> (Inl e, s)
      | (_, Inl e) \<Rightarrow> (Inl e, s)
      | _ \<Rightarrow> (Inr (None, d), s)))"

definition count_request :: "nat \<Rightarrow> zone_counts \<Rightarrow> zone_counts" where
  "count_request tickIdx z =
     z\<lparr>zc_requests := zc_requests z + 1,
       zc_lastSeenIdx := (zc_lastSeenIdx z)[tickIdx := zc_lastSeenIdx z ! tickIdx + 1]\<rparr>"

definition on_zone :: "string \<Rightarrow> (zone_counts \<Rightarrow> zone_counts) \<Rightarrow> surge_engine \<Rightarrow> surge_engine" where
  "on_zone zoneId f g =
     (case map_of (sn_counts g) zoneId of
        None \<Rightarrow> g | Some z \<Rightarrow> g\<lparr>sn_counts := al_set zoneId (f z) (sn_counts g)\<rparr>)"

definition onTripEvent :: "ext \<Rightarrow> kafka_message \<Rightarrow> unit surge_act" where
  "onTripEvent X message =
     (case parseJsonMessage message of
        None \<Rightarrow> ret ()
      | Some evt \<Rightarrow>
          if jget evt ''type'' \<noteq> Some (JStr ''trip.requested'') then ret ()
          else
            (case (case jget evt ''dto'' of None \<Rightarrow> None | Some dto \<Rightarrow> jget dto ''pickup'') of
               None \<Rightarrow> ret ()
             | Some pickup \<Rightarrow>
                 if \<not> truthy pickup then ret ()
                 else
                   await (on_world (query (whichZone X (jget pickup ''lon'') (jget pickup ''lat''))))
                     (\<lambda>zoneId.
                   case zoneId of
                     None \<Rightarrow> ret ()
                   | Some z \<Rightarrow> on_engine (\<lambda>g. on_zone z (count_request (sn_tickIdx g)) g))))"

section \<open>Ticks\<close>

definition onlineDriversInZone :: "ext \<Rightarrow> string \<Rightarrow> nat stmt" where
  "onlineDriversInZone X zoneId = select (\<lambda>d.
     length (concat (map (\<lambda>l. concat (map (\<lambda>r. map (\<lambda>z. ())
         (filter (\<lambda>z. sz_id z = zoneId \<and> x_covers X (sz_polygon z) (dl_location l)) (db_surge_zones d)))
       (filter (\<lambda>r. dr_user_id r = dl_driver_id l \<and> dr_status r = Online) (db_drivers d))))
     (db_driver_locations d))))"

definition set_multiplier :: "rat \<Rightarrow> zone_counts \<Rightarrow> zone_counts" where
  "set_multiplier m z = z\<lparr>zc_multiplier := m\<rparr>"

definition clear_slot :: "nat \<Rightarrow> zone_counts \<Rightarrow> zone_counts" where
  "clear_slot i z = z\<lparr>zc_lastSeenIdx := (zc_lastSeenIdx z)[i := 0]\<rparr>"

definition tick_zone :: "ext \<Rightarrow> string \<Rightarrow> unit surge_act" where
  "tick_zone X zoneId =
     await (engine (\<lambda>g. map_of (sn_counts g) zoneId)) (\<lambda>found.
     case found of
       None \<Rightarrow> ret ()
     | Some zone \<Rightarrow>
         let requests = sum_list (zc_lastSeenIdx zone) in
         await (on_world (query (onlineDriversInZone X zoneId))) (\<lambda>online.
         let drivers = (if online = 0 then 1 else online);
             ratio = fl (of_int requests / of_nat drivers)
         in
         await (engine (\<lambda>g. nextMultiplier (sn_config g) (zc_multiplier zone) ratio)) (\<lambda>multiplier.
         await (on_engine (on_zone zoneId (set_multiplier multiplier))) (\<lambda>_.
         await (on_world (get_state (\<lambda>w. sys_now (w_sys w)))) (\<lambda>now.
         await (on_world (hset (''surge:zone:'' @ zoneId)
                  [(''multiplier'', js_String multiplier), (''updated_at'', js_String now)])) (\<lambda>_.
         on_engine (\<lambda>g. on_zone zoneId (clear_slot ((sn_tickIdx g + 1) mod sn_tickRing g)) g)))))))"

definition advance :: "surge_engine \<Rightarrow> surge_engine" where
  "advance g = g\<lparr>sn_tickIdx := (sn_tickIdx g + 1) mod sn_tickRing g\<rparr>"

definition tick :: "ext \<Rightarrow> unit surge_act" where
  "tick X =
     await (on_engine advance) (\<lambda>_.
     await (engine (\<lambda>g. map fst (sn_counts g))) (\<lambda>zones.
     for_each zones (tick_zone X)))"

section \<open>Back to the database\<close>

definition update_zone :: "string \<Rightarrow> rat \<Rightarrow> unit stmt" where
  "update_zone zoneId multiplier = (\<lambda>s d.
     (if zoneId \<notin> sz_id ` set (db_surge_zones d) then (Inr ((), d), s)
      else case pg_numeric 3 2 (js_decimal multiplier) of
        None \<Rightarrow> (Inl numeric_out_of_range, s)
      | Some m \<Rightarrow>
          if m < 1 then (Inl check_violation, s)
          else (Inr ((), d\<lparr>db_surge_zones := update_rows (\<lambda>z. sz_id z = zoneId)
                 (\<lambda>z. z\<lparr>sz_base_multiplier := m\<rparr>) (db_surge_zones d)\<rparr>), s)))"

definition flushToDb :: "unit surge_act" where
  "flushToDb =
     await (on_world connect) (\<lambda>_.
     await (engine sn_counts) (\<lambda>counts.
     finally_do
       (for_each counts (\<lambda>(zoneId, zone). on_world (query (update_zone zoneId (zc_multiplier zone)))))
       (on_world release)))"

section \<open>Configuration\<close>

definition surge_main :: "env \<Rightarrow> string + surge_engine \<times> string" where
  "surge_main env =
     sum_bind (requiredEnv env ''LOG_LEVEL'' no_options) (\<lambda>_.
     sum_bind (requiredEnv env ''REDIS_URL'' no_options) (\<lambda>_.
     sum_bind (requiredEnv env ''DATABASE_URL'' no_options) (\<lambda>_.
     sum_bind (requiredEnv env ''KAFKA_BROKERS'' no_options) (\<lambda>_.
     sum_bind (requiredNumberEnv env ''SURGE_FLUSH_MS'' None None) (\<lambda>flushMs.
     sum_bind (requiredNumberEnv env ''SURGE_M_MAX'' None None) (\<lambda>maxMultiplier.
     sum_bind (requiredNumberEnv env ''SURGE_T_HIGH'' None None) (\<lambda>thresholdHigh.
     sum_bind (requiredNumberEnv env ''SURGE_T_LOW'' None None) (\<lambda>thresholdLow.
     sum_bind (requiredNumberEnv env ''SURGE_WINDOW_MS'' None None) (\<lambda>windowMs.
     sum_bind (requiredEnv env ''TOPIC_TRIP_EVENTS'' no_options) (\<lambda>topic.
     Inr (new_SurgeEngine \<lparr>sc_flushMs = flushMs, sc_maxMultiplier = maxMultiplier,
            sc_thresholdHigh = thresholdHigh, sc_thresholdLow = thresholdLow,
            sc_windowMs = windowMs\<rparr>, topic)))))))))))"

section \<open>What the worker commits\<close>

text \<open>The world part of a computation over both.\<close>

definition world_keeps :: "(db \<Rightarrow> db \<Rightarrow> bool) \<Rightarrow> 'a surge_act \<Rightarrow> bool" where
  "world_keeps S m \<longleftrightarrow> keeps (\<lambda>(w, g) (w', g'). commit_rel S w w') m"

interpretation world_rel: effect_relation "\<lambda>(w, g) (w', g'). commit_rel S w w'" for S
  by unfold_locales (auto intro: commit_rel.R_refl commit_rel.R_trans)

lemma world_keeps_on_world: "commits S m \<Longrightarrow> world_keeps S (on_world m)"
  unfolding world_keeps_def keeps_def commits_def on_world_def
  by (auto split: prod.split) (metis snd_conv)

lemma world_keeps_engine: "world_keeps S (on_engine f)" "world_keeps S (engine h)"
  by (auto simp: world_keeps_def keeps_def on_engine_def engine_def effect_simps intro: commit_rel.R_refl)

lemma world_keeps_await:
  "world_keeps S m \<Longrightarrow> (\<And>x. world_keeps S (f x)) \<Longrightarrow> world_keeps S (await m f)"
  unfolding world_keeps_def by (rule world_rel.keeps_await)

lemma world_keeps_ret: "world_keeps S (ret x)"
  unfolding world_keeps_def by (rule world_rel.keeps_ret)

lemma world_keeps_finally: "world_keeps S m \<Longrightarrow> world_keeps S f \<Longrightarrow> world_keeps S (finally_do m f)"
  unfolding world_keeps_def by (rule world_rel.keeps_finally)

lemma world_keeps_for_each: "(\<And>x. world_keeps S (f x)) \<Longrightarrow> world_keeps S (for_each xs f)"
  unfolding world_keeps_def by (rule world_rel.keeps_for_each)

lemma select_commits: "commits S (query (select f))"
  by (intro commits_query) (simp add: select_def)

lemma whichZone_commits: "commits S (query (whichZone X lon lat))"
  by (intro commits_query) (auto simp: whichZone_def split: sum.splits option.splits)

lemma update_zone_commits: "commits core_step (query (update_zone z m))"
proof -
  have "core_step d (d\<lparr>db_surge_zones := zs\<rparr>)" for d zs
    by (rule core_step.registers [OF registry_step.elsewhere]) (simp_all add: same_bookings_def)
  then show ?thesis
    by (intro commits_query) (auto simp: update_zone_def split: if_splits option.splits)
qed

lemma release_commits: "commits S release"
  by (auto simp: commits_def keeps_def commit_rel_def release_def effect_simps)

lemma onTripEvent_commits: "world_keeps S (onTripEvent X message)"
  unfolding onTripEvent_def
  by (auto intro!: world_keeps_ret world_keeps_await world_keeps_on_world whichZone_commits
      world_keeps_engine split: option.split)

lemma tick_commits: "world_keeps S (tick X)"
  unfolding tick_def tick_zone_def onlineDriversInZone_def Let_def
  by (auto intro!: world_keeps_ret world_keeps_await world_keeps_on_world select_commits commits_get
      commits_servers world_keeps_engine world_keeps_for_each split: option.split)

lemma flushToDb_commits: "world_keeps core_step flushToDb"
  unfolding flushToDb_def
  by (auto intro!: world_keeps_await world_keeps_on_world commits_servers world_keeps_engine
      world_keeps_finally world_keeps_for_each update_zone_commits release_commits)

end
