(* ===== verification/WsGateway.thy ===== *)
theory WsGateway
  imports SurgeEngine Matcher Ingestor
begin

text \<open>
  The WebSocket gateway, \<open>services/ws-gateway/src\<close>: the handshake and the subscriptions of
  \<open>socket.ts\<close>, who may subscribe (\<open>authorization.ts\<close>) and the fan-out of Kafka events to rooms
  (\<open>fanout.ts\<close>). The state is the list of connected sockets with their rooms and everything
  emitted so far. The reachable states of gateway and database together are an inductive
  predicate, in which the rest of the system makes any steps of \<open>BookingSpec\<close>.
\<close>

section \<open>Sockets\<close>

record socket =
  sk_id :: nat
  sk_user :: json
  sk_rooms :: "string list"

record emitted =
  em_socket :: nat
  em_event :: string
  em_payload :: json

record gateway =
  gw_sockets :: "socket list"
  gw_emitted :: "emitted list"

definition emit :: "nat \<Rightarrow> string \<Rightarrow> json \<Rightarrow> gateway \<Rightarrow> gateway" where
  "emit i event payload g =
     g\<lparr>gw_emitted := gw_emitted g @ [\<lparr>em_socket = i, em_event = event, em_payload = payload\<rparr>]\<rparr>"

definition emit_to_room :: "string \<Rightarrow> string \<Rightarrow> json \<Rightarrow> gateway \<Rightarrow> gateway" where
  "emit_to_room room event payload g =
     foldl (\<lambda>g s. emit (sk_id s) event payload g) g (filter (\<lambda>s. room \<in> set (sk_rooms s)) (gw_sockets g))"

definition join_room :: "nat \<Rightarrow> string \<Rightarrow> gateway \<Rightarrow> gateway" where
  "join_room i room g =
     g\<lparr>gw_sockets := map (\<lambda>s. if sk_id s = i \<and> room \<notin> set (sk_rooms s)
                               then s\<lparr>sk_rooms := sk_rooms s @ [room]\<rparr> else s) (gw_sockets g)\<rparr>"

section \<open>The handshake\<close>

definition handshake ::
    "(string \<Rightarrow> json option) \<Rightarrow> (string \<Rightarrow> string \<Rightarrow> string) \<Rightarrow> rat \<Rightarrow> string
     \<Rightarrow> json option \<Rightarrow> string option \<Rightarrow> string + json" where
  "handshake decode hmac now jwtSecret authToken header =
     (let token = (case authToken of
                     Some (JStr s) \<Rightarrow> Some s
                   | _ \<Rightarrow> (case header of
                             Some h \<Rightarrow> if starts_with ''Bearer '' h then Some (drop 7 h) else None
                           | None \<Rightarrow> None))
      in case token of
           None \<Rightarrow> Inl ''missing bearer token''
         | Some t \<Rightarrow>
             if t = [] then Inl ''missing bearer token''
             else (case verifyJwt decode hmac now t jwtSecret of
                     Inl _ \<Rightarrow> Inl ''invalid token'' | Inr user \<Rightarrow> Inr user))"

definition ws_connect :: "nat \<Rightarrow> json \<Rightarrow> gateway \<Rightarrow> gateway" where
  "ws_connect i user g = g\<lparr>gw_sockets := gw_sockets g @ [\<lparr>sk_id = i, sk_user = user, sk_rooms = []\<rparr>]\<rparr>"

definition ws_disconnect :: "nat \<Rightarrow> gateway \<Rightarrow> gateway" where
  "ws_disconnect i g = g\<lparr>gw_sockets := filter (\<lambda>s. sk_id s \<noteq> i) (gw_sockets g)\<rparr>"

section \<open>Who may subscribe\<close>

definition canSubscribeToTrip :: "json \<Rightarrow> string \<Rightarrow> bool act" where
  "canSubscribeToTrip user tripId =
     (if jget user ''role'' = Some (JStr ''admin'') then ret True
      else
        await (query (select (\<lambda>d. find (\<lambda>t. tr_id t = tripId) (db_trips d)))) (\<lambda>trip.
        ret (case trip of
               None \<Rightarrow> False
             | Some t \<Rightarrow> jget user ''sub'' = Some (JStr (tr_rider_id t)) \<or>
                 (case tr_driver_id t of
                    Some v \<Rightarrow> jget user ''sub'' = Some (JStr v) | None \<Rightarrow> jget user ''sub'' = Some JNull))))"

definition canSubscribeToDriver :: "json \<Rightarrow> string \<Rightarrow> bool act" where
  "canSubscribeToDriver user driverId =
     (if jget user ''role'' = Some (JStr ''admin'') then ret True
      else if jget user ''role'' = Some (JStr ''driver'') then ret (jget user ''sub'' = Some (JStr driverId))
      else
        await (query (by_uuid (jget user ''sub'') (\<lambda>sub. select (\<lambda>d.
          length (take 1 (filter (\<lambda>t. Some (tr_rider_id t) = sub \<and> tr_driver_id t = Some driverId \<and>
            (tr_status t = Matched \<or> tr_status t = InProgress)) (db_trips d))))))) (\<lambda>rowCount.
        ret (rowCount > 0)))"

section \<open>Subscriptions\<close>

type_synonym 'a ws_act = "(world \<times> gateway, 'a) eff"

definition ws_world :: "'a act \<Rightarrow> 'a ws_act" where
  "ws_world m = (\<lambda>(w, g). case m w of (r, w') \<Rightarrow> (r, (w', g)))"

definition ws_update :: "(gateway \<Rightarrow> gateway) \<Rightarrow> unit ws_act" where
  "ws_update f = set_state (\<lambda>(w, g). (w, f g))"

definition error_code :: "string \<Rightarrow> json" where
  "error_code code = JObj [(''code'', JStr code)]"

definition trip_room :: "string \<Rightarrow> string" where "trip_room i = ''trip:'' @ i"
definition driver_room :: "string \<Rightarrow> string" where "driver_room i = ''driver:'' @ i"

definition trip_subscribe :: "socket \<Rightarrow> string \<Rightarrow> unit ws_act" where
  "trip_subscribe sock tripId =
     (if \<not> UUID_RE tripId then ws_update (emit (sk_id sock) ''trip:error'' (error_code ''bad_trip_id''))
      else
        await (ws_world (canSubscribeToTrip (sk_user sock) tripId)) (\<lambda>can.
        if \<not> can then ws_update (emit (sk_id sock) ''trip:error'' (error_code ''forbidden''))
        else ws_update (join_room (sk_id sock) (trip_room tripId))))"

definition driver_subscribe :: "socket \<Rightarrow> string \<Rightarrow> unit ws_act" where
  "driver_subscribe sock driverId =
     (if \<not> UUID_RE driverId then ws_update (emit (sk_id sock) ''driver:error'' (error_code ''bad_driver_id''))
      else
        await (ws_world (canSubscribeToDriver (sk_user sock) driverId)) (\<lambda>can.
        if \<not> can then ws_update (emit (sk_id sock) ''driver:error'' (error_code ''forbidden''))
        else ws_update (join_room (sk_id sock) (driver_room driverId))))"

section \<open>The fan-out\<close>

text \<open>A value in a template string.\<close>

fun json_text :: "json \<Rightarrow> string" where
  "json_text JNull = ''null''"
| "json_text (JBool b) = (if b then ''true'' else ''false'')"
| "json_text (JNum q) = js_String q"
| "json_text (JStr s) = s"
| "json_text (JArr xs) = join_with '','' (map (\<lambda>x. if x = JNull then [] else json_text x) xs)"
| "json_text (JObj _) = ''[object Object]''"

definition fanout :: "string \<Rightarrow> string \<Rightarrow> kafka_message \<Rightarrow> gateway \<Rightarrow> gateway" where
  "fanout tripTopic locationTopic message g =
     (case parseJsonMessage message of
        None \<Rightarrow> g
      | Some evt \<Rightarrow>
          if km_topic message = tripTopic \<and> truthy_opt (jget evt ''trip_id'')
          then emit_to_room (trip_room (json_text (the (jget evt ''trip_id'')))) ''trip:event'' evt g
          else if km_topic message = locationTopic \<and> truthy_opt (jget evt ''driver_id'')
          then emit_to_room (driver_room (json_text (the (jget evt ''driver_id'')))) ''driver:location'' evt g
          else g)"

record ws_config =
  wc_tripTopic :: string
  wc_locationTopic :: string
  wc_origins :: "string list"
  wc_group :: string
  wc_jwtSecret :: string

definition ws_start :: "env \<Rightarrow> string + ws_config" where
  "ws_start env =
     sum_bind (requiredEnv env ''LOG_LEVEL'' no_options) (\<lambda>_.
     sum_bind (requiredEnv env ''TOPIC_TRIP_EVENTS'' no_options) (\<lambda>tripTopic.
     sum_bind (requiredEnv env ''TOPIC_DRIVER_LOCATION'' no_options) (\<lambda>locationTopic.
     sum_bind (requiredEnv env ''WS_CORS_ORIGINS'' no_options) (\<lambda>origins.
     sum_bind (requiredEnv env ''REDIS_URL'' no_options) (\<lambda>_.
     sum_bind (requiredEnv env ''DATABASE_URL'' no_options) (\<lambda>_.
     sum_bind (requiredEnv env ''KAFKA_BROKERS'' no_options) (\<lambda>_.
     sum_bind (requiredEnv env ''HOSTNAME'' no_options) (\<lambda>host.
     sum_bind (requiredEnv env ''JWT_SECRET'' \<lparr>eo_minLength = Some 32, eo_secret = True\<rparr>) (\<lambda>secret.
     Inr \<lparr>wc_tripTopic = tripTopic, wc_locationTopic = locationTopic,
          wc_origins = map trim (split_on (CHR '','') origins), wc_group = ''ws-'' @ host,
          wc_jwtSecret = secret\<rparr>)))))))))"

section \<open>The gateway beside the running system\<close>

text \<open>The steps of gateway and database: a socket connects or leaves, a client subscribes, a Kafka
  message is fanned out, and anyone else commits a step to the bookings.\<close>

inductive ws_step ::
    "(string \<Rightarrow> json option) \<Rightarrow> (string \<Rightarrow> string \<Rightarrow> string) \<Rightarrow> string \<Rightarrow> db \<times> gateway \<Rightarrow> db \<times> gateway \<Rightarrow> bool"
  for decode hmac secret where
  connects:
    "handshake decode hmac now secret authToken header = Inr user \<Longrightarrow>
     i \<notin> sk_id ` set (gw_sockets g) \<Longrightarrow> ws_step decode hmac secret (d, g) (d, ws_connect i user g)"
| leaves: "ws_step decode hmac secret (d, g) (d, ws_disconnect i g)"
| subscribes_trip:
    "sock \<in> set (gw_sockets g) \<Longrightarrow> w_db w = d \<Longrightarrow> w_tx w = None \<Longrightarrow>
     trip_subscribe sock tripId (w, g) = (r, (w', g')) \<Longrightarrow>
     ws_step decode hmac secret (d, g) (w_db w', g')"
| subscribes_driver:
    "sock \<in> set (gw_sockets g) \<Longrightarrow> w_db w = d \<Longrightarrow> w_tx w = None \<Longrightarrow>
     driver_subscribe sock driverId (w, g) = (r, (w', g')) \<Longrightarrow>
     ws_step decode hmac secret (d, g) (w_db w', g')"
| fans_out: "ws_step decode hmac secret (d, g) (d, fanout tripTopic locationTopic message g)"
| books: "booking_step d d' \<Longrightarrow> ws_step decode hmac secret (d, g) (d', g)"

inductive_cases ws_stepE [elim]: "ws_step decode hmac secret s s'"

section \<open>Facts about rooms\<close>

lemma emit_sockets [simp]: "gw_sockets (emit i e p g) = gw_sockets g"
  by (simp add: emit_def)

lemma emit_to_room_sockets [simp]: "gw_sockets (emit_to_room room e p g) = gw_sockets g"
proof -
  have "gw_sockets (foldl (\<lambda>g s. emit (sk_id s) e p g) g ss) = gw_sockets g" for ss
    by (induction ss arbitrary: g) simp_all
  then show ?thesis by (simp add: emit_to_room_def)
qed

lemma emit_to_room_emitted:
  "gw_emitted (emit_to_room room e p g) = gw_emitted g @
     map (\<lambda>s. \<lparr>em_socket = sk_id s, em_event = e, em_payload = p\<rparr>)
       (filter (\<lambda>s. room \<in> set (sk_rooms s)) (gw_sockets g))"
proof -
  have "gw_emitted (foldl (\<lambda>g s. emit (sk_id s) e p g) g ss) = gw_emitted g @
      map (\<lambda>s. \<lparr>em_socket = sk_id s, em_event = e, em_payload = p\<rparr>) ss" for ss
    by (induction ss arbitrary: g) (simp_all add: emit_def)
  then show ?thesis by (simp add: emit_to_room_def)
qed

lemma fanout_sockets [simp]: "gw_sockets (fanout tt lt m g) = gw_sockets g"
  by (simp add: fanout_def split: option.split)

lemma trip_room_inj [simp]: "trip_room a = trip_room b \<longleftrightarrow> a = b"
  by (simp add: trip_room_def)

lemma room_kinds [simp]: "trip_room a \<noteq> driver_room b"
  by (simp add: trip_room_def driver_room_def)

text \<open>A trip keeps its rider, and its driver once it has one.\<close>

definition party :: "db \<Rightarrow> string \<Rightarrow> string \<Rightarrow> bool" where
  "party d tripId userId \<longleftrightarrow>
     (\<exists>t \<in> set (db_trips d). tr_id t = tripId \<and> (tr_rider_id t = userId \<or> tr_driver_id t = Some userId))"

lemma party_update:
  assumes "party d tid uid" and "db_trips d' = update_rows p u (db_trips d)"
    and "\<And>t. tr_id (u t) = tr_id t \<and> tr_rider_id (u t) = tr_rider_id t"
    and "\<And>t v. t \<in> set (db_trips d) \<Longrightarrow> p t \<Longrightarrow> tr_driver_id t = Some v \<Longrightarrow> tr_driver_id (u t) = Some v"
  shows "party d' tid uid"
proof -
  obtain t where t: "t \<in> set (db_trips d)" "tr_id t = tid" "tr_rider_id t = uid \<or> tr_driver_id t = Some uid"
    using assms(1) by (auto simp: party_def)
  show ?thesis
  proof (cases "p t")
    case True
    then have "u t \<in> set (db_trips d')" using t(1) assms(2) in_update_rowsI(1) by metis
    then show ?thesis using t assms(3) [of t] assms(4) [OF t(1) True] unfolding party_def by metis
  next
    case False
    then have "t \<in> set (db_trips d')" using t(1) assms(2) in_update_rowsI(2) by metis
    then show ?thesis using t unfolding party_def by blast
  qed
qed

lemma party_more: "set (db_trips d) \<subseteq> set (db_trips d') \<Longrightarrow> party d tid uid \<Longrightarrow> party d' tid uid"
  unfolding party_def by blast

lemma party_core:
  assumes "core_step d d'" and "bookings_ok d" and "party d tid uid"
  shows "party d' tid uid"
  using assms(1)
proof cases
  case (match_trip r driverId v t tid' eid now payload since)
  have "tr_driver_id s \<noteq> Some x" if "s \<in> set (db_trips d)" "tr_status s = Requested" for s x
    using that assms(2) by (auto simp: bookings_ok_def trip_ok_def)
  then show ?thesis
    by (intro party_update [OF assms(3), where p = "\<lambda>t. tr_id t = tid' \<and> tr_status t = Requested"
        and u = "\<lambda>t. t\<lparr>tr_driver_id := Some driverId, tr_vehicle_id := Some (ve_id v),
                       tr_status := Matched, tr_matched_at := Some since\<rparr>"])
      (auto simp: match_trip(1))
next
  case (cancel_trip t tid' actorId by_driver eid payload now)
  show ?thesis
    by (rule party_update [OF assms(3), where p = "cancellable tid' actorId by_driver"
        and u = "\<lambda>t. t\<lparr>tr_status := if by_driver then CancelledByDriver else CancelledByRider\<rparr>"])
      (simp_all add: cancel_trip(1))
next
  case (start_trip t tid' driverId eid now payload since)
  show ?thesis
    by (rule party_update [OF assms(3),
        where p = "\<lambda>t. tr_id t = tid' \<and> tr_driver_id t = Some driverId \<and> tr_status t = Matched"
        and u = "\<lambda>t. t\<lparr>tr_status := InProgress, tr_started_at := Some since\<rparr>"])
      (simp_all add: start_trip(1))
next
  case (complete_trip t tid' driverId eid f fares' now payload since)
  let ?p = "\<lambda>t. tr_id t = tid' \<and> tr_driver_id t = Some driverId \<and> tr_status t = InProgress"
  let ?u = "\<lambda>t. t\<lparr>tr_status := Completed, tr_completed_at := Some since\<rparr>"
  have "party (with_trips ?p ?u d) tid uid"
    by (rule party_update [OF assms(3), where p = ?p and u = ?u]) simp_all
  from party_update [OF this, where p = "\<lambda>t. tr_id t = tid'" and d' = d'
      and u = "\<lambda>t. t\<lparr>tr_fare_total := Some (fr_total f), tr_currency := ''USD''\<rparr>"]
  show ?thesis by (simp add: complete_trip(1))
qed (rule party_more [OF _ assms(3)], auto simp: registry_step_same)+

lemma party_step:
  assumes "booking_step d d'" and "db_ok d" and "party d tid uid"
  shows "party d' tid uid"
proof -
  consider "core_step d d'" | "online_mid_trip d d'" using assms(1) by (auto simp: booking_step_def)
  then show ?thesis
  proof cases
    case 1
    then show ?thesis using assms(2,3) by (auto simp: db_ok_def intro: party_core)
  next
    case 2
    then have "db_trips d' = db_trips d" using online_mid_trip_same(1) by (simp add: same_bookings_def)
    then show ?thesis using assms(3) by (simp add: party_def)
  qed
qed

text \<open>The users of the sockets in a trip's room.\<close>

definition rooms_ok :: "db \<Rightarrow> gateway \<Rightarrow> bool" where
  "rooms_ok d g \<longleftrightarrow> distinct (map sk_id (gw_sockets g)) \<and>
     (\<forall>s \<in> set (gw_sockets g). truthy_opt (jget (sk_user s) ''sub'') \<and>
        (\<forall>tid. trip_room tid \<in> set (sk_rooms s) \<longrightarrow>
          jget (sk_user s) ''role'' = Some (JStr ''admin'') \<or>
          (\<exists>uid. jget (sk_user s) ''sub'' = Some (JStr uid) \<and> party d tid uid)))"

lemma run_select: "run_stmt (select f) w = (if \<exists>t. w_tx w = Some t \<and> tx_aborted t
    then (Inl in_failed_transaction, w)
    else (Inr (f (case w_tx w of None \<Rightarrow> w_db w | Some t \<Rightarrow> tx_db t)), w))"
  by (cases "w_tx w") (auto simp: run_stmt_def select_def)

lemma query_select:
  assumes "w_tx w = None" and "query (select f) w = (r, w')"
  shows "w_db w' = w_db w \<and> (\<forall>x. r = Inr x \<longrightarrow> x = f (w_db w))"
proof -
  obtain r1 w1 where c: "call ''postgres'' (run_stmt (select f)) w = (r1, w1)" by fastforce
  have "w_db w1 = w_db w \<and> (\<forall>x. r1 = Inr x \<longrightarrow> x = f (w_db w))"
    by (rule call_cases [of "''postgres''" "run_stmt (select f)" w])
      (use c assms(1) in \<open>auto simp: run_select\<close>)
  then show ?thesis using assms(2) c by (auto simp: query_def split: sum.splits)
qed

lemma canSubscribeToTrip_party:
  assumes "w_tx w = None" and "canSubscribeToTrip user tid w = (Inr True, w')" and "truthy_opt (jget user ''sub'')"
  shows "jget user ''role'' = Some (JStr ''admin'') \<or>
    (\<exists>uid. jget user ''sub'' = Some (JStr uid) \<and> party (w_db w) tid uid)"
proof (cases "jget user ''role'' = Some (JStr ''admin'')")
  case False
  obtain r1 w1 where q: "query (select (\<lambda>d. find (\<lambda>t. tr_id t = tid) (db_trips d))) w = (r1, w1)" by fastforce
  from query_select [OF assms(1) q] assms(2) False q obtain t where
    t: "find (\<lambda>t. tr_id t = tid) (db_trips (w_db w)) = Some t"
    and u: "jget user ''sub'' = Some (JStr (tr_rider_id t)) \<or>
      (case tr_driver_id t of Some v \<Rightarrow> jget user ''sub'' = Some (JStr v) | None \<Rightarrow> jget user ''sub'' = Some JNull)"
    by (auto simp: canSubscribeToTrip_def await_def ret_def split: sum.splits option.splits)
  have t': "t \<in> set (db_trips (w_db w))" "tr_id t = tid" using find_in_set [OF t] by simp_all
  have "jget user ''sub'' \<noteq> Some JNull" using assms(3) by (auto simp: truthy_opt_def)
  with u obtain uid where "jget user ''sub'' = Some (JStr uid)" "tr_rider_id t = uid \<or> tr_driver_id t = Some uid"
    by (auto split: option.splits)
  with t' show ?thesis unfolding party_def by blast
qed simp

lemma rooms_ok_mono:
  assumes "rooms_ok d g" and "\<And>tid uid. party d tid uid \<Longrightarrow> party d' tid uid"
  shows "rooms_ok d' g"
  using assms unfolding rooms_ok_def by blast

lemma rooms_ok_cong: "gw_sockets g' = gw_sockets g \<Longrightarrow> rooms_ok d g' = rooms_ok d g"
  by (simp add: rooms_ok_def)

lemma join_ids: "map sk_id (gw_sockets (join_room i room g)) = map sk_id (gw_sockets g)"
  by (simp add: join_room_def)

lemma rooms_ok_join:
  assumes "rooms_ok d g" and "sock \<in> set (gw_sockets g)"
    and "\<And>tid. room = trip_room tid \<Longrightarrow> jget (sk_user sock) ''role'' = Some (JStr ''admin'') \<or>
      (\<exists>uid. jget (sk_user sock) ''sub'' = Some (JStr uid) \<and> party d tid uid)"
  shows "rooms_ok d (join_room (sk_id sock) room g)"
proof -
  have same: "s = sock" if "s \<in> set (gw_sockets g)" "sk_id s = sk_id sock" for s
    using assms(1,2) that by (auto simp: rooms_ok_def distinct_map inj_on_def)
  have "truthy_opt (jget (sk_user s) ''sub'') \<and> (\<forall>tid. trip_room tid \<in> set (sk_rooms s) \<longrightarrow>
      jget (sk_user s) ''role'' = Some (JStr ''admin'') \<or>
      (\<exists>uid. jget (sk_user s) ''sub'' = Some (JStr uid) \<and> party d tid uid))"
    if s: "s \<in> set (gw_sockets (join_room (sk_id sock) room g))" for s
  proof -
    obtain s0 where s0: "s0 \<in> set (gw_sockets g)" and
      s_def: "s = (if sk_id s0 = sk_id sock \<and> room \<notin> set (sk_rooms s0)
                   then s0\<lparr>sk_rooms := sk_rooms s0 @ [room]\<rparr> else s0)"
      using s by (auto simp: join_room_def)
    have old: "truthy_opt (jget (sk_user s0) ''sub'') \<and> (\<forall>tid. trip_room tid \<in> set (sk_rooms s0) \<longrightarrow>
      jget (sk_user s0) ''role'' = Some (JStr ''admin'') \<or>
      (\<exists>uid. jget (sk_user s0) ''sub'' = Some (JStr uid) \<and> party d tid uid))"
      using assms(1) s0 unfolding rooms_ok_def by blast
    show ?thesis
    proof (cases "sk_id s0 = sk_id sock \<and> room \<notin> set (sk_rooms s0)")
      case True
      then have "s0 = sock" using same [OF s0] by simp
      then have "s = sock\<lparr>sk_rooms := sk_rooms sock @ [room]\<rparr>" using True s_def by simp
      then show ?thesis using old \<open>s0 = sock\<close> assms(3) by auto
    next
      case False
      have "s = s0" using s_def unfolding if_not_P [OF False] .
      then show ?thesis using old by simp
    qed
  qed
  then show ?thesis using assms(1) unfolding rooms_ok_def join_ids by blast
qed

lemma subscribe_trip_ok:
  assumes "rooms_ok (w_db w) g" and "sock \<in> set (gw_sockets g)" and "w_tx w = None"
    and "trip_subscribe sock tid (w, g) = (r, (w', g'))"
  shows "w_db w' = w_db w \<and> rooms_ok (w_db w) g'"
proof -
  obtain r1 w1 where c: "canSubscribeToTrip (sk_user sock) tid w = (r1, w1)" by fastforce
  have w1: "w_db w1 = w_db w"
  proof (cases "jget (sk_user sock) ''role'' = Some (JStr ''admin'')")
    case False
    obtain r2 w2 where q: "query (select (\<lambda>d. find (\<lambda>t. tr_id t = tid) (db_trips d))) w = (r2, w2)" by fastforce
    with query_select [OF assms(3) q] c False show ?thesis
      by (auto simp: canSubscribeToTrip_def await_def ret_def split: sum.splits)
  qed (use c in \<open>simp add: canSubscribeToTrip_def ret_def\<close>)
  have truthy: "truthy_opt (jget (sk_user sock) ''sub'')" using assms(1,2) by (simp add: rooms_ok_def)
  have "rooms_ok (w_db w) (join_room (sk_id sock) (trip_room tid) g)" if "r1 = Inr True"
    by (rule rooms_ok_join [OF assms(1,2)])
      (use canSubscribeToTrip_party [OF assms(3) c [unfolded that] truthy] in simp)
  moreover have "rooms_ok (w_db w) (emit i e p g)" for i e p
    using assms(1) by (simp add: rooms_ok_cong [OF emit_sockets])
  ultimately show ?thesis
    using assms(1,4) c w1
    by (auto simp: trip_subscribe_def ws_update_def ws_world_def await_def set_state_def
        split: if_splits sum.splits)
qed

lemma run_by_uuid_select:
  assumes "w_tx w = None" and "query (by_uuid v (\<lambda>p. select (f p))) w = (r, w')"
  shows "w_db w' = w_db w"
proof -
  obtain r1 w1 where c: "call ''postgres'' (run_stmt (by_uuid v (\<lambda>p. select (f p)))) w = (r1, w1)" by fastforce
  have "w_db w1 = w_db w"
    by (rule call_cases [of "''postgres''" "run_stmt (by_uuid v (\<lambda>p. select (f p)))" w])
      (use c assms(1) in \<open>auto simp: run_stmt_def by_uuid_def select_def split: sum.splits\<close>)
  then show ?thesis using assms(2) c by (auto simp: query_def split: sum.splits)
qed

lemma subscribe_driver_ok:
  assumes "rooms_ok (w_db w) g" and "sock \<in> set (gw_sockets g)" and "w_tx w = None"
    and "driver_subscribe sock v (w, g) = (r, (w', g'))"
  shows "w_db w' = w_db w \<and> rooms_ok (w_db w) g'"
proof -
  obtain r1 w1 where c: "canSubscribeToDriver (sk_user sock) v w = (r1, w1)" by fastforce
  have w1: "w_db w1 = w_db w"
    using c run_by_uuid_select [OF assms(3)]
    by (auto simp: canSubscribeToDriver_def await_def ret_def split: if_splits sum.splits prod.splits)
  have "rooms_ok (w_db w) (join_room (sk_id sock) (driver_room v) g)"
    by (rule rooms_ok_join [OF assms(1,2)]) (simp add: room_kinds [symmetric])
  moreover have "rooms_ok (w_db w) (emit i e p g)" for i e p
    using assms(1) by (simp add: rooms_ok_cong [OF emit_sockets])
  ultimately show ?thesis
    using assms(1,4) c w1
    by (auto simp: driver_subscribe_def ws_update_def ws_world_def await_def set_state_def
        split: if_splits sum.splits)
qed

lemma verifyJwt_truthy:
  "verifyJwt decode hmac now token secret = Inr user \<Longrightarrow> truthy_opt (jget user ''sub'')"
  by (auto simp: verifyJwt_def Let_def split: option.splits if_splits)

lemma handshake_truthy:
  "handshake decode hmac now secret authToken header = Inr user \<Longrightarrow> truthy_opt (jget user ''sub'')"
  by (auto simp: handshake_def Let_def dest: verifyJwt_truthy
      split: option.splits json.splits if_splits sum.splits)

lemma ws_step_ok:
  assumes "ws_step decode hmac secret s s'" and "db_ok (fst s) \<and> rooms_ok (fst s) (snd s)"
  shows "db_ok (fst s') \<and> rooms_ok (fst s') (snd s')"
  using assms(1)
proof cases
  case (connects now authToken header user i g d)
  then show ?thesis using assms(2) handshake_truthy [OF connects(3)]
    by (auto simp: rooms_ok_def ws_connect_def)
next
  case (leaves d g i)
  then show ?thesis using assms(2) by (auto simp: rooms_ok_def ws_disconnect_def distinct_map_filter)
next
  case (subscribes_trip sock g w d tripId r w' g')
  then show ?thesis using assms(2) subscribe_trip_ok [of w g sock tripId r w' g'] by simp
next
  case (subscribes_driver sock g w d driverId r w' g')
  then show ?thesis using assms(2) subscribe_driver_ok [of w g sock driverId r w' g'] by simp
next
  case (fans_out d g tt lt m)
  then show ?thesis using assms(2) by (simp add: rooms_ok_cong [OF fanout_sockets])
next
  case (books d d' g)
  then show ?thesis using assms(2) rooms_ok_mono [of d g d'] party_step [of d d'] db_ok_step [of d d'] by simp
qed

end
