(* ===== verification/RideSystem.thy ===== *)
theory RideSystem
  imports ApiGateway SurgeEngine WsGateway
begin

text \<open>
  The running system: the API with its timer, the matcher, the ingestor, the surge worker and the
  WebSocket gateway as steps on one world. A step is one whole handler of a service, on any input
  and under any schedule of faults; between two steps time passes, the environment chooses the
  faults of the next handler, and a process may restart. The theorems at the end say what holds of
  the database after any run: they rest on the \<open>_commits\<close> lemma of each handler and on the
  invariants of \<open>BookingSpec\<close>.
\<close>

section \<open>The handlers\<close>

text \<open>What the deployment supplies to the services.\<close>

record deployment =
  dp_ext :: ext
  dp_validators :: validators
  dp_auth :: auth_ext
  dp_decode :: "string \<Rightarrow> json option"
  dp_hmac :: "string \<Rightarrow> string \<Rightarrow> string"
  dp_secret :: string
  dp_tripTopic :: string
  dp_locationTopic :: string
  dp_polygonText :: "string \<Rightarrow> string"

text \<open>The calls of the world that reach a service: HTTP requests with their \<open>Authorization\<close> header,
  Kafka messages, timers and the start of the API.\<close>

datatype activity =
  TripsCall "string option" trips_request
| DriversCall "string option" drivers_request
| VehiclesCall "string option" vehicles_request
| AuthCall "string option" auth_request
| MeCall "string option"
| SurgeReport "string option"
| MetricsCall "string option" metrics_state
| LocationPing "string option" "json option"
| TripMessage kafka_message
| OutboxTimer

definition discard :: "'a act \<Rightarrow> unit act" where
  "discard m = await m (\<lambda>_. ret ())"

fun perform :: "deployment \<Rightarrow> activity \<Rightarrow> unit act" where
  "perform D (TripsCall token r) =
     discard (respond (dp_auth D) False (trips_roles r) token (trips_controller (dp_ext D) (dp_validators D) r))"
| "perform D (DriversCall token r) =
     discard (respond (dp_auth D) False (drivers_roles r) token (drivers_controller (dp_ext D) r))"
| "perform D (VehiclesCall token r) =
     discard (respond (dp_auth D) False (vehicles_roles r) token (vehicles_controller (dp_ext D) r))"
| "perform D (AuthCall token r) =
     discard (respond (dp_auth D) True [] token (\<lambda>_. auth_controller (dp_ext D) (dp_validators D) (dp_auth D) r))"
| "perform D (MeCall token) =
     discard (respond (dp_auth D) False [] token (\<lambda>user. fmap (\<lambda>r. (200, r)) (me (ac_sub user))))"
| "perform D (SurgeReport token) =
     discard (respond (dp_auth D) False [''admin''] token
       (\<lambda>_. fmap (\<lambda>r. (200, r)) (admin_surge (dp_polygonText D))))"
| "perform D (MetricsCall token m) =
     discard (respond (dp_auth D) True [] token (\<lambda>_. fmap (\<lambda>r. (200, r)) (metrics_endpoint m)))"
| "perform D (LocationPing token body) =
     discard (ingest (dp_decode D) (dp_hmac D) (dp_secret D) (dp_locationTopic D) token body)"
| "perform D (TripMessage message) = handleTripEvent (dp_ext D) (dp_tripTopic D) message"
| "perform D OutboxTimer = publishPendingTripEvents (dp_ext D)"

section \<open>What the handlers commit\<close>

lemma commits_fmap: "commits S m \<Longrightarrow> commits S (fmap f m)"
  unfolding fmap_def by (intro commits_await commits_ret)

lemma commits_discard: "commits S m \<Longrightarrow> commits S (discard m)"
  unfolding discard_def by (intro commits_await commits_ret)

lemma commits_uuid_pipe: "commits S m \<Longrightarrow> commits S (uuid_pipe i m)"
  unfolding uuid_pipe_def by (intro commits_if commits_throw)

lemma commits_body_pipe: "(\<And>x. r = Inr x \<Longrightarrow> commits S (f x)) \<Longrightarrow> commits S (body_pipe r f)"
  unfolding body_pipe_def by (simp add: commits_throw split: sum.split)

lemma commits_respond: "(\<And>user. commits S (f user)) \<Longrightarrow> commits S (respond A p roles token f)"
  unfolding respond_def commits_def keeps_def
  by (auto split: sum.split prod.split simp: commit_rel.R_refl) (metis snd_conv)+

lemmas pipes = commits_fmap commits_discard commits_uuid_pipe commits_body_pipe commits_respond

lemma core_booking: "commits core_step m \<Longrightarrow> commits booking_step m"
  by (erule commits_mono) (simp add: booking_step_def)

lemma list_trips_commits: "commits S (list_trips status limit user)"
  unfolding list_trips_def select_trips_def
  by (auto intro!: commits_if commits_throw select_commits commits_await commits_ret simp: Let_def
      split: option.split)

lemma byId_commits: "commits S (byId X i user)"
  unfolding byId_def
  by (intro commits_await select_commits commits_list commits_throw commits_ret)

lemma trips_controller_commits: "commits core_step (trips_controller X V r user)"
  by (cases r) (simp_all, auto intro!: pipes create_commits list_trips_commits byId_commits
      cancel_commits start_commits complete_commits rate_commits)

lemma vehicles_controller_commits: "commits core_step (vehicles_controller X r user)"
  by (cases r) (simp_all, auto intro!: pipes create_vehicle_commits create_vehicle_dto_ok update_commits vehicle_commits)

lemma auth_controller_commits: "commits core_step (auth_controller X V A r)"
  by (cases r) (simp_all, auto intro!: pipes signup_commits signup_role login_commits demoLogin_commits)

text \<open>A request that sets a driver online; every other one keeps the core steps.\<close>

fun sets_online :: "activity \<Rightarrow> bool" where
  "sets_online (DriversCall token (PatchStatus i body)) \<longleftrightarrow>
     (case body of Some b \<Rightarrow> jget b ''status'' = Some (JStr ''online'') | None \<Rightarrow> False)"
| "sets_online _ \<longleftrightarrow> False"

lemma setStatus_core:
  assumes "status \<noteq> Some (JStr ''online'')"
  shows "commits core_step (setStatus v status)"
proof -
  have not_online: "st \<noteq> Online" if "runtime_status status = Some st" for st
    using assms that by (induction status rule: runtime_status.induct) (auto split: if_splits)
  have "commits core_step (query (update_status v st))" if "runtime_status status = Some st" for st
    using runtime_status_not_suspended [OF that] not_online [OF that]
    by (intro commits_query r_into_rtranclp) (auto simp: update_status_def Let_def intro: core_step.patch_status)
  then show ?thesis
    unfolding setStatus_def select_location_def
    by (auto intro!: commits_throw commits_await commits_list commits_if commits_option commits_ret
        commits_servers select_commits split: option.split)
qed

lemma drivers_controller_commits: "commits booking_step (drivers_controller X r user)"
  by (cases r) (simp_all, auto intro!: pipes setStatus_commits commits_neutral [OF nearby_neutral] commits_if
      commits_throw split: option.split json.split)

lemma drivers_controller_core:
  assumes "\<not> sets_online (DriversCall token r)"
  shows "commits core_step (drivers_controller X r user)"
proof (cases r)
  case (GetNearby lon lat radius)
  then show ?thesis by (auto intro!: pipes commits_neutral [OF nearby_neutral])
next
  case (PatchStatus i body)
  then have "commits core_step (setStatus i (jget b ''status''))" if "body = Some b" for b
    using assms that by (intro setStatus_core) simp
  then show ?thesis
    using PatchStatus
    by (auto intro!: pipes commits_if commits_throw split: option.split json.split)
qed

lemma metrics_endpoint_commits: "commits S (metrics_endpoint m)"
proof -
  have "commits S zcard"
    unfolding zcard_def by (intro commits_neutral db_neutral_call db_neutral_simple)
  then show ?thesis
    unfolding metrics_endpoint_def refreshGauges_def count_online_def
    by (auto intro!: commits_await commits_get commits_if commits_ret commits_try select_commits simp: Let_def)
qed

lemma perform_core:
  assumes "\<not> sets_online a"
  shows "commits core_step (perform D a)"
proof (cases a)
  case (DriversCall token r)
  then show ?thesis using assms by (auto intro!: pipes drivers_controller_core)
next
  case (SurgeReport token)
  then show ?thesis by (auto intro!: pipes select_commits simp: admin_surge_def)
qed (auto intro!: pipes trips_controller_commits vehicles_controller_commits auth_controller_commits
    me_commits metrics_endpoint_commits ingest_commits handleTripEvent_commits publishPending_commits)

lemma perform_commits: "commits booking_step (perform D a)"
proof (cases "sets_online a")
  case True
  then show ?thesis
    by (cases a rule: sets_online.cases) (auto intro!: pipes drivers_controller_commits simp del: drivers_controller.simps)
qed (rule core_booking [OF perform_core])

section \<open>The steps of the system\<close>

text \<open>The state is the world, the engine of the surge worker and the sockets of the gateway; \<open>P\<close>
  says which calls are made at all.\<close>

type_synonym ride = "world \<times> surge_engine \<times> gateway"

inductive ride_step :: "deployment \<Rightarrow> (activity \<Rightarrow> bool) \<Rightarrow> ride \<Rightarrow> ride \<Rightarrow> bool" for D P where
  handles: "P a \<Longrightarrow> perform D a w = (r, w') \<Longrightarrow> ride_step D P (w, g, q) (w', g, q)"
| counts: "onTripEvent (dp_ext D) message (w, g) = (r, (w', g')) \<Longrightarrow> ride_step D P (w, g, q) (w', g', q)"
| ticks: "tick (dp_ext D) (w, g) = (r, (w', g')) \<Longrightarrow> ride_step D P (w, g, q) (w', g', q)"
| flushes: "flushToDb (w, g) = (r, (w', g')) \<Longrightarrow> ride_step D P (w, g, q) (w', g', q)"
| starts_surge:
    "loadZones (w, new_SurgeEngine config) = (r, (w', g')) \<Longrightarrow> ride_step D P (w, g, q) (w', g', q)"
| connects:
    "handshake (dp_decode D) (dp_hmac D) now (dp_secret D) authToken header = Inr user \<Longrightarrow>
     i \<notin> sk_id ` set (gw_sockets q) \<Longrightarrow> ride_step D P (w, g, q) (w, g, ws_connect i user q)"
| leaves: "ride_step D P (w, g, q) (w, g, ws_disconnect i q)"
| subscribes_trip:
    "sock \<in> set (gw_sockets q) \<Longrightarrow> trip_subscribe sock tripId (w, q) = (r, (w', q')) \<Longrightarrow>
     ride_step D P (w, g, q) (w', g, q')"
| subscribes_driver:
    "sock \<in> set (gw_sockets q) \<Longrightarrow> driver_subscribe sock driverId (w, q) = (r, (w', q')) \<Longrightarrow>
     ride_step D P (w, g, q) (w', g, q')"
| fans_out:
    "ride_step D P (w, g, q) (w, g, fanout (dp_tripTopic D) (dp_locationTopic D) message q)"
| elapses:
    "ride_step D P (w, g, q) (w\<lparr>w_faults := faults, w_sys := (w_sys w)\<lparr>sys_now := now\<rparr>\<rparr>, g, q)"
| restarts_api:
    "ride_step D P (w, g, q) (w\<lparr>w_outboxRunning := False, w_tripMetrics := []\<rparr>, g, q)"

definition runs :: "deployment \<Rightarrow> (activity \<Rightarrow> bool) \<Rightarrow> ride \<Rightarrow> ride \<Rightarrow> bool" where
  "runs D P = (ride_step D P)\<^sup>*\<^sup>*"

definition any :: "activity \<Rightarrow> bool" where "any a = True"

text \<open>What a run needs of the state it starts in: no transaction is open.\<close>

fun ride_db :: "ride \<Rightarrow> db" where "ride_db (w, g, q) = w_db w"

fun ride_idle :: "ride \<Rightarrow> bool" where "ride_idle (w, g, q) \<longleftrightarrow> w_tx w = None"

fun ride_sockets :: "ride \<Rightarrow> gateway" where "ride_sockets (w, g, q) = q"

lemma commit_relD: "commit_rel S w w' \<Longrightarrow> w_tx w = None \<Longrightarrow> w_tx w' = None \<and> S\<^sup>*\<^sup>* (w_db w) (w_db w')"
  by (simp add: commit_rel_def)

lemma commits_run: "commits S m \<Longrightarrow> m w = (r, w') \<Longrightarrow> commit_rel S w w'"
  unfolding commits_def keeps_def by (metis snd_conv)

lemma surge_run:
  assumes "world_keeps S m" and "m (w, g) = (r, (w', g'))"
  shows "commit_rel S w w'"
proof -
  have "case snd (m (w, g)) of (w', g') \<Rightarrow> commit_rel S w w'"
    using assms(1) unfolding world_keeps_def keeps_def by (metis case_prod_conv)
  then show ?thesis by (simp add: assms(2))
qed

lemma loadZones_commits: "world_keeps S loadZones"
  unfolding loadZones_def
  by (intro world_keeps_await world_keeps_on_world select_commits world_keeps_engine)

lemma by_uuid_commits: "commits S (query (by_uuid v (\<lambda>p. select (f p))))"
  by (intro commits_query) (auto simp: by_uuid_def select_def split: sum.splits)

lemma canSubscribe_commits: "commits S (canSubscribeToTrip u i)" "commits S (canSubscribeToDriver u i)"
  unfolding canSubscribeToTrip_def canSubscribeToDriver_def
  by (intro commits_if commits_ret commits_await select_commits by_uuid_commits)+

lemma ws_runs:
  "trip_subscribe sock i (w, q) = (r, (w', q')) \<Longrightarrow> commit_rel S w w'"
  "driver_subscribe sock i (w, q) = (r, (w', q')) \<Longrightarrow> commit_rel S w w'"
  using commits_run [OF canSubscribe_commits(1)] commits_run [OF canSubscribe_commits(2)]
  by (auto simp: trip_subscribe_def driver_subscribe_def ws_update_def ws_world_def await_def set_state_def
      commit_rel.R_refl split: if_splits prod.splits sum.splits)

lemma ride_step_commits:
  assumes "ride_step D P s s'" and "\<And>a. P a \<Longrightarrow> commits S (perform D a)" and "\<And>d d'. core_step d d' \<Longrightarrow> S d d'"
  shows "commit_rel S (fst s) (fst s')"
  using assms(1)
proof cases
  case (flushes w g r w' g' q)
  have "commit_rel core_step w w'" by (rule surge_run [OF flushToDb_commits flushes(3)])
  then have "commit_rel S w w'"
    unfolding commit_rel_def by (metis assms(3) mono_rtranclp)
  then show ?thesis by (simp add: flushes)
qed (auto simp: commit_rel.R_refl commits_run [OF assms(2)] surge_run [OF onTripEvent_commits]
    surge_run [OF tick_commits] surge_run [OF loadZones_commits] ws_runs, auto simp: commit_rel_def)

lemma runs_commits:
  assumes "runs D P s s'" and "\<And>a. P a \<Longrightarrow> commits S (perform D a)" and "\<And>d d'. core_step d d' \<Longrightarrow> S d d'"
  shows "commit_rel S (fst s) (fst s')"
  using assms(1) unfolding runs_def
  by (induction rule: rtranclp_induct)
    (auto intro: commit_rel.R_refl commit_rel.R_trans ride_step_commits [OF _ assms(2,3)])

lemma runs_booking:
  assumes "runs D P s s'" and "ride_idle s"
  shows "ride_idle s' \<and> booking_step\<^sup>*\<^sup>* (ride_db s) (ride_db s')"
proof -
  have "commit_rel booking_step (fst s) (fst s')"
    by (rule runs_commits [OF assms(1) perform_commits]) (simp add: booking_step_def)
  with assms(2) show ?thesis by (cases s; cases s') (auto dest: commit_relD)
qed

lemma runs_core:
  assumes "runs D (\<lambda>a. \<not> sets_online a) s s'" and "ride_idle s"
  shows "core_step\<^sup>*\<^sup>* (ride_db s) (ride_db s')"
proof -
  have "commit_rel core_step (fst s) (fst s')"
    by (rule runs_commits [OF assms(1) perform_core])
  with assms(2) show ?thesis by (cases s; cases s') (auto dest: commit_relD)
qed

end
