(* ===== verification/SampleCity.thy ===== *)
theory SampleCity
  imports RideSystem
begin

text \<open>
  A concrete deployment and a small database: a rider, a driver with a vehicle and a position, an
  administrator and one requested trip. The properties of the whole system are applied to it, so
  that every hypothesis is seen to hold somewhere.
\<close>

section \<open>The deployment\<close>

text \<open>Identifiers in the form of a UUID.\<close>

definition uuid_of :: "char \<Rightarrow> string" where
  "uuid_of c = replicate 8 c @ ''-'' @ replicate 4 c @ ''-'' @ replicate 4 c @ ''-'' @ replicate 4 c
     @ ''-'' @ replicate 12 c"

definition rider1 :: string where "rider1 = uuid_of (CHR ''1'')"
definition driver2 :: string where "driver2 = uuid_of (CHR ''2'')"
definition vehicle3 :: string where "vehicle3 = uuid_of (CHR ''3'')"
definition trip4 :: string where "trip4 = uuid_of (CHR ''4'')"
definition admin5 :: string where "admin5 = uuid_of (CHR ''5'')"

definition sample_ext :: ext where
  "sample_ext = \<lparr>x_uuid = (\<lambda>n. if n = 0 then uuid_of (CHR ''a'') else uuid_of (CHR ''b'')),
     x_distance = (\<lambda>p q. 1000), x_covers = (\<lambda>z p. False), x_geo_distance = (\<lambda>p q. 10),
     x_asGeoJSON = (\<lambda>p. ''{}''), x_parseJson = (\<lambda>s. None)\<rparr>"

definition claims_of :: "string \<Rightarrow> string \<Rightarrow> json" where
  "claims_of sub role = JObj [(''sub'', JStr sub), (''role'', JStr role)]"

definition sample_auth :: auth_ext where
  "sample_auth = \<lparr>ax_hash = (\<lambda>p. ''#'' @ p), ax_verify = (\<lambda>h p. h = ''#'' @ p),
     ax_sign = (\<lambda>now sub role. role),
     ax_verifyToken = (\<lambda>now token.
       if token = ''rider'' then Some (claims_of rider1 ''rider'')
       else if token = ''driver'' then Some (claims_of driver2 ''driver'')
       else if token = ''admin'' then Some (claims_of admin5 ''admin'')
       else None)\<rparr>"

definition sample_validators :: validators where
  "sample_validators = \<lparr>vx_isEmail = (\<lambda>v. True),
     vx_isLatitude = (\<lambda>v. case v of JNum q \<Rightarrow> \<bar>q\<bar> \<le> 90 | _ \<Rightarrow> False),
     vx_isLongitude = (\<lambda>v. case v of JNum q \<Rightarrow> \<bar>q\<bar> \<le> 180 | _ \<Rightarrow> False)\<rparr>"

definition sample_decode :: "string \<Rightarrow> json option" where
  "sample_decode s =
     (if s = ''h'' then Some (JObj [(''alg'', JStr ''HS256'')])
      else if s = ''rider'' then Some (claims_of rider1 ''rider'')
      else if s = ''driver'' then Some (claims_of driver2 ''driver'')
      else None)"

definition city :: deployment where
  "city = \<lparr>dp_ext = sample_ext, dp_validators = sample_validators, dp_auth = sample_auth,
     dp_decode = sample_decode, dp_hmac = (\<lambda>k s. ''sig''), dp_secret = ''secret'',
     dp_tripTopic = ''trips'', dp_locationTopic = ''locations'', dp_polygonText = (\<lambda>s. s)\<rparr>"

definition as_rider :: "string option" where "as_rider = Some ''Bearer rider''"
definition as_driver :: "string option" where "as_driver = Some ''Bearer driver''"

section \<open>The database\<close>

definition centre :: point where "centre = \<lparr>pt_lon = 69, pt_lat = 41\<rparr>"

definition sample_user :: "string \<Rightarrow> string \<Rightarrow> string \<Rightarrow> user_row" where
  "sample_user i role phone = \<lparr>us_id = i, us_role = role, us_full_name = role, us_email = phone @ ''@x'',
     us_phone = phone, us_password_hash = ''#password'', us_is_active = True, us_created_at = 0\<rparr>"

definition sample_driver :: driver_row where
  "sample_driver = \<lparr>dr_user_id = driver2, dr_license_number = ''L-1'',
     dr_license_expires_on = ''2030-01-01'', dr_status = Online, dr_rating_avg = 5, dr_rating_count = 0\<rparr>"

definition sample_vehicle :: vehicle_row where
  "sample_vehicle = \<lparr>ve_id = vehicle3, ve_driver_id = driver2, ve_plate = ''01A123BC'',
     ve_make = ''Chevrolet'', ve_model = ''Cobalt'', ve_year = 2022, ve_color = ''White'',
     ve_capacity = 4, ve_is_active = True, ve_created_at = 0\<rparr>"

definition sample_trip :: trip_row where
  "sample_trip = \<lparr>tr_id = trip4, tr_rider_id = rider1, tr_driver_id = None, tr_vehicle_id = None,
     tr_status = Requested, tr_pickup = centre, tr_dropoff = centre, tr_pickup_address = None,
     tr_dropoff_address = None, tr_requested_at = 1, tr_matched_at = None, tr_started_at = None,
     tr_completed_at = None, tr_fare_total = None, tr_currency = ''USD''\<rparr>"

definition sample_db :: db where
  "sample_db = \<lparr>db_users = [sample_user rider1 ''rider'' ''+100000001'',
       sample_user driver2 ''driver'' ''+100000002'', sample_user admin5 ''admin'' ''+100000005''],
     db_drivers = [sample_driver], db_vehicles = [sample_vehicle],
     db_driver_locations = [\<lparr>dl_driver_id = driver2, dl_location = centre, dl_heading_deg = None,
       dl_speed_mps = None, dl_updated_at = 0\<rparr>],
     db_surge_zones = [], db_trips = [sample_trip],
     db_trip_events = [event_row 0 1 trip4 ''requested'' []],
     db_fare_records = [], db_trip_ratings = []\<rparr>"

definition sample_env :: env where
  "sample_env name =
     (if name = ''TOPIC_TRIP_EVENTS'' then Some ''trips''
      else if name = ''FARE_BASE_USD'' then Some ''1'' else if name = ''FARE_PER_KM_USD'' then Some ''1''
      else if name = ''FARE_PER_MIN_USD'' then Some ''1'' else None)"

definition sample_world :: world where
  "sample_world = \<lparr>w_db = sample_db, w_tx = None,
     w_sys = \<lparr>sys_now = 100000, sys_uuids = 0, sys_events = 1\<rparr>,
     w_geo = [(driver2, centre)], w_surge = [], w_kafka = [], w_faults = [], w_env = sample_env,
     w_outboxRunning = False, w_tripMetrics = []\<rparr>"

definition sample_engine :: surge_engine where
  "sample_engine = new_SurgeEngine \<lparr>sc_flushMs = 60000, sc_maxMultiplier = 3, sc_thresholdHigh = 2,
     sc_thresholdLow = 1, sc_windowMs = 300000\<rparr>"

definition sample_ride :: ride where
  "sample_ride = (sample_world, sample_engine, \<lparr>gw_sockets = [], gw_emitted = []\<rparr>)"

definition requested_message :: kafka_message where
  "requested_message = \<lparr>km_topic = ''trips'', km_key = Some trip4,
     km_value = Some (JsonText (JObj [(''type'', JStr ''trip.requested''), (''trip_id'', JStr trip4)]))\<rparr>"

section \<open>Running it\<close>

text \<open>The calls one after the other.\<close>

definition perform_all :: "deployment \<Rightarrow> activity list \<Rightarrow> world \<Rightarrow> world" where
  "perform_all D as w = foldl (\<lambda>w a. snd (perform D a w)) w as"

lemma runs_perform:
  assumes "list_all P as"
  shows "runs D P (w, g, q) (perform_all D as w, g, q)"
  using assms
proof (induction as rule: rev_induct)
  case Nil
  show ?case by (simp add: runs_def perform_all_def)
next
  case (snoc a as)
  let ?w = "perform_all D as w"
  have "ride_step D P (?w, g, q) (snd (perform D a ?w), g, q)"
    by (rule ride_step.handles [where r = "fst (perform D a ?w)"]) (use snoc.prems in simp_all)
  moreover have "perform_all D (as @ [a]) w = snd (perform D a ?w)"
    by (simp add: perform_all_def)
  ultimately show ?case
    using snoc by (simp add: runs_def)
qed

lemma sample_idle: "ride_idle sample_ride"
  by (simp add: sample_ride_def sample_world_def)

lemma sample_uuids: "rider1 \<noteq> driver2" "rider1 \<noteq> admin5" "driver2 \<noteq> admin5"
  by (code_simp, code_simp, code_simp)

lemma sample_db_ok: "db_ok sample_db"
proof -
  have "replay sample_db trip4 = Some Requested" by code_simp
  then show ?thesis
    using sample_uuids
    by (simp add: db_ok_def bookings_ok_def keys_ok_def trip_ok_def user_ids_def driver_ids_def log_ok_def
        fares_ok_def ratings_ok_def sample_db_def sample_trip_def sample_driver_def sample_user_def)
qed

lemma sample_exclusive: "exclusive sample_db"
  by (simp add: exclusive_def sample_db_def sample_trip_def active_def)

definition status_after :: "activity list \<Rightarrow> trip_status option" where
  "status_after as = map_option tr_status (trip_of (w_db (perform_all city as sample_world)) trip4)"

lemma matched_example: "status_after [TripMessage requested_message] = Some Matched"
  by code_simp

end
