(* ===== verification/RideProperties.thy ===== *)
theory RideProperties
  imports SampleCity
begin

text \<open>
  What holds of the bookings after any run of the system, and the two places where it does not:
  the properties that span services.
\<close>

section \<open>Runs of the sample\<close>

definition as_admin :: "string option" where "as_admin = Some ''Bearer admin''"

definition ride_day :: "activity list" where
  "ride_day = [TripMessage requested_message, TripsCall as_driver (PostStart trip4)]"

lemma ride_day_runs:
  "runs city any sample_ride (perform_all city ride_day sample_world, snd sample_ride)"
  unfolding sample_ride_def snd_conv by (rule runs_perform) (simp add: any_def ride_day_def)

lemma ride_day_quiet:
  "runs city (\<lambda>a. \<not> sets_online a) sample_ride (perform_all city ride_day sample_world, snd sample_ride)"
  unfolding sample_ride_def snd_conv by (rule runs_perform) (simp add: ride_day_def)

lemma ride_db_pair [simp]: "ride_db (w, gq) = w_db w"
  by (cases gq) simp

lemma sample_trip_found: "trip_of sample_db trip4 = Some sample_trip"
  by (simp add: trip_of_def sample_db_def sample_trip_def)

lemma sample_ride_db: "ride_db sample_ride = sample_db"
  by (simp add: sample_ride_def sample_world_def)

lemma ride_day_starts: "status_after ride_day = Some InProgress"
  by code_simp

section \<open>Trips\<close>

text \<open>C1. Whatever the services do, in whatever order, on whatever input and however their calls to
  the servers fail, a trip that exists stays with its rider, its route and its request time, and its
  status only moves forward: requested, matched, in progress, completed, or cancelled before it
  starts. Once it is completed or cancelled its row never changes again.\<close>

theorem trips_move_forward:
  assumes "runs D P s s'" and "ride_idle s" and "db_ok (ride_db s)"
    and "trip_of (ride_db s) tripId = Some t"
  shows "\<exists>t'. trip_of (ride_db s') tripId = Some t' \<and> same_order t t' \<and>
    (tr_status t, tr_status t') \<in> trip_edge\<^sup>* \<and> (terminal (tr_status t) \<longrightarrow> t' = t)"
proof -
  have "trip_follows (ride_db s) (ride_db s') tripId"
    using runs_booking [OF assms(1,2)] trip_follows_steps assms(3) by blast
  then show ?thesis using assms(4) by (auto simp: trip_follows_def split: option.splits)
qed

theorem trips_move_forward_witness:
  "\<exists>t'. trip_of (w_db (perform_all city ride_day sample_world)) trip4 = Some t' \<and>
     (Requested, tr_status t') \<in> trip_edge\<^sup>* \<and> tr_status t' = InProgress"
  using trips_move_forward [OF ride_day_runs sample_idle, of trip4 sample_trip] sample_db_ok sample_trip_found
    ride_day_starts
  by (auto simp: sample_ride_db status_after_def) (auto simp: sample_trip_def)

text \<open>C2. The database stays consistent over any run: identifiers are unique; a trip has a driver and a
  vehicle exactly from its match on; the status of a trip is what its events in the outbox add up to;
  a completed trip has one fare record, with its total and a surge of at least one; a rating is
  between one and five stars, by the rider, of the driver, of a completed trip, at most one per trip.\<close>

theorem database_stays_consistent:
  assumes "runs D P s s'" and "ride_idle s" and "db_ok (ride_db s)"
  shows "db_ok (ride_db s')"
  using runs_booking [OF assms(1,2)] db_ok_steps assms(3) by blast

theorem database_stays_consistent_witness:
  "db_ok (w_db (perform_all city ride_day sample_world)) \<and> status_after ride_day = Some InProgress"
  using database_stays_consistent [OF ride_day_runs sample_idle] sample_db_ok ride_day_starts
  by (simp add: sample_ride_db)

text \<open>C3. No driver is booked twice: as long as no call sets a driver's status to online by hand, in
  every reachable state the trips that are matched or in progress have different drivers, and none of
  these drivers is on offer as online.\<close>

theorem drivers_are_exclusive:
  assumes "runs D (\<lambda>a. \<not> sets_online a) s s'" and "ride_idle s"
    and "db_ok (ride_db s)" and "exclusive (ride_db s)"
    and "t \<in> set (db_trips (ride_db s'))" and "active t" and "tr_driver_id t = Some driverId"
  shows "(\<forall>t' \<in> set (db_trips (ride_db s')). active t' \<and> tr_driver_id t' = Some driverId \<longrightarrow> t' = t) \<and>
    (\<forall>r \<in> set (db_drivers (ride_db s')). dr_user_id r = driverId \<longrightarrow> dr_status r \<noteq> Online)"
proof -
  have "exclusive (ride_db s')"
    using core_steps_ok [OF runs_core [OF assms(1,2)] assms(3,4)] by blast
  from exclusiveD [OF this assms(5,6)] assms(7) show ?thesis by metis
qed

definition after_match :: db where
  "after_match = w_db (perform_all city [TripMessage requested_message] sample_world)"

lemma after_match_trip: "\<exists>t. db_trips after_match = [t] \<and> active t \<and> tr_driver_id t = Some driver2"
proof -
  have "map (\<lambda>t. (tr_status t, tr_driver_id t)) (db_trips after_match) = [(Matched, Some driver2)]"
    by code_simp
  then show ?thesis by (auto simp: active_def)
qed

theorem drivers_are_exclusive_witness:
  "Online \<notin> dr_status ` {r \<in> set (db_drivers after_match). dr_user_id r = driver2}"
proof -
  have run: "runs city (\<lambda>a. \<not> sets_online a) sample_ride
      (perform_all city [TripMessage requested_message] sample_world, snd sample_ride)"
    unfolding sample_ride_def snd_conv by (rule runs_perform) simp
  obtain t where "db_trips after_match = [t]" "active t" "tr_driver_id t = Some driver2"
    using after_match_trip by blast
  then show ?thesis
    using drivers_are_exclusive [OF run sample_idle, of t driver2] sample_db_ok sample_exclusive
    by (auto simp: sample_ride_db after_match_def)
qed

definition double_booking :: "activity list" where
  "double_booking =
     [TripMessage requested_message,
      DriversCall as_driver (PatchStatus driver2 (Some (JObj [(''status'', JStr ''online'')]))),
      TripsCall as_rider (PostTrip (Some (JObj
        [(''pickup'', JObj [(''lat'', JNum 41), (''lon'', JNum 69)]),
         (''dropoff'', JObj [(''lat'', JNum 41), (''lon'', JNum 69)])]))),
      TripMessage \<lparr>km_topic = ''trips'', km_key = None, km_value = Some (JsonText (JObj
        [(''type'', JStr ''trip.requested''), (''trip_id'', JStr (uuid_of (CHR ''a'')))]))\<rparr>]"

text \<open>The exception is real, and the endpoints reach it: after the match, the driver sets the status to
  online (\<open>PATCH /drivers/:id/status\<close> looks at no trip), a rider requests another trip, and the matcher
  books the same driver for it, so that one driver has two matched trips.
  (\<open>ApiProperties.online_by_hand_double_books\<close> is the general statement.)\<close>

theorem double_booking_of_sample:
  "runs city any sample_ride (perform_all city double_booking sample_world, snd sample_ride) \<and>
   map (\<lambda>t. (tr_id t, tr_status t, tr_driver_id t))
     (db_trips (w_db (perform_all city double_booking sample_world))) =
   [(trip4, Matched, Some driver2), (uuid_of (CHR ''a''), Matched, Some driver2)]"
proof
  show "runs city any sample_ride (perform_all city double_booking sample_world, snd sample_ride)"
    unfolding sample_ride_def snd_conv by (rule runs_perform) (simp add: any_def double_booking_def)
qed code_simp

text \<open>C4. Every handler of every service implements the booking specification: called with no open
  transaction, it leaves none open and takes the committed database through steps of
  \<open>booking_step\<close> only, under every fault schedule and whether or not it throws.\<close>

theorem handlers_refine_spec:
  assumes "perform D a w = (r, w')" and "w_tx w = None"
  shows "w_tx w' = None \<and> booking_step\<^sup>*\<^sup>* (w_db w) (w_db w')"
  using commit_relD [OF commits_run [OF perform_commits assms(1)] assms(2)] .

theorem handlers_refine_spec_witness:
  "\<exists>w'. snd (perform city (TripMessage requested_message) sample_world) = w' \<and>
     booking_step\<^sup>*\<^sup>* sample_db (w_db w')"
  using handlers_refine_spec [of city "TripMessage requested_message" sample_world, OF surjective_pairing]
  by (simp add: sample_world_def del: perform.simps)

end
