(* ===== verification/RegistryInvariant.thy ===== *)
theory RegistryInvariant
  imports BookingSpec
begin

text \<open>
  The steps of \<open>BookingSpec\<close> keep the accounts, the drivers and the vehicles well typed, and no step
  adds an administrator or changes an account.
\<close>

lemma step_vehicles [simp]:
  "db_vehicles (log_event eid now tid ty p d) = db_vehicles d"
  "db_vehicles (with_driver_status v st d) = db_vehicles d"
  "db_vehicles (with_trips q u d) = db_vehicles d"
  "db_vehicles (free_driver v' d) = db_vehicles d"
  by (simp_all add: log_event_def with_driver_status_def with_trips_def free_driver_def split: option.split)

lemma core_step_grows: "core_step d d' \<Longrightarrow> accounts_grow d d'"
  by (induction rule: core_step.induct) (auto intro: accounts_grow_same registry_step_grows)

lemma booking_step_grows: "booking_step d d' \<Longrightarrow> accounts_grow d d'"
  by (auto simp: booking_step_def intro: core_step_grows accounts_grow_same dest: online_mid_trip_same(2))

lemma booking_steps_grow: "booking_step\<^sup>*\<^sup>* d d' \<Longrightarrow> accounts_grow d d'"
  by (induction rule: rtranclp_induct)
    (auto intro: accounts_grow_same accounts_grow_trans booking_step_grows)

text \<open>A step that changes statuses and trips, but no driver's identity and no vehicle.\<close>

definition same_registry :: "db \<Rightarrow> db \<Rightarrow> bool" where
  "same_registry d d' \<longleftrightarrow> db_users d' = db_users d \<and> db_vehicles d' = db_vehicles d \<and>
     map dr_user_id (db_drivers d') = map dr_user_id (db_drivers d) \<and>
     map dr_license_number (db_drivers d') = map dr_license_number (db_drivers d)"

lemma same_registry_ok:
  assumes "same_registry d d'" and ok: "registry_ok d"
    and trips: "\<And>t' i. t' \<in> set (db_trips d') \<Longrightarrow> tr_vehicle_id t' = Some i \<Longrightarrow>
      (\<exists>t \<in> set (db_trips d). tr_vehicle_id t = Some i \<and> tr_driver_id t' = tr_driver_id t) \<or>
      (\<exists>v \<in> set (db_vehicles d). ve_id v = i \<and> tr_driver_id t' = Some (ve_driver_id v))"
  shows "registry_ok d'"
proof -
  note same = assms(1) [unfolded same_registry_def]
  from same have ids: "dr_user_id ` set (db_drivers d') = dr_user_id ` set (db_drivers d)"
    by (metis list.set_map)
  have "\<exists>u \<in> set (db_users d'). us_id u = dr_user_id r \<and> us_role u = ''driver''" if "r \<in> set (db_drivers d')" for r
  proof -
    have "dr_user_id r \<in> dr_user_id ` set (db_drivers d)" using that ids by blast
    with ok same show ?thesis by (force simp: registry_ok_def accounts_ok_def)
  qed
  then have "accounts_ok d'" using ok same by (simp add: registry_ok_def accounts_ok_def)
  moreover have "\<exists>v \<in> set (db_vehicles d'). ve_id v = i \<and> tr_driver_id t' = Some (ve_driver_id v)"
    if "t' \<in> set (db_trips d')" "tr_vehicle_id t' = Some i" for t' i
    using trips [OF that] ok same unfolding registry_ok_def fleet_ok_def by metis
  ultimately show ?thesis using ok same ids by (simp add: registry_ok_def fleet_ok_def)
qed

lemma drivers_renamed:
  assumes "\<And>r. dr_user_id (u r) = dr_user_id r \<and> dr_license_number (u r) = dr_license_number r"
  shows "map dr_user_id (update_rows p u rows) = map dr_user_id rows"
    and "map dr_license_number (update_rows p u rows) = map dr_license_number rows"
  using assms by (simp_all add: map_update_rows)

lemma same_registry_steps:
  "same_registry d (log_event eid now tid ty p d') = same_registry d d'"
  "same_registry d (with_trips q f d') = same_registry d d'"
  "same_registry d (with_driver_status v st d') = same_registry d d'"
  "same_registry d (free_driver v' d') = same_registry d d'"
  by (simp_all add: same_registry_def with_driver_status_drivers free_driver_drivers drivers_renamed
      split: option.split)

lemma vehicle_kept:
  assumes "t' \<in> set (update_rows p u rows)"
    and "\<And>t. tr_vehicle_id (u t) = tr_vehicle_id t \<and> tr_driver_id (u t) = tr_driver_id t"
  shows "\<exists>t \<in> set rows. tr_vehicle_id t = tr_vehicle_id t' \<and> tr_driver_id t' = tr_driver_id t"
  using assms by (auto simp: update_rows_def split: if_splits)

lemma registry_ok_step:
  assumes "core_step d d'" and ok: "registry_ok d"
  shows "registry_ok d'"
  using assms(1)
proof cases
  case (match_trip r driverId v t tid eid now payload since)
  have "same_registry d d'" unfolding match_trip(1) same_registry_steps by (simp add: same_registry_def)
  then show ?thesis
    by (rule same_registry_ok [OF _ ok])
      (use match_trip in \<open>auto simp: match_trip(1) update_rows_def split: if_splits\<close>)
next
  case (request_trip t eid now payload)
  have "same_registry d d'" unfolding request_trip(1) same_registry_steps by (simp add: same_registry_def)
  then show ?thesis
    by (rule same_registry_ok [OF _ ok]) (use request_trip in \<open>auto simp: request_trip(1)\<close>)
next
  case (cancel_trip t tid actorId by_driver eid payload now)
  have "same_registry d d'" unfolding cancel_trip(1) same_registry_steps by (simp add: same_registry_def)
  then show ?thesis
    by (rule same_registry_ok [OF _ ok]) (auto simp: cancel_trip(1) update_rows_def split: if_splits)
next
  case (start_trip t tid driverId eid now payload since)
  have "same_registry d d'" unfolding start_trip(1) same_registry_steps by (simp add: same_registry_def)
  then show ?thesis
    by (rule same_registry_ok [OF _ ok]) (auto simp: start_trip(1) update_rows_def split: if_splits)
next
  case (complete_trip t tid driverId eid f fares' now payload since)
  have "same_registry d d'"
    unfolding complete_trip(1) same_registry_steps
    by (simp add: same_registry_def with_trips_def)
  moreover have "\<exists>t \<in> set (db_trips d). tr_vehicle_id t = tr_vehicle_id t' \<and> tr_driver_id t' = tr_driver_id t"
    if "t' \<in> set (db_trips d')" for t'
  proof -
    let ?p = "\<lambda>t. tr_id t = tid \<and> tr_driver_id t = Some driverId \<and> tr_status t = InProgress"
    let ?u = "\<lambda>t :: trip_row. t\<lparr>tr_status := Completed, tr_completed_at := Some since\<rparr>"
    have "t' \<in> set (update_rows (\<lambda>t. tr_id t = tid) (\<lambda>t. t\<lparr>tr_fare_total := Some (fr_total f), tr_currency := ''USD''\<rparr>)
        (update_rows ?p ?u (db_trips d)))" using that by (simp add: complete_trip(1))
    from vehicle_kept [OF this] obtain t1 where "t1 \<in> set (update_rows ?p ?u (db_trips d))"
      "tr_vehicle_id t1 = tr_vehicle_id t'" "tr_driver_id t' = tr_driver_id t1" by auto
    with vehicle_kept [OF this(1)] show ?thesis by auto
  qed
  ultimately show ?thesis by (intro same_registry_ok [OF _ ok]) metis+
next
  case (rate_trip t tid riderId driverId stars eid f now payload comment)
  have "same_registry d d'"
    unfolding rate_trip(1) same_registry_steps using rate_trip(11) by (simp add: same_registry_def drivers_renamed)
  then show ?thesis by (rule same_registry_ok [OF _ ok]) (auto simp: rate_trip(1))
next
  case (publish_event f eid)
  then show ?thesis by (intro same_registry_ok [OF _ ok]) (auto simp: same_registry_def)
next
  case (patch_status st driverId)
  then show ?thesis by (intro same_registry_ok [OF _ ok]) (auto simp: same_registry_def drivers_renamed)
next
  case (ping r driverId locations)
  then show ?thesis
    by (intro same_registry_ok [OF _ ok]) (auto simp: same_registry_def with_driver_status_drivers drivers_renamed)
next
  case registers
  then show ?thesis using registry_step_ok ok by blast
qed

lemma registry_ok_booking:
  assumes "booking_step d d'" and "registry_ok d"
  shows "registry_ok d'"
proof (cases "core_step d d'")
  case False
  with assms(1) obtain v where "d' = d\<lparr>db_drivers := update_rows (\<lambda>r. dr_user_id r = v \<and> dr_status r \<noteq> Suspended)
      (\<lambda>r. r\<lparr>dr_status := Online\<rparr>) (db_drivers d)\<rparr>"
    by (auto simp: booking_step_def online_mid_trip_def)
  then show ?thesis
    by (intro same_registry_ok [OF _ assms(2)]) (auto simp: same_registry_def drivers_renamed)
qed (rule registry_ok_step [OF _ assms(2)])

lemma registry_ok_steps: "booking_step\<^sup>*\<^sup>* d d' \<Longrightarrow> registry_ok d \<Longrightarrow> registry_ok d'"
  by (induction rule: rtranclp_induct) (auto intro: registry_ok_booking)

end
