(* ===== verification/RegistryProperties.thy ===== *)
theory RegistryProperties
  imports SampleCity RegistryInvariant
begin

text \<open>
  The properties of accounts, drivers and vehicles over any run of the system.
\<close>

text \<open>C10. The registry stays well typed over any run, whatever is sent to the services and however
  their calls fail: accounts have unique identifiers, e-mail addresses and phones and one of the three
  roles; every driver is an account of role driver, with a licence of its own; every vehicle belongs
  to a driver and has a plate of 3 to 16 capitals, digits and dashes that no other vehicle has, and
  names, year and capacity within their limits; no driver has two active vehicles; and the vehicle of
  a trip exists and belongs to the driver of the trip.\<close>

theorem registry_stays_typed:
  assumes "runs D P s s'" and "ride_idle s" and "registry_ok (ride_db s)"
  shows "registry_ok (ride_db s')"
  using runs_booking [OF assms(1,2)] registry_ok_steps assms(3) by blast

definition fleet_day :: "activity list" where
  "fleet_day =
     [AuthCall None (PostSignup (Some (JObj
        [(''role'', JStr ''driver''), (''full_name'', JStr ''D''), (''email'', JStr ''d@x''),
         (''phone'', JStr ''+100000009''), (''password'', JStr ''long enough''),
         (''license_number'', JStr ''L-22''), (''license_expires_on'', JStr ''2031-02-28'')]))),
      VehiclesCall as_driver (PostVehicle (Some (JObj
        [(''plate'', JStr '' ab-12 ''), (''make'', JStr ''A''), (''model'', JStr ''B''), (''year'', JNum 2001),
         (''color'', JStr ''Red''), (''capacity'', JNum 4)]))),
      VehiclesCall as_driver (PatchVehicle (uuid_of (CHR ''b''))
        (Some (JObj [(''plate'', JStr ''cd-34''), (''is_active'', JBool True)]))),
      TripMessage requested_message]"

definition fleet_world :: world where
  "fleet_world = perform_all city fleet_day sample_world"

lemma fleet_day_runs:
  "runs city any sample_ride (fleet_world, snd sample_ride)"
  unfolding sample_ride_def snd_conv fleet_world_def by (rule runs_perform) (simp add: any_def fleet_day_def)

lemma sample_registry: "registry_ok sample_db"
proof -
  have plate: "plate_ok (ve_plate sample_vehicle)" by code_simp
  have names: "name_ok 64 (ve_make sample_vehicle)" "name_ok 64 (ve_model sample_vehicle)"
    "name_ok 32 (ve_color sample_vehicle)" by (code_simp, code_simp, code_simp)
  from plate names have "vehicle_ok sample_vehicle" by (simp add: vehicle_ok_def) (simp add: sample_vehicle_def)
  then have "fleet_ok sample_db"
    by (simp add: fleet_ok_def sample_db_def sample_trip_def vehicle_keys_ok_def)
      (simp add: sample_vehicle_def sample_driver_def)
  moreover have "accounts_ok sample_db"
    using sample_uuids by (simp add: accounts_ok_def sample_db_def sample_user_def sample_driver_def)
  ultimately show ?thesis by (simp add: registry_ok_def)
qed

theorem registry_stays_typed_witness:
  "registry_ok (w_db fleet_world) \<and>
   map (\<lambda>v. (ve_plate v, ve_is_active v)) (db_vehicles (w_db fleet_world)) =
     [(''01A123BC'', False), (''CD-34'', True)] \<and>
   map tr_vehicle_id (db_trips (w_db fleet_world)) = [Some (uuid_of (CHR ''b''))]"
proof -
  have "map (\<lambda>v. (ve_plate v, ve_is_active v)) (db_vehicles (w_db fleet_world)) =
     [(''01A123BC'', False), (''CD-34'', True)] \<and>
    map tr_vehicle_id (db_trips (w_db fleet_world)) = [Some (uuid_of (CHR ''b''))]" by code_simp
  moreover have "registry_ok (ride_db (fleet_world, snd sample_ride))"
    by (rule registry_stays_typed [OF fleet_day_runs sample_idle]) (simp add: sample_ride_def sample_world_def sample_registry)
  ultimately show ?thesis by (simp add: sample_ride_def)
qed

text \<open>C11. Nobody becomes an administrator: over any run, under any faults, the accounts that exist keep
  their rows, roles and password hashes included, and every account that is added is a rider or a
  driver, whatever role its sign-up asks for.\<close>

theorem nobody_becomes_admin:
  assumes "runs D P s s'" and "ride_idle s"
  shows "\<exists>us. db_users (ride_db s') = db_users (ride_db s) @ us \<and>
    (\<forall>u \<in> set us. us_role u = ''rider'' \<or> us_role u = ''driver'')"
  using booking_steps_grow [of "ride_db s" "ride_db s'"] runs_booking [OF assms] by (simp add: accounts_grow_def)

definition admin_attempt :: "activity list" where
  "admin_attempt = map (\<lambda>role. AuthCall None (PostSignup (Some (JObj
     [(''role'', JStr role), (''full_name'', JStr ''A''), (''email'', JStr role), (''phone'', JStr ''+100000009''),
      (''password'', JStr ''long enough'')])))) [''admin'', ''rider'']"

theorem nobody_becomes_admin_witness:
  "map us_role (db_users (w_db (perform_all city admin_attempt sample_world))) = [''rider'', ''driver'', ''admin'', ''rider''] \<and>
   filter (\<lambda>u. us_role u = ''admin'') (db_users (w_db (perform_all city admin_attempt sample_world))) =
   filter (\<lambda>u. us_role u = ''admin'') (db_users sample_db)"
proof -
  let ?w = "perform_all city admin_attempt sample_world"
  have run: "runs city any sample_ride (?w, snd sample_ride)"
    unfolding sample_ride_def snd_conv by (rule runs_perform) (simp add: any_def admin_attempt_def)
  have "map us_role (db_users (w_db ?w)) = [''rider'', ''driver'', ''admin'', ''rider'']" by code_simp
  moreover from nobody_becomes_admin [OF run sample_idle] obtain us where
    "db_users (w_db ?w) = db_users sample_db @ us" "\<forall>u \<in> set us. us_role u = ''rider'' \<or> us_role u = ''driver''"
    by (auto simp: sample_ride_def sample_world_def)
  moreover from this(2) have "filter (\<lambda>u. us_role u = ''admin'') us = []" by (auto simp: filter_empty_conv)
  ultimately show ?thesis by simp
qed

end
