(* ===== verification/GatewayProperties.thy ===== *)
theory GatewayProperties
  imports SampleCity
begin

text \<open>
  Who receives what over the WebSocket gateway, while the rest of the system runs: trip events are
  for the parties of the trip, a driver's position is given to those who may see it when they
  subscribe, and a room is not left when that changes.
\<close>

section \<open>The rooms of a running system\<close>

lemma party_steps:
  "booking_step\<^sup>*\<^sup>* d d' \<Longrightarrow> db_ok d \<Longrightarrow> party d tid uid \<Longrightarrow> party d' tid uid"
proof (induction rule: rtranclp_induct)
  case (step d1 d2)
  then show ?case using party_step [OF step(2) db_ok_steps [OF step(1)]] by blast
qed

lemma rooms_ok_steps:
  "booking_step\<^sup>*\<^sup>* d d' \<Longrightarrow> db_ok d \<Longrightarrow> rooms_ok d q \<Longrightarrow> rooms_ok d' q"
  using rooms_ok_mono party_steps by blast

lemma ride_rooms:
  assumes "ride_step D P s s'" and "ride_idle s" and "db_ok (ride_db s)"
    and rooms: "rooms_ok (ride_db s) (ride_sockets s)"
  shows "rooms_ok (ride_db s') (ride_sockets s')"
proof -
  have steps: "booking_step\<^sup>*\<^sup>* (ride_db s) (ride_db s')"
    using runs_booking [of D P s s'] assms(1,2) by (simp add: runs_def r_into_rtranclp)
  have same: "rooms_ok (ride_db s') (ride_sockets s)"
    using rooms_ok_steps [OF steps assms(3) rooms] .
  from assms(1) show ?thesis
  proof cases
    case (connects now authToken header user i q w g)
    then show ?thesis using rooms handshake_truthy [OF connects(3)]
      by (auto simp: rooms_ok_def ws_connect_def)
  next
    case (leaves w g q i)
    then show ?thesis using rooms by (auto simp: rooms_ok_def ws_disconnect_def distinct_map_filter)
  next
    case (subscribes_trip sock q tripId w r w' q' g)
    then show ?thesis using rooms assms(2) subscribe_trip_ok [of w q sock tripId r w' q'] by simp
  next
    case (subscribes_driver sock q driverId w r w' q' g)
    then show ?thesis using rooms assms(2) subscribe_driver_ok [of w q sock driverId r w' q'] by simp
  next
    case (fans_out w g q message)
    then show ?thesis using rooms by (simp add: rooms_ok_cong [OF fanout_sockets])
  qed (use same in simp_all)
qed

lemma runs_rooms:
  assumes "runs D P s s'" and "ride_idle s" and "db_ok (ride_db s)"
    and "rooms_ok (ride_db s) (ride_sockets s)"
  shows "rooms_ok (ride_db s') (ride_sockets s')"
  using assms(1) unfolding runs_def
proof (induction rule: rtranclp_induct)
  case base
  show ?case by (rule assms(4))
next
  case (step s1 s2)
  have s1: "runs D P s s1" using step(1) by (simp add: runs_def)
  have "ride_idle s1" "db_ok (ride_db s1)"
    using runs_booking [OF s1 assms(2)] db_ok_steps assms(3) by blast+
  from ride_rooms [OF step(2) this step.IH] show ?case .
qed

lemma no_sockets_rooms: "gw_sockets q = [] \<Longrightarrow> rooms_ok d q"
  by (simp add: rooms_ok_def)

section \<open>Who receives trip events\<close>

text \<open>What a message adds to the events emitted.\<close>

definition delivered :: "string \<Rightarrow> string \<Rightarrow> kafka_message \<Rightarrow> gateway \<Rightarrow> emitted list" where
  "delivered tripTopic locationTopic message q =
     drop (length (gw_emitted q)) (gw_emitted (fanout tripTopic locationTopic message q))"

lemma delivered_trip:
  assumes "em \<in> set (delivered tt lt m q)" and "em_event em = ''trip:event''"
  shows "\<exists>sock \<in> set (gw_sockets q). sk_id sock = em_socket em \<and>
    trip_room (json_text (the (jget (em_payload em) ''trip_id''))) \<in> set (sk_rooms sock)"
  using assms
  by (auto simp: delivered_def fanout_def emit_to_room_emitted split: option.splits if_splits)

text \<open>C12. Trip events are private: in every state reachable from one where no socket is connected,
  each \<open>trip:event\<close> that a Kafka message makes the gateway send goes to a connected socket whose
  verified token is an administrator's, or belongs to the rider or to the driver of that very trip.\<close>

theorem trip_events_are_private:
  assumes "runs D P s (w, g, q)" and "ride_idle s" and "db_ok (ride_db s)"
    and "gw_sockets (ride_sockets s) = []"
    and "em \<in> set (delivered (dp_tripTopic D) (dp_locationTopic D) message q)"
    and "em_event em = ''trip:event''"
  shows "\<exists>sock \<in> set (gw_sockets q). sk_id sock = em_socket em \<and>
    (jget (sk_user sock) ''role'' = Some (JStr ''admin'') \<or>
     (\<exists>userId. jget (sk_user sock) ''sub'' = Some (JStr userId) \<and>
        party (w_db w) (json_text (the (jget (em_payload em) ''trip_id''))) userId))"
proof -
  have "rooms_ok (w_db w) q"
    using runs_rooms [OF assms(1-3) no_sockets_rooms [OF assms(4)]] by simp
  with delivered_trip [OF assms(5,6)] show ?thesis unfolding rooms_ok_def by blast
qed

definition rider_token :: "json option" where "rider_token = Some (JStr ''h.rider.sig'')"

definition rider_socket :: socket where
  "rider_socket = \<lparr>sk_id = 7, sk_user = claims_of rider1 ''rider'', sk_rooms = []\<rparr>"

definition one_rider :: gateway where "one_rider = \<lparr>gw_sockets = [rider_socket], gw_emitted = []\<rparr>"

definition watching :: "gateway" where
  "watching = \<lparr>gw_sockets = [rider_socket\<lparr>sk_rooms := [trip_room trip4]\<rparr>], gw_emitted = []\<rparr>"

lemma rider_connects:
  "runs city any sample_ride (sample_world, sample_engine, one_rider)"
proof -
  have "handshake (dp_decode city) (dp_hmac city) 0 (dp_secret city) rider_token None =
      Inr (claims_of rider1 ''rider'')"
    by code_simp
  from ride_step.connects [OF this, of 7 "\<lparr>gw_sockets = [], gw_emitted = []\<rparr>" any sample_world sample_engine]
  show ?thesis
    by (simp add: runs_def sample_ride_def ws_connect_def one_rider_def rider_socket_def r_into_rtranclp)
qed

lemma rider_may_watch:
  "fst (canSubscribeToTrip (claims_of rider1 ''rider'') trip4 sample_world) = Inr True"
  "snd (canSubscribeToTrip (claims_of rider1 ''rider'') trip4 sample_world) = sample_world"
  "UUID_RE trip4"
proof -
  show "fst (canSubscribeToTrip (claims_of rider1 ''rider'') trip4 sample_world) = Inr True" by code_simp
  show "UUID_RE trip4" by code_simp
  show "snd (canSubscribeToTrip (claims_of rider1 ''rider'') trip4 sample_world) = sample_world"
    by (simp add: canSubscribeToTrip_def claims_of_def await_def query_def call_def run_select
        take_fault_def sample_world_def ret_def)
qed

lemma rider_watches:
  "runs city any sample_ride (sample_world, sample_engine, watching)"
proof -
  have "canSubscribeToTrip (sk_user rider_socket) trip4 sample_world = (Inr True, sample_world)"
    using rider_may_watch(1,2) by (simp add: prod_eq_iff rider_socket_def)
  then have "trip_subscribe rider_socket trip4 (sample_world, one_rider) = (Inr (), (sample_world, watching))"
    using rider_may_watch(3)
    by (simp add: trip_subscribe_def await_def ws_world_def ws_update_def set_state_def join_room_def
        one_rider_def watching_def rider_socket_def)
  from ride_step.subscribes_trip [OF _ this, of city any sample_engine] rider_connects show ?thesis
    by (simp add: runs_def one_rider_def rtranclp.rtrancl_into_rtrancl)
qed

theorem trip_events_are_private_witness:
  "let em = \<lparr>em_socket = 7, em_event = ''trip:event'',
             em_payload = JObj [(''type'', JStr ''trip.requested''), (''trip_id'', JStr trip4)]\<rparr>
   in em \<in> set (delivered ''trips'' ''locations'' requested_message watching) \<and>
      (\<exists>sock \<in> set (gw_sockets watching). sk_id sock = 7 \<and>
         (jget (sk_user sock) ''role'' = Some (JStr ''admin'') \<or>
          (\<exists>userId. jget (sk_user sock) ''sub'' = Some (JStr userId) \<and> party sample_db trip4 userId)))"
proof -
  let ?em = "\<lparr>em_socket = 7, em_event = ''trip:event'',
    em_payload = JObj [(''type'', JStr ''trip.requested''), (''trip_id'', JStr trip4)]\<rparr>"
  have em: "?em \<in> set (delivered ''trips'' ''locations'' requested_message watching)"
    by (simp add: delivered_def fanout_def requested_message_def parseJsonMessage_def watching_def
        emit_to_room_def emit_def rider_socket_def truthy_opt_def trip4_def uuid_of_def)
  have topics: "dp_tripTopic city = ''trips''" "dp_locationTopic city = ''locations''"
    by (simp_all add: city_def)
  have id: "json_text (the (jget (em_payload ?em) ''trip_id'')) = trip4" by simp
  have world: "w_db sample_world = sample_db" by (simp add: sample_world_def)
  show ?thesis
    using trip_events_are_private [OF rider_watches sample_idle, of ?em requested_message] em sample_db_ok
    unfolding topics id world Let_def
    by (simp add: sample_ride_def sample_world_def)
qed

section \<open>Who receives positions\<close>

lemma query_select_uuid:
  assumes "w_tx w = None" and "query (by_uuid v (\<lambda>p. select (f p))) w = (Inr x, w')"
  shows "\<exists>p. uuid_param v = Inr p \<and> x = f p (w_db w)"
proof -
  obtain r1 w1 where c: "call ''postgres'' (run_stmt (by_uuid v (\<lambda>p. select (f p)))) w = (r1, w1)" by fastforce
  have "\<exists>p. uuid_param v = Inr p \<and> y = f p (w_db w)" if "r1 = Inr y" for y
    by (rule call_cases [of "''postgres''" "run_stmt (by_uuid v (\<lambda>p. select (f p)))" w])
      (use c that assms(1) in \<open>auto simp: run_stmt_def by_uuid_def select_def split: sum.splits\<close>)
  then show ?thesis using assms(2) c by (auto simp: query_def split: sum.splits)
qed

lemma uuid_param_string: "uuid_param v = Inr (Some s) \<Longrightarrow> v = Some (JStr s)"
  by (auto simp: uuid_param_def split: option.splits json.splits)

definition may_follow :: "db \<Rightarrow> json \<Rightarrow> string \<Rightarrow> bool" where
  "may_follow d user driverId \<longleftrightarrow>
     jget user ''role'' = Some (JStr ''admin'') \<or>
     (jget user ''role'' = Some (JStr ''driver'') \<and> jget user ''sub'' = Some (JStr driverId)) \<or>
     (\<exists>t \<in> set (db_trips d). jget user ''sub'' = Some (JStr (tr_rider_id t)) \<and>
        tr_driver_id t = Some driverId \<and> active t)"

lemma canSubscribeToDriver_follow:
  assumes "w_tx w = None" and "canSubscribeToDriver user driverId w = (Inr True, w')"
  shows "may_follow (w_db w) user driverId"
proof (cases "jget user ''role'' = Some (JStr ''admin'') \<or> jget user ''role'' = Some (JStr ''driver'')")
  case True
  then show ?thesis using assms(2)
    by (auto simp: canSubscribeToDriver_def may_follow_def ret_def split: if_splits)
next
  case False
  let ?f = "\<lambda>sub d. length (take 1 (filter (\<lambda>t. Some (tr_rider_id t) = sub \<and> tr_driver_id t = Some driverId \<and>
      (tr_status t = Matched \<or> tr_status t = InProgress)) (db_trips d)))"
  obtain n w1 where q: "query (by_uuid (jget user ''sub'') (\<lambda>sub. select (?f sub))) w = (Inr n, w1)" and n: "n > 0"
    using assms(2) False
    by (auto simp: canSubscribeToDriver_def await_def ret_def split: prod.splits sum.splits)
  from query_select_uuid [where f = ?f, OF assms(1) q] obtain p where
    p: "uuid_param (jget user ''sub'') = Inr p" and rows: "n = ?f p (w_db w)"
    by (elim exE conjE)
  then obtain t where t: "t \<in> set (db_trips (w_db w))" "Some (tr_rider_id t) = p" "tr_driver_id t = Some driverId"
      "tr_status t = Matched \<or> tr_status t = InProgress"
    using n unfolding rows by (auto simp: filter_empty_conv)
  have "jget user ''sub'' = Some (JStr (tr_rider_id t))"
    by (rule uuid_param_string) (simp add: p t(2))
  with t show ?thesis unfolding may_follow_def active_def by blast
qed

lemma runs_step: "runs D P s s1 \<Longrightarrow> ride_step D P s1 s2 \<Longrightarrow> runs D P s s2"
  unfolding runs_def by (rule rtranclp.rtrancl_into_rtrancl)

text \<open>A socket was let into the room of a driver at a moment of the run at which it was connected and its
  user was entitled.\<close>

definition entered :: "deployment \<Rightarrow> (activity \<Rightarrow> bool) \<Rightarrow> ride \<Rightarrow> ride \<Rightarrow> socket \<Rightarrow> string \<Rightarrow> bool" where
  "entered D P s s' sock driverId \<longleftrightarrow> (\<exists>s1. runs D P s s1 \<and> runs D P s1 s' \<and>
     (\<exists>sock1 \<in> set (gw_sockets (ride_sockets s1)). sk_id sock1 = sk_id sock \<and> sk_user sock1 = sk_user sock) \<and>
     may_follow (ride_db s1) (sk_user sock) driverId)"

definition followers_entered :: "deployment \<Rightarrow> (activity \<Rightarrow> bool) \<Rightarrow> ride \<Rightarrow> ride \<Rightarrow> bool" where
  "followers_entered D P s s' \<longleftrightarrow> (\<forall>sock \<in> set (gw_sockets (ride_sockets s')). \<forall>driverId.
     driver_room driverId \<in> set (sk_rooms sock) \<longrightarrow> entered D P s s' sock driverId)"

lemma entered_later:
  assumes "entered D P s s1 sock driverId" and "ride_step D P s1 s2" and "sk_id sock' = sk_id sock"
    and "sk_user sock' = sk_user sock"
  shows "entered D P s s2 sock' driverId"
  using assms(1) runs_step [OF _ assms(2)] unfolding entered_def assms(3,4) by metis

text \<open>The sockets after a subscription: the old ones, and the subscriber with one room more.\<close>

lemma join_room_sockets:
  assumes "sock' \<in> set (gw_sockets (join_room i room g))"
  shows "\<exists>sock \<in> set (gw_sockets g). sk_id sock' = sk_id sock \<and> sk_user sock' = sk_user sock \<and>
    set (sk_rooms sock') \<subseteq> set (sk_rooms sock) \<union> (if sk_id sock = i then {room} else {})"
  using assms by (force simp: join_room_def split: if_splits)

lemma trip_subscribed:
  assumes "trip_subscribe sock0 v (w, g) = (r, (w', g'))" and "sock' \<in> set (gw_sockets g')"
  shows "\<exists>sock \<in> set (gw_sockets g). sk_id sock' = sk_id sock \<and> sk_user sock' = sk_user sock \<and>
    set (sk_rooms sock') \<subseteq> set (sk_rooms sock) \<union> {trip_room v}"
proof -
  have "gw_sockets g' = gw_sockets g \<or> g' = join_room (sk_id sock0) (trip_room v) g"
    using assms(1)
    by (auto simp: trip_subscribe_def ws_update_def ws_world_def await_def set_state_def
        split: if_splits sum.splits prod.splits)
  then show ?thesis
  proof
    assume "g' = join_room (sk_id sock0) (trip_room v) g"
    with assms(2) join_room_sockets [of sock' "sk_id sock0" "trip_room v" g] obtain sock where
      "sock \<in> set (gw_sockets g)" "sk_id sock' = sk_id sock" "sk_user sock' = sk_user sock"
      "set (sk_rooms sock') \<subseteq> set (sk_rooms sock) \<union> {trip_room v}" by (auto split: if_splits)
    then show ?thesis by blast
  qed (use assms(2) in auto)
qed

lemma driver_subscribed:
  assumes "driver_subscribe sock0 v (w, g) = (r, (w', g'))" and "sock' \<in> set (gw_sockets g')"
  shows "\<exists>sock \<in> set (gw_sockets g). sk_id sock' = sk_id sock \<and> sk_user sock' = sk_user sock \<and>
    set (sk_rooms sock') \<subseteq> set (sk_rooms sock) \<union>
      (if sk_id sock = sk_id sock0 \<and> fst (canSubscribeToDriver (sk_user sock0) v w) = Inr True then {driver_room v} else {})"
proof -
  have "gw_sockets g' = gw_sockets g \<or> g' = join_room (sk_id sock0) (driver_room v) g \<and>
      fst (canSubscribeToDriver (sk_user sock0) v w) = Inr True"
    using assms(1)
    by (auto simp: driver_subscribe_def ws_update_def ws_world_def await_def set_state_def
        split: if_splits sum.splits prod.splits)
  then show ?thesis
  proof
    assume "g' = join_room (sk_id sock0) (driver_room v) g \<and> fst (canSubscribeToDriver (sk_user sock0) v w) = Inr True"
    then show ?thesis using assms(2) join_room_sockets [of sock' "sk_id sock0" "driver_room v" g] by simp
  qed (use assms(2) in auto)
qed

lemma driver_room_inj [simp]: "driver_room a = driver_room b \<longleftrightarrow> a = b"
  by (simp add: driver_room_def)

lemma followers_step:
  assumes run: "runs D P s s1" and step: "ride_step D P s1 s2" and "ride_idle s1"
    and ids: "distinct (map sk_id (gw_sockets (ride_sockets s1)))" and old: "followers_entered D P s s1"
  shows "followers_entered D P s s2"
proof -
  have kept: "entered D P s s2 sock' driverId"
    if "sock \<in> set (gw_sockets (ride_sockets s1))" "driver_room driverId \<in> set (sk_rooms sock)"
      "sk_id sock' = sk_id sock" "sk_user sock' = sk_user sock" for sock sock' driverId
    using old that entered_later [OF _ step] unfolding followers_entered_def by blast
  have same: "followers_entered D P s s2" if "gw_sockets (ride_sockets s2) = gw_sockets (ride_sockets s1)"
    using kept that unfolding followers_entered_def by auto
  from step show ?thesis
  proof cases
    case (connects now authToken header user i q w g)
    then show ?thesis using kept by (auto simp: followers_entered_def ws_connect_def)
  next
    case (leaves w g q i)
    then show ?thesis using kept by (auto simp: followers_entered_def ws_disconnect_def)
  next
    case (subscribes_trip sock q tripId w r w' q' g)
    show ?thesis unfolding followers_entered_def
    proof (intro ballI allI impI)
      fix sock' driverId assume s': "sock' \<in> set (gw_sockets (ride_sockets s2))" "driver_room driverId \<in> set (sk_rooms sock')"
      with trip_subscribed [OF subscribes_trip(4)] subscribes_trip(2) obtain sock1 where
        "sock1 \<in> set (gw_sockets q)" "sk_id sock' = sk_id sock1" "sk_user sock' = sk_user sock1"
        "set (sk_rooms sock') \<subseteq> set (sk_rooms sock1) \<union> {trip_room tripId}" by auto
      moreover have "driver_room driverId \<noteq> trip_room tripId" using room_kinds by metis
      ultimately show "entered D P s s2 sock' driverId"
        using s'(2) by (intro kept [of sock1]) (auto simp: subscribes_trip(1))
    qed
  next
    case (subscribes_driver sock q v w r w' q' g)
    show ?thesis unfolding followers_entered_def
    proof (intro ballI allI impI)
      fix sock' driverId assume s': "sock' \<in> set (gw_sockets (ride_sockets s2))" "driver_room driverId \<in> set (sk_rooms sock')"
      with driver_subscribed [OF subscribes_driver(4)] subscribes_driver(2) obtain sock1 where
        s1: "sock1 \<in> set (gw_sockets q)" "sk_id sock' = sk_id sock1" "sk_user sock' = sk_user sock1"
        "set (sk_rooms sock') \<subseteq> set (sk_rooms sock1) \<union> (if sk_id sock1 = sk_id sock \<and>
            fst (canSubscribeToDriver (sk_user sock) v w) = Inr True then {driver_room v} else {})" by auto
      show "entered D P s s2 sock' driverId"
      proof (cases "driver_room driverId \<in> set (sk_rooms sock1)")
        case True
        with s1 show ?thesis by (intro kept [of sock1]) (simp_all add: subscribes_driver(1))
      next
        case False
        with s1(4) s'(2) have new: "sk_id sock1 = sk_id sock" "driverId = v"
          and can: "fst (canSubscribeToDriver (sk_user sock) v w) = Inr True" by (auto split: if_splits)
        have "sock1 = sock"
          using ids s1(1) subscribes_driver(3) new(1) by (auto simp: subscribes_driver(1) distinct_map inj_on_def)
        moreover obtain w1 where "canSubscribeToDriver (sk_user sock) v w = (Inr True, w1)"
          using can by (cases "canSubscribeToDriver (sk_user sock) v w") simp
        then have "may_follow (w_db w) (sk_user sock) v"
          using canSubscribeToDriver_follow assms(3) by (simp add: subscribes_driver(1))
        ultimately show ?thesis
          using s1(2,3) run runs_step [of D P s1 s1 s2] step subscribes_driver(1,3)
          unfolding entered_def new(2) by (intro exI [of _ s1]) (auto simp: runs_def)
      qed
    qed
  qed (use same in auto)
qed

lemma runs_followers:
  assumes "runs D P s s'" and "ride_idle s" and "db_ok (ride_db s)" and "gw_sockets (ride_sockets s) = []"
  shows "followers_entered D P s s'"
  using assms(1) unfolding runs_def
proof (induction rule: rtranclp_induct)
  case base
  show ?case by (simp add: followers_entered_def assms(4))
next
  case (step s1 s2)
  have s1: "runs D P s s1" using step(1) by (simp add: runs_def)
  have "ride_idle s1" using runs_booking [OF s1 assms(2)] by blast
  moreover have "distinct (map sk_id (gw_sockets (ride_sockets s1)))"
    using runs_rooms [OF s1 assms(2,3) no_sockets_rooms [OF assms(4)]] by (simp add: rooms_ok_def)
  ultimately show ?case by (rule followers_step [OF s1 step(2) _ _ step.IH])
qed

lemma delivered_location:
  assumes "em \<in> set (delivered tt lt m q)" and "em_event em = ''driver:location''"
  shows "\<exists>sock \<in> set (gw_sockets q). sk_id sock = em_socket em \<and>
    driver_room (json_text (the (jget (em_payload em) ''driver_id''))) \<in> set (sk_rooms sock)"
  using assms
  by (auto simp: delivered_def fanout_def emit_to_room_emitted split: option.splits if_splits)

text \<open>C23. A driver's position goes only to those who were let in: in every state reachable from one where no
  socket is connected, each \<open>driver:location\<close> that a Kafka message makes the gateway send goes to a connected
  socket that, at some moment of the run, was connected with the same user, who then was an
  administrator, or that driver, or a rider with a matched or running trip of that driver.\<close>

theorem positions_go_to_followers:
  assumes "runs D P s (w, g, q)" and "ride_idle s" and "db_ok (ride_db s)"
    and "gw_sockets (ride_sockets s) = []"
    and "em \<in> set (delivered (dp_tripTopic D) (dp_locationTopic D) message q)"
    and "em_event em = ''driver:location''"
  shows "\<exists>sock \<in> set (gw_sockets q). sk_id sock = em_socket em \<and>
    (\<exists>s1. runs D P s s1 \<and> runs D P s1 (w, g, q) \<and>
       (\<exists>sock1 \<in> set (gw_sockets (ride_sockets s1)). sk_id sock1 = sk_id sock \<and> sk_user sock1 = sk_user sock) \<and>
       may_follow (ride_db s1) (sk_user sock) (json_text (the (jget (em_payload em) ''driver_id''))))"
proof -
  have "followers_entered D P s (w, g, q)" by (rule runs_followers [OF assms(1-4)])
  with delivered_location [OF assms(5,6)] show ?thesis
    by (fastforce simp: followers_entered_def entered_def)
qed

definition matched_world :: world where
  "matched_world = perform_all city [TripMessage requested_message] sample_world"

definition followed_world :: world where
  "followed_world = snd (canSubscribeToDriver (claims_of rider1 ''rider'') driver2 matched_world)"

definition following :: gateway where
  "following = \<lparr>gw_sockets = [rider_socket\<lparr>sk_rooms := [driver_room driver2]\<rparr>], gw_emitted = []\<rparr>"

lemma rider_follows:
  "driver_subscribe rider_socket driver2 (matched_world, one_rider) = (Inr (), (followed_world, following))"
proof -
  have "fst (canSubscribeToDriver (claims_of rider1 ''rider'') driver2 matched_world) = Inr True" by code_simp
  then have "canSubscribeToDriver (sk_user rider_socket) driver2 matched_world = (Inr True, followed_world)"
    by (simp add: prod_eq_iff rider_socket_def followed_world_def)
  moreover have "UUID_RE driver2" by code_simp
  ultimately show ?thesis
    by (simp add: driver_subscribe_def await_def ws_world_def ws_update_def set_state_def join_room_def
        one_rider_def following_def rider_socket_def)
qed

definition position_message :: kafka_message where
  "position_message = \<lparr>km_topic = ''locations'', km_key = Some driver2,
     km_value = Some (JsonText (JObj [(''driver_id'', JStr driver2), (''lat'', JNum 41), (''lon'', JNum 69)]))\<rparr>"

lemma rider_follows_runs: "runs city any sample_ride (followed_world, sample_engine, following)"
proof -
  have "runs city any (sample_world, sample_engine, one_rider) (matched_world, sample_engine, one_rider)"
    unfolding matched_world_def by (rule runs_perform) (simp add: any_def)
  moreover have "ride_step city any (matched_world, sample_engine, one_rider) (followed_world, sample_engine, following)"
    by (rule ride_step.subscribes_driver [OF _ rider_follows]) (simp add: one_rider_def)
  ultimately show ?thesis
    using rider_connects unfolding runs_def by (meson rtranclp.rtrancl_into_rtrancl rtranclp_trans)
qed

lemma position_delivered:
  "\<lparr>em_socket = 7, em_event = ''driver:location'',
      em_payload = JObj [(''driver_id'', JStr driver2), (''lat'', JNum 41), (''lon'', JNum 69)]\<rparr>
     \<in> set (delivered (dp_tripTopic city) (dp_locationTopic city) position_message following)"
  by (simp add: delivered_def fanout_def position_message_def parseJsonMessage_def following_def city_def
      emit_to_room_def emit_def rider_socket_def truthy_opt_def driver2_def uuid_of_def)

theorem positions_go_to_followers_witness:
  "\<exists>s1. runs city any sample_ride s1 \<and> runs city any s1 (followed_world, sample_engine, following) \<and>
     may_follow (ride_db s1) (claims_of rider1 ''rider'') driver2"
proof -
  have "gw_sockets (ride_sockets sample_ride) = []" by (simp add: sample_ride_def)
  moreover have "db_ok (ride_db sample_ride)" using sample_db_ok by (simp add: sample_ride_def sample_world_def)
  ultimately show ?thesis
    using positions_go_to_followers [OF rider_follows_runs sample_idle _ _ position_delivered]
    by (auto simp: following_def rider_socket_def)
qed

text \<open>The room is not left when the trip ends: after the rider has cancelled the matched trip, and
  serves no purpose with this driver any more, the gateway still sends the rider every position the
  driver reports.\<close>

theorem position_outlives_trip:
  "\<exists>w q. runs city any sample_ride (w, sample_engine, q) \<and>
     map tr_status (db_trips (w_db w)) = [CancelledByRider] \<and>
     \<not> may_follow (w_db w) (claims_of rider1 ''rider'') driver2 \<and>
     \<lparr>em_socket = 7, em_event = ''driver:location'',
      em_payload = JObj [(''driver_id'', JStr driver2), (''lat'', JNum 41), (''lon'', JNum 69)]\<rparr>
       \<in> set (delivered (dp_tripTopic city) (dp_locationTopic city) position_message q)"
proof (intro exI conjI)
  let ?w = "perform_all city [TripsCall as_rider (PostCancel trip4)] followed_world"
  have "runs city any (followed_world, sample_engine, following) (?w, sample_engine, following)"
    by (rule runs_perform) (simp add: any_def)
  then show "runs city any sample_ride (?w, sample_engine, following)"
    using rider_follows_runs unfolding runs_def by (rule rtranclp_trans [rotated])
  show trips: "map tr_status (db_trips (w_db ?w)) = [CancelledByRider]" by code_simp
  have "jget (claims_of rider1 ''rider'') ''role'' = Some (JStr ''rider'')" by (simp add: claims_of_def)
  then show "\<not> may_follow (w_db ?w) (claims_of rider1 ''rider'') driver2"
    using trips by (auto simp: may_follow_def active_def)
qed (rule position_delivered)

end
