(* ===== verification/TripProperties.thy ===== *)
theory TripProperties
  imports SampleCity
begin

text \<open>
  Properties of the trip service beyond the bookings: the surge multiplier and the fare, who may read
  which trips, the second rating, and what the outbox promises.
\<close>

section \<open>The fare\<close>

lemma surge_of_cache_ge: "surge_of_cache c = Some n \<Longrightarrow> 1 \<le> n"
  by (auto simp: surge_of_cache_def split: option.splits if_splits jsnum.splits)

lemma surge_fallback_ge: "1 \<le> surge_fallback m"
  by (auto simp: surge_fallback_def Let_def split: option.splits jsnum.splits)

text \<open>The surge multiplier of a fare is always there and at least one: \<open>resolveSurge\<close> returns,
  whether Redis answers, answers nonsense or is unreachable, it never lowers a fare, and it leaves the
  open transaction as it is.\<close>

theorem resolveSurge_at_least_one:
  assumes "resolveSurge zoneId pgMultiplier w = (r, w')"
  shows "\<exists>n. r = Inr n \<and> 1 \<le> n \<and> w_db w' = w_db w \<and> w_tx w' = w_tx w"
proof -
  have "w_db w' = w_db w \<and> w_tx w' = w_tx w"
    using resolveSurge_neutral assms unfolding db_neutral_def by (metis snd_conv)
  moreover have "\<exists>n. r = Inr n \<and> 1 \<le> n"
    using assms surge_of_cache_ge surge_fallback_ge
    by (auto simp: resolveSurge_def await_def try_catch_def ret_def split: option.splits if_splits
        prod.splits sum.splits)
  ultimately show ?thesis by blast
qed

theorem resolveSurge_at_least_one_witness:
  "\<exists>n. fst (resolveSurge (Some ''z'') (Some ''1.50'') (sample_world\<lparr>w_faults := [Lost]\<rparr>)) = Inr n \<and> 1 \<le> n"
  using resolveSurge_at_least_one [OF surjective_pairing,
      of "Some ''z''" "Some ''1.50''" "sample_world\<lparr>w_faults := [Lost]\<rparr>"] by blast

lemma fare_nonneg:
  assumes "0 \<le> km" and "0 \<le> mins"
  shows "0 \<le> fl (km * fl (8 / 10))" and "0 \<le> fl (mins * fl (18 / 100))"
    and "5 / 2 \<le> fl (fl (5 / 2 + fl (km * fl (8 / 10))) + fl (mins * fl (18 / 100)))"
proof -
  show a: "0 \<le> fl (km * fl (8 / 10))" and b: "0 \<le> fl (mins * fl (18 / 100))"
    using assms by (simp_all add: fl64.rnd_nonneg)
  have d: "fl (5 / 2) = 5 / 2" by code_simp
  have "5 / 2 \<le> fl (5 / 2 + fl (km * fl (8 / 10)))" using a by (intro fl64.rnd_ge [OF d]) simp
  then show "5 / 2 \<le> fl (fl (5 / 2 + fl (km * fl (8 / 10))) + fl (mins * fl (18 / 100)))"
    using b by (intro fl64.rnd_ge [OF d]) simp
qed

text \<open>A fare is never below the base fare, and it grows with the distance, the duration and the
  surge: in the floating-point arithmetic of the code, rounding included.\<close>

theorem fare_total_monotone:
  assumes "0 \<le> km" and "km \<le> km'" and "0 \<le> mins" and "mins \<le> mins'" and "1 \<le> surge" and "surge \<le> surge'"
  shows "5 / 2 \<le> fare_total km mins surge \<and> fare_total km mins surge \<le> fare_total km' mins' surge'"
proof -
  let ?sum = "\<lambda>km mins. fl (fl (5 / 2 + fl (km * fl (8 / 10))) + fl (mins * fl (18 / 100)))"
  have k: "fl (km * fl (8 / 10)) \<le> fl (km' * fl (8 / 10))" and m: "fl (mins * fl (18 / 100)) \<le> fl (mins' * fl (18 / 100))"
    by (intro fl_mono mult_right_mono fl64.rnd_nonneg; use assms in simp)+
  have "?sum km mins \<le> ?sum km' mins'" by (rule fl_mono, rule add_mono, rule fl_mono, rule add_mono, rule order_refl, rule k, rule m)
  moreover have base: "5 / 2 \<le> ?sum km mins" using fare_nonneg assms by blast
  ultimately have "?sum km mins * surge \<le> ?sum km' mins' * surge'" using assms by (intro mult_mono) auto
  then have "fare_total km mins surge \<le> fare_total km' mins' surge'"
    unfolding fare_total_def by (intro round_cents_mono fl_mono)
  moreover have "5 / 2 * 1 \<le> ?sum km mins * surge" using base assms by (intro mult_mono) auto
  then have "fl (5 / 2) \<le> fl (?sum km mins * surge)" by (intro fl_mono) simp
  then have "round_cents (fl (5 / 2)) \<le> fare_total km mins surge"
    unfolding fare_total_def by (rule round_cents_mono)
  moreover have "round_cents (fl (5 / 2)) = 5 / 2" by code_simp
  ultimately show ?thesis by simp
qed

theorem fare_total_monotone_witness:
  "5 / 2 \<le> fare_total 3 7 1 \<and> fare_total 3 7 1 \<le> fare_total 4 7 (3 / 2)"
  using fare_total_monotone [of 3 4 7 7 1 "3 / 2"] by simp

text \<open>The exact tariff.\<close>

definition tariff :: "rat \<Rightarrow> rat \<Rightarrow> rat \<Rightarrow> rat" where
  "tariff km mins surge = (5 / 2 + 8 / 10 * km + 18 / 100 * mins) * surge"

definition near :: "rat \<Rightarrow> rat \<Rightarrow> rat \<Rightarrow> bool" where
  "near e x y \<longleftrightarrow> x \<le> y + e \<and> y \<le> x + e"

lemma nearD: "near e x y \<Longrightarrow> x \<le> y + e" "near e x y \<Longrightarrow> y \<le> x + e"
  by (simp_all add: near_def)

lemma near_fl:
  assumes "0 \<le> x" and "x \<le> c" and "1 \<le> c" and "c / 2 ^ 52 \<le> e"
  shows "near e (fl x) x"
  using fl64.rnd_close [OF assms(1-3)] assms(4) unfolding near_def abs_le_iff by linarith

lemma near_mult:
  assumes "near e a b" and "0 \<le> x" and "x \<le> c" and "0 \<le> e"
  shows "near (c * e) (x * a) (x * b)"
proof -
  have "x * a \<le> x * (b + e)" "x * b \<le> x * (a + e)"
    using assms(1,2) by (simp_all add: near_def mult_left_mono)
  moreover have "x * e \<le> c * e" using assms(3,4) by (rule mult_right_mono)
  ultimately show ?thesis by (simp add: near_def distrib_left)
qed

lemma round_cents_near:
  assumes "0 \<le> x" and "x \<le> 4000000"
  shows "near (1 / 200 + 1 / 10000000) (round_cents x) x"
proof -
  define x6 where "x6 = fl (x * 100)"
  define n where "n = (of_int (math_round x6) :: rat)"
  have m6: "0 \<le> x * 100" "x * 100 \<le> 400000000" using assms by linarith+
  have r6: "near (1 / 10000000) x6 (x * 100)" unfolding x6_def by (rule near_fl [OF m6]) simp_all
  have p6: "0 \<le> x6" unfolding x6_def by (rule fl64.rnd_nonneg [OF m6(1)])
  have rn: "near (1 / 2) n x6"
    using math_round_bounds [of x6] unfolding n_def near_def abs_le_iff by linarith
  have "0 \<le> n" unfolding n_def math_round_def using p6 by simp
  then have m7: "0 \<le> n / 100" "n / 100 \<le> 5000000" using nearD [OF rn] nearD [OF r6] m6 by linarith+
  have r7: "near (1 / 100000000) (fl (n / 100)) (n / 100)" by (rule near_fl [OF m7]) simp_all
  have "round_cents x = fl (n / 100)" by (simp add: round_cents_def n_def x6_def)
  then show ?thesis
    unfolding near_def using nearD [OF r6] nearD [OF rn] nearD [OF r7] by linarith
qed

text \<open>The sum the surge multiplies.\<close>

definition fare_sum :: "rat \<Rightarrow> rat \<Rightarrow> rat" where
  "fare_sum km mins = fl (fl (5 / 2 + fl (km * fl (8 / 10))) + fl (mins * fl (18 / 100)))"

lemma fare_sum_near:
  assumes "0 \<le> km" and "km \<le> 10000" and "0 \<le> mins" and "mins \<le> 100000"
  shows "near (6 / 1000000000) (fare_sum km mins) (5 / 2 + 8 / 10 * km + 18 / 100 * mins)"
    and "0 \<le> fare_sum km mins" and "fare_sum km mins \<le> 300000"
proof -
  define a where "a = fl (8 / 10)"
  define b where "b = fl (18 / 100)"
  have a: "near (1 / 10 ^ 15) a (8 / 10)" "0 \<le> a" "a \<le> 1"
    and b: "near (1 / 10 ^ 15) b (18 / 100)" "0 \<le> b" "b \<le> 1"
    unfolding a_def b_def by (rule near_fl [where c = 1] fl64.rnd_nonneg fl64.rnd_le; simp)+
  define x1 where "x1 = fl (km * a)"
  define x2 where "x2 = fl (5 / 2 + x1)"
  define x3 where "x3 = fl (mins * b)"
  define x4 where "x4 = fl (x2 + x3)"
  have sum: "fare_sum km mins = x4" by (simp add: fare_sum_def x4_def x3_def x2_def x1_def a_def b_def)
  have m1: "0 \<le> km * a" "km * a \<le> 10000"
    using mult_mono [OF assms(2) a(3)] assms(1) a(2) by simp_all
  have m3: "0 \<le> mins * b" "mins * b \<le> 100000"
    using mult_mono [OF assms(4) b(3)] assms(3) b(2) by simp_all
  have r1: "near (1 / 1000000000) x1 (km * a)" unfolding x1_def by (rule near_fl [OF m1]) simp_all
  have r3: "near (1 / 1000000000) x3 (mins * b)" unfolding x3_def by (rule near_fl [OF m3]) simp_all
  have c1: "near (1 / 1000000000) (km * a) (km * (8 / 10))"
    using near_mult [OF a(1) assms(1,2)] by (simp add: near_def)
  have c3: "near (1 / 1000000000) (mins * b) (mins * (18 / 100))"
    using near_mult [OF b(1) assms(3,4)] by (simp add: near_def)
  have p1: "0 \<le> x1" and p3: "0 \<le> x3"
    unfolding x1_def x3_def by (rule fl64.rnd_nonneg [OF m1(1)] fl64.rnd_nonneg [OF m3(1)])+
  have m2: "0 \<le> 5 / 2 + x1" "5 / 2 + x1 \<le> 20000" using p1 nearD [OF r1] m1 by linarith+
  have r2: "near (1 / 1000000000) x2 (5 / 2 + x1)" unfolding x2_def by (rule near_fl [OF m2]) simp_all
  have p2: "0 \<le> x2" unfolding x2_def by (rule fl64.rnd_nonneg [OF m2(1)])
  have m4: "0 \<le> x2 + x3" "x2 + x3 \<le> 200000" using p2 p3 nearD [OF r2] nearD [OF r3] m2 m3 by linarith+
  have r4: "near (1 / 1000000000) x4 (x2 + x3)" unfolding x4_def by (rule near_fl [OF m4]) simp_all
  show "0 \<le> fare_sum km mins" unfolding sum x4_def by (rule fl64.rnd_nonneg [OF m4(1)])
  show "fare_sum km mins \<le> 300000" unfolding sum using nearD [OF r4] m4 by linarith
  show "near (6 / 1000000000) (fare_sum km mins) (5 / 2 + 8 / 10 * km + 18 / 100 * mins)"
    unfolding sum using nearD [OF r1] nearD [OF r2] nearD [OF r3] nearD [OF r4] nearD [OF c1] nearD [OF c3]
    unfolding near_def by linarith
qed

text \<open>C14. The fare is the tariff: for every distance, duration and surge the columns of the fare record
  can hold, the amount charged differs from the exact
  \<open>(2.50 + 0.80 per km + 0.18 per minute) * surge\<close> by at most half a cent, up to a millionth, so
  the floating-point arithmetic never costs a cent.\<close>

theorem fare_is_tariff:
  assumes "0 \<le> km" and "km \<le> 10000" and "0 \<le> mins" and "mins \<le> 100000" and "1 \<le> surge" and "surge \<le> 10"
  shows "\<bar>fare_total km mins surge - tariff km mins surge\<bar> \<le> 1 / 200 + 1 / 1000000"
proof -
  note sum = fare_sum_near [OF assms(1-4)]
  have m: "0 \<le> fare_sum km mins * surge" "fare_sum km mins * surge \<le> 3000000"
    using mult_mono [OF sum(3) assms(6)] sum(2) assms(5) by simp_all
  have r: "near (1 / 1000000000) (fl (fare_sum km mins * surge)) (fare_sum km mins * surge)"
    by (rule near_fl [OF m]) simp_all
  have c: "near (6 / 100000000) (fare_sum km mins * surge) (tariff km mins surge)"
    using near_mult [OF sum(1) _ assms(6)] assms(5) by (simp add: tariff_def mult.commute)
  have "0 \<le> fl (fare_sum km mins * surge)" "fl (fare_sum km mins * surge) \<le> 4000000"
    using fl64.rnd_nonneg [OF m(1)] nearD [OF r] m by linarith+
  note q = round_cents_near [OF this]
  have "fare_total km mins surge = round_cents (fl (fare_sum km mins * surge))"
    by (simp add: fare_total_def fare_sum_def)
  then have "fare_total km mins surge - tariff km mins surge \<le> 1 / 200 + 1 / 1000000"
    and "- (fare_total km mins surge - tariff km mins surge) \<le> 1 / 200 + 1 / 1000000"
    using nearD [OF r] nearD [OF c] nearD [OF q] by linarith+
  then show ?thesis by (rule abs_leI)
qed

theorem fare_is_tariff_witness:
  "\<bar>fare_total 3 7 (3 / 2) - (5 / 2 + 8 / 10 * 3 + 18 / 100 * 7) * (3 / 2)\<bar> \<le> 1 / 200 + 1 / 1000000"
  using fare_is_tariff [of 3 7 "3 / 2"] by (simp add: tariff_def)

section \<open>Who may read which trips\<close>

lemma query_select_result:
  assumes "w_tx w = None" and "query (select f) w = (Inr x, w')"
  shows "x = f (w_db w)"
  using query_select [OF assms] by simp

lemma safe_limit_le: "nat (floor (safe_limit l)) \<le> 100"
proof -
  have "safe_limit l \<le> 100" by (simp add: safe_limit_def)
  then have "floor (safe_limit l) \<le> 100" by linarith
  then show ?thesis by linarith
qed

text \<open>Whose trip a row is, whatever the role: its rider's and its driver's.\<close>

definition concerns :: "string \<Rightarrow> trip_row \<Rightarrow> bool" where
  "concerns uid t \<longleftrightarrow> tr_rider_id t = uid \<or> tr_driver_id t = Some uid"

definition asked_for :: "string option \<Rightarrow> trip_row \<Rightarrow> bool" where
  "asked_for status t \<longleftrightarrow> status = None \<or> status = Some (trip_status_text (tr_status t))"

lemma query_select_elsewhere:
  assumes "w_tx w = None" and "f d = f (w_db w)"
  shows "fst (query (select f) (w\<lparr>w_db := d\<rparr>)) = fst (query (select f) w)"
  using assms
  by (auto simp: query_def call_def take_fault_def run_stmt_def select_def set_state_def abort_tx_def
      split: list.splits fault.splits prod.splits)

lemma own_rows_decide:
  assumes "ac_role user \<noteq> ''admin''"
    and "filter (concerns (ac_sub user)) ts = filter (concerns (ac_sub user)) us"
  shows "filter (\<lambda>t. P t \<and> visible_to user t) ts = filter (\<lambda>t. P t \<and> visible_to user t) us"
proof -
  have "filter (\<lambda>t. P t \<and> visible_to user t) xs =
      filter (\<lambda>t. P t \<and> visible_to user t) (filter (concerns (ac_sub user)) xs)" for xs
    using assms(1) by (auto simp: visible_to_def concerns_def intro!: filter_cong)
  then show ?thesis using assms(2) by metis
qed

lemma list_trips_rows:
  assumes "w_tx w = None" and "list_trips status limit user w = (Inr rows, w')"
  shows "rows = map trip_summary_of (take (nat (floor (safe_limit limit))) (sort_key (\<lambda>t. - tr_requested_at t)
      (filter (\<lambda>t. asked_for status t \<and> visible_to user t) (db_trips (w_db w)))))"
proof -
  have "query (select_trips status (safe_limit limit) user) w = (Inr rows, w')"
    using assms(2) by (auto simp: list_trips_def throw_def split: if_splits option.splits)
  moreover have "asked_for status = (\<lambda>t. status = None \<or> Some (trip_status_text (tr_status t)) = status)"
    by (auto simp: asked_for_def fun_eq_iff)
  ultimately show ?thesis using query_select_result [OF assms(1)] by (simp add: select_trips_def)
qed

lemma listed_rows:
  assumes "w_tx w = None" and "list_trips status limit user w = (Inr rows, w')"
    and "ac_role user \<noteq> ''admin''"
  shows "length rows \<le> nat (floor (safe_limit limit))" and "sorted (map (\<lambda>r. - su_requested_at r) rows)"
    and "\<forall>r \<in> set rows. \<exists>t \<in> set (db_trips (w_db w)). r = trip_summary_of t \<and>
      concerns (ac_sub user) t \<and> asked_for status t"
    and "length rows < nat (floor (safe_limit limit)) \<Longrightarrow> t \<in> set (db_trips (w_db w)) \<Longrightarrow> asked_for status t \<Longrightarrow>
      ac_role user = ''rider'' \<and> tr_rider_id t = ac_sub user \<or>
      ac_role user = ''driver'' \<and> tr_driver_id t = Some (ac_sub user) \<Longrightarrow> trip_summary_of t \<in> set rows"
proof -
  let ?key = "\<lambda>t. - tr_requested_at t" and ?n = "nat (floor (safe_limit limit))"
  let ?ts = "sort_key ?key (filter (\<lambda>t. asked_for status t \<and> visible_to user t) (db_trips (w_db w)))"
  note rows = list_trips_rows [OF assms(1,2)]
  show "length rows \<le> ?n" unfolding rows by simp
  have "map (\<lambda>r. - su_requested_at r) rows = take ?n (map ?key ?ts)"
    unfolding rows by (simp add: trip_summary_of_def take_map comp_def)
  then show "sorted (map (\<lambda>r. - su_requested_at r) rows)" by (simp add: sorted_wrt_take)
  show "\<forall>r \<in> set rows. \<exists>t \<in> set (db_trips (w_db w)). r = trip_summary_of t \<and>
      concerns (ac_sub user) t \<and> asked_for status t"
    using assms(3) unfolding rows by (auto simp: visible_to_def concerns_def dest!: in_set_takeD)
  assume few: "length rows < ?n" and t: "t \<in> set (db_trips (w_db w))" "asked_for status t"
    "ac_role user = ''rider'' \<and> tr_rider_id t = ac_sub user \<or>
     ac_role user = ''driver'' \<and> tr_driver_id t = Some (ac_sub user)"
  have "rows = map trip_summary_of ?ts" using few unfolding rows by (simp add: min_def split: if_splits)
  then show "trip_summary_of t \<in> set rows" using t by (auto simp: visible_to_def)
qed

lemma byId_row:
  assumes "w_tx w = None" and "byId X tripId user w = (Inr row, w')" and "ac_role user \<noteq> ''admin''"
  shows "\<exists>t \<in> set (db_trips (w_db w)). tr_id t = tripId \<and> concerns (ac_sub user) t \<and> row = trip_detail_of X t"
proof -
  let ?f = "\<lambda>d. map (trip_detail_of X) (filter (\<lambda>t. tr_id t = tripId \<and> visible_to user t) (db_trips d))"
  obtain rows w1 where q: "query (select ?f) w = (Inr rows, w1)" and "\<exists>rest. rows = row # rest"
    using assms(2) by (auto simp: byId_def await_def throw_def ret_def split: prod.splits sum.splits list.splits)
  then obtain rest where "?f (w_db w) = row # rest" using query_select_result [OF assms(1) q] by auto
  then have "row \<in> set (?f (w_db w))" by simp
  then show ?thesis using assms(3) by (auto simp: visible_to_def concerns_def)
qed

lemma answer_elsewhere:
  assumes "fst (query st w1) = fst (query st w2)" and "\<And>x u v. fst (k x u) = fst (k x v)"
  shows "fst (await (query st) k w1) = fst (await (query st) k w2)"
  using assms by (auto simp: await_def split: prod.splits sum.splits)

text \<open>C30. A caller who is not an administrator learns nothing about the trips of others: in another
  database with the same trips of the caller (those it is the rider or the driver of), whatever the
  other trips are, \<open>GET /trips\<close> and \<open>GET /trips/:id\<close> answer the same. The list has at most as many rows
  as asked for (at most 100), newest first, each of one of the caller's trips and of the status asked
  for; a shorter list than asked for has all the rides of a rider and all the jobs of a driver.
  \<open>GET /trips/:id\<close> answers with that trip, one of the caller's.\<close>

theorem reads_are_scoped:
  assumes "w_tx w = None" and "ac_role user \<noteq> ''admin''"
    and "filter (concerns (ac_sub user)) (db_trips d) = filter (concerns (ac_sub user)) (db_trips (w_db w))"
  shows "fst (list_trips status limit user (w\<lparr>w_db := d\<rparr>)) = fst (list_trips status limit user w) \<and>
    fst (byId X tripId user (w\<lparr>w_db := d\<rparr>)) = fst (byId X tripId user w) \<and>
    (\<forall>rows. fst (list_trips status limit user w) = Inr rows \<longrightarrow>
      length rows \<le> nat (floor (safe_limit limit)) \<and> length rows \<le> 100 \<and>
      sorted (map (\<lambda>r. - su_requested_at r) rows) \<and>
      (\<forall>r \<in> set rows. \<exists>t \<in> set (db_trips (w_db w)). r = trip_summary_of t \<and>
         concerns (ac_sub user) t \<and> asked_for status t) \<and>
      (length rows < nat (floor (safe_limit limit)) \<longrightarrow>
         (\<forall>t \<in> set (db_trips (w_db w)). asked_for status t \<and>
            (ac_role user = ''rider'' \<and> tr_rider_id t = ac_sub user \<or>
             ac_role user = ''driver'' \<and> tr_driver_id t = Some (ac_sub user)) \<longrightarrow>
            trip_summary_of t \<in> set rows))) \<and>
    (\<forall>row. fst (byId X tripId user w) = Inr row \<longrightarrow>
      (\<exists>t \<in> set (db_trips (w_db w)). tr_id t = tripId \<and> concerns (ac_sub user) t \<and> row = trip_detail_of X t))"
    (is "?L \<and> ?B \<and> ?R \<and> ?D")
proof (intro conjI)
  note own = own_rows_decide [OF assms(2,3)]
  show ?L unfolding list_trips_def select_trips_def
    by (simp add: own query_select_elsewhere [OF assms(1)] throw_def)
  show ?B unfolding byId_def
    by (rule answer_elsewhere, rule query_select_elsewhere [OF assms(1)])
       (simp_all add: own throw_def ret_def split: list.split)
  show ?R
  proof (intro allI impI)
    fix rows assume "fst (list_trips status limit user w) = Inr rows"
    then obtain w' where "list_trips status limit user w = (Inr rows, w')" by (metis prod.collapse)
    note listed = listed_rows [OF assms(1) this assms(2)]
    show "length rows \<le> nat (floor (safe_limit limit)) \<and> length rows \<le> 100 \<and>
      sorted (map (\<lambda>r. - su_requested_at r) rows) \<and>
      (\<forall>r \<in> set rows. \<exists>t \<in> set (db_trips (w_db w)). r = trip_summary_of t \<and>
         concerns (ac_sub user) t \<and> asked_for status t) \<and>
      (length rows < nat (floor (safe_limit limit)) \<longrightarrow>
         (\<forall>t \<in> set (db_trips (w_db w)). asked_for status t \<and>
            (ac_role user = ''rider'' \<and> tr_rider_id t = ac_sub user \<or>
             ac_role user = ''driver'' \<and> tr_driver_id t = Some (ac_sub user)) \<longrightarrow>
            trip_summary_of t \<in> set rows))"
      using listed(1-3) listed(4) order_trans [OF listed(1) safe_limit_le] by blast
  qed
  show ?D using byId_row [OF assms(1) _ assms(2)] by (metis prod.collapse)
qed

lemma rider_reads:
  "(case fst (list_trips None (Num 50) \<lparr>ac_sub = rider1, ac_role = ''rider''\<rparr> sample_world) of
      Inr rows \<Rightarrow> map su_id rows = [trip4] | Inl e \<Rightarrow> False)"
  by code_simp

text \<open>With another rider's trip in the table, the rider's list is the same.\<close>

theorem reads_are_scoped_witness:
  "let user = \<lparr>ac_sub = rider1, ac_role = ''rider''\<rparr>;
       other = sample_trip\<lparr>tr_id := driver2, tr_rider_id := driver2\<rparr>;
       more = sample_world\<lparr>w_db := sample_db\<lparr>db_trips := other # db_trips sample_db\<rparr>\<rparr>
   in \<exists>rows. fst (list_trips None (Num 50) user more) = Inr rows \<and>
        fst (list_trips None (Num 50) user sample_world) = Inr rows \<and> map su_id rows = [trip4] \<and>
        (\<forall>r \<in> set rows. \<exists>t \<in> set (db_trips sample_db). r = trip_summary_of t \<and> concerns rider1 t)"
proof -
  let ?user = "\<lparr>ac_sub = rider1, ac_role = ''rider''\<rparr>"
  let ?other = "sample_trip\<lparr>tr_id := driver2, tr_rider_id := driver2\<rparr>"
  let ?d = "sample_db\<lparr>db_trips := ?other # db_trips sample_db\<rparr>"
  obtain rows where rows: "fst (list_trips None (Num 50) ?user sample_world) = Inr rows" "map su_id rows = [trip4]"
    using rider_reads by (auto split: sum.splits)
  have w: "w_tx sample_world = None" "w_db sample_world = sample_db" by (simp_all add: sample_world_def)
  have "\<not> concerns rider1 ?other" by code_simp
  then have "filter (concerns (ac_sub ?user)) (db_trips ?d) = filter (concerns (ac_sub ?user)) (db_trips (w_db sample_world))"
    by (simp add: w)
  note scoped = reads_are_scoped [OF w(1) _ this, of None "Num 50", unfolded rows(1) w(2), simplified]
  have "fst (list_trips None (Num 50) ?user (sample_world\<lparr>w_db := ?d\<rparr>)) = Inr rows"
    using scoped by blast
  moreover have "\<forall>r \<in> set rows. \<exists>t \<in> set (db_trips sample_db). r = trip_summary_of t \<and> concerns rider1 t"
    using scoped by blast
  ultimately show ?thesis using rows by (simp add: Let_def)
qed

section \<open>The second rating\<close>

text \<open>Calls when no fault is due.\<close>

lemma take_no_fault: "w_faults w = [] \<Longrightarrow> take_fault w = w"
  by (cases w) (simp add: take_fault_def)

lemma call_served: "w_faults w = [] \<Longrightarrow> call server f w = f w"
  by (simp add: call_def take_no_fault)

lemma query_served:
  "w_faults w = [] \<Longrightarrow> query st w = (case run_stmt st w of (Inl e, w') \<Rightarrow> (Inl e, abort_tx w') | (Inr x, w') \<Rightarrow> (Inr x, w'))"
  by (simp add: query_def call_served)

text \<open>A trip is rated once: when the servers answer, rating a completed trip a second time is
  refused with status 409 and \<open>trip already rated\<close>, and leaves the database as it was.\<close>

theorem second_rating_conflicts:
  assumes "w_faults w = []" and "w_tx w = None"
    and "t \<in> set (db_trips (w_db w))" and "tr_id t = tripId" and "tr_rider_id t = riderId"
    and "tr_status t = Completed" and "tr_driver_id t = Some driverId"
    and "tripId \<in> rt_trip_id ` set (db_trip_ratings (w_db w))"
    and "1 \<le> rd_rating dto" and "rd_rating dto \<le> 5"
  shows "fst (rate X tripId riderId dto w) = Inl (Http 409 None ''trip already rated'') \<and>
    w_db (snd (rate X tripId riderId dto w)) = w_db w"
proof -
  let ?d = "w_db w"
  obtain v vs where rows: "List.map_filter tr_driver_id (filter (\<lambda>t. tr_id t = tripId \<and> tr_rider_id t = riderId \<and>
      tr_status t = Completed) (db_trips ?d)) = v # vs"
  proof -
    have "driverId \<in> set (List.map_filter tr_driver_id (filter (\<lambda>t. tr_id t = tripId \<and> tr_rider_id t = riderId \<and>
        tr_status t = Completed) (db_trips ?d)))"
      using assms(3-7) by (force simp: List.map_filter_def)
    then show ?thesis using that by (cases "List.map_filter tr_driver_id (filter (\<lambda>t. tr_id t = tripId \<and>
        tr_rider_id t = riderId \<and> tr_status t = Completed) (db_trips ?d))") auto
  qed
  show ?thesis
    using assms(1,2,8,9,10) rows
    by (simp add: rate_def with_client_def connect_def await_def call_served ret_def try_catch_def begin_tx_def
        set_state_def query_served select_rateable_def run_stmt_def select_def insert_rating_def
        abort_tx_def rollback_quietly_def rollback_def finally_do_def release_def close_tx_def throw_def
        is_unique_violation_def unique_violation_def)
qed

definition rated_world :: world where
  "rated_world = sample_world\<lparr>w_db := sample_db\<lparr>
     db_trips := [sample_trip\<lparr>tr_status := Completed, tr_driver_id := Some driver2\<rparr>],
     db_trip_ratings := [\<lparr>rt_trip_id = trip4, rt_rider_id = rider1, rt_driver_id = driver2,
       rt_rating = 5, rt_comment = None\<rparr>]\<rparr>\<rparr>"

theorem second_rating_conflicts_witness:
  "fst (rate sample_ext trip4 rider1 \<lparr>rd_rating = 4, rd_comment = None\<rparr> rated_world) =
     Inl (Http 409 None ''trip already rated'')"
  using second_rating_conflicts [of rated_world "sample_trip\<lparr>tr_status := Completed, tr_driver_id := Some driver2\<rparr>"
      trip4 rider1 driver2 "\<lparr>rd_rating = 4, rd_comment = None\<rparr>" sample_ext]
  by (simp add: rated_world_def sample_world_def sample_trip_def)

end
