(* ===== verification/OutboxProperties.thy ===== *)
theory OutboxProperties
  imports SampleCity
begin

text \<open>
  What the transactional outbox of the trip service promises: an event is marked as published only
  after Kafka has taken it. And what it does not: a lost connection at the wrong moment stops it for
  good, and reports a trip that was created as an error.
\<close>

section \<open>An event marked as published was sent\<close>

definition same_event :: "trip_event_row \<Rightarrow> trip_event_row \<Rightarrow> bool" where
  "same_event e e' \<longleftrightarrow> te_id e' = te_id e \<and> te_trip_id e' = te_trip_id e \<and>
     te_event_type e' = te_event_type e \<and> te_payload e' = te_payload e"

text \<open>Kafka holds the event as the message \<open>outboxPayload\<close> makes of it.\<close>

definition sent :: "ext \<Rightarrow> kafka_message list \<Rightarrow> trip_event_row \<Rightarrow> bool" where
  "sent X ms e \<longleftrightarrow> (\<exists>p m. outboxPayload X (te_trip_id e) (te_event_type e) (te_payload e) = Inr p \<and>
     m \<in> set ms \<and> km_value m = Some (JsonText (JObj p)))"

text \<open>The events of \<open>d\<close> are those of \<open>d0\<close>, and those newly marked were sent.\<close>

definition marks_ok :: "ext \<Rightarrow> db \<Rightarrow> kafka_message list \<Rightarrow> db \<Rightarrow> bool" where
  "marks_ok X d0 ms d \<longleftrightarrow> (\<forall>e' \<in> set (db_trip_events d). \<exists>e \<in> set (db_trip_events d0). same_event e e' \<and>
     (te_published_at e' \<noteq> None \<longrightarrow> te_published_at e \<noteq> None \<or> sent X ms e))"

text \<open>The state while the outbox works: in its transaction, or after it.\<close>

definition outbox_open :: "ext \<Rightarrow> db \<Rightarrow> world \<Rightarrow> bool" where
  "outbox_open X d0 w \<longleftrightarrow> w_db w = d0 \<and>
     (\<exists>t. w_tx w = Some t \<and> (tx_aborted t \<or> marks_ok X d0 (w_kafka w) (tx_db t)))"

definition outbox_closed :: "ext \<Rightarrow> db \<Rightarrow> world \<Rightarrow> bool" where
  "outbox_closed X d0 w \<longleftrightarrow> marks_ok X d0 (w_kafka w) (w_db w)"

lemma sent_more: "sent X ms e \<Longrightarrow> sent X (ms @ ms') e"
  unfolding sent_def by auto

lemma marks_ok_refl: "marks_ok X d0 ms d0"
  unfolding marks_ok_def same_event_def by blast

lemma marks_ok_more: "marks_ok X d0 ms d \<Longrightarrow> marks_ok X d0 (ms @ ms') d"
  unfolding marks_ok_def by (blast intro: sent_more)

lemma closed_if_open: "outbox_open X d0 w \<Longrightarrow> outbox_closed X d0 w"
  by (simp add: outbox_open_def outbox_closed_def marks_ok_refl)

lemma db_kept: "outbox_open X d0 w \<Longrightarrow> w_db w' = w_db w \<Longrightarrow> outbox_closed X d0 w'"
  by (simp add: outbox_open_def outbox_closed_def marks_ok_refl)

text \<open>A statement in the transaction, by what it does to the events.\<close>

lemma valid_query_outbox:
  assumes "\<And>s d x d' s' ms. st s d = (Inr (x, d'), s') \<Longrightarrow> P ms \<Longrightarrow> marks_ok X d0 ms d \<Longrightarrow> marks_ok X d0 ms d'"
  shows "valid (\<lambda>w. outbox_open X d0 w \<and> P (w_kafka w)) (query st) (\<lambda>_. outbox_open X d0) (\<lambda>_. outbox_open X d0)"
proof -
  have run: "outbox_open X d0 (snd (run_stmt st w))" if "outbox_open X d0 w" "P (w_kafka w)" for w
    using that assms
    by (auto simp: outbox_open_def run_stmt_def split: prod.splits sum.splits)
  have "outbox_open X d0 (snd (query st w))" if w: "outbox_open X d0 w" "P (w_kafka w)" for w
  proof -
    have "outbox_open X d0 (take_fault w)" using w by (simp add: outbox_open_def)
    then have "outbox_open X d0 (snd (call ''postgres'' (run_stmt st) w))"
      using run [of "take_fault w"] w by (cases rule: call_cases [of "''postgres''" "run_stmt st" w]) auto
    then show ?thesis
      by (auto simp: query_def outbox_open_def abort_tx_def split: prod.splits sum.splits)
  qed
  then show ?thesis by (auto simp: valid_def) (metis snd_conv)+
qed

lemma marks_ok_update:
  assumes "marks_ok X d0 ms d" and "distinct (map te_id (db_trip_events d0))"
    and "\<And>e. same_event e (u e)"
    and "\<And>e. e \<in> set (db_trip_events d0) \<Longrightarrow> te_id e = eid \<Longrightarrow> sent X ms e"
  shows "marks_ok X d0 ms (d\<lparr>db_trip_events := update_rows (\<lambda>e. te_id e = eid) u (db_trip_events d)\<rparr>)"
  unfolding marks_ok_def
proof
  fix e' assume "e' \<in> set (db_trip_events (d\<lparr>db_trip_events := update_rows (\<lambda>e. te_id e = eid) u (db_trip_events d)\<rparr>))"
  then obtain e1 where e1: "e1 \<in> set (db_trip_events d)" and e': "e' = (if te_id e1 = eid then u e1 else e1)"
    by (auto simp: update_rows_def)
  obtain e where e: "e \<in> set (db_trip_events d0)" "same_event e e1"
      "te_published_at e1 \<noteq> None \<longrightarrow> te_published_at e \<noteq> None \<or> sent X ms e"
    using assms(1) e1 unfolding marks_ok_def by blast
  have "same_event e e'" using e(2) assms(3) [of e1] by (simp add: e' same_event_def)
  moreover have "te_published_at e' \<noteq> None \<longrightarrow> te_published_at e \<noteq> None \<or> sent X ms e"
    using e assms(4) [of e] by (cases "te_id e1 = eid") (simp_all add: e' same_event_def)
  ultimately show "\<exists>e \<in> set (db_trip_events d0). same_event e e' \<and>
      (te_published_at e' \<noteq> None \<longrightarrow> te_published_at e \<noteq> None \<or> sent X ms e)"
    using e(1) by blast
qed

lemma marks_ok_failed:
  assumes "marks_ok X d0 ms d"
    and "\<And>e. same_event e (u e) \<and> te_published_at (u e) = te_published_at e"
  shows "marks_ok X d0 ms (d\<lparr>db_trip_events := update_rows (\<lambda>e. te_id e = eid) u (db_trip_events d)\<rparr>)"
  unfolding marks_ok_def
proof
  fix e' assume "e' \<in> set (db_trip_events (d\<lparr>db_trip_events := update_rows (\<lambda>e. te_id e = eid) u (db_trip_events d)\<rparr>))"
  then obtain e1 where e1: "e1 \<in> set (db_trip_events d)" and e': "e' = (if te_id e1 = eid then u e1 else e1)"
    by (auto simp: update_rows_def)
  have "same_event e1 e' \<and> te_published_at e' = te_published_at e1"
    using assms(2) [of e1] by (simp add: e' same_event_def)
  then show "\<exists>e \<in> set (db_trip_events d0). same_event e e' \<and>
      (te_published_at e' \<noteq> None \<longrightarrow> te_published_at e \<noteq> None \<or> sent X ms e)"
    using assms(1) e1 unfolding marks_ok_def same_event_def by metis
qed

lemma distinct_event:
  assumes "distinct (map te_id (db_trip_events d0))" and "e \<in> set (db_trip_events d0)"
    and "e1 \<in> set (db_trip_events d0)" and "te_id e = te_id e1"
  shows "e = e1"
  using assms by (auto simp: distinct_map inj_on_def)

definition known :: "db \<Rightarrow> trip_event_row \<Rightarrow> bool" where
  "known d0 row \<longleftrightarrow> (\<exists>e \<in> set (db_trip_events d0). same_event e row)"

lemma valid_mark_published:
  assumes "distinct (map te_id (db_trip_events d0))" and "known d0 row"
  shows "valid (\<lambda>w. outbox_open X d0 w \<and> sent X (w_kafka w) row) (query (mark_published (te_id row)))
    (\<lambda>_. outbox_open X d0) (\<lambda>_. outbox_open X d0)"
proof (rule valid_query_outbox)
  fix s d x d' s' ms
  assume st: "mark_published (te_id row) s d = (Inr (x, d'), s')" and row: "sent X ms row" and ok: "marks_ok X d0 ms d"
  have "sent X ms e" if e: "e \<in> set (db_trip_events d0)" "te_id e = te_id row" for e
  proof -
    obtain e0 where e0: "e0 \<in> set (db_trip_events d0)" "same_event e0 row" using assms(2) by (auto simp: known_def)
    then have "e = e0" using distinct_event [OF assms(1) e(1) e0(1)] e(2) by (simp add: same_event_def)
    then show ?thesis using row e0(2) by (simp add: sent_def same_event_def)
  qed
  then show "marks_ok X d0 ms d'"
    using st marks_ok_update [OF ok assms(1)]
    by (auto simp: mark_published_def update_events_def same_event_def)
qed

lemma valid_mark_failed:
  "valid (outbox_open X d0) (query (mark_publish_failed eid err)) (\<lambda>_. outbox_open X d0) (\<lambda>_. outbox_open X d0)"
proof -
  have "valid (\<lambda>w. outbox_open X d0 w \<and> True) (query (mark_publish_failed eid err))
      (\<lambda>_. outbox_open X d0) (\<lambda>_. outbox_open X d0)"
    by (rule valid_query_outbox)
      (auto simp: mark_publish_failed_def update_events_def same_event_def intro!: marks_ok_failed)
  then show ?thesis by simp
qed

lemma valid_publish:
  assumes "outboxPayload X (te_trip_id row) (te_event_type row) (te_payload row) = Inr p"
  shows "valid (outbox_open X d0) (publishTripEvent p)
    (\<lambda>_ w. outbox_open X d0 w \<and> sent X (w_kafka w) row) (\<lambda>_. outbox_open X d0)"
proof -
  have keep: "outbox_open X d0 (w\<lparr>w_kafka := w_kafka w @ ms\<rparr>)" if "outbox_open X d0 w" for w ms
    using that by (auto simp: outbox_open_def marks_ok_more)
  have fault: "outbox_open X d0 (take_fault w)" if "outbox_open X d0 w" for w
    using that by (simp add: outbox_open_def)
  have sent: "sent X (ms @ [\<lparr>km_topic = topic, km_key = k, km_value = Some (JsonText (JObj p))\<rparr>]) row" for ms topic k
    using assms unfolding sent_def by fastforce
  have env: "env_var name w = (r, w') \<Longrightarrow> w' = w" for name w r w'
    by (auto simp: env_var_def of_sum_def effect_simps split: sum.splits)
  show ?thesis
    unfolding publishTripEvent_def
  proof (rule valid_await [where R = "\<lambda>_. outbox_open X d0"])
    show "valid (outbox_open X d0) (env_var ''TOPIC_TRIP_EVENTS'') (\<lambda>_. outbox_open X d0) (\<lambda>_. outbox_open X d0)"
      by (auto simp: valid_def dest: env)
  next
    fix topic
    show "valid (outbox_open X d0)
        (kafka_send \<lparr>km_topic = topic, km_key = key_of (map_of p ''trip_id''), km_value = Some (JsonText (JObj p))\<rparr>)
        (\<lambda>_ w. outbox_open X d0 w \<and> sent X (w_kafka w) row) (\<lambda>_. outbox_open X d0)"
      by (auto simp: valid_def kafka_send_def call_def effect_simps keep [OF fault] sent split: fault.splits)
        (use keep [OF fault] fault in auto)
  qed
qed

lemma valid_publish_row:
  assumes "distinct (map te_id (db_trip_events d0))" and "known d0 row"
  shows "valid (outbox_open X d0) (publish_row X row) (\<lambda>_. outbox_open X d0) (\<lambda>_. outbox_open X d0)"
proof (cases "outboxPayload X (te_trip_id row) (te_event_type row) (te_payload row)")
  case (Inl e)
  then show ?thesis by (simp add: publish_row_def of_exn_def await_throw valid_throw)
next
  case (Inr p)
  then show ?thesis
    unfolding publish_row_def of_exn_def
    by (simp add: await_ret)
      (rule valid_try_catch [OF valid_await [OF valid_publish [OF Inr] valid_mark_published [OF assms]] valid_mark_failed])
qed

lemma valid_select_pending:
  "valid (outbox_open X d0) (query select_pending) (\<lambda>rows w. outbox_open X d0 w \<and> (\<forall>row \<in> set rows. known d0 row))
     (\<lambda>_. outbox_open X d0)"
proof (rule validI)
  fix w rows w' assume w: "outbox_open X d0 w" and q: "query select_pending w = (Inr rows, w')"
  have "valid (\<lambda>w. outbox_open X d0 w \<and> True) (query select_pending) (\<lambda>_. outbox_open X d0) (\<lambda>_. outbox_open X d0)"
    by (rule valid_query_outbox) (auto simp: select_pending_def select_def)
  from validD(1) [OF this _ q] w have "outbox_open X d0 w'" by simp
  moreover obtain w1 where c: "call ''postgres'' (run_stmt select_pending) w = (Inr rows, w1)"
    using q by (auto simp: query_def split: prod.splits sum.splits)
  then have r: "run_stmt select_pending (take_fault w) = (Inr rows, w1)"
    by (cases rule: call_cases [of "''postgres''" "run_stmt select_pending" w]) auto
  have "known d0 row" if "row \<in> set rows" for row
  proof -
    obtain t where t: "w_tx w = Some t" "tx_aborted t \<or> marks_ok X d0 (w_kafka w) (tx_db t)"
      using w by (auto simp: outbox_open_def)
    with r that have "row \<in> set (db_trip_events (tx_db t))" "\<not> tx_aborted t"
      by (auto simp: run_stmt_def select_pending_def select_def split: if_splits dest: in_set_takeD)
    with t show ?thesis unfolding known_def marks_ok_def by blast
  qed
  ultimately show "outbox_open X d0 w' \<and> (\<forall>row \<in> set rows. known d0 row)" by blast
next
  fix w e w' assume w: "outbox_open X d0 w" and q: "query select_pending w = (Inl e, w')"
  have "valid (\<lambda>w. outbox_open X d0 w \<and> True) (query select_pending) (\<lambda>_. outbox_open X d0) (\<lambda>_. outbox_open X d0)"
    by (rule valid_query_outbox) (auto simp: select_pending_def select_def)
  from validD(2) [OF this _ q] w show "outbox_open X d0 w'" by simp
qed

lemma valid_rows:
  assumes "distinct (map te_id (db_trip_events d0))"
  shows "valid (\<lambda>w. outbox_open X d0 w \<and> (\<forall>row \<in> set rows. known d0 row)) (for_each rows (publish_row X))
    (\<lambda>_. outbox_open X d0) (\<lambda>_. outbox_open X d0)"
proof (cases "\<forall>row \<in> set rows. known d0 row")
  case True
  have "valid (outbox_open X d0) (for_each rows (publish_row X)) (\<lambda>_. outbox_open X d0) (\<lambda>_. outbox_open X d0)"
    by (rule valid_for_each) (use True valid_publish_row [OF assms] in blast)
  then show ?thesis by (rule valid_pre) simp
qed (auto simp: valid_def)

lemma valid_commit_outbox:
  "valid (outbox_open X d0) commit (\<lambda>_. outbox_closed X d0) (\<lambda>_. outbox_closed X d0)"
  by (auto simp: valid_def commit_def commit_now_def call_def effect_simps outbox_open_def outbox_closed_def
      close_tx_def take_fault_def marks_ok_refl split: fault.splits option.splits)

lemma valid_flush:
  assumes "distinct (map te_id (db_trip_events d0))"
  shows "valid (\<lambda>w. w_db w = d0 \<and> w_tx w = None) (outbox_flush X) (\<lambda>_. outbox_closed X d0) (\<lambda>_. outbox_closed X d0)"
  unfolding outbox_flush_def
proof (rule valid_await [where R = "\<lambda>_. outbox_open X d0"])
  show "valid (\<lambda>w. w_db w = d0 \<and> w_tx w = None) begin_tx (\<lambda>_. outbox_open X d0) (\<lambda>_. outbox_closed X d0)"
    by (auto simp: valid_def begin_tx_def call_def effect_simps outbox_open_def outbox_closed_def marks_ok_refl
        split: fault.splits)
next
  have keep: "valid P m Q (\<lambda>_. outbox_open X d0) \<Longrightarrow> valid P m Q (\<lambda>_. outbox_closed X d0)" for P Q and m :: "'c act"
    by (erule valid_conseq) (auto dest: closed_if_open)
  show "valid (outbox_open X d0) (await (query select_pending) (\<lambda>rows. await (for_each rows (publish_row X)) (\<lambda>_. commit)))
      (\<lambda>_. outbox_closed X d0) (\<lambda>_. outbox_closed X d0)"
    by (rule valid_await [OF keep [OF valid_select_pending]],
        rule valid_await [OF valid_conseq [OF valid_rows [OF assms]] valid_commit_outbox])
      (auto dest: closed_if_open)
qed

lemma outbox_keeps_closed:
  "valid (outbox_closed X d0) rollback_quietly (\<lambda>_. outbox_closed X d0) E"
  "valid (outbox_closed X d0) (await release (\<lambda>_. set_state (\<lambda>w. w\<lparr>w_outboxRunning := False\<rparr>)))
     (\<lambda>_. outbox_closed X d0) E"
  by (auto simp: valid_def rollback_quietly_def rollback_def try_catch_def call_def await_def release_def
      effect_simps outbox_closed_def close_tx_def take_fault_def split: fault.splits)

lemma valid_outbox:
  assumes "distinct (map te_id (db_trip_events d0))"
  shows "valid (\<lambda>w. w_db w = d0 \<and> w_tx w = None) (publishPendingTripEvents X)
    (\<lambda>_. outbox_closed X d0) (\<lambda>_. outbox_closed X d0)"
proof -
  let ?I = "\<lambda>w. w_db w = d0 \<and> w_tx w = None"
  have closed: "?I w \<Longrightarrow> outbox_closed X d0 w" for w by (auto simp: outbox_closed_def marks_ok_refl)
  have connect: "valid ?I connect (\<lambda>_. ?I) (\<lambda>_. outbox_closed X d0)"
    using closed by (auto simp: valid_def connect_def call_def effect_simps split: fault.splits)
  have work: "valid ?I (finally_do (try_catch (outbox_flush X) (\<lambda>e. rollback_quietly))
      (await release (\<lambda>_. set_state (\<lambda>w. w\<lparr>w_outboxRunning := False\<rparr>))))
      (\<lambda>_. outbox_closed X d0) (\<lambda>_. outbox_closed X d0)"
    by (rule valid_finally [OF valid_try_catch [OF valid_flush [OF assms] outbox_keeps_closed(1)]
          outbox_keeps_closed(2) outbox_keeps_closed(2)])
  show ?thesis
    unfolding publishPendingTripEvents_def
    by (rule valid_await [where R = "\<lambda>_. ?I"], rule valid_get, assumption, rule valid_if, rule valid_ret,
        erule closed, rule valid_await [where R = "\<lambda>_. ?I"], rule valid_set, simp,
        rule valid_await [OF connect work])
qed

text \<open>C13. The outbox marks an event as published only if Kafka has it: after a run of the outbox, under
  any fault schedule, every event is one that was there before, unchanged but for its publication
  fields, and if it is marked as published now and was not before, Kafka holds the message that
  \<open>outboxPayload\<close> builds from it. Nothing is lost: what was not sent stays pending.\<close>

theorem outbox_marks_only_sent:
  assumes "publishPendingTripEvents X w = (r, w')" and "w_tx w = None"
    and "distinct (map te_id (db_trip_events (w_db w)))"
    and "e' \<in> set (db_trip_events (w_db w'))"
  shows "\<exists>e \<in> set (db_trip_events (w_db w)). same_event e e' \<and>
    (te_published_at e' \<noteq> None \<longrightarrow> te_published_at e \<noteq> None \<or> sent X (w_kafka w') e)"
proof -
  have "outbox_closed X (w_db w) w'"
    using validD [OF valid_outbox [OF assms(3)], of w] assms(1,2) by (cases r) auto
  then show ?thesis using assms(4) unfolding outbox_closed_def marks_ok_def by blast
qed

lemma outbox_example:
  "map (\<lambda>e. te_published_at e = None) (db_trip_events (w_db (snd (publishPendingTripEvents sample_ext sample_world)))) = [False]"
  by code_simp

theorem outbox_marks_only_sent_witness:
  "\<exists>e \<in> set (db_trip_events sample_db).
     sent sample_ext (w_kafka (snd (publishPendingTripEvents sample_ext sample_world))) e"
proof -
  let ?w = "snd (publishPendingTripEvents sample_ext sample_world)"
  obtain e' where e': "db_trip_events (w_db ?w) = [e']" "te_published_at e' \<noteq> None"
    using outbox_example by auto
  have "\<exists>e \<in> set (db_trip_events (w_db sample_world)). same_event e e' \<and>
      (te_published_at e' \<noteq> None \<longrightarrow> te_published_at e \<noteq> None \<or> sent sample_ext (w_kafka ?w) e)"
    by (rule outbox_marks_only_sent [OF surjective_pairing]) (use e' in \<open>simp_all add: sample_world_def sample_db_def\<close>)
  then show ?thesis using e'(2) by (auto simp: sample_world_def sample_db_def)
qed

section \<open>Where the outbox fails\<close>

text \<open>The connection is taken outside the \<open>try\<close>: when it fails, \<open>publishPendingTripEvents\<close> throws
  with \<open>outboxRunning\<close> still set, and from then on it does nothing, however often the timer calls it:
  no event of this process is published again.\<close>

theorem outbox_stops_after_failed_connect:
  assumes "\<not> w_outboxRunning w" and "next_fault (w_faults w) \<noteq> Ok"
    and "publishPendingTripEvents X w = (r, w')"
  shows "r = Inl (Unavailable ''postgres'') \<and> w_db w' = w_db w \<and>
    publishPendingTripEvents X (w'\<lparr>w_faults := later\<rparr>) = (Inr (), w'\<lparr>w_faults := later\<rparr>)"
  using assms
  by (auto simp: publishPendingTripEvents_def await_def effect_simps connect_def call_def take_fault_def
      split: fault.splits)

theorem outbox_stops_after_failed_connect_witness:
  "\<exists>w'. publishPendingTripEvents sample_ext (sample_world\<lparr>w_faults := [Lost]\<rparr>) = (Inl (Unavailable ''postgres''), w') \<and>
     publishPendingTripEvents sample_ext (w'\<lparr>w_faults := []\<rparr>) = (Inr (), w'\<lparr>w_faults := []\<rparr>)"
proof -
  let ?w = "sample_world\<lparr>w_faults := [Lost]\<rparr>"
  obtain r w' where run: "publishPendingTripEvents sample_ext ?w = (r, w')" by fastforce
  from outbox_stops_after_failed_connect [OF _ _ run, where later = "[]"] run show ?thesis
    by (simp add: sample_world_def)
qed

text \<open>A trip that exists can be answered with an error: the request commits, and when the
  connection for the outbox fails right after, the caller of \<open>POST /trips\<close> gets the exception although
  the trip is in the database, so that asking again books a second one.\<close>

theorem created_trip_reported_as_error:
  "let w = sample_world\<lparr>w_faults := replicate 5 Ok @ [Lost]\<rparr>;
       dto = \<lparr>ct_pickup = \<lparr>gp_lat = JNum 41, gp_lon = JNum 69\<rparr>, ct_dropoff = \<lparr>gp_lat = JNum 41, gp_lon = JNum 69\<rparr>,
              ct_pickup_address = None, ct_dropoff_address = None\<rparr>
   in fst (create sample_ext dto rider1 w) = Inl (Unavailable ''postgres'') \<and>
      map tr_id (db_trips (w_db (snd (create sample_ext dto rider1 w)))) = [trip4, uuid_of (CHR ''a'')]"
proof -
  show ?thesis unfolding Let_def
  proof
    show "fst (create sample_ext \<lparr>ct_pickup = \<lparr>gp_lat = JNum 41, gp_lon = JNum 69\<rparr>,
        ct_dropoff = \<lparr>gp_lat = JNum 41, gp_lon = JNum 69\<rparr>, ct_pickup_address = None, ct_dropoff_address = None\<rparr>
        rider1 (sample_world\<lparr>w_faults := replicate 5 Ok @ [Lost]\<rparr>)) = Inl (Unavailable ''postgres'')"
      by code_simp
  qed code_simp
qed

end
