(* ===== verification/NumberRoundTrip.thy ===== *)
theory NumberRoundTrip
  imports JsText
begin

text \<open>
  \<open>Number(String(x))\<close> is \<open>x\<close> for an amount in cents, as the services exchange them through Redis:
  the decimal that is printed has at most two places, it is read back exactly, and its nearest double
  is the number printed.
\<close>

section \<open>Reading what was printed\<close>

lemma digits_val_append: "digits_val (a @ b) = digits_val a * 10 ^ length b + digits_val b"
proof (induction b rule: rev_induct)
  case Nil
  show ?case by (simp add: digits_val_def)
next
  case (snoc c b)
  have "digits_val (a @ b @ [c]) = digits_val ((a @ b) @ [c])" by simp
  also have "\<dots> = (digits_val a * 10 ^ length b + digits_val b) * 10 + digit_val c"
    using snoc by (simp only: digits_val_snoc)
  finally show ?case by (simp add: algebra_simps)
qed

lemma digits_val_Cons: "digits_val (c # s) = digit_val c * 10 ^ length s + digits_val s"
  using digits_val_append [of "[c]" s] by (simp add: digits_val_def)

lemma fraction_digits_spec:
  assumes "0 \<le> x" and "x < 1" and "x * 10 ^ n = of_int m"
  shows "list_all is_digit (fraction_digits n x) \<and>
    of_int (digits_val (fraction_digits n x)) = x * 10 ^ length (fraction_digits n x)"
  using assms
proof (induction n arbitrary: x m)
  case 0
  then have "m = 0" by simp
  then show ?case using "0.prems" by (simp add: digits_val_def)
next
  case (Suc n)
  define d where "d = floor (x * 10)"
  define y where "y = x * 10 - of_int d"
  have y: "0 \<le> y" "y < 1" unfolding y_def d_def by linarith+
  have d: "0 \<le> d" "d < 10" using Suc.prems unfolding d_def by (auto simp: floor_less_iff le_floor_iff)
  have "y * 10 ^ n = of_int (m - d * 10 ^ n)"
    using Suc.prems(3) by (simp add: y_def left_diff_distrib)
  note IH = Suc.IH [OF y this]
  show ?case
  proof (cases "x = 0")
    case False
    then have e: "fraction_digits (Suc n) x = digit_char d # fraction_digits n y"
      by (simp add: d_def y_def)
    have "of_int (digits_val (fraction_digits (Suc n) x)) =
        of_int d * 10 ^ length (fraction_digits n y) + y * 10 ^ length (fraction_digits n y)"
      using IH unfolding e digits_val_Cons by (simp add: digit_char_props d)
    also have "\<dots> = x * 10 ^ length (fraction_digits (Suc n) x)"
      unfolding e by (simp add: y_def distrib_right [symmetric])
    finally show ?thesis using IH unfolding e by (simp add: digit_char_props d)
  qed (simp add: digits_val_def)
qed

lemma not_digit_dot: "\<not> is_digit (CHR ''.'')"
  by (simp add: is_digit_def)

lemma takeWhile_digits: "list_all is_digit a \<Longrightarrow> takeWhile is_digit (a @ CHR ''.'' # b) = a"
  "list_all is_digit a \<Longrightarrow> dropWhile is_digit (a @ CHR ''.'' # b) = CHR ''.'' # b"
  "list_all is_digit a \<Longrightarrow> takeWhile is_digit a = a" "list_all is_digit a \<Longrightarrow> dropWhile is_digit a = []"
  by (induction a) (simp_all add: not_digit_dot)

lemma read_decimal_text:
  assumes "0 \<le> x" and "x * 10 ^ 25 = of_int m"
  shows "read_unsigned (decimal_text x) = Some x"
proof -
  let ?ip = "int_digits (floor x)" let ?fp = "fraction_digits 25 (x - of_int (floor x))"
  have n: "0 \<le> floor x" using assms(1) by simp
  note ip = int_digits_digits [OF n] digits_val_int_digits [OF n]
  have "(x - of_int (floor x)) * 10 ^ 25 = of_int (m - floor x * 10 ^ 25)"
    using assms(2) by (simp add: left_diff_distrib)
  moreover have "0 \<le> x - of_int (floor x)" "x - of_int (floor x) < 1" by linarith+
  ultimately have fp: "list_all is_digit ?fp"
    "of_int (digits_val ?fp) = (x - of_int (floor x)) * 10 ^ length ?fp"
    using fraction_digits_spec by blast+
  have val: "of_int (digits_val (?ip @ ?fp)) / 10 ^ length ?fp = x"
    using fp(2) by (simp add: digits_val_append ip(2) add_divide_distrib)
  show ?thesis
  proof (cases "?fp = []")
    case True
    then show ?thesis
      using val by (simp add: read_unsigned_def decimal_text_def Let_def takeWhile_digits ip(1))
  next
    case False
    then show ?thesis
      using val by (simp add: read_unsigned_def decimal_text_def Let_def takeWhile_digits ip(1) fp(1))
  qed
qed

lemma digit_cases:
  assumes "is_digit c"
  shows "c \<in> set ''0123456789''"
proof -
  define n where "n = (of_char c :: int)"
  have n: "48 \<le> n" "n \<le> 57" using assms by (simp_all add: is_digit_def Let_def n_def)
  have "n = 48 \<or> n = 49 \<or> n = 50 \<or> n = 51 \<or> n = 52 \<or> n = 53 \<or> n = 54 \<or> n = 55 \<or> n = 56 \<or> n = 57"
    using n by presburger
  moreover have "c = char_of n" by (simp add: n_def)
  ultimately show ?thesis by (elim disjE) (simp_all add: char_of_def)
qed

definition plain_char :: "char \<Rightarrow> bool" where
  "plain_char c \<longleftrightarrow> is_digit c \<or> c = CHR ''.''"

lemma plain_not_space: "plain_char c \<Longrightarrow> \<not> js_space c"
  by (auto simp: plain_char_def is_digit_def js_space_def Let_def)

lemma trim_plain: "list_all plain_char s \<Longrightarrow> trim s = s"
proof -
  assume "list_all plain_char s"
  then have "\<forall>c \<in> set s. \<not> js_space c" by (auto simp: list_all_iff plain_not_space)
  then have "dropWhile js_space s = s" "dropWhile js_space (rev s) = rev s"
    by (metis dropWhile_eq_self_iff hd_in_set, metis dropWhile_eq_self_iff hd_in_set set_rev)
  then show ?thesis by (simp add: trim_def)
qed

lemma plain_not_prefix:
  assumes "plain_char x"
  shows "x \<noteq> CHR ''x''" "x \<noteq> CHR ''X''" "x \<noteq> CHR ''o''" "x \<noteq> CHR ''O''" "x \<noteq> CHR ''b''" "x \<noteq> CHR ''B''"
    "x \<noteq> CHR ''-''" "x \<noteq> CHR ''+''" "x \<noteq> CHR ''I''"
  using assms by (auto simp: plain_char_def is_digit_def Let_def)

lemma js_Number_plain:
  assumes "list_all plain_char (c # u)" and "is_digit c"
  shows "js_Number (c # u) = (case read_unsigned (c # u) of None \<Rightarrow> NaN | Some q \<Rightarrow> to_js q)"
proof -
  have t: "trim (c # u) = c # u" by (rule trim_plain [OF assms(1)])
  have "plain_char c" using assms(1) by simp
  then have i: "c # u \<noteq> ''Infinity''" using plain_not_prefix(9) by auto
  have "c \<in> set ''0123456789''" by (rule digit_cases [OF assms(2)])
  then consider "c = CHR ''0''" | "c \<in> set ''123456789''" by auto
  then show ?thesis
  proof cases
    case 1
    show ?thesis
    proof (cases u)
      case Nil
      then show ?thesis using 1 t i by (simp add: js_Number_def)
    next
      case (Cons x v)
      then have "plain_char x" using assms(1) by simp
      then show ?thesis using 1 t i Cons plain_not_prefix [of x] by (simp add: js_Number_def)
    qed
  next
    case 2
    then have "c = CHR ''1'' \<or> c = CHR ''2'' \<or> c = CHR ''3'' \<or> c = CHR ''4'' \<or> c = CHR ''5'' \<or>
      c = CHR ''6'' \<or> c = CHR ''7'' \<or> c = CHR ''8'' \<or> c = CHR ''9''" by simp
    then show ?thesis using t i by (elim disjE) (simp_all add: js_Number_def)
  qed
qed

lemma decimal_text_plain:
  assumes "0 \<le> x" and "x * 10 ^ 25 = of_int m"
  shows "list_all plain_char (decimal_text x)" and "\<exists>c u. decimal_text x = c # u \<and> is_digit c"
proof -
  have n: "0 \<le> floor x" using assms(1) by simp
  note ip = int_digits_digits [OF n]
  have "(x - of_int (floor x)) * 10 ^ 25 = of_int (m - floor x * 10 ^ 25)"
    using assms(2) by (simp add: left_diff_distrib)
  moreover have "0 \<le> x - of_int (floor x)" "x - of_int (floor x) < 1" by linarith+
  ultimately have fp: "list_all is_digit (fraction_digits 25 (x - of_int (floor x)))"
    using fraction_digits_spec by blast
  show "list_all plain_char (decimal_text x)"
    using ip fp by (auto simp: decimal_text_def Let_def plain_char_def list_all_iff)
  show "\<exists>c u. decimal_text x = c # u \<and> is_digit c"
    using ip by (cases "int_digits (floor x)") (auto simp: decimal_text_def Let_def)
qed

lemma js_Number_decimal_text:
  assumes "0 \<le> x" and "x * 10 ^ 25 = of_int m"
  shows "js_Number (decimal_text x) = to_js x"
proof -
  obtain c u where t: "decimal_text x = c # u" "is_digit c" using decimal_text_plain(2) [OF assms] by blast
  then have "js_Number (decimal_text x) = (case read_unsigned (decimal_text x) of None \<Rightarrow> NaN | Some q \<Rightarrow> to_js q)"
    using js_Number_plain decimal_text_plain(1) [OF assms] by metis
  then show ?thesis by (simp add: read_decimal_text [OF assms])
qed

section \<open>The shortest decimal of an amount in cents\<close>

lemma shortest_first:
  assumes "sorted ks" and "k \<in> set ks" and "fl (round_digits k x) = x"
  shows "\<exists>k' \<le> k. shortest ks x = round_digits k' x"
  using assms by (induction ks) auto

lemma cents_scaled: "- 2 \<le> e \<Longrightarrow> \<exists>j. of_int n * ten_powi e * 100 = of_int j"
proof (cases "0 \<le> e")
  case True
  then have "of_int n * ten_powi e * 100 = of_int (n * 10 ^ nat e * 100)" by (simp add: ten_powi_def)
  then show ?thesis by blast
next
  case False
  moreover assume "- 2 \<le> e"
  ultimately have "e = - 1 \<or> e = - 2" by linarith
  then have "of_int n * ten_powi e * 100 = of_int (n * 10) \<or> of_int n * ten_powi e * 100 = of_int n"
    by (auto simp: ten_powi_def)
  then show ?thesis by blast
qed

lemma int_digits_length: "n < 10 ^ Suc k \<Longrightarrow> length (int_digits n) \<le> Suc k"
proof (induction k arbitrary: n)
  case 0
  then show ?case by (simp add: int_digits.simps [of n])
next
  case (Suc k)
  show ?case
  proof (cases "n < 10")
    case False
    have "n div 10 < 10 ^ Suc k" using Suc.prems by (simp add: div_less_iff_less_mult)
    from Suc.IH [OF this] False show ?thesis by (simp add: int_digits.simps [of n])
  qed (simp add: int_digits.simps [of n])
qed

lemma js_decimal_cents:
  assumes "x = fl (of_int n / 100)" and "100 \<le> n" and "n \<le> 100000"
  shows "\<exists>j. js_decimal x * 100 = of_int j"
proof -
  have n: "0 \<le> (of_int n / 100 :: rat)" "of_int n / 100 \<le> (1000 :: rat)" "1 \<le> (of_int n / 100 :: rat)"
    using assms(2,3) by (simp_all add: divide_le_eq le_divide_eq)
  have c: "\<bar>x - of_int n / 100\<bar> \<le> 1000 / 2 ^ 52" unfolding assms(1) by (rule fl64.rnd_close [OF n(1,2)]) simp
  have s: "1000 / 2 ^ 52 \<le> (1 / 1000 :: rat)" by simp
  have close: "x \<le> of_int n / 100 + 1 / 1000" "of_int n / 100 - 1 / 1000 \<le> x"
    using abs_le_D1 [OF c] abs_le_D2 [OF c] s by linarith+
  have x1: "1 \<le> x" unfolding assms(1) by (rule fl64.rnd_ge_1 [OF n(3)])
  define e where "e = dec_exp x"
  have e: "e = int (length (int_digits (floor x)))" using x1 by (simp add: e_def dec_exp_def)
  have "floor x < 10 ^ Suc 3" using close n(2) by (simp add: floor_less_iff)
  then have "e \<le> 4" using int_digits_length [of "floor x" 3] by (simp add: e)
  moreover have "1 \<le> e" by (simp add: e Suc_leI)
  ultimately have k: "e + 2 \<in> set digit_counts" by (auto simp: digit_counts_def)
  have "floor (x * 100 + 1 / 2) = n" using close by (intro floor_unique) linarith+
  then have "round_digits (e + 2) x = of_int n / 100"
    by (simp add: round_digits_def e_def [symmetric] ten_powi_def Let_def)
  then have "fl (round_digits (e + 2) x) = x" by (simp only: assms(1))
  from shortest_first [OF _ k this] obtain k' where k': "k' \<le> e + 2" "shortest digit_counts x = round_digits k' x"
    by (auto simp: digit_counts_def)
  have "js_decimal x = round_digits k' x" using x1 k'(2) by (simp add: js_decimal_def)
  moreover have "- 2 \<le> e - k'" using k'(1) by linarith
  ultimately show ?thesis
    using cents_scaled [of "e - k'"] by (simp add: round_digits_def Let_def e_def)
qed

lemma to_js_nearest:
  assumes "fl d = x" and "fl x = x" and "\<bar>x\<bar> \<le> pow2 1000"
  shows "to_js d = Num x"
proof -
  have "to_js x = Num x" using to_js_Num [OF assms(3)] assms(2) by simp
  then have "rlog2 \<bar>x\<bar> \<le> 1023" using assms(2) by (auto simp: to_js_def split: if_splits)
  then show ?thesis using assms(1,2) by (simp add: to_js_def)
qed

lemma js_Number_js_String_cents:
  assumes "x = fl (of_int n / 100)" and "100 \<le> n" and "n \<le> 100000"
  shows "js_Number (js_String x) = Num x"
proof -
  obtain j where "js_decimal x * 100 = of_int j" using js_decimal_cents [OF assms] by blast
  then have d: "js_decimal x * 10 ^ 25 = of_int (j * 10 ^ 23)" by simp
  have n: "1 \<le> (of_int n / 100 :: rat)" "of_int n / 100 \<le> (1000 :: rat)"
    using assms(2,3) by (simp_all add: divide_le_eq le_divide_eq)
  have x: "1 \<le> x" "x \<le> 1000"
    unfolding assms(1) using fl64.rnd_ge_1 [OF n(1)] fl64.rnd_le [of 1000, OF _ n(2)] fl_of_int [of 1000] by simp_all
  have "0 \<le> js_decimal x" by (rule js_decimal_nonneg) (use x in simp)
  then have "js_Number (decimal_text (js_decimal x)) = to_js (js_decimal x)"
    using d by (rule js_Number_decimal_text)
  then have "js_Number (js_String x) = to_js (js_decimal x)"
    using x by (simp add: js_String_def)
  also have "\<dots> = Num x"
  proof (rule to_js_nearest)
    show "fl x = x" by (simp add: assms(1))
    have "is_double x" unfolding assms(1) by (rule is_double_fl)
    then show "fl (js_decimal x) = x" by (rule fl_js_decimal)
    have "pow2 10 \<le> pow2 1000" by simp
    moreover have "pow2 10 = 1024" by code_simp
    ultimately show "\<bar>x\<bar> \<le> pow2 1000" using x by simp
  qed
  finally show ?thesis .
qed

end
