(* ===== verification/SurgeProperties.thy ===== *)
theory SurgeProperties
  imports TripProperties NumberRoundTrip
begin

text \<open>
  The surge worker: the multiplier stays between one and its bound and falls back to one when demand
  does, the ring of ticks is a sliding window, and the value the fare uses is the one the worker
  computed.
\<close>

section \<open>Bounds\<close>

lemma round_cents_1: "round_cents 1 = 1"
  by code_simp

lemma nextMultiplier_bounds:
  assumes "1 \<le> m" and "m \<le> b" and "1 \<le> sc_maxMultiplier cfg" and "sc_maxMultiplier cfg \<le> b" and "round_cents b = b"
  shows "1 \<le> nextMultiplier cfg m ratio" and "nextMultiplier cfg m ratio \<le> b"
proof -
  let ?x = "if sc_thresholdHigh cfg < ratio then min (sc_maxMultiplier cfg) (fl (m * fl (11 / 10)))
            else if ratio < sc_thresholdLow cfg then max 1 (fl (m * fl (97 / 100))) else m"
  have up: "1 \<le> fl (m * fl (11 / 10))"
  proof (rule fl64.rnd_ge_1)
    have "1 \<le> fl (11 / 10)" by (rule fl64.rnd_ge_1) simp
    with assms(1) show "1 \<le> m * fl (11 / 10)" using mult_mono [of 1 m 1 "fl (11 / 10)"] by simp
  qed
  have down: "fl (m * fl (97 / 100)) \<le> b"
  proof -
    have "fl (97 / 100) \<le> 1" by (rule fl64.rnd_le) simp_all
    then have "m * fl (97 / 100) \<le> m" using mult_left_mono [of "fl (97 / 100)" 1 m] assms(1) by simp
    then have "fl (m * fl (97 / 100)) \<le> fl b" using assms(2) by (intro fl_mono) simp
    also have "fl b = b" using assms(5) by (metis round_cents_def fl_idem)
    finally show ?thesis .
  qed
  have "1 \<le> ?x" "?x \<le> b" using assms up down by auto
  then have "round_cents 1 \<le> round_cents ?x" "round_cents ?x \<le> round_cents b" by (simp_all only: round_cents_mono)
  then show "1 \<le> nextMultiplier cfg m ratio" and "nextMultiplier cfg m ratio \<le> b"
    unfolding nextMultiplier_def Let_def round_cents_1 assms(5) by simp_all
qed

text \<open>What is true of the engine between and inside handlers.\<close>

definition surge_ok :: "rat \<Rightarrow> surge_engine \<Rightarrow> bool" where
  "surge_ok b g \<longleftrightarrow> 1 \<le> sc_maxMultiplier (sn_config g) \<and> sc_maxMultiplier (sn_config g) \<le> b \<and>
     sn_tickIdx g < sn_tickRing g \<and>
     (\<forall>z \<in> snd ` set (sn_counts g). 1 \<le> zc_multiplier z \<and> zc_multiplier z \<le> b \<and>
        length (zc_lastSeenIdx z) = sn_tickRing g \<and> (\<forall>c \<in> set (zc_lastSeenIdx z). 0 \<le> c))"

definition engine_kept :: "(surge_engine \<Rightarrow> bool) \<Rightarrow> world \<times> surge_engine \<Rightarrow> bool" where
  "engine_kept I s \<longleftrightarrow> I (snd s)"

lemma set_al_set: "z \<in> snd ` set (al_set k v m) \<Longrightarrow> z = v \<or> z \<in> snd ` set m"
  by (induction m) (force split: if_splits)+

lemma surge_ok_zone:
  assumes "surge_ok b g" and "map_of (sn_counts g) i = Some z"
    and "1 \<le> zc_multiplier (f z) \<and> zc_multiplier (f z) \<le> b \<and>
        length (zc_lastSeenIdx (f z)) = sn_tickRing g \<and> (\<forall>c \<in> set (zc_lastSeenIdx (f z)). 0 \<le> c)"
  shows "surge_ok b (on_zone i f g)"
proof -
  have "1 \<le> zc_multiplier x \<and> zc_multiplier x \<le> b \<and> length (zc_lastSeenIdx x) = sn_tickRing g \<and>
      (\<forall>c \<in> set (zc_lastSeenIdx x). 0 \<le> c)" if "x \<in> snd ` set (al_set i (f z) (sn_counts g))" for x
    using set_al_set [OF that] assms(1,3) unfolding surge_ok_def by blast
  moreover have "on_zone i f g = g\<lparr>sn_counts := al_set i (f z) (sn_counts g)\<rparr>"
    using assms(2) by (simp add: on_zone_def)
  ultimately show ?thesis using assms(1) by (simp add: surge_ok_def)
qed

lemma zone_facts:
  assumes "surge_ok b g" and "map_of (sn_counts g) i = Some z"
  shows "1 \<le> zc_multiplier z \<and> zc_multiplier z \<le> b \<and> length (zc_lastSeenIdx z) = sn_tickRing g \<and>
    (\<forall>c \<in> set (zc_lastSeenIdx z). 0 \<le> c)"
  using assms map_of_SomeD by (fastforce simp: surge_ok_def)

lemma in_set_update: "c \<in> set (xs[i := v]) \<Longrightarrow> c = v \<or> c \<in> set xs"
  using set_update_subset_insert [of xs i v] by blast

lemma surge_ok_count: "surge_ok b g \<Longrightarrow> surge_ok b (on_zone i (count_request (sn_tickIdx g)) g)"
proof (cases "map_of (sn_counts g) i")
  case (Some z)
  assume ok: "surge_ok b g"
  then have "sn_tickIdx g < length (zc_lastSeenIdx z)" using zone_facts [OF ok Some] by (simp add: surge_ok_def)
  then have "0 \<le> zc_lastSeenIdx z ! sn_tickIdx g" using zone_facts [OF ok Some] by simp
  then show ?thesis
    using zone_facts [OF ok Some] by (intro surge_ok_zone [OF ok Some]) (auto simp: count_request_def dest: in_set_update)
qed (simp add: on_zone_def)

lemma surge_ok_multiplier:
  assumes "surge_ok b g" and "1 \<le> m" and "m \<le> b"
  shows "surge_ok b (on_zone i (set_multiplier m) g)"
proof (cases "map_of (sn_counts g) i")
  case (Some z)
  then show ?thesis
    using zone_facts [OF assms(1) Some] assms(2,3) by (intro surge_ok_zone [OF assms(1) Some]) (simp add: set_multiplier_def)
qed (simp add: on_zone_def assms)

lemma surge_ok_clear: "surge_ok b g \<Longrightarrow> surge_ok b (on_zone i (clear_slot n) g)"
proof (cases "map_of (sn_counts g) i")
  case (Some z)
  assume ok: "surge_ok b g"
  show ?thesis
    using zone_facts [OF ok Some] by (intro surge_ok_zone [OF ok Some]) (auto simp: clear_slot_def dest: in_set_update)
qed (simp add: on_zone_def)

section \<open>What a handler does to the engine\<close>

lemma on_zone_sel [simp]:
  "sn_config (on_zone i f g) = sn_config g" "sn_tickIdx (on_zone i f g) = sn_tickIdx g"
  "sn_tickRing (on_zone i f g) = sn_tickRing g"
  by (simp_all add: on_zone_def split: option.split)

lemma engine_runs [simp]:
  "on_world m (w, g) = (fst (m w), (snd (m w), g))" "on_engine f (w, g) = (Inr (), (w, f g))"
  "engine h (w, g) = (Inr (h g), (w, g))"
  by (simp_all add: on_world_def on_engine_def engine_def effect_simps split: prod.split)

lemma tick_zone_run:
  assumes "tick_zone X i (w, g) = (r, (w', g'))"
  obtains (same) "g' = g"
    | (zone) z ratio m where "map_of (sn_counts g) i = Some z"
        "m = nextMultiplier (sn_config g) (zc_multiplier z) ratio"
        "g' = on_zone i (set_multiplier m) g \<or>
         g' = on_zone i (clear_slot ((sn_tickIdx g + 1) mod sn_tickRing g)) (on_zone i (set_multiplier m) g)"
  using assms
  by (auto simp: tick_zone_def await_def Let_def effect_simps split: option.splits sum.splits)

lemma surge_ok_tick_zone:
  assumes "tick_zone X i (w, g) = (r, (w', g'))" and "surge_ok b g" and "round_cents b = b"
  shows "surge_ok b g'"
  using assms(1)
proof (cases rule: tick_zone_run)
  case (zone z ratio m)
  have "1 \<le> m" "m \<le> b"
    using nextMultiplier_bounds [OF _ _ _ _ assms(3)] zone_facts [OF assms(2) zone(1)] assms(2)
    by (auto simp: zone(2) surge_ok_def)
  then have "surge_ok b (on_zone i (set_multiplier m) g)" by (rule surge_ok_multiplier [OF assms(2)])
  then show ?thesis using zone(3) surge_ok_clear by blast
qed (use assms(2) in simp)

lemma surge_ok_zones:
  assumes "round_cents b = b"
  shows "for_each is (tick_zone X) (w, g) = (r, (w', g')) \<Longrightarrow> surge_ok b g \<Longrightarrow> surge_ok b g'"
proof (induction "is" arbitrary: w g)
  case (Cons i "is")
  obtain r1 w1 g1 where one: "tick_zone X i (w, g) = (r1, (w1, g1))" by (metis prod_cases3)
  have "surge_ok b g1" by (rule surge_ok_tick_zone [OF one Cons.prems(2) assms])
  then show ?case using Cons one by (auto simp: await_def split: sum.splits)
qed (simp add: effect_simps)

lemma surge_ok_advance: "surge_ok b g \<Longrightarrow> surge_ok b (advance g)"
  by (auto simp: surge_ok_def advance_def)

lemma surge_ok_tick:
  assumes "tick X (w, g) = (r, (w', g'))" and "surge_ok b g" and "round_cents b = b"
  shows "surge_ok b g'"
  using assms(1) surge_ok_zones [OF assms(3)] surge_ok_advance [OF assms(2)]
  by (auto simp: tick_def await_def)

lemma surge_ok_event:
  assumes "onTripEvent X message (w, g) = (r, (w', g'))" and "surge_ok b g"
  shows "surge_ok b g'"
  using assms surge_ok_count
  by (auto simp: onTripEvent_def await_def effect_simps split: option.splits if_splits sum.splits)

lemma flush_zones_same: "for_each zs (\<lambda>(i, z). on_world (f i z)) (w, g) = (r, (w', g')) \<Longrightarrow> g' = g"
  by (induction zs arbitrary: w) (auto simp: await_def effect_simps split: prod.splits sum.splits)

lemma surge_ok_flush:
  assumes "flushToDb (w, g) = (r, (w', g'))" and "surge_ok b g"
  shows "surge_ok b g'"
  using assms
  by (auto simp: flushToDb_def await_def finally_do_def split: sum.splits prod.splits dest: flush_zones_same)

text \<open>The handlers of the worker, in any order and number.\<close>

inductive surge_step :: "ext \<Rightarrow> world \<times> surge_engine \<Rightarrow> world \<times> surge_engine \<Rightarrow> bool" for X where
  event: "onTripEvent X message s = (r, s') \<Longrightarrow> surge_step X s s'"
| tick: "tick X s = (r, s') \<Longrightarrow> surge_step X s s'"
| flush: "flushToDb s = (r, s') \<Longrightarrow> surge_step X s s'"
| meanwhile: "surge_step X (w, g) (w', g)"

lemma surge_ok_step:
  assumes "surge_step X s s'" and "surge_ok b (snd s)" and "round_cents b = b"
  shows "surge_ok b (snd s')"
  using assms(1)
proof cases
  case (event message r)
  then show ?thesis using assms(2) surge_ok_event by (cases s; cases s') simp
next
  case (tick r)
  then show ?thesis using assms(2,3) surge_ok_tick by (cases s; cases s') simp
next
  case (flush r)
  then show ?thesis using assms(2) surge_ok_flush by (cases s; cases s') simp
qed (use assms(2) in simp)

text \<open>C24. The surge multiplier of every zone stays between one and the larger of the configured maximum
  and what was loaded, through any sequence of events, ticks and flushes of the worker, interrupted
  by whatever else happens to the world, and also when a handler fails halfway.\<close>

theorem surge_stays_in_bounds:
  assumes "(surge_step X)\<^sup>*\<^sup>* (w, g) (w', g')" and "surge_ok b g" and "round_cents b = b"
  shows "surge_ok b g'"
proof -
  have "surge_ok b (snd s')" if "(surge_step X)\<^sup>*\<^sup>* s s'" "surge_ok b (snd s)" for s s'
    using that by (induction rule: rtranclp_induct) (auto intro: surge_ok_step [OF _ _ assms(3)])
  from this [OF assms(1)] assms(2) show ?thesis by simp
qed

definition busy_engine :: surge_engine where
  "busy_engine = \<lparr>sn_config = \<lparr>sc_flushMs = 1000, sc_maxMultiplier = 3, sc_thresholdHigh = 2, sc_thresholdLow = 1,
       sc_windowMs = 3000\<rparr>,
     sn_counts = [(''z'', \<lparr>zc_requests = 9, zc_lastSeenIdx = [0, 5, 4], zc_multiplier = 1\<rparr>)],
     sn_tickRing = 3, sn_tickIdx = 2\<rparr>"

theorem surge_stays_in_bounds_witness:
  "surge_ok 3 (snd (snd (tick sample_ext (sample_world, busy_engine))))"
proof -
  obtain r w' g' where t: "tick sample_ext (sample_world, busy_engine) = (r, (w', g'))" by (metis prod_cases3)
  have "(surge_step sample_ext)\<^sup>*\<^sup>* (sample_world, busy_engine) (w', g')"
    using surge_step.tick [OF t] by (rule r_into_rtranclp)
  moreover have "surge_ok 3 busy_engine" by (simp add: surge_ok_def busy_engine_def)
  moreover have "round_cents 3 = 3" by code_simp
  ultimately have "surge_ok 3 g'" by (rule surge_stays_in_bounds)
  then show ?thesis by (simp add: t)
qed

section \<open>Decay\<close>

lemma nextMultiplier_decays:
  assumes "1 \<le> m" and "m \<le> 10" and "ratio < sc_thresholdLow cfg" and "ratio \<le> sc_thresholdHigh cfg"
  shows "nextMultiplier cfg m ratio \<le> max 1 (m - 2 / 100)"
proof -
  let ?y = "fl (m * fl (97 / 100))"
  have step: "nextMultiplier cfg m ratio = round_cents (max 1 ?y)"
    using assms(3,4) by (simp add: nextMultiplier_def)
  have a: "near (1 / 10 ^ 15) (fl (97 / 100)) (97 / 100)" by (rule near_fl [where c = 1]) simp_all
  have p: "0 \<le> fl (97 / 100)" "fl (97 / 100) \<le> 1" by (rule fl64.rnd_nonneg fl64.rnd_le; simp)+
  have x: "0 \<le> m * fl (97 / 100)" "m * fl (97 / 100) \<le> 10"
    using mult_mono [OF assms(2) p(2)] assms(1) p(1) by simp_all
  have c: "near (1 / 1000000000) (m * fl (97 / 100)) (m * (97 / 100))"
    using near_mult [OF a _ assms(2)] assms(1) by (simp add: near_def)
  have y: "near (1 / 1000000000) ?y (m * fl (97 / 100))" by (rule near_fl [OF x]) simp_all
  show ?thesis
  proof (cases "?y \<le> 1")
    case True
    then show ?thesis unfolding step by (simp add: max_absorb1 round_cents_1)
  next
    case False
    then have "0 \<le> ?y" "?y \<le> 4000000" using nearD [OF y] x by linarith+
    from nearD [OF round_cents_near [OF this]] nearD [OF y] nearD [OF c]
    have "round_cents ?y \<le> m * (97 / 100) + (1 / 200 + 1 / 1000000)" by linarith
    also have "\<dots> \<le> m - 2 / 100" using assms(1) by linarith
    finally show ?thesis unfolding step using False by (simp add: max_absorb2)
  qed
qed

text \<open>C26. Surge ends when demand does: from any multiplier up to ten, 450 consecutive ticks on which the
  demand stays below the lower threshold bring the multiplier down to exactly one, and it stays there.\<close>

theorem surge_decays_to_one:
  assumes "1 \<le> m" and "m \<le> 10" and "450 \<le> length ratios"
    and "\<forall>ratio \<in> set ratios. ratio < sc_thresholdLow cfg \<and> ratio \<le> sc_thresholdHigh cfg"
  shows "foldl (nextMultiplier cfg) m ratios = 1"
proof -
  have down: "1 \<le> nextMultiplier cfg x r" if "1 \<le> x" "r < sc_thresholdLow cfg" "r \<le> sc_thresholdHigh cfg" for x r
  proof -
    have "round_cents 1 \<le> round_cents (max 1 (fl (x * fl (97 / 100))))" by (rule round_cents_mono) simp
    then show ?thesis using that by (simp add: nextMultiplier_def round_cents_1)
  qed
  have "1 \<le> foldl (nextMultiplier cfg) m rs \<and> foldl (nextMultiplier cfg) m rs \<le> max 1 (m - 2 / 100 * of_nat (length rs))"
    if "\<forall>ratio \<in> set rs. ratio < sc_thresholdLow cfg \<and> ratio \<le> sc_thresholdHigh cfg" for rs
    using that
  proof (induction rs rule: rev_induct)
    case Nil
    then show ?case using assms(1) by simp
  next
    case (snoc r rs)
    let ?x = "foldl (nextMultiplier cfg) m rs"
    have x: "1 \<le> ?x" "?x \<le> max 1 (m - 2 / 100 * of_nat (length rs))" using snoc by simp_all
    moreover have "?x \<le> 10" using x(2) assms(1,2) by (auto simp: max_def split: if_splits)
    ultimately have "nextMultiplier cfg ?x r \<le> max 1 (?x - 2 / 100)"
      using snoc.prems by (intro nextMultiplier_decays) auto
    moreover have "1 \<le> nextMultiplier cfg ?x r" using x(1) snoc.prems by (intro down) auto
    ultimately show ?case using x by (auto simp: max_def field_simps split: if_splits)
  qed
  from this [OF assms(4)] have "1 \<le> foldl (nextMultiplier cfg) m ratios"
    and le: "foldl (nextMultiplier cfg) m ratios \<le> max 1 (m - 2 / 100 * of_nat (length ratios))" by simp_all
  moreover have "m - 2 / 100 * of_nat (length ratios) \<le> 1"
  proof -
    have "(450 :: rat) \<le> of_nat (length ratios)" using assms(3) by (metis of_nat_le_iff of_nat_numeral)
    then show ?thesis using assms(2) by linarith
  qed
  ultimately show ?thesis by simp
qed

theorem surge_decays_to_one_witness:
  "foldl (nextMultiplier (sn_config busy_engine)) (5 / 2) (replicate 450 (1 / 2)) = 1"
  by (rule surge_decays_to_one) (simp_all add: busy_engine_def)

section \<open>The sliding window\<close>

text \<open>The slot of the second \<open>j\<close> seconds ago, in a ring of \<open>r\<close> slots whose current one is \<open>i\<close>; and the
  counts of the seconds, newest first.\<close>

definition slot :: "nat \<Rightarrow> nat \<Rightarrow> nat \<Rightarrow> nat" where
  "slot r i j = (if j \<le> i then i - j else i + r - j)"

definition seconds_ago :: "int list \<Rightarrow> nat \<Rightarrow> int" where
  "seconds_ago h j = (if j < length h then h ! j else 0)"

definition window :: "nat \<Rightarrow> nat" where
  "window r = max 1 (r - 1)"

definition ring_shows :: "nat \<Rightarrow> nat \<Rightarrow> int list \<Rightarrow> int list \<Rightarrow> bool" where
  "ring_shows r i slots h \<longleftrightarrow> length slots = r \<and> i < r \<and> h \<noteq> [] \<and>
     (\<forall>j < r. slots ! slot r i j = (if j < window r then seconds_ago h j else 0))"

lemma slot_less: "i < r \<Longrightarrow> j < r \<Longrightarrow> slot r i j < r"
  by (simp add: slot_def less_diff_conv2)

lemma slot_slot: "i < r \<Longrightarrow> j < r \<Longrightarrow> slot r i (slot r i j) = j"
  by (auto simp: slot_def)

lemma slot_0 [simp]: "slot r i 0 = i"
  by (simp add: slot_def)

lemma slot_last: "i < r \<Longrightarrow> slot r i (r - 1) = (i + 1) mod r"
  by (cases "i + 1 < r") (auto simp: slot_def mod_if)

lemma slot_next: "i < r \<Longrightarrow> Suc j < r \<Longrightarrow> slot r ((i + 1) mod r) (Suc j) = slot r i j"
  by (cases "i + 1 < r") (auto simp: slot_def mod_if)

lemma seconds_ago_Cons: "seconds_ago (x # h) j = (case j of 0 \<Rightarrow> x | Suc k \<Rightarrow> seconds_ago h k)"
  by (simp add: seconds_ago_def split: nat.split)

lemma sum_take_seconds: "(\<Sum>j < n. seconds_ago h j) = sum_list (take n h)"
proof (induction n arbitrary: h)
  case (Suc n)
  show ?case
  proof (cases h)
    case Nil
    then show ?thesis by (simp add: seconds_ago_def)
  next
    case (Cons x t)
    then show ?thesis
      using Suc.IH [of t] by (simp add: sum.lessThan_Suc_shift seconds_ago_Cons del: sum.lessThan_Suc)
  qed
qed simp

lemma ring_sum:
  assumes "ring_shows r i slots h"
  shows "sum_list slots = sum_list (take (window r) h)"
proof -
  have len: "length slots = r" and i: "i < r"
    and at: "\<And>j. j < r \<Longrightarrow> slots ! slot r i j = (if j < window r then seconds_ago h j else 0)"
    using assms by (simp_all add: ring_shows_def)
  have "sum_list slots = (\<Sum>k < r. slots ! k)" by (simp add: sum_list_sum_nth len atLeast0LessThan)
  also have "\<dots> = (\<Sum>j < r. slots ! slot r i j)"
    by (rule sum.reindex_bij_witness [of _ "slot r i" "slot r i"]) (simp_all add: slot_less slot_slot i)
  also have "\<dots> = (\<Sum>j < r. if j < window r then seconds_ago h j else 0)" by (simp add: at)
  also have "\<dots> = (\<Sum>j < window r. seconds_ago h j)"
    using i by (intro sum.mono_neutral_cong_right) (auto simp: window_def)
  finally show ?thesis by (simp add: sum_take_seconds)
qed

lemma ring_shows_request:
  assumes "ring_shows r i slots h"
  shows "ring_shows r i (slots[i := slots ! i + 1]) ((hd h + 1) # tl h)"
proof -
  have other: "slot r i j \<noteq> i" if "0 < j" "j < r" for j using that assms by (auto simp: ring_shows_def slot_def)
  have h: "seconds_ago ((hd h + 1) # tl h) j = (if j = 0 then seconds_ago h 0 + 1 else seconds_ago h j)" for j
    using assms by (cases h; cases j) (simp_all add: ring_shows_def seconds_ago_def)
  have "(slots[i := slots ! i + 1]) ! slot r i j = (if j < window r then seconds_ago ((hd h + 1) # tl h) j else 0)"
    if j: "j < r" for j
  proof (cases "j = 0")
    case True
    have "slots ! slot r i 0 = (if 0 < window r then seconds_ago h 0 else 0)"
      using assms j unfolding ring_shows_def by (metis gr_zeroI not_less_zero)
    then have "slots ! i = seconds_ago h 0" by (simp add: window_def)
    then show ?thesis using True assms by (simp add: ring_shows_def h window_def)
  next
    case False
    then show ?thesis using other [of j] j assms by (simp add: ring_shows_def h)
  qed
  then show ?thesis using assms by (simp add: ring_shows_def)
qed

lemma ring_shows_second:
  assumes "ring_shows r i slots h" and "i' = (i + 1) mod r"
  shows "ring_shows r i' (slots[(i' + 1) mod r := 0]) (0 # h)"
proof -
  have len: "length slots = r" and i: "i < r"
    and at: "\<And>j. j < r \<Longrightarrow> slots ! slot r i j = (if j < window r then seconds_ago h j else 0)"
    using assms(1) by (simp_all add: ring_shows_def)
  have i': "i' < r" using i assms(2) by simp
  have "(slots[(i' + 1) mod r := 0]) ! slot r i' j = (if j < window r then seconds_ago (0 # h) j else 0)"
    if j: "j < r" for j
  proof (cases "j = r - 1")
    case True
    then have "slot r i' j = (i' + 1) mod r" using slot_last [OF i'] by simp
    moreover have "(if j < window r then seconds_ago (0 # h) j else 0) = 0"
      using True j by (auto simp: window_def seconds_ago_def)
    ultimately show ?thesis using i' by (simp add: len)
  next
    case False
    have "slot r i' j \<noteq> (i' + 1) mod r"
      using slot_slot [OF i' j] slot_slot [OF i', of "r - 1"] slot_last [OF i'] False i' by auto
    then have "(slots[(i' + 1) mod r := 0]) ! slot r i' j = slots ! slot r i' j" by simp
    also have "\<dots> = (if j < window r then seconds_ago (0 # h) j else 0)"
    proof (cases j)
      case 0
      have "slots ! slot r i (r - 1) = 0" using at [of "r - 1"] False 0 i by (auto simp: window_def)
      then show ?thesis using 0 slot_last [OF i] assms(2) by (simp add: seconds_ago_def)
    next
      case (Suc k)
      then have "slots ! slot r i' j = slots ! slot r i k" using slot_next [OF i] j assms(2) by simp
      also have "\<dots> = seconds_ago h k" using at [of k] Suc j False by (auto simp: window_def)
      finally show ?thesis using Suc j False by (auto simp: seconds_ago_Cons window_def)
    qed
    finally show ?thesis .
  qed
  then show ?thesis using i' by (simp add: ring_shows_def len)
qed

text \<open>What a zone is asked for: the requests whose pickup the database finds in the zone.\<close>

definition demands :: "ext \<Rightarrow> string \<Rightarrow> world \<Rightarrow> kafka_message \<Rightarrow> bool" where
  "demands X i w message =
     (case parseJsonMessage message of
        None \<Rightarrow> False
      | Some evt \<Rightarrow> jget evt ''type'' = Some (JStr ''trip.requested'') \<and>
          (case Option.bind (jget evt ''dto'') (\<lambda>dto. jget dto ''pickup'') of
             None \<Rightarrow> False
           | Some pickup \<Rightarrow> truthy pickup \<and>
               fst (query (whichZone X (jget pickup ''lon'') (jget pickup ''lat'')) w) = Inr (Some i)))"

text \<open>The requests of a zone per second, the current one first, as the worker runs from its start: messages
  arrive, ticks go through, the engine is flushed, and the world changes meanwhile.\<close>

inductive zone_history :: "ext \<Rightarrow> string \<Rightarrow> world \<times> surge_engine \<Rightarrow> int list \<Rightarrow> bool" for X i where
  loaded: "loadZones (w, new_SurgeEngine config) = (Inr u, (w', g)) \<Longrightarrow> i \<in> fst ` set (sn_counts g) \<Longrightarrow>
     zone_history X i (w', g) [0]"
| message: "zone_history X i (w, g) h \<Longrightarrow> onTripEvent X message (w, g) = (r, s') \<Longrightarrow>
     zone_history X i s' (if demands X i w message then (hd h + 1) # tl h else h)"
| second: "zone_history X i s h \<Longrightarrow> tick X s = (Inr u, s') \<Longrightarrow> zone_history X i s' (0 # h)"
| flush: "zone_history X i s h \<Longrightarrow> flushToDb s = (r, s') \<Longrightarrow> zone_history X i s' h"
| meanwhile: "zone_history X i (w, g) h \<Longrightarrow> zone_history X i (w', g) h"

definition zone_shows :: "string \<Rightarrow> surge_engine \<Rightarrow> int list \<Rightarrow> bool" where
  "zone_shows i g h \<longleftrightarrow> distinct (map fst (sn_counts g)) \<and>
     (\<exists>z. map_of (sn_counts g) i = Some z \<and> ring_shows (sn_tickRing g) (sn_tickIdx g) (zc_lastSeenIdx z) h)"

lemma on_zone_map_of:
  "map_of (sn_counts (on_zone i f g)) j = (if j = i then map_option f (map_of (sn_counts g) i) else map_of (sn_counts g) j)"
  by (auto simp: on_zone_def map_of_al_set split: option.split)

lemma on_zone_keys [simp]: "map fst (sn_counts (on_zone i f g)) = map fst (sn_counts g)"
  by (auto simp: on_zone_def al_set_keys_list map_of_eq_None_iff split: option.split dest!: map_of_SomeD
      intro: rev_image_eqI)

lemma loaded_rows:
  "distinct (map fst (foldl (\<lambda>counts (i, x). al_set i (f x) counts) [] rows)) \<and>
   snd ` set (foldl (\<lambda>counts (i, x). al_set i (f x) counts) [] rows) \<subseteq> range f"
proof (induction rows rule: rev_induct)
  case (snoc row rows)
  obtain k x where row: "row = (k, x)" by fastforce
  have "snd ` set (al_set k (f x) m) \<subseteq> range f" if "snd ` set m \<subseteq> range f" for m
    using that by (auto dest!: set_al_set)
  from this [OF conjunct2 [OF snoc.IH]] conjunct1 [OF snoc.IH] show ?case by (simp add: row)
qed simp

lemma loadZones_shows:
  assumes "loadZones (w, new_SurgeEngine config) = (Inr u, (w', g))" and "i \<in> fst ` set (sn_counts g)"
  shows "zone_shows i g [0]"
proof -
  let ?r = "sn_tickRing (new_SurgeEngine config)"
  define fresh :: "string \<Rightarrow> zone_counts" where
    "fresh = (\<lambda>text. \<lparr>zc_requests = 0, zc_lastSeenIdx = replicate ?r 0, zc_multiplier = num_val (js_Number text)\<rparr>)"
  obtain rows where m: "sn_counts g = foldl (\<lambda>counts (zoneId, text). al_set zoneId (fresh text) counts) [] rows"
    and g: "sn_tickRing g = ?r" "sn_tickIdx g = 0"
    using assms(1)
    by (auto simp: loadZones_def await_def fresh_def new_SurgeEngine_def split: sum.splits)
  obtain z where z: "map_of (sn_counts g) i = Some z" using assms(2) by (meson map_of_eq_None_iff option.exhaust)
  have "z \<in> snd ` set (sn_counts g)" using map_of_SomeD [OF z] by force
  then have "z \<in> range fresh" using loaded_rows [of fresh rows] by (auto simp: m)
  then have "zc_lastSeenIdx z = replicate ?r 0" by (auto simp: fresh_def)
  moreover have "0 < ?r" by (simp add: new_SurgeEngine_def)
  ultimately have "ring_shows ?r 0 (zc_lastSeenIdx z) [0]"
    using slot_less by (simp add: ring_shows_def seconds_ago_def)
  with z g loaded_rows [of fresh rows] show ?thesis by (simp add: zone_shows_def m)
qed

text \<open>What a message does to the ring of a zone.\<close>

lemma onTripEvent_engine:
  assumes "onTripEvent X message (w, g) = (r, (w', g'))"
  shows "g' = g \<and> (\<forall>i. \<not> demands X i w message) \<or>
    (\<exists>j. g' = on_zone j (count_request (sn_tickIdx g)) g \<and> (\<forall>i. demands X i w message \<longleftrightarrow> i = j))"
  using assms
  by (auto simp: onTripEvent_def demands_def await_def effect_simps split: option.splits if_splits sum.splits)

lemma message_shows:
  assumes "zone_shows i g h" and "onTripEvent X message (w, g) = (r, (w', g'))"
  shows "zone_shows i g' (if demands X i w message then (hd h + 1) # tl h else h)"
  using onTripEvent_engine [OF assms(2)]
proof (elim disjE exE conjE)
  fix j assume g': "g' = on_zone j (count_request (sn_tickIdx g)) g" and j: "\<forall>i. demands X i w message \<longleftrightarrow> i = j"
  obtain z where z: "map_of (sn_counts g) i = Some z" "ring_shows (sn_tickRing g) (sn_tickIdx g) (zc_lastSeenIdx z) h"
    using assms(1) by (auto simp: zone_shows_def)
  have "map_of (sn_counts g') i = Some (if i = j then count_request (sn_tickIdx g) z else z)"
    using z(1) by (auto simp: g' on_zone_map_of)
  moreover have "sn_tickRing g' = sn_tickRing g" "sn_tickIdx g' = sn_tickIdx g" "distinct (map fst (sn_counts g'))"
    using assms(1) by (simp_all add: g' zone_shows_def)
  ultimately show ?thesis
    using z(2) ring_shows_request [OF z(2)] j by (auto simp: zone_shows_def count_request_def simp del: map_of_eq_Some_iff)
qed (use assms(1) in simp)

lemma call_Inr: "call server f w = (Inr x, w') \<Longrightarrow> f (take_fault w) = (Inr x, w')"
  by (auto simp: call_def split: fault.splits)

text \<open>What a tick that goes through does to a zone and to the others.\<close>

definition ticked :: "surge_engine \<Rightarrow> nat \<Rightarrow> zone_counts \<Rightarrow> zone_counts" where
  "ticked g online z =
     clear_slot ((sn_tickIdx g + 1) mod sn_tickRing g)
       (set_multiplier (nextMultiplier (sn_config g) (zc_multiplier z)
          (fl (of_int (sum_list (zc_lastSeenIdx z)) / of_nat (max 1 online)))) z)"

definition same_ring :: "surge_engine \<Rightarrow> surge_engine \<Rightarrow> bool" where
  "same_ring g g' \<longleftrightarrow> sn_config g' = sn_config g \<and> sn_tickIdx g' = sn_tickIdx g \<and>
     sn_tickRing g' = sn_tickRing g \<and> map fst (sn_counts g') = map fst (sn_counts g)"

definition same_db :: "world \<Rightarrow> world \<Rightarrow> bool" where
  "same_db w w' \<longleftrightarrow> w_db w' = w_db w \<and> w_tx w' = w_tx w"

text \<open>The number of drivers online in a zone.\<close>

definition online_in :: "ext \<Rightarrow> string \<Rightarrow> db \<Rightarrow> nat \<Rightarrow> bool" where
  "online_in X i d n \<longleftrightarrow> (\<forall>s. onlineDriversInZone X i s d = (Inr (n, d), s))"

lemma select_same: "query (select f) w = (Inr x, w') \<Longrightarrow> w_tx w = None \<Longrightarrow> same_db w w' \<and> x = f (w_db w)"
  by (auto simp: same_db_def query_def run_select split: prod.splits sum.splits if_splits dest!: call_Inr)

lemma tick_zone_done:
  assumes "tick_zone X j (w, g) = (Inr u, (w', g'))"
  shows "same_ring g g' \<and> (w_tx w = None \<longrightarrow> same_db w w') \<and>
    (\<exists>n. (w_tx w = None \<longrightarrow> online_in X j (w_db w) n) \<and> (\<forall>i. map_of (sn_counts g') i =
       (if i = j then map_option (ticked g n) (map_of (sn_counts g) j) else map_of (sn_counts g) i)))"
proof (cases "map_of (sn_counts g) j")
  case None
  then have "w' = w" "g' = g" using assms by (auto simp: tick_zone_def await_def effect_simps)
  moreover have "\<exists>n. online_in X j (w_db w) n" by (simp add: online_in_def onlineDriversInZone_def select_def)
  ultimately show ?thesis using None by (auto simp: same_ring_def same_db_def)
next
  case (Some z)
  obtain r1 w1 where q: "query (onlineDriversInZone X j) w = (r1, w1)" by (metis surj_pair)
  obtain n where r1: "r1 = Inr n" using assms Some q by (cases r1) (auto simp: tick_zone_def await_def)
  have n: "same_db w w1 \<and> online_in X j (w_db w) n" if "w_tx w = None"
    using q [unfolded r1 onlineDriversInZone_def] that
    by (auto simp: online_in_def onlineDriversInZone_def select_def [abs_def] dest!: select_same [unfolded select_def [abs_def]])
  define m where "m = nextMultiplier (sn_config g) (zc_multiplier z)
    (fl (of_int (sum_list (zc_lastSeenIdx z)) / of_nat (if n = 0 then 1 else n)))"
  have "max 1 n = (if n = 0 then 1 else n)" by simp
  then have m: "ticked g n z = clear_slot ((sn_tickIdx g + 1) mod sn_tickRing g) (set_multiplier m z)"
    by (simp only: ticked_def m_def)
  obtain r2 w2 where h: "hset (''surge:zone:'' @ j) [(''multiplier'', js_String m), (''updated_at'', js_String (sys_now (w_sys w1)))] w1 = (r2, w2)"
    by (metis surj_pair)
  have "same_db w1 w2"
    using db_neutral_servers(6) h unfolding db_neutral_def same_db_def by (metis snd_conv)
  moreover have "tick_zone X j (w, g) = (case r2 of Inl e \<Rightarrow> (Inl e, (w2, on_zone j (set_multiplier m) g))
    | Inr _ \<Rightarrow> (Inr (), (w2, on_zone j (clear_slot ((sn_tickIdx g + 1) mod sn_tickRing g)) (on_zone j (set_multiplier m) g))))"
    by (simp add: tick_zone_def await_def Let_def Some q r1 h [simplified] effect_simps m_def [symmetric]
        split: sum.split split del: if_split)
  moreover from this assms obtain v where "r2 = Inr v" by (cases r2) simp_all
  ultimately have w': "same_db w1 w'"
    and g': "g' = on_zone j (clear_slot ((sn_tickIdx g + 1) mod sn_tickRing g)) (on_zone j (set_multiplier m) g)"
    using assms by auto
  have "\<forall>i. map_of (sn_counts g') i =
      (if i = j then map_option (ticked g n) (map_of (sn_counts g) j) else map_of (sn_counts g) i)"
    by (simp add: g' on_zone_map_of Some m)
  moreover have "same_ring g g'" by (simp add: g' same_ring_def)
  ultimately show ?thesis using n w' by (auto simp: same_db_def)
qed

lemma tick_zones_done:
  assumes "for_each is (tick_zone X) (w, g) = (Inr u, (w', g'))" and "distinct is"
  shows "same_ring g g' \<and> (\<exists>n. (w_tx w = None \<longrightarrow> online_in X i (w_db w) n) \<and> map_of (sn_counts g') i =
      (if i \<in> set is then map_option (ticked g n) (map_of (sn_counts g) i) else map_of (sn_counts g) i))"
  using assms
proof (induction "is" arbitrary: w g)
  case Nil
  moreover have "\<exists>n. online_in X i (w_db w) n" by (simp add: online_in_def onlineDriversInZone_def select_def)
  ultimately show ?case by (auto simp: effect_simps same_ring_def)
next
  case (Cons j js)
  obtain r1 w1 g1 where one: "tick_zone X j (w, g) = (r1, (w1, g1))" by (metis prod_cases3)
  then obtain v where r1: "r1 = Inr v" and rest: "for_each js (tick_zone X) (w1, g1) = (Inr u, (w', g'))"
    using Cons.prems(1) by (cases r1) (auto simp: await_def)
  from tick_zone_done [OF one [unfolded r1]] obtain n where same: "same_ring g g1" "w_tx w = None \<longrightarrow> same_db w w1"
    and n: "w_tx w = None \<longrightarrow> online_in X j (w_db w) n" "\<forall>i. map_of (sn_counts g1) i =
       (if i = j then map_option (ticked g n) (map_of (sn_counts g) j) else map_of (sn_counts g) i)"
    by (elim conjE exE) (rule that)
  from Cons.IH [OF rest] Cons.prems(2) obtain m where same': "same_ring g1 g'"
    and m: "w_tx w1 = None \<longrightarrow> online_in X i (w_db w1) m" "map_of (sn_counts g') i =
       (if i \<in> set js then map_option (ticked g1 m) (map_of (sn_counts g1) i) else map_of (sn_counts g1) i)" by auto
  have "ticked g1 k = ticked g k" for k using same(1) by (simp add: ticked_def same_ring_def fun_eq_iff)
  moreover have "same_ring g g'" using same(1) same' by (simp add: same_ring_def)
  ultimately show ?case
    using Cons.prems(2) n m same(2)
    by (cases "i = j") (auto simp: same_db_def intro: exI [of _ n] exI [of _ m])
qed

lemma tick_done:
  assumes "tick X (w, g) = (Inr u, (w', g'))" and "distinct (map fst (sn_counts g))"
  shows "same_ring (advance g) g' \<and> (\<exists>n. (w_tx w = None \<longrightarrow> online_in X i (w_db w) n) \<and>
    map_of (sn_counts g') i = map_option (ticked (advance g) n) (map_of (sn_counts g) i))"
proof -
  have "for_each (map fst (sn_counts g)) (tick_zone X) (w, advance g) = (Inr u, (w', g'))"
    using assms(1) by (simp add: tick_def await_def advance_def)
  note eff = tick_zones_done [OF this assms(2), of i]
  have "map_of (sn_counts g) i = None" if "i \<notin> set (map fst (sn_counts g))" using that by (simp add: map_of_eq_None_iff)
  with eff show ?thesis by (cases "i \<in> set (map fst (sn_counts g))") (simp_all add: advance_def)
qed

lemma tick_shows:
  assumes "tick X (w, g) = (Inr u, (w', g'))" and "zone_shows i g h"
  shows "zone_shows i g' (0 # h)"
proof -
  let ?i' = "(sn_tickIdx g + 1) mod sn_tickRing g"
  obtain z where z: "map_of (sn_counts g) i = Some z" "ring_shows (sn_tickRing g) (sn_tickIdx g) (zc_lastSeenIdx z) h"
    and d: "distinct (map fst (sn_counts g))" using assms(2) by (auto simp: zone_shows_def)
  from tick_done [OF assms(1) d, of i] z(1) obtain n where g': "same_ring (advance g) g'"
    "map_of (sn_counts g') i = Some (ticked (advance g) n z)" by auto
  have "ring_shows (sn_tickRing g) ?i' ((zc_lastSeenIdx z)[(?i' + 1) mod sn_tickRing g := 0]) (0 # h)"
    by (rule ring_shows_second [OF z(2) refl])
  with g' d show ?thesis
    by (simp add: zone_shows_def same_ring_def advance_def ticked_def clear_slot_def set_multiplier_def del: map_of_eq_Some_iff)
qed

lemma history_shows: "zone_history X i s h \<Longrightarrow> zone_shows i (snd s) h"
proof (induction rule: zone_history.induct)
  case (loaded w config u w' g)
  then show ?case using loadZones_shows by simp
next
  case (message w g h m r s')
  then show ?case using message_shows [of i g h] by (cases s') simp
next
  case (second s h u s')
  then show ?case using tick_shows [where i = i and h = h] by (cases s; cases s') simp
next
  case (flush s h r s')
  then have "snd s' = snd s"
    by (cases s; cases s') (auto simp: flushToDb_def await_def finally_do_def split: sum.splits prod.splits dest: flush_zones_same)
  with flush show ?case by simp
qed simp

text \<open>C25. Demand is a sliding window: when the worker has run from its start through any messages and
  flushes and through ticks that succeeded, the next tick moves the multiplier of every zone by the
  ratio of the requests of that zone in the newest \<open>R - 1\<close> seconds to the drivers online in it (at least
  one), where \<open>R\<close> is the window in seconds; of the last second alone when \<open>R\<close> is one.\<close>

theorem demand_is_sliding_window:
  assumes "zone_history X i (w, g) h" and "tick X (w, g) = (Inr u, (w', g'))" and "w_tx w = None"
    and "online_in X i (w_db w) n"
  shows "\<exists>z z'. map_of (sn_counts g) i = Some z \<and> map_of (sn_counts g') i = Some z' \<and>
    zc_multiplier z' = nextMultiplier (sn_config g) (zc_multiplier z)
      (fl (of_int (sum_list (take (max 1 (sn_tickRing g - 1)) h)) / of_nat (max 1 n)))"
proof -
  obtain z where z: "map_of (sn_counts g) i = Some z" "ring_shows (sn_tickRing g) (sn_tickIdx g) (zc_lastSeenIdx z) h"
    and d: "distinct (map fst (sn_counts g))" using history_shows [OF assms(1)] by (auto simp: zone_shows_def)
  from tick_done [OF assms(2) d, of i] z(1) assms(3) obtain m where m: "online_in X i (w_db w) m"
    "map_of (sn_counts g') i = Some (ticked (advance g) m z)" by auto
  have "m = n" using m(1) assms(4) by (simp add: online_in_def)
  with z(1) m(2) ring_sum [OF z(2)] show ?thesis
    by (simp add: ticked_def clear_slot_def set_multiplier_def advance_def window_def del: map_of_eq_Some_iff)
qed

text \<open>One zone around the centre and three slots: two requests, a tick, a request, and the tick that sees
  all three of them and the one driver online.\<close>

definition zone_ext :: ext where
  "zone_ext = sample_ext\<lparr>x_covers := \<lambda>z p. True\<rparr>"

definition zone_world :: world where
  "zone_world = sample_world\<lparr>w_db := sample_db\<lparr>db_surge_zones :=
     [\<lparr>sz_id = ''z'', sz_name = ''z'', sz_polygon = ''everywhere'', sz_base_multiplier = 1\<rparr>]\<rparr>\<rparr>"

definition zone_message :: kafka_message where
  "zone_message = \<lparr>km_topic = ''trips'', km_key = None, km_value = Some (JsonText (JObj
     [(''type'', JStr ''trip.requested''),
      (''dto'', JObj [(''pickup'', JObj [(''lon'', JNum 69), (''lat'', JNum 41)])])]))\<rparr>"

definition calm :: "world \<Rightarrow> bool" where
  "calm w \<longleftrightarrow> w_db w = w_db zone_world \<and> w_tx w = None \<and> w_faults w = []"

lemma calm_load:
  "\<exists>g. loadZones (zone_world, new_SurgeEngine (sn_config busy_engine)) = (Inr (), (zone_world, g)) \<and>
     map fst (sn_counts g) = [''z''] \<and> sn_tickRing g = 3"
proof -
  have "math_round (fl 3) = 3" by code_simp
  then show ?thesis
    by (simp add: loadZones_def await_def query_served run_stmt_def select_def zone_world_def sample_world_def
        sample_db_def new_SurgeEngine_def busy_engine_def)
qed

lemma calm_message:
  assumes "calm w" and "map_of (sn_counts g) ''z'' = Some z"
  shows "onTripEvent zone_ext zone_message (w, g) = (Inr (), (w, on_zone ''z'' (count_request (sn_tickIdx g)) g)) \<and>
    demands zone_ext ''z'' w zone_message"
  using assms
  by (simp add: onTripEvent_def demands_def await_def zone_message_def parseJsonMessage_def query_served run_stmt_def
      whichZone_def calm_def coordinate_param_def float8_param_def zone_of_def zone_ext_def zone_world_def sample_world_def
      sample_db_def effect_simps)

lemma calm_tick:
  assumes "calm w"
  shows "\<exists>w' g'. tick X (w, g) = (Inr (), (w', g')) \<and> calm w'"
proof -
  have zone: "\<exists>w' g'. tick_zone X j (w, g) = (Inr (), (w', g')) \<and> calm w'" if "calm w" for j w g
    using that
    by (cases "map_of (sn_counts g) j")
      (auto simp: calm_def tick_zone_def await_def Let_def effect_simps query_served run_stmt_def
        onlineDriversInZone_def select_def hset_def call_served)
  have "\<exists>w' g'. for_each js (tick_zone X) (w, g) = (Inr (), (w', g')) \<and> calm w'" for js g
    using assms
  proof (induction js arbitrary: w g)
    case (Cons j js)
    obtain w1 g1 where one: "tick_zone X j (w, g) = (Inr (), (w1, g1))" "calm w1" using zone Cons.prems by blast
    with Cons.IH [OF one(2), of g1] show ?case by (simp add: await_def)
  qed (simp add: effect_simps)
  from this [of "map fst (sn_counts g)" "advance g"] show ?thesis by (simp add: tick_def await_def advance_def)
qed

theorem demand_is_sliding_window_witness:
  "\<exists>w g w' g' z z'. zone_history zone_ext ''z'' (w, g) [1, 2] \<and> tick zone_ext (w, g) = (Inr (), (w', g')) \<and>
     map_of (sn_counts g) ''z'' = Some z \<and> map_of (sn_counts g') ''z'' = Some z' \<and>
     zc_multiplier z' = nextMultiplier (sn_config g) (zc_multiplier z) (fl 3)"
proof -
  let ?count = "\<lambda>g. on_zone ''z'' (count_request (sn_tickIdx g)) g" and ?H = "zone_history zone_ext ''z''"
  obtain g where load: "loadZones (zone_world, new_SurgeEngine (sn_config busy_engine)) = (Inr (), (zone_world, g))"
    and g: "''z'' \<in> fst ` set (sn_counts g)" "sn_tickRing g = 3"
    using calm_load by (metis list.set_intros(1) set_map)
  have calm: "calm zone_world" by (simp add: calm_def) (simp add: zone_world_def sample_world_def)
  have shown: "\<exists>z. map_of (sn_counts g) ''z'' = Some z" "distinct (map fst (sn_counts g))" if "?H (w, g) h" for w g h
    using history_shows [OF that] by (auto simp: zone_shows_def)
  have counted: "?H (w, ?count g) ((hd h + 1) # tl h)" if "calm w" "?H (w, g) h" for w g h
    using calm_message [OF that(1)] shown(1) [OF that(2)] zone_history.message [OF that(2)] by fastforce
  have "?H (zone_world, ?count (?count g)) [2]"
    using counted [OF calm counted [OF calm zone_history.loaded [OF load g(1)]]] by simp
  note before = this
  obtain w1 g1 where t1: "tick zone_ext (zone_world, ?count (?count g)) = (Inr (), (w1, g1))" "calm w1"
    using calm_tick [OF calm] by blast
  have h: "?H (w1, ?count g1) [1, 2]" using counted [OF t1(2) zone_history.second [OF before t1(1)]] by simp
  have ring: "sn_tickRing (?count g1) = 3"
    using tick_done [OF t1(1) shown(2) [OF before], of "''z''"] g(2) by (simp add: same_ring_def advance_def)
  obtain w2 g2 where t2: "tick zone_ext (w1, ?count g1) = (Inr (), (w2, g2))" using calm_tick [OF t1(2)] by blast
  have "online_in zone_ext ''z'' (w_db w1) 1"
    using t1(2) by (simp add: online_in_def calm_def onlineDriversInZone_def select_def zone_ext_def zone_world_def
        sample_world_def sample_db_def sample_driver_def)
  moreover have "w_tx w1 = None" using t1(2) by (simp add: calm_def)
  ultimately show ?thesis using demand_is_sliding_window [OF h t2] h t2 ring by fastforce
qed

text \<open>A tick that fails at Redis moves on to the next slot and clears none, so that what the slot after
  it counted a window ago is still there, and is counted for another turn of the ring.\<close>

lemma failed_tick_keeps_slots:
  assumes "w_faults w = [Ok, Lost]" and "w_tx w = None" and "sn_counts g = [(i, z)]"
    and "tick X (w, g) = (r, (w', g'))"
  shows "r = Inl (Unavailable ''redis'') \<and> sn_tickIdx g' = (sn_tickIdx g + 1) mod sn_tickRing g \<and>
    map (zc_lastSeenIdx \<circ> snd) (sn_counts g') = [zc_lastSeenIdx z]"
  using assms
  by (auto simp: tick_def tick_zone_def await_def Let_def effect_simps advance_def query_def call_def take_fault_def run_stmt_def
        onlineDriversInZone_def select_def hset_def on_zone_def set_multiplier_def)

section \<open>From the worker to the fare\<close>

text \<open>Redis holds, for the zone, the multiplier of the engine, and it is an amount in hundredths.\<close>

definition published :: "world \<Rightarrow> surge_engine \<Rightarrow> string \<Rightarrow> bool" where
  "published w g i \<longleftrightarrow> (\<forall>z. map_of (sn_counts g) i = Some z \<longrightarrow> (\<exists>n. zc_multiplier z = fl (of_int n / 100)) \<and>
     (\<exists>h. map_of (w_surge w) (''surge:zone:'' @ i) = Some h \<and> map_of h ''multiplier'' = Some (js_String (zc_multiplier z))))"

lemma query_select_surge: "query (select f) w = (Inr x, w') \<Longrightarrow> w_surge w' = w_surge w"
  by (auto simp: query_def select_def run_stmt_def split: prod.splits sum.splits option.splits if_splits
      dest!: call_Inr)

lemma hset_Inr:
  assumes "hset key [(''multiplier'', m), (''updated_at'', t)] w = (Inr u, w')"
  shows "\<exists>h. map_of (w_surge w') key = Some h \<and> map_of h ''multiplier'' = Some m"
    and "k \<noteq> key \<Longrightarrow> map_of (w_surge w') k = map_of (w_surge w) k"
  using assms by (auto simp: hset_def map_of_al_set effect_simps dest!: call_Inr)

lemma tick_zone_publishes:
  assumes "tick_zone X i (w, g) = (Inr u, (w', g'))"
  shows "published w' g' i" and "published w g j \<Longrightarrow> published w' g' j"
    and "dom (map_of (sn_counts g')) = dom (map_of (sn_counts g))"
proof -
  have "published w' g' i \<and> (published w g j \<longrightarrow> published w' g' j) \<and>
    dom (map_of (sn_counts g')) = dom (map_of (sn_counts g))"
  proof (cases "map_of (sn_counts g) i")
    case None
    then have "w' = w" "g' = g"
      using assms by (auto simp: tick_zone_def await_def effect_simps)
    then show ?thesis using None by (simp add: published_def)
  next
    case (Some z)
    let ?key = "''surge:zone:'' @ i"
    obtain w1 now m where q: "w_surge w1 = w_surge w"
      and h: "hset ?key [(''multiplier'', js_String m), (''updated_at'', now)] w1 = (Inr (), w')"
      and m: "\<exists>n. m = fl (of_int n / 100)"
      and g': "g' = on_zone i (clear_slot ((sn_tickIdx g + 1) mod sn_tickRing g)) (on_zone i (set_multiplier m) g)"
    proof -
      obtain r1 w1 where q: "query (onlineDriversInZone X i) w = (r1, w1)" by (metis surj_pair)
      obtain n where r1: "r1 = Inr n" using assms Some q by (cases r1) (auto simp: tick_zone_def await_def)
      define m where "m = nextMultiplier (sn_config g) (zc_multiplier z)
        (fl (of_int (sum_list (zc_lastSeenIdx z)) / of_nat (if n = 0 then 1 else n)))"
      obtain r2 w2 where h: "hset ?key [(''multiplier'', js_String m), (''updated_at'', js_String (sys_now (w_sys w1)))] w1 = (r2, w2)"
        by (metis surj_pair)
      have run: "tick_zone X i (w, g) = (case r2 of Inl e \<Rightarrow> (Inl e, (w2, on_zone i (set_multiplier m) g))
        | Inr _ \<Rightarrow> (Inr (), (w2, on_zone i (clear_slot ((sn_tickIdx g + 1) mod sn_tickRing g)) (on_zone i (set_multiplier m) g))))"
        by (simp add: tick_zone_def await_def Let_def Some q r1 h [simplified] effect_simps m_def [symmetric]
            split: sum.split split del: if_split)
      have "w_surge w1 = w_surge w" using q r1 by (simp add: onlineDriversInZone_def query_select_surge)
      moreover obtain v where "r2 = Inr v" using assms run by (cases r2) simp_all
      moreover have "\<exists>n. m = fl (of_int n / 100)" by (auto simp: m_def nextMultiplier_def round_cents_def)
      ultimately show ?thesis using that [of w1 m "js_String (sys_now (w_sys w1))"] assms run h by simp
    qed
    have z': "map_of (sn_counts g') i = Some (clear_slot ((sn_tickIdx g + 1) mod sn_tickRing g) (set_multiplier m z))"
      unfolding g' by (simp add: on_zone_map_of Some)
    have "published w' g' i"
      using hset_Inr(1) [OF h] m by (simp add: published_def z' clear_slot_def set_multiplier_def)
    moreover have "published w' g' j" if "published w g j" "j \<noteq> i"
      using that hset_Inr(2) [OF h, of "''surge:zone:'' @ j"] q by (simp add: published_def g' on_zone_map_of)
    ultimately show ?thesis
      using Some by (auto simp: g' on_zone_map_of dom_def split: if_splits)
  qed
  then show "published w' g' i" "published w g j \<Longrightarrow> published w' g' j"
    "dom (map_of (sn_counts g')) = dom (map_of (sn_counts g))" by blast+
qed

lemma tick_zones_publish:
  "for_each is (tick_zone X) (w, g) = (Inr u, (w', g')) \<Longrightarrow> \<forall>i. published w g i \<or> i \<in> set is \<Longrightarrow>
   (\<forall>i. published w' g' i)"
proof (induction "is" arbitrary: w g)
  case (Cons i "is")
  obtain r1 w1 g1 where one: "tick_zone X i (w, g) = (r1, (w1, g1))" by (metis prod_cases3)
  then obtain v where r1: "r1 = Inr v" and rest: "for_each is (tick_zone X) (w1, g1) = (Inr u, (w', g'))"
    using Cons.prems(1) by (cases r1) (auto simp: await_def)
  have "\<forall>j. published w1 g1 j \<or> j \<in> set is"
    using tick_zone_publishes(1,2) [OF one [unfolded r1]] Cons.prems(2) by auto
  from Cons.IH [OF rest this] show ?case .
qed (simp add: effect_simps)

lemma tick_publishes:
  assumes "tick X (w, g) = (Inr u, (w', g'))"
  shows "published w' g' i"
proof -
  have "for_each (map fst (sn_counts g)) (tick_zone X) (w, advance g) = (Inr u, (w', g'))"
    using assms by (simp add: tick_def await_def advance_def)
  moreover have "published w (advance g) j \<or> j \<in> set (map fst (sn_counts g))" for j
    using map_of_eq_None_iff [of "sn_counts g" j] by (cases "map_of (sn_counts g) j") (auto simp: published_def advance_def dest: map_of_SomeD)
  ultimately show ?thesis using tick_zones_publish by blast
qed

lemma cents_in_range:
  assumes "1 \<le> fl (of_int n / 100)" and "fl (of_int n / 100) \<le> 1000"
  shows "100 \<le> n \<and> n \<le> 100000"
proof (rule ccontr)
  assume "\<not> (100 \<le> n \<and> n \<le> 100000)"
  then have "n \<le> 99 \<or> 100001 \<le> n" by linarith
  then have "of_int n \<le> (99 :: rat) \<or> 100001 \<le> (of_int n :: rat)" by (metis of_int_le_iff of_int_numeral)
  then have "fl (of_int n / 100) \<le> fl (99 / 100) \<or> fl (100001 / 100) \<le> fl (of_int n / 100)"
    by (auto intro: fl_mono divide_right_mono)
  moreover have "fl (99 / 100) < 1 \<and> 1000 < fl (100001 / 100)" by code_simp
  ultimately show False using assms by linarith
qed

text \<open>C16. The surge the worker computes is the surge a fare is charged: after a tick that went through,
  \<open>resolveSurge\<close> of the trip service returns, for every zone, exactly the multiplier of the engine,
  whatever the database still has; printing it into Redis and reading it back loses nothing.\<close>

theorem surge_reaches_fare:
  assumes "tick X (w, g) = (Inr u, (w', g'))" and "surge_ok b g" and "round_cents b = b" and "b \<le> 1000"
    and "map_of (sn_counts g') i = Some z" and "i \<noteq> []" and "w_faults w' = []"
  shows "fst (resolveSurge (Some i) pgMultiplier w') = Inr (zc_multiplier z)"
proof -
  obtain n h where n: "zc_multiplier z = fl (of_int n / 100)"
    and h: "map_of (w_surge w') (''surge:zone:'' @ i) = Some h" "map_of h ''multiplier'' = Some (js_String (zc_multiplier z))"
    using tick_publishes [OF assms(1), of i] assms(5) by (auto simp: published_def)
  have range: "1 \<le> zc_multiplier z" "zc_multiplier z \<le> 1000"
    using zone_facts [OF surge_ok_tick [OF assms(1-3)] assms(5)] assms(4) by auto
  then have "100 \<le> n \<and> n \<le> 100000" using cents_in_range n by simp
  then have same: "js_Number (js_String (zc_multiplier z)) = Num (zc_multiplier z)"
    using js_Number_js_String_cents [OF n] by blast
  have "js_String (zc_multiplier z) \<noteq> []"
  proof
    assume "js_String (zc_multiplier z) = []"
    then have "zc_multiplier z = 0" using same by (simp add: js_Number_def trim_def)
    then show False using range by simp
  qed
  then show ?thesis
    using assms(6,7) h same range
    by (simp add: resolveSurge_def await_def try_catch_def hget_def call_served effect_simps surge_of_cache_def)
qed

lemma busy_tick:
  "\<exists>w' g' z. tick sample_ext (sample_world, busy_engine) = (Inr (), (w', g')) \<and> w_faults w' = [] \<and>
     map_of (sn_counts g') ''z'' = Some z \<and> zc_multiplier z = nextMultiplier (sn_config busy_engine) 1 (fl 9)"
  by (simp add: tick_def await_def tick_zone_def Let_def effect_simps advance_def on_zone_def
      query_served run_stmt_def onlineDriversInZone_def select_def hset_def call_served busy_engine_def
      sample_world_def sample_db_def set_multiplier_def clear_slot_def)

theorem surge_reaches_fare_witness:
  "\<exists>w'. snd (tick sample_ext (sample_world, busy_engine)) = w' \<and>
     fst (resolveSurge (Some ''z'') (Some ''9.99'') (fst w')) = Inr (fl (11 / 10))"
proof -
  obtain w' g' z where t: "tick sample_ext (sample_world, busy_engine) = (Inr (), (w', g'))" "w_faults w' = []"
    "map_of (sn_counts g') ''z'' = Some z" "zc_multiplier z = nextMultiplier (sn_config busy_engine) 1 (fl 9)"
    using busy_tick by blast
  have "nextMultiplier (sn_config busy_engine) 1 (fl 9) = fl (11 / 10)" by code_simp
  moreover have "round_cents 3 = 3" by code_simp
  moreover have "surge_ok 3 busy_engine" by (simp add: surge_ok_def busy_engine_def)
  ultimately show ?thesis using surge_reaches_fare [OF t(1) _ _ _ t(3) _ t(2)] t(1,4) by simp
qed

end
