(* ===== verification/BatchJobs.thy ===== *)
theory BatchJobs
  imports TripRefinement MetricsRegistry
begin

text \<open>
  The nightly worker, \<open>services/cron/src\<close> (refreshing the materialised views of
  \<open>0003_views_and_aggregates.sql\<close> and exporting yesterday's trips), and the two scripts of the API,
  \<open>scripts/migrate.ts\<close> and \<open>scripts/seed.ts\<close>. The server's time zone is UTC; the demand view is
  kept per hour and pickup, its snapping to a grid being PostGIS's (the parameter \<open>cell\<close>).
\<close>

section \<open>Calendar\<close>

definition day_ms :: rat where "day_ms = 86400000"

definition day_floor :: "rat \<Rightarrow> rat" where
  "day_floor t = of_int \<lfloor>t / day_ms\<rfloor> * day_ms"

text \<open>Year, month and day of a day number since 1970-01-01.\<close>

definition civil_from_days :: "int \<Rightarrow> int \<times> int \<times> int" where
  "civil_from_days n =
     (let z = n + 719468; era = z div 146097; doe = z mod 146097;
          yoe = (doe - doe div 1460 + doe div 36524 - doe div 146096) div 365;
          doy = doe - (365 * yoe + yoe div 4 - yoe div 100);
          mp = (5 * doy + 2) div 153;
          m = (if mp < 10 then mp + 3 else mp - 9)
      in (yoe + era * 400 + (if m \<le> 2 then 1 else 0), m, doy - (153 * mp + 2) div 5 + 1))"

definition pad :: "nat \<Rightarrow> int \<Rightarrow> string" where
  "pad w n = replicate (w - length (show_int n)) (CHR ''0'') @ show_int n"

text \<open>\<open>Date.toISOString\<close> for the years 0 to 9999.\<close>

definition iso_date :: "rat \<Rightarrow> string" where
  "iso_date t = (case civil_from_days \<lfloor>t / day_ms\<rfloor> of (y, m, dd) \<Rightarrow>
     pad 4 y @ ''-'' @ pad 2 m @ ''-'' @ pad 2 dd)"

definition iso_string :: "rat \<Rightarrow> string" where
  "iso_string t =
     (let ms = \<lfloor>t\<rfloor> mod 86400000 in
      iso_date t @ ''T'' @ pad 2 (ms div 3600000) @ '':'' @ pad 2 (ms div 60000 mod 60) @ '':''
      @ pad 2 (ms div 1000 mod 60) @ ''.'' @ pad 3 (ms mod 1000) @ ''Z'')"

section \<open>Materialised views\<close>

record daily_row =
  da_driver_id :: "string option"
  da_day :: rat
  da_trips :: int
  da_total_km :: rat
  da_total_minutes :: rat
  da_gross_revenue :: rat

record report_views =
  rv_driver_daily :: "daily_row list"
  rv_hourly_demand :: "((rat \<times> point) \<times> int) list"

text \<open>The rows the view groups: completed trips with their fare records.\<close>

definition fared_trips :: "db \<Rightarrow> (trip_row \<times> fare_record_row) list" where
  "fared_trips d = concat (map (\<lambda>t. map (\<lambda>f. (t, f))
     (filter (\<lambda>f. fr_trip_id f = tr_id t) (db_fare_records d)))
     (filter (\<lambda>t. tr_status t = Completed) (db_trips d)))"

definition daily_key :: "trip_row \<Rightarrow> string option \<times> rat option" where
  "daily_key t = (tr_driver_id t, map_option day_floor (tr_completed_at t))"

definition mv_driver_daily :: "db \<Rightarrow> daily_row list" where
  "mv_driver_daily d =
     (let rows = fared_trips d in
      map (\<lambda>k. let group = filter (\<lambda>(t, f). daily_key t = k) rows in
             \<lparr>da_driver_id = fst k, da_day = (case snd k of Some x \<Rightarrow> x | None \<Rightarrow> 0),
              da_trips = int (length group),
              da_total_km = sum_list (map (fr_distance_km \<circ> snd) group),
              da_total_minutes = sum_list (map (fr_duration_min \<circ> snd) group),
              da_gross_revenue = sum_list (map (fr_total \<circ> snd) group)\<rparr>)
        (remdups (map (daily_key \<circ> fst) rows)))"

definition mv_hourly_demand :: "(point \<Rightarrow> point) \<Rightarrow> db \<Rightarrow> ((rat \<times> point) \<times> int) list" where
  "mv_hourly_demand cell d =
     (let keys = map (\<lambda>t. (of_int \<lfloor>tr_requested_at t / 3600000\<rfloor> * 3600000, cell (tr_pickup t))) (db_trips d)
      in map (\<lambda>k. (k, int (length (filter (\<lambda>k'. k' = k) keys)))) (remdups keys))"

section \<open>The jobs\<close>

type_synonym 'a batch_act = "(world \<times> report_views, 'a) eff"

definition batch_world :: "'a act \<Rightarrow> 'a batch_act" where
  "batch_world m = (\<lambda>(w, v). case m w of (r, w') \<Rightarrow> (r, (w', v)))"

definition store_view :: "(report_views \<Rightarrow> report_views) \<Rightarrow> unit batch_act" where
  "store_view f = set_state (\<lambda>(w, v). (w, f v))"

definition refreshDriverDaily :: "unit batch_act" where
  "refreshDriverDaily =
     await (batch_world (query (select mv_driver_daily))) (\<lambda>rows.
     store_view (\<lambda>v. v\<lparr>rv_driver_daily := rows\<rparr>))"

definition refreshHourlyDemand :: "(point \<Rightarrow> point) \<Rightarrow> unit batch_act" where
  "refreshHourlyDemand cell =
     await (batch_world (query (select (mv_hourly_demand cell)))) (\<lambda>rows.
     store_view (\<lambda>v. v\<lparr>rv_hourly_demand := rows\<rparr>))"

text \<open>\<open>SELECT * FROM mv_driver_daily ORDER BY day DESC LIMIT 200\<close> of the admin report.\<close>

definition admin_daily :: "report_views \<Rightarrow> daily_row list" where
  "admin_daily v = take 200 (sort_key (\<lambda>r. - da_day r) (rv_driver_daily v))"

record export_row =
  xr_id :: string
  xr_rider_id :: string
  xr_driver_id :: "string option"
  xr_status :: string
  xr_completed_at :: "rat option"
  xr_distance_km :: "string option"
  xr_duration_min :: "string option"
  xr_surge_multiplier :: "string option"
  xr_total :: "string option"

definition select_yesterday :: "rat \<Rightarrow> db \<Rightarrow> export_row list" where
  "select_yesterday now d =
     concat (map (\<lambda>t.
       let row = (\<lambda>f. \<lparr>xr_id = tr_id t, xr_rider_id = tr_rider_id t, xr_driver_id = tr_driver_id t,
             xr_status = trip_status_text (tr_status t), xr_completed_at = tr_completed_at t,
             xr_distance_km = map_option (pg_numeric_text 3 \<circ> fr_distance_km) f,
             xr_duration_min = map_option (pg_numeric_text 2 \<circ> fr_duration_min) f,
             xr_surge_multiplier = map_option (pg_numeric_text 2 \<circ> fr_surge_multiplier) f,
             xr_total = map_option (pg_numeric_text 2 \<circ> fr_total) f\<rparr>);
           fares = filter (\<lambda>f. fr_trip_id f = tr_id t) (db_fare_records d)
       in if fares = [] then [row None] else map (row \<circ> Some) fares)
     (filter (\<lambda>t. case tr_completed_at t of
         None \<Rightarrow> False | Some c \<Rightarrow> day_floor (now - day_ms) \<le> c \<and> c < day_floor now) (db_trips d)))"

definition formatCsvRow :: "export_row \<Rightarrow> string" where
  "formatCsvRow row = join_with '','' (map (\<lambda>c. case c of None \<Rightarrow> [] | Some s \<Rightarrow> s)
     [Some (xr_id row), Some (xr_rider_id row), xr_driver_id row, Some (xr_status row),
      map_option iso_string (xr_completed_at row), xr_distance_km row, xr_duration_min row,
      xr_surge_multiplier row, xr_total row])"

definition csv_header :: string where
  "csv_header =
     ''id,rider_id,driver_id,status,completed_at,distance_km,duration_min,surge_multiplier,total''
     @ [newline]"

text \<open>The file written: its name and its text.\<close>

definition exportYesterdayCsv :: "string \<Rightarrow> (string \<times> string) batch_act" where
  "exportYesterdayCsv exportsDir =
     await (batch_world (get_state (\<lambda>w. sys_now (w_sys w)))) (\<lambda>now.
     await (batch_world (query (select (select_yesterday now)))) (\<lambda>rows.
     ret (exportsDir @ ''/trips-'' @ iso_date now @ ''.csv'',
          csv_header @ join_with [newline] (map formatCsvRow rows))))"

text \<open>\<open>safe\<close> around a job, and the two schedules of \<open>index.ts\<close>.\<close>

definition safe_job :: "unit batch_act \<Rightarrow> batch_metrics \<Rightarrow> (batch_metrics \<times> exn option) batch_act" where
  "safe_job job m = (\<lambda>s. case job s of (r, s') \<Rightarrow> (Inr (safe r m), s'))"

definition nightly :: "(point \<Rightarrow> point) \<Rightarrow> string \<Rightarrow> (string \<times> unit batch_act) list" where
  "nightly cell exportsDir =
     [(''refresh_driver_daily'', refreshDriverDaily),
      (''refresh_hourly_demand'', refreshHourlyDemand cell),
      (''export_yesterday_csv'', await (exportYesterdayCsv exportsDir) (\<lambda>_. ret ()))]"

definition hourly :: "(point \<Rightarrow> point) \<Rightarrow> (string \<times> unit batch_act) list" where
  "hourly cell = [(''refresh_hourly_demand_hourly'', refreshHourlyDemand cell)]"

section \<open>Migrations and seed\<close>

text \<open>
  The runner over a database \<open>'s\<close>: \<open>run\<close> is what the server makes of a file's text, \<open>None\<close> when a
  statement fails. A file and its row in \<open>schema_migrations\<close> are committed together.
\<close>

definition ends_with :: "string \<Rightarrow> string \<Rightarrow> bool" where
  "ends_with suffix s \<longleftrightarrow> length suffix \<le> length s \<and> drop (length s - length suffix) s = suffix"

definition migration_files :: "string list \<Rightarrow> string list" where
  "migration_files entries = sort (filter (ends_with ''.sql'') entries)"

fun apply_files ::
    "(string \<Rightarrow> 's \<Rightarrow> 's option) \<Rightarrow> string set \<Rightarrow> string list \<Rightarrow> string list \<times> 's \<Rightarrow> bool \<times> string list \<times> 's" where
  "apply_files run applied [] (migrations, s) = (True, migrations, s)"
| "apply_files run applied (f # fs) (migrations, s) =
     (if f \<in> applied then apply_files run applied fs (migrations, s)
      else case run f s of
        None \<Rightarrow> (False, migrations, s)
      | Some s' \<Rightarrow>
          if f \<in> set migrations then (False, migrations, s)
          else apply_files run applied fs (migrations @ [f], s'))"

definition migrate ::
    "(string \<Rightarrow> 's \<Rightarrow> 's option) \<Rightarrow> string list \<Rightarrow> string list \<times> 's \<Rightarrow> bool \<times> string list \<times> 's" where
  "migrate run entries st = apply_files run (set (fst st)) (migration_files entries) st"

definition select_online_locations :: "((string \<times> point) list) stmt" where
  "select_online_locations = select (\<lambda>d.
     concat (map (\<lambda>l. map (\<lambda>r. (dl_driver_id l, dl_location l))
       (filter (\<lambda>r. dr_user_id r = dl_driver_id l \<and> dr_status r = Online) (db_drivers d)))
     (db_driver_locations d)))"

text \<open>The part of \<open>seed.ts\<close> after the SQL file: the Redis index from the table.\<close>

definition seed_index :: "nat act" where
  "seed_index =
     await (query select_online_locations) (\<lambda>rows.
     await (for_each rows (\<lambda>(driverId, p). geoadd driverId p)) (\<lambda>_.
     ret (length rows)))"

section \<open>Migrations are applied once\<close>

lemma apply_files_run:
  assumes "apply_files run applied fs (ms, s) = (success, ms', s')" and "distinct fs"
    and "\<And>f. f \<in> set fs \<Longrightarrow> f \<in> set ms \<longleftrightarrow> f \<in> applied"
  shows "\<exists>new rest. filter (\<lambda>f. f \<notin> applied) fs = new @ rest \<and> ms' = ms @ new \<and> (success \<longleftrightarrow> rest = []) \<and>
    Some s' = foldl (\<lambda>t f. Option.bind t (run f)) (Some s) new \<and>
    (\<forall>f fs'. rest = f # fs' \<longrightarrow> run f s' = None)"
  using assms
proof (induction fs arbitrary: ms s)
  case (Cons f fs)
  show ?case
  proof (cases "f \<in> applied")
    case True
    then have "apply_files run applied fs (ms, s) = (success, ms', s')"
      using Cons.prems(1) by simp
    then show ?thesis
      using Cons.IH [of ms s] Cons.prems(2,3) True by simp
  next
    case False
    show ?thesis
    proof (cases "run f s")
      case None
      then show ?thesis
        using Cons.prems(1) False by auto
    next
      case (Some s1)
      have "f \<notin> set ms"
        using Cons.prems(3) [of f] False by simp
      then have 1: "apply_files run applied fs (ms @ [f], s1) = (success, ms', s')"
        using Cons.prems(1) False Some by simp
      have 2: "g \<in> set (ms @ [f]) \<longleftrightarrow> g \<in> applied" if "g \<in> set fs" for g
        using Cons.prems(2) Cons.prems(3) [of g] that by auto
      obtain new rest where r: "filter (\<lambda>f. f \<notin> applied) fs = new @ rest" "ms' = (ms @ [f]) @ new"
          "success \<longleftrightarrow> rest = []" "Some s' = foldl (\<lambda>t f. Option.bind t (run f)) (Some s1) new"
          "\<forall>f fs'. rest = f # fs' \<longrightarrow> run f s' = None"
        using Cons.IH [OF 1 _ 2] Cons.prems(2) by auto
      show ?thesis
        by (rule exI [of _ "f # new"], rule exI [of _ rest]) (use r False Some in auto)
    qed
  qed
qed simp

end
