(* ===== verification/ApiProperties.thy ===== *)
theory ApiProperties
  imports BatchJobs TripProperties
begin

text \<open>
  Properties of the remaining parts of the API: the activation of a vehicle, going online during a
  trip, and the migration runner.
\<close>

section \<open>Activating a vehicle\<close>

lemma query_in_tx:
  assumes "w_faults w = []" and "w_tx w = Some \<lparr>tx_db = d, tx_aborted = False\<rparr>" and "st (w_sys w) d = (Inr (x, d'), s')"
  shows "query st w = (Inr x, w\<lparr>w_sys := s', w_tx := Some \<lparr>tx_db = d', tx_aborted = False\<rparr>\<rparr>)"
  using assms by (simp add: query_served run_stmt_def)

lemma is_active_column:
  "map_of (rev dto) ''is_active'' = Some j \<Longrightarrow> vehicleUpdateSet dto \<noteq> []"
  by (simp add: vehicleUpdateSet_def VEHICLE_UPDATE_COLUMNS_def List.map_filter_def)

text \<open>C9. Activating a vehicle the driver does not have is answered with 404, and yet it takes effect: the
  transaction that deactivates the driver's other vehicles is committed before the answer is looked
  at, so the driver is left without an active vehicle.\<close>

theorem missing_vehicle_deactivates_others:
  assumes "w_faults w = []" and "w_tx w = None"
    and "\<forall>v \<in> set (db_vehicles (w_db w)). \<not> (ve_id v = vehicleId \<and> ve_driver_id v = driverId)"
    and "map_of (rev dto) ''is_active'' = Some (JBool True)"
  shows "fst (update driverId vehicleId dto w) = Inl (Http 404 None (''vehicle '' @ vehicleId @ '' not found'')) \<and>
    (\<forall>v \<in> set (db_vehicles (w_db (snd (update driverId vehicleId dto w)))).
       ve_driver_id v = driverId \<longrightarrow> \<not> ve_is_active v)"
proof -
  let ?d = "w_db w"
  let ?off = "update_rows (\<lambda>v. ve_driver_id v = driverId \<and> ve_is_active v \<and> ve_id v \<noteq> vehicleId)
      (\<lambda>v. v\<lparr>ve_is_active := False\<rparr>) (db_vehicles ?d)"
  have "\<forall>v \<in> set ?off. \<not> (ve_id v = vehicleId \<and> ve_driver_id v = driverId)"
    using assms(3) unfolding ball_update_rows by simp
  then have gone: "returning (\<lambda>v. ve_id v = vehicleId \<and> ve_driver_id v = driverId) u ?off = []" for u
    by (simp add: returning_nil_iff)
  have off: "\<forall>v \<in> set ?off. ve_driver_id v = driverId \<longrightarrow> \<not> ve_is_active v"
    using assms(3) unfolding ball_update_rows by auto
  let ?d1 = "?d\<lparr>db_vehicles := ?off\<rparr>"
  define w1 where "w1 = w\<lparr>w_tx := Some \<lparr>tx_db = ?d, tx_aborted = False\<rparr>\<rparr>"
  define w2 where "w2 = w\<lparr>w_tx := Some \<lparr>tx_db = ?d1, tx_aborted = False\<rparr>\<rparr>"
  have f: "w_faults w1 = []" "w_faults w2 = []" by (simp_all add: w1_def w2_def assms(1))
  have begin_run: "begin_tx w = (Inr (), w1)" by (simp add: begin_tx_def call_served assms(1) set_state_def w1_def)
  have one: "query (deactivate_others driverId vehicleId) w1 = (Inr (), w2)"
    by (subst query_in_tx [OF f(1), where d = ?d and x = "()" and d' = ?d1 and s' = "w_sys w"])
      (simp_all add: w1_def w2_def deactivate_others_def)
  have two: "query (update_vehicle driverId vehicleId columns) w2 = (Inr [], w2)" for columns
    by (subst query_in_tx [OF f(2), where d = ?d1 and x = "[]" and d' = ?d1 and s' = "w_sys w"])
      (simp_all add: w2_def update_vehicle_def gone Let_def)
  let ?w3 = "w\<lparr>w_tx := None, w_db := ?d1\<rparr>"
  have three: "commit w2 = (Inr (), ?w3)"
    unfolding commit_def call_served [OF f(2)] by (simp add: w2_def set_state_def commit_now_def close_tx_def)
  have four: "rollback ?w3 = (Inr (), ?w3)"
    by (simp add: rollback_def call_served assms(1) ret_def close_tx_def)
  have "updateAndActivate driverId vehicleId columns w = (Inl (vehicle_not_found vehicleId), ?w3)" for columns
    unfolding updateAndActivate_def with_client_def connect_def
    by (simp add: await_def call_served assms(1) ret_def try_catch_def begin_run one two three four throw_def
        finally_do_def release_def set_state_def close_tx_def throwVehicleConflict_def uniqueViolationConstraint_def
        vehicle_not_found_def)
  then have "update driverId vehicleId dto w = (Inl (vehicle_not_found vehicleId), ?w3)"
    using is_active_column [OF assms(4)] assms(4) by (simp add: update_def Let_def)
  then show ?thesis using off by (simp add: vehicle_not_found_def)
qed

theorem missing_vehicle_deactivates_others_witness:
  "map ve_is_active (db_vehicles sample_db) = [True] \<and>
   filter (\<lambda>v. ve_driver_id v = driver2 \<and> ve_is_active v)
     (db_vehicles (w_db (snd (update driver2 trip4 [(''is_active'', JBool True)] sample_world)))) = []"
proof
  show "map ve_is_active (db_vehicles sample_db) = [True]" by (simp add: sample_db_def sample_vehicle_def)
  have "vehicle3 \<noteq> trip4" by code_simp
  then have "\<forall>v \<in> set (db_vehicles (w_db (snd (update driver2 trip4 [(''is_active'', JBool True)] sample_world)))).
      ve_driver_id v = driver2 \<longrightarrow> \<not> ve_is_active v"
    using missing_vehicle_deactivates_others [of sample_world trip4 driver2 "[(''is_active'', JBool True)]"]
    by (simp add: sample_world_def sample_db_def sample_vehicle_def)
  then show "filter (\<lambda>v. ve_driver_id v = driver2 \<and> ve_is_active v)
     (db_vehicles (w_db (snd (update driver2 trip4 [(''is_active'', JBool True)] sample_world)))) = []"
    by (simp add: filter_empty_conv)
qed

section \<open>Going online during a trip\<close>






section \<open>Migrations\<close>

lemma apply_files_done: "set fs \<subseteq> applied \<Longrightarrow> apply_files run applied fs (ms, s) = (True, ms, s)"
  by (induction fs) auto

lemma migration_files_set: "set (migration_files entries) = {f \<in> set entries. ends_with ''.sql'' f}"
  by (auto simp: migration_files_def)

lemma migrate_runs:
  assumes "migrate run entries (ms, s) = (success, ms', s')" and "distinct entries"
  shows "\<exists>new rest. filter (\<lambda>f. f \<notin> set ms) (migration_files entries) = new @ rest \<and> ms' = ms @ new \<and>
      (success \<longleftrightarrow> rest = []) \<and> Some s' = foldl (\<lambda>t f. Option.bind t (run f)) (Some s) new"
    and "success \<Longrightarrow> migrate run' entries (ms', s') = (True, ms', s')"
    and "\<not> success \<Longrightarrow> migrate run' entries (ms', s') = (True, ms'', s'') \<Longrightarrow>
      set ms'' = set ms \<union> {f \<in> set entries. ends_with ''.sql'' f} \<and> (distinct ms \<longrightarrow> distinct ms'')"
proof -
  let ?fs = "migration_files entries"
  have d: "distinct ?fs" using assms(2) by (simp add: migration_files_def)
  have split: "\<exists>new rest. filter (\<lambda>f. f \<notin> set ms) ?fs = new @ rest \<and> ms' = ms @ new \<and> (success \<longleftrightarrow> rest = []) \<and>
      Some s' = foldl (\<lambda>t f. Option.bind t (run f)) (Some s) new"
    if "migrate run entries (ms, s) = (success, ms', s')" for run ms s success ms' s'
    using apply_files_run [OF that [unfolded migrate_def fst_conv] d] by auto
  show first: "\<exists>new rest. filter (\<lambda>f. f \<notin> set ms) ?fs = new @ rest \<and> ms' = ms @ new \<and>
      (success \<longleftrightarrow> rest = []) \<and> Some s' = foldl (\<lambda>t f. Option.bind t (run f)) (Some s) new"
    using split [OF assms(1)] .
  have all: "set ms' = set ms \<union> set ?fs" if "success"
  proof -
    obtain new where "filter (\<lambda>f. f \<notin> set ms) ?fs = new" "ms' = ms @ new" using first \<open>success\<close> by auto
    then show ?thesis by auto
  qed
  show "migrate run' entries (ms', s') = (True, ms', s')" if "success"
    using all [OF that] by (simp add: migrate_def apply_files_done)
  assume "migrate run' entries (ms', s') = (True, ms'', s'')"
  then obtain new2 where two: "filter (\<lambda>f. f \<notin> set ms') ?fs = new2" "ms'' = ms' @ new2" using split by fastforce
  obtain new rest where one: "filter (\<lambda>f. f \<notin> set ms) ?fs = new @ rest" "ms' = ms @ new" using first by blast
  have "set (new @ rest) \<subseteq> set ?fs - set ms" "distinct (new @ rest)"
    unfolding one(1) [symmetric] using d by auto
  then have "set new \<subseteq> set ?fs" "set new \<inter> set ms = {}" "distinct new" by auto
  moreover have "set new2 = set ?fs - set ms'" "distinct new2" using two(1) d by auto
  ultimately show "set ms'' = set ms \<union> {f \<in> set entries. ends_with ''.sql'' f} \<and> (distinct ms \<longrightarrow> distinct ms'')"
    using one(2) two(2) unfolding migration_files_set [symmetric] by auto
qed

text \<open>Two files, of which the second fails until its table exists.\<close>

definition sample_run :: "bool \<Rightarrow> string \<Rightarrow> string list \<Rightarrow> string list option" where
  "sample_run ready f s = (if f = ''002.sql'' \<and> \<not> ready then None else Some (s @ [f]))"

text \<open>What a run leaves to do: the \<open>.sql\<close> entries of the directory that are not recorded.\<close>

definition unapplied :: "string list \<Rightarrow> string list \<Rightarrow> string set" where
  "unapplied entries ms = {f \<in> set entries. ends_with ''.sql'' f \<and> f \<notin> set ms}"

lemma migrate_in_order:
  assumes "migrate run entries (ms, s) = (success, ms', s')" and "distinct entries"
  shows "\<exists>new. ms' = ms @ new \<and> sorted new \<and> distinct new \<and> set new \<subseteq> unapplied entries ms \<and>
      (\<forall>f \<in> set new. \<forall>g \<in> unapplied entries ms'. f < g) \<and>
      Some s' = foldl (\<lambda>t f. Option.bind t (run f)) (Some s) new \<and>
      (success \<longleftrightarrow> unapplied entries ms' = {}) \<and>
      (\<not> success \<longrightarrow> (\<exists>g \<in> unapplied entries ms'. (\<forall>h \<in> unapplied entries ms'. g \<le> h) \<and> run g s' = None))"
proof -
  let ?fs = "migration_files entries"
  have d: "distinct ?fs" using assms(2) by (simp add: migration_files_def)
  have "\<exists>new rest. filter (\<lambda>f. f \<notin> set ms) ?fs = new @ rest \<and> ms' = ms @ new \<and> (success \<longleftrightarrow> rest = []) \<and>
      Some s' = foldl (\<lambda>t f. Option.bind t (run f)) (Some s) new \<and> (\<forall>f fs'. rest = f # fs' \<longrightarrow> run f s' = None)"
    by (rule apply_files_run [OF assms(1) [unfolded migrate_def fst_conv] d]) simp
  then obtain new rest where r: "filter (\<lambda>f. f \<notin> set ms) ?fs = new @ rest" "ms' = ms @ new" "success \<longleftrightarrow> rest = []"
    "Some s' = foldl (\<lambda>t f. Option.bind t (run f)) (Some s) new"
    "\<forall>f fs'. rest = f # fs' \<longrightarrow> run f s' = None"
    by blast
  have "sorted ?fs" by (simp add: migration_files_def)
  then have s: "sorted (new @ rest)" unfolding r(1) [symmetric] by (rule sorted_filter [of id, simplified])
  have d: "distinct (new @ rest)" unfolding r(1) [symmetric] using d by simp
  have todo: "unapplied entries ms = set new \<union> set rest"
    using arg_cong [OF r(1), of set] by (auto simp: unapplied_def migration_files_set)
  have left: "unapplied entries ms' = set rest"
  proof -
    have "unapplied entries ms' = unapplied entries ms - set new" by (auto simp: unapplied_def r(2))
    with todo d show ?thesis by auto
  qed
  have order: "\<forall>f \<in> set new. \<forall>g \<in> set rest. f < g"
    using s d by (auto simp: sorted_append order_le_less)
  have stop: "\<exists>g \<in> set rest. (\<forall>h \<in> set rest. g \<le> h) \<and> run g s' = None" if "\<not> success"
  proof -
    from r(3) that have "rest \<noteq> []" by simp
    then obtain g gs where "rest = g # gs" by (meson neq_Nil_conv)
    with r(5) s show ?thesis by (intro bexI [of _ g]) (auto simp: sorted_append)
  qed
  show ?thesis
    using r(2-4) s d todo order stop unfolding left by (intro exI [of _ new]) (auto simp: sorted_append)
qed

text \<open>C29. Every migration is applied exactly once, in lexical order. A run records new files after those
  recorded already: distinct \<open>.sql\<close> entries in ascending order, each lexically before every entry still
  to do, and the database is the one of running them one after the other. It succeeds exactly if
  nothing is left to do, and running it again then changes nothing; it fails on the lexically first entry
  left, of which nothing stays, and a later run that succeeds has all entries recorded once.\<close>

theorem migrations_apply_once:
  assumes "migrate run entries (ms, s) = (success, ms', s')" and "distinct entries"
  shows "(\<exists>new. ms' = ms @ new \<and> sorted new \<and> distinct new \<and> set new \<subseteq> unapplied entries ms \<and>
      (\<forall>f \<in> set new. \<forall>g \<in> unapplied entries ms'. f < g) \<and>
      Some s' = foldl (\<lambda>t f. Option.bind t (run f)) (Some s) new) \<and>
    (success \<longleftrightarrow> unapplied entries ms' = {}) \<and>
    (\<not> success \<longrightarrow> (\<exists>g \<in> unapplied entries ms'. (\<forall>h \<in> unapplied entries ms'. g \<le> h) \<and> run g s' = None)) \<and>
    (success \<longrightarrow> migrate run' entries (ms', s') = (True, ms', s')) \<and>
    (\<not> success \<and> migrate run' entries (ms', s') = (True, ms'', s'') \<longrightarrow>
      set ms'' = set ms \<union> {f \<in> set entries. ends_with ''.sql'' f} \<and> (distinct ms \<longrightarrow> distinct ms''))"
  using migrate_in_order [OF assms] migrate_runs [OF assms] by blast

theorem migrations_apply_once_witness:
  "migrate (sample_run False) [''002.sql'', ''readme'', ''001.sql''] ([], []) = (False, [''001.sql''], [''001.sql'']) \<and>
   (\<exists>ms s. migrate (sample_run True) [''002.sql'', ''readme'', ''001.sql''] ([''001.sql''], [''001.sql'']) = (True, ms, s) \<and>
      set ms = {f \<in> set [''002.sql'', ''readme'', ''001.sql'']. ends_with ''.sql'' f} \<and> distinct ms)"
proof
  show run: "migrate (sample_run False) [''002.sql'', ''readme'', ''001.sql''] ([], []) = (False, [''001.sql''], [''001.sql''])"
    by code_simp
  have again: "migrate (sample_run True) [''002.sql'', ''readme'', ''001.sql''] ([''001.sql''], [''001.sql'']) =
      (True, [''001.sql'', ''002.sql''], [''001.sql'', ''002.sql''])" by code_simp
  show "\<exists>ms s. migrate (sample_run True) [''002.sql'', ''readme'', ''001.sql''] ([''001.sql''], [''001.sql'']) = (True, ms, s) \<and>
      set ms = {f \<in> set [''002.sql'', ''readme'', ''001.sql'']. ends_with ''.sql'' f} \<and> distinct ms"
  proof (intro exI conjI)
    have "distinct [''002.sql'', ''readme'', ''001.sql'']" by simp
    note once = migrations_apply_once [OF run this, where run' = "sample_run True" and ms'' = "[''001.sql'', ''002.sql'']"
        and s'' = "[''001.sql'', ''002.sql'']", unfolded again]
    show "set [''001.sql'', ''002.sql''] = {f \<in> set [''002.sql'', ''readme'', ''001.sql'']. ends_with ''.sql'' f}"
      and "distinct [''001.sql'', ''002.sql'']" using once by simp_all
  qed (rule again)
qed

end
