(* ===== verification/Transactions.thy ===== *)
theory Transactions
  imports TripRefinement
begin

text \<open>
  Transactions that run side by side. Every handler of the program talks to PostgreSQL through a
  client of its own (\<open>pool.connect()\<close>), so the statements of two handlers, of one process or of
  several, may come in any order. Here a transaction is the list of statements its handler issues;
  the server keeps, for each session, the row versions it has written or locked, shows a session
  the committed rows overlaid with its own versions (read committed), lets a statement wait while
  another session holds a row it writes or locks, and installs the versions at \<open>COMMIT\<close>.

  A statement is one atomic step, taken when the rows it needs are free: a waiting statement of the
  server re-evaluates its condition on the row it has waited for, and every condition modelled
  here names its row by the primary key. The share locks of foreign keys do not conflict with the
  updates of the transactions modelled (none changes or deletes a key).

  The logic for such sessions is in the theory TransactionLogic.
\<close>

section \<open>Row versions\<close>

datatype row_key =
  TripKey string | DriverKey string | EventKey int | LocationKey string | FareKey string

record versions =
  vs_locks :: "row_key list"
  vs_trips :: "trip_row list"
  vs_drivers :: "driver_row list"
  vs_events :: "trip_event_row list"
  vs_locations :: "driver_location_row list"
  vs_fares :: "fare_record_row list"

definition no_rows :: versions where
  "no_rows = \<lparr>vs_locks = [], vs_trips = [], vs_drivers = [], vs_events = [], vs_locations = [], vs_fares = []\<rparr>"

definition row_at :: "('r \<Rightarrow> 'k) \<Rightarrow> 'r list \<Rightarrow> 'k \<Rightarrow> 'r option" where
  "row_at key rows k = find (\<lambda>r. key r = k) rows"

text \<open>New versions replace the rows with their keys; a version with a new key is a row inserted.\<close>

definition install_rows :: "('r \<Rightarrow> 'k) \<Rightarrow> 'r list \<Rightarrow> 'r list \<Rightarrow> 'r list" where
  "install_rows key vs rows =
     map (\<lambda>r. case row_at key vs (key r) of Some v \<Rightarrow> v | None \<Rightarrow> r) rows @
     filter (\<lambda>v. key v \<notin> key ` set rows) vs"

definition install :: "versions \<Rightarrow> db \<Rightarrow> db" where
  "install vs d = d\<lparr>db_trips := install_rows tr_id (vs_trips vs) (db_trips d),
     db_drivers := install_rows dr_user_id (vs_drivers vs) (db_drivers d),
     db_trip_events := install_rows te_id (vs_events vs) (db_trip_events d),
     db_driver_locations := install_rows dl_driver_id (vs_locations vs) (db_driver_locations d),
     db_fare_records := install_rows fr_trip_id (vs_fares vs) (db_fare_records d)\<rparr>"

text \<open>The versions of the rows a session holds, read off the database it sees.\<close>

definition held_trip :: "db \<Rightarrow> row_key \<Rightarrow> trip_row option" where
  "held_trip d k = (case k of TripKey i \<Rightarrow> row_at tr_id (db_trips d) i | _ \<Rightarrow> None)"

definition held_driver :: "db \<Rightarrow> row_key \<Rightarrow> driver_row option" where
  "held_driver d k = (case k of DriverKey i \<Rightarrow> row_at dr_user_id (db_drivers d) i | _ \<Rightarrow> None)"

definition held_event :: "db \<Rightarrow> row_key \<Rightarrow> trip_event_row option" where
  "held_event d k = (case k of EventKey i \<Rightarrow> row_at te_id (db_trip_events d) i | _ \<Rightarrow> None)"

definition held_location :: "db \<Rightarrow> row_key \<Rightarrow> driver_location_row option" where
  "held_location d k = (case k of LocationKey i \<Rightarrow> row_at dl_driver_id (db_driver_locations d) i | _ \<Rightarrow> None)"

definition held_fare :: "db \<Rightarrow> row_key \<Rightarrow> fare_record_row option" where
  "held_fare d k = (case k of FareKey i \<Rightarrow> row_at fr_trip_id (db_fare_records d) i | _ \<Rightarrow> None)"

definition capture :: "row_key list \<Rightarrow> db \<Rightarrow> versions" where
  "capture ks d = \<lparr>vs_locks = ks, vs_trips = List.map_filter (held_trip d) ks,
     vs_drivers = List.map_filter (held_driver d) ks, vs_events = List.map_filter (held_event d) ks,
     vs_locations = List.map_filter (held_location d) ks, vs_fares = List.map_filter (held_fare d) ks\<rparr>"

definition add_locks :: "row_key list \<Rightarrow> row_key list \<Rightarrow> row_key list" where
  "add_locks ks held = filter (\<lambda>k. k \<notin> set held) (remdups ks) @ held"

section \<open>Sessions\<close>

text \<open>
  What a handler does with its client. A query has the rows it writes or locks and the statement;
  both are given the rows other sessions hold, which \<open>SKIP LOCKED\<close> reads. \<open>Produce\<close> sends the event
  to Kafka and goes on one way or the other.
\<close>

datatype prog =
    Done
  | Query "row_key list \<Rightarrow> sys \<Rightarrow> db \<Rightarrow> row_key list" "row_key list \<Rightarrow> sys \<Rightarrow> db \<Rightarrow> (exn + prog \<times> db) \<times> sys"
  | Produce int prog prog
  | Commit prog
  | Rollback prog

definition query_then ::
    "(sys \<Rightarrow> db \<Rightarrow> row_key list) \<Rightarrow> 'a stmt \<Rightarrow> ('a \<Rightarrow> prog) \<Rightarrow> prog" where
  "query_then ks st rest = Query (\<lambda>_. ks)
     (\<lambda>_ s d. case st s d of (Inl e, s') \<Rightarrow> (Inl e, s') | (Inr (x, d'), s') \<Rightarrow> (Inr (rest x, d'), s'))"

record db_session =
  se_prog :: prog
  se_rows :: versions

record server =
  sv_sys :: sys
  sv_db :: db
  sv_sessions :: "db_session list"
  sv_sent :: "int list"

definition client :: "prog \<Rightarrow> db_session" where
  "client p = \<lparr>se_prog = p, se_rows = no_rows\<rparr>"

definition locks_of :: "server \<Rightarrow> nat \<Rightarrow> row_key list" where
  "locks_of v i = vs_locks (se_rows (sv_sessions v ! i))"

definition busy :: "server \<Rightarrow> nat \<Rightarrow> row_key list" where
  "busy v i = concat (map (locks_of v) (filter (\<lambda>j. j \<noteq> i) [0..<length (sv_sessions v)]))"

definition put :: "nat \<Rightarrow> prog \<Rightarrow> versions \<Rightarrow> server \<Rightarrow> server" where
  "put i p vs v = v\<lparr>sv_sessions := (sv_sessions v)[i := \<lparr>se_prog = p, se_rows = vs\<rparr>]\<rparr>"

text \<open>A session moves, its send fails, or its connection is lost, which rolls it back.\<close>

datatype client_move = Go | SendFails | Crash

fun take_move :: "client_move \<Rightarrow> nat \<Rightarrow> prog \<Rightarrow> versions \<Rightarrow> server \<Rightarrow> server option" where
  "take_move _ i Done vs v = None"
| "take_move Crash i _ vs v = Some (put i Done no_rows v)"
| "take_move Go i (Query ks st) vs v =
     (let need = ks (busy v i) (sv_sys v) (install vs (sv_db v))
      in if list_ex (\<lambda>k. k \<in> set (busy v i)) need then None
         else (case st (busy v i) (sv_sys v) (install vs (sv_db v)) of
                 (Inl e, s) \<Rightarrow> Some (put i Done no_rows (v\<lparr>sv_sys := s\<rparr>))
               | (Inr (p, d), s) \<Rightarrow>
                   Some (put i p (capture (add_locks need (vs_locks vs)) d) (v\<lparr>sv_sys := s\<rparr>))))"
| "take_move Go i (Produce e ok bad) vs v = Some (put i ok vs (v\<lparr>sv_sent := sv_sent v @ [e]\<rparr>))"
| "take_move SendFails i (Produce e ok bad) vs v = Some (put i bad vs v)"
| "take_move Go i (Commit p) vs v = Some (put i p no_rows (v\<lparr>sv_db := install vs (sv_db v)\<rparr>))"
| "take_move Go i (Rollback p) vs v = Some (put i p no_rows v)"
| "take_move SendFails i _ vs v = None"

definition move_session :: "client_move \<Rightarrow> nat \<Rightarrow> server \<Rightarrow> server option" where
  "move_session m i v =
     (if i < length (sv_sessions v)
      then take_move m i (se_prog (sv_sessions v ! i)) (se_rows (sv_sessions v ! i)) v else None)"

text \<open>The server takes the statements as they come; its clock moves between them.\<close>

inductive server_step :: "server \<Rightarrow> server \<Rightarrow> bool" where
  moves: "move_session m i v = Some v' \<Longrightarrow> server_step v v'"
| ticks: "sys_now (sv_sys v) \<le> t \<Longrightarrow> server_step v (v\<lparr>sv_sys := (sv_sys v)\<lparr>sys_now := t\<rparr>\<rparr>)"

inductive_cases server_stepE: "server_step v v'"

fun run_schedule :: "(client_move \<times> nat) list \<Rightarrow> server \<Rightarrow> server option" where
  "run_schedule [] v = Some v"
| "run_schedule ((m, i) # ms) v =
     (case move_session m i v of None \<Rightarrow> None | Some v' \<Rightarrow> run_schedule ms v')"

lemma run_schedule_steps: "run_schedule ms v = Some v' \<Longrightarrow> server_step\<^sup>*\<^sup>* v v'"
proof (induction ms v rule: run_schedule.induct)
  case (2 m i ms v)
  then show ?case
    by (auto split: option.splits intro: converse_rtranclp_into_rtranclp server_step.moves)
qed simp

end
