(* ===== verification/TransactionLogic.thy ===== *)
theory TransactionLogic
  imports Transactions
begin

text \<open>
  The logic of the theory Transactions. What a session knows of the committed rows must survive
  what the others commit: the rows it holds stay as they are (\<open>same_row\<close>). The locale \<open>committing\<close> certifies programs one by one, each with an
  assertion per statement that is stable in this sense, and shows that any number of certified
  programs, run side by side, commit only steps of the specification.
\<close>

section \<open>Rows by key\<close>

lemma row_at_simps [simp]:
  "row_at key [] k = None"
  "row_at key (r # rs) k = (if key r = k then Some r else row_at key rs k)"
  by (simp_all add: row_at_def)

lemma row_at_SomeD: "row_at key rows k = Some r \<Longrightarrow> r \<in> set rows \<and> key r = k"
  unfolding row_at_def by (drule find_in_set) simp

lemma row_at_None_iff: "row_at key rows k = None \<longleftrightarrow> k \<notin> key ` set rows"
  by (induction rows) auto

lemma row_at_append: "row_at key (xs @ ys) k = (case row_at key xs k of None \<Rightarrow> row_at key ys k | r \<Rightarrow> r)"
  by (induction xs) auto

lemma row_at_distinct: "distinct (map key rows) \<Longrightarrow> r \<in> set rows \<Longrightarrow> row_at key rows (key r) = Some r"
  by (simp add: row_at_def find_distinct)

lemma row_at_update:
  "(\<And>r. key (u r) = key r) \<Longrightarrow> row_at key (update_rows p u rows) k =
     map_option (\<lambda>r. if p r then u r else r) (row_at key rows k)"
  by (simp add: row_at_def find_update_rows)

lemma row_at_filter: "k \<notin> key ` S \<Longrightarrow> row_at key (filter (\<lambda>v. key v \<notin> key ` S) vs) k = row_at key vs k"
  by (induction vs) auto

lemma row_at_install:
  "row_at key (install_rows key vs rows) k = (case row_at key vs k of None \<Rightarrow> row_at key rows k | r \<Rightarrow> r)"
proof -
  let ?f = "\<lambda>r. case row_at key vs (key r) of Some v \<Rightarrow> v | None \<Rightarrow> r"
  have key: "key (?f r) = key r" for r by (auto split: option.splits dest: row_at_SomeD)
  have map: "row_at key (map ?f rs) k = map_option ?f (row_at key rs k)" for rs
    by (induction rs) (auto simp: key)
  show ?thesis
  proof (cases "row_at key rows k")
    case None
    then have "k \<notin> key ` set rows" by (simp add: row_at_None_iff)
    from row_at_filter [OF this, of vs] None show ?thesis
      by (cases "row_at key vs k") (simp_all only: install_rows_def row_at_append map option.simps)
  next
    case (Some r)
    with row_at_SomeD [of key rows k r] have "key r = k" by simp
    with Some show ?thesis
      by (cases "row_at key vs k") (simp_all only: install_rows_def row_at_append map option.simps)
  qed
qed

lemma install_none [simp]: "install_rows key [] rows = rows"
  by (simp add: install_rows_def)

lemma install_inserted: "key r \<notin> key ` set rows \<Longrightarrow> install_rows key [r] rows = rows @ [r]"
  by (auto simp: install_rows_def intro!: map_idI)

lemma install_written:
  assumes "distinct (map key rows)" and "row_at key rows k = Some r" and "\<And>r. key (u r) = key r"
    and "p r" and "\<And>x. p x \<Longrightarrow> key x = k"
  shows "install_rows key [u r] rows = update_rows p u rows"
proof -
  from row_at_SomeD [OF assms(2)] have r: "r \<in> set rows" "key r = k" by simp_all
  have "x = r" if "x \<in> set rows" "key x = k" for x
    using assms(1,2) row_at_distinct [of key rows x] that by simp
  then have *: "(case row_at key [u r] (key x) of Some v \<Rightarrow> v | None \<Rightarrow> x) = (if p x then u x else x)"
    if "x \<in> set rows" for x
    using that assms(4) assms(5) [of x] r(2) by (cases "key x = k") (auto simp: assms(3))
  have "key (u r) \<in> key ` set rows" unfolding assms(3) using r(1) by (rule imageI)
  then have "filter (\<lambda>v. key v \<notin> key ` set rows) [u r] = []" by simp
  moreover have "map (\<lambda>x. case row_at key [u r] (key x) of Some v \<Rightarrow> v | None \<Rightarrow> x) rows = update_rows p u rows"
    unfolding update_rows_def by (rule map_cong [OF refl *])
  ultimately show ?thesis unfolding install_rows_def by (simp only: append_Nil2)
qed

lemma install_same:
  assumes "distinct (map key rows)" and "row_at key rows k = Some r"
  shows "install_rows key [r] rows = rows"
proof -
  have "install_rows key [r] rows = update_rows (\<lambda>x. key x = k) (\<lambda>x. x) rows"
    using assms row_at_SomeD [OF assms(2)] by (intro install_written [where u = "\<lambda>x. x"]) auto
  then show ?thesis by (simp add: update_rows_def)
qed

lemma install_tables [simp]:
  "db_trips (install vs d) = install_rows tr_id (vs_trips vs) (db_trips d)"
  "db_drivers (install vs d) = install_rows dr_user_id (vs_drivers vs) (db_drivers d)"
  "db_trip_events (install vs d) = install_rows te_id (vs_events vs) (db_trip_events d)"
  "db_driver_locations (install vs d) = install_rows dl_driver_id (vs_locations vs) (db_driver_locations d)"
  "db_fare_records (install vs d) = install_rows fr_trip_id (vs_fares vs) (db_fare_records d)"
  "db_vehicles (install vs d) = db_vehicles d" "db_users (install vs d) = db_users d"
  "db_surge_zones (install vs d) = db_surge_zones d" "db_trip_ratings (install vs d) = db_trip_ratings d"
  by (simp_all add: install_def)

lemma no_rows_simps [simp]:
  "vs_locks no_rows = []" "vs_trips no_rows = []" "vs_drivers no_rows = []" "vs_events no_rows = []"
  "vs_locations no_rows = []" "vs_fares no_rows = []" "install no_rows d = d"
  by (simp_all add: no_rows_def install_def)

section \<open>What other sessions leave alone\<close>

definition same_row :: "db \<Rightarrow> db \<Rightarrow> row_key \<Rightarrow> bool" where
  "same_row d d' k \<longleftrightarrow> held_trip d' k = held_trip d k \<and> held_driver d' k = held_driver d k \<and>
     held_event d' k = held_event d k \<and> held_location d' k = held_location d k \<and>
     held_fare d' k = held_fare d k"

text \<open>A session that holds \<open>K\<close> may find the committed database changed so.\<close>

definition around :: "row_key set \<Rightarrow> db \<Rightarrow> db \<Rightarrow> bool" where
  "around K d d' \<longleftrightarrow> db_vehicles d' = db_vehicles d \<and> db_users d' = db_users d \<and>
     (\<forall>k. k \<in> K \<longrightarrow> same_row d d' k)"

definition stable :: "(db \<Rightarrow> versions \<Rightarrow> bool) \<Rightarrow> (db \<Rightarrow> bool) \<Rightarrow> bool" where
  "stable A good \<longleftrightarrow>
     (\<forall>d d' vs. A d vs \<longrightarrow> good d \<longrightarrow> good d' \<longrightarrow> around (set (vs_locks vs)) d d' \<longrightarrow> A d' vs)"

text \<open>The versions a session keeps are of rows it holds.\<close>

definition covered :: "versions \<Rightarrow> bool" where
  "covered vs \<longleftrightarrow> (\<forall>t \<in> set (vs_trips vs). TripKey (tr_id t) \<in> set (vs_locks vs)) \<and>
     (\<forall>r \<in> set (vs_drivers vs). DriverKey (dr_user_id r) \<in> set (vs_locks vs)) \<and>
     (\<forall>e \<in> set (vs_events vs). EventKey (te_id e) \<in> set (vs_locks vs)) \<and>
     (\<forall>l \<in> set (vs_locations vs). LocationKey (dl_driver_id l) \<in> set (vs_locks vs)) \<and>
     (\<forall>f \<in> set (vs_fares vs). FareKey (fr_trip_id f) \<in> set (vs_locks vs))"

lemma covered_no_rows [simp]: "covered no_rows"
  by (simp add: covered_def)

lemma in_map_filter: "x \<in> set (List.map_filter f ks) \<longleftrightarrow> (\<exists>k \<in> set ks. f k = Some x)"
  by (induction ks) (auto simp: List.map_filter_simps split: option.splits)

lemma held_SomeD:
  "held_trip d k = Some t \<Longrightarrow> k = TripKey (tr_id t)" "held_driver d k = Some r \<Longrightarrow> k = DriverKey (dr_user_id r)"
  "held_event d k = Some e \<Longrightarrow> k = EventKey (te_id e)"
  "held_location d k = Some l \<Longrightarrow> k = LocationKey (dl_driver_id l)"
  "held_fare d k = Some f \<Longrightarrow> k = FareKey (fr_trip_id f)"
  by (auto simp: held_trip_def held_driver_def held_event_def held_location_def held_fare_def
      split: row_key.splits dest: row_at_SomeD)

lemma covered_capture: "covered (capture ks d)"
  by (auto simp: covered_def capture_def in_map_filter dest: held_SomeD)

lemma row_at_uncovered: "k \<notin> key ` set vs \<Longrightarrow> row_at key (install_rows key vs rows) k = row_at key rows k"
  by (simp add: row_at_install row_at_None_iff [symmetric])

lemma same_row_install:
  assumes "covered vs" and "k \<notin> set (vs_locks vs)"
  shows "same_row d (install vs d) k"
proof -
  have "row_at tr_id (db_trips (install vs d)) i = row_at tr_id (db_trips d) i" if "k = TripKey i" for i
    using assms that by (auto simp: covered_def intro!: row_at_uncovered)
  moreover have "row_at dr_user_id (db_drivers (install vs d)) i = row_at dr_user_id (db_drivers d) i"
    if "k = DriverKey i" for i
    using assms that by (auto simp: covered_def intro!: row_at_uncovered)
  moreover have "row_at te_id (db_trip_events (install vs d)) i = row_at te_id (db_trip_events d) i"
    if "k = EventKey i" for i
    using assms that by (auto simp: covered_def intro!: row_at_uncovered)
  moreover have "row_at dl_driver_id (db_driver_locations (install vs d)) i = row_at dl_driver_id (db_driver_locations d) i"
    if "k = LocationKey i" for i
    using assms that by (auto simp: covered_def intro!: row_at_uncovered)
  moreover have "row_at fr_trip_id (db_fare_records (install vs d)) i = row_at fr_trip_id (db_fare_records d) i"
    if "k = FareKey i" for i
    using assms that by (auto simp: covered_def intro!: row_at_uncovered)
  ultimately show ?thesis
    by (cases k) (simp_all add: same_row_def held_trip_def held_driver_def held_event_def held_location_def held_fare_def)
qed

section \<open>Programs end\<close>

text \<open>A move takes a session to a smaller program.\<close>

definition continues :: "prog \<Rightarrow> prog \<Rightarrow> bool" where
  "continues q p \<longleftrightarrow>
     (case p of
        Done \<Rightarrow> False
      | Query ks st \<Rightarrow> q = Done \<or> (\<exists>bs s d d' s'. st bs s d = (Inr (q, d'), s'))
      | Produce e ok bad \<Rightarrow> q = ok \<or> q = bad
      | Commit r \<Rightarrow> q = r
      | Rollback r \<Rightarrow> q = r)"

lemma accp_Done: "Wellfounded.accp continues Done"
  by (rule accp.accI) (simp add: continues_def)

lemma accp_prog: "Wellfounded.accp continues p"
proof (induction p)
  case (Query ks st)
  show ?case
  proof (rule accp.accI)
    fix q assume "continues q (Query ks st)"
    then consider "q = Done" | bs s d d' s' where "st bs s d = (Inr (q, d'), s')"
      by (auto simp: continues_def)
    then show "Wellfounded.accp continues q"
    proof cases
      case 2
      have "st bs \<in> range st" "st bs s \<in> range (st bs)" "st bs s d \<in> range (st bs s)" by simp_all
      with Query [of "st bs" "st bs s" "st bs s d" "Inr (q, d')" "(q, d')" q] 2 show ?thesis by simp
    qed (simp add: accp_Done)
  qed
next
  case (Produce e ok bad)
  then show ?case by (intro accp.accI [of _ "Produce e ok bad"]) (auto simp: continues_def)
next
  case (Commit p)
  then show ?case by (intro accp.accI [of _ "Commit p"]) (simp add: continues_def)
next
  case (Rollback p)
  then show ?case by (intro accp.accI [of _ "Rollback p"]) (simp add: continues_def)
qed (rule accp_Done)

lemma wf_continues: "wf {(q, p). continues q p}"
  using accp_prog by (auto intro!: acc_wfI simp: accp_eq_acc)

lemma advance_continues:
  assumes "take_move Go i p vs v = Some v'" and "i < length (sv_sessions v)"
  shows "continues (se_prog (sv_sessions v' ! i)) p"
    and "map se_prog (sv_sessions v') = (map se_prog (sv_sessions v))[i := se_prog (sv_sessions v' ! i)]"
  using assms
  by (cases p; force simp: Let_def put_def continues_def map_update split: if_splits prod.splits sum.splits)+

section \<open>Certified programs\<close>

lemma set_add_locks [simp]: "set (add_locks ks held) = set ks \<union> set held"
  by (auto simp: add_locks_def)

lemma capture_locks [simp]: "vs_locks (capture ks d) = ks"
  by (simp add: capture_def)

lemma in_busy: "k \<in> set (busy v i) \<longleftrightarrow> (\<exists>j < length (sv_sessions v). j \<noteq> i \<and> k \<in> set (locks_of v j))"
  by (auto simp: busy_def)

lemma around_refl: "around K d d"
  by (simp add: around_def same_row_def)

text \<open>
  What the certified programs promise of the committed database, and the order in which they take
  rows: a session that has to wait for a row holds only rows of lower rank.
\<close>

locale committing =
  fixes good :: "db \<Rightarrow> bool" and step :: "db \<Rightarrow> db \<Rightarrow> bool" and rank :: "db \<Rightarrow> row_key \<Rightarrow> nat"
  assumes step_good: "step d d' \<Longrightarrow> good d \<Longrightarrow> good d'"
begin

inductive certified :: "(db \<Rightarrow> versions \<Rightarrow> bool) \<Rightarrow> prog \<Rightarrow> bool" where
  finished: "stable A good \<Longrightarrow> (\<And>d vs. A d vs \<Longrightarrow> vs = no_rows) \<Longrightarrow> certified A Done"
| query: "stable A good \<Longrightarrow>
    (\<And>bs s d vs k h. good d \<Longrightarrow> A d vs \<Longrightarrow> k \<in> set (ks bs s (install vs d)) \<Longrightarrow> k \<notin> set (vs_locks vs) \<Longrightarrow>
       h \<in> set (vs_locks vs) \<Longrightarrow> rank d h < rank d k) \<Longrightarrow>
    (\<And>bs s d vs p d' s'. good d \<Longrightarrow> A d vs \<Longrightarrow> st bs s (install vs d) = (Inr (p, d'), s') \<Longrightarrow>
       \<exists>B. certified B p \<and> B d (capture (add_locks (ks bs s (install vs d)) (vs_locks vs)) d')) \<Longrightarrow>
    certified A (Query ks st)"
| produce: "stable A good \<Longrightarrow> certified A p \<Longrightarrow> certified A q \<Longrightarrow> certified A (Produce e p q)"
| commit: "stable A good \<Longrightarrow>
    (\<And>d vs. good d \<Longrightarrow> A d vs \<Longrightarrow> step\<^sup>*\<^sup>* d (install vs d)) \<Longrightarrow>
    certified (\<lambda>_ vs. vs = no_rows) p \<Longrightarrow> certified A (Commit p)"
| rollback: "stable A good \<Longrightarrow> certified (\<lambda>_ vs. vs = no_rows) p \<Longrightarrow> certified A (Rollback p)"

inductive_cases doneE: "certified A Done"
inductive_cases queryE: "certified A (Query ks st)"
inductive_cases produceE: "certified A (Produce e p q)"
inductive_cases commitE: "certified A (Commit p)"
inductive_cases rollbackE: "certified A (Rollback p)"

lemma certified_stable: "certified A p \<Longrightarrow> stable A good"
  by (induction rule: certified.induct) simp_all

lemma steps_good: "step\<^sup>*\<^sup>* d d' \<Longrightarrow> good d \<Longrightarrow> good d'"
  by (induction rule: rtranclp_induct) (auto intro: step_good)

lemma certified_done: "certified (\<lambda>_ vs. vs = no_rows) Done"
  by (rule finished) (simp_all add: stable_def)

definition session_ok :: "db \<Rightarrow> db_session \<Rightarrow> bool" where
  "session_ok d s \<longleftrightarrow> covered (se_rows s) \<and> (\<exists>A. certified A (se_prog s) \<and> A d (se_rows s))"

definition side_by_side :: "server \<Rightarrow> bool" where
  "side_by_side v \<longleftrightarrow> good (sv_db v) \<and> (\<forall>i < length (sv_sessions v). session_ok (sv_db v) (sv_sessions v ! i)) \<and>
     (\<forall>i < length (sv_sessions v). \<forall>k \<in> set (locks_of v i). k \<notin> set (busy v i))"

lemma put_keeps:
  assumes v: "side_by_side v" and i: "i < length (sv_sessions v)"
    and good: "good (sv_db v')" and p: "session_ok (sv_db v') \<lparr>se_prog = p, se_rows = vs\<rparr>"
    and free: "\<forall>k \<in> set (vs_locks vs). k \<notin> set (busy v i)"
    and others: "\<And>k. k \<in> set (busy v i) \<Longrightarrow> same_row (sv_db v) (sv_db v') k"
    and fixed: "db_vehicles (sv_db v') = db_vehicles (sv_db v)" "db_users (sv_db v') = db_users (sv_db v)"
    and sessions: "sv_sessions v' = (sv_sessions v)[i := \<lparr>se_prog = p, se_rows = vs\<rparr>]"
  shows "side_by_side v'"
proof -
  let ?n = "length (sv_sessions v)"
  have locks: "locks_of v' j = (if j = i then vs_locks vs else locks_of v j)" if "j < ?n" for j
    using that i by (simp add: locks_of_def sessions nth_list_update)
  have "session_ok (sv_db v') (sv_sessions v' ! j)" if j: "j < ?n" for j
  proof (cases "j = i")
    case True
    with p i show ?thesis by (simp add: sessions)
  next
    case False
    from v j obtain A where ok: "covered (se_rows (sv_sessions v ! j))" "certified A (se_prog (sv_sessions v ! j))"
      "A (sv_db v) (se_rows (sv_sessions v ! j))" by (auto simp: side_by_side_def session_ok_def)
    have "around (set (locks_of v j)) (sv_db v) (sv_db v')"
      unfolding around_def using others fixed False j i by (auto simp: in_busy)
    then have "A (sv_db v') (se_rows (sv_sessions v ! j))"
      using certified_stable [OF ok(2)] ok(3) good v
      by (auto simp: stable_def side_by_side_def locks_of_def)
    with ok False j i show ?thesis by (auto simp: session_ok_def sessions)
  qed
  moreover have "k \<notin> set (busy v' j)" if "j < ?n" "k \<in> set (locks_of v' j)" for j k
    using v that free i by (auto simp: in_busy locks side_by_side_def sessions split: if_splits)
  ultimately show ?thesis using good by (simp add: side_by_side_def sessions)
qed

lemma put_same_db:
  assumes "side_by_side v" and "i < length (sv_sessions v)" and "sv_db v' = sv_db v"
    and "session_ok (sv_db v) \<lparr>se_prog = p, se_rows = vs\<rparr>"
    and "\<forall>k \<in> set (vs_locks vs). k \<notin> set (busy v i)"
    and "sv_sessions v' = (sv_sessions v)[i := \<lparr>se_prog = p, se_rows = vs\<rparr>]"
  shows "side_by_side v'"
  using assms around_refl [of UNIV "sv_db v"]
  by (intro put_keeps [OF assms(1,2)]) (auto simp: side_by_side_def around_def)

lemma idle_ok: "certified (\<lambda>_ vs. vs = no_rows) p \<Longrightarrow> session_ok d \<lparr>se_prog = p, se_rows = no_rows\<rparr>"
  by (auto simp: session_ok_def)

lemma advance_keeps:
  assumes v: "side_by_side v" and i: "i < length (sv_sessions v)"
    and s: "sv_sessions v ! i = \<lparr>se_prog = p, se_rows = vs\<rparr>" and adv: "take_move m i p vs v = Some v'"
  shows "side_by_side v' \<and> step\<^sup>*\<^sup>* (sv_db v) (sv_db v')"
proof -
  from v i s obtain A where cov: "covered vs" and A: "certified A p" "A (sv_db v) vs" and good: "good (sv_db v)"
    and free: "\<forall>k \<in> set (vs_locks vs). k \<notin> set (busy v i)"
    by (force simp: side_by_side_def session_ok_def locks_of_def)
  note same = put_same_db [OF v i]
  have idle: "side_by_side w"
    if "sv_db w = sv_db v" "certified (\<lambda>_ vs. vs = no_rows) q"
      "sv_sessions w = (sv_sessions v)[i := \<lparr>se_prog = q, se_rows = no_rows\<rparr>]" for q w
    using same [OF that(1) idle_ok [OF that(2)] _ that(3)] that(1) by simp
  have crash: ?thesis if "m = Crash"
    using adv that by (cases p) (auto simp: put_def intro!: idle [OF _ certified_done])
  show ?thesis
  proof (cases p)
    case (Query ks st)
    let ?need = "ks (busy v i) (sv_sys v) (install vs (sv_db v))"
    show ?thesis
    proof (cases m)
      case Go
      obtain r s' where st: "st (busy v i) (sv_sys v) (install vs (sv_db v)) = (r, s')" by fastforce
      show ?thesis
      proof (cases r)
        case (Inl e)
        with adv Query Go st show ?thesis
          by (auto simp: Let_def put_def split: if_splits intro!: idle [OF _ certified_done])
      next
        case (Inr pd)
        obtain q d where r: "r = Inr (q, d)" using Inr by (cases pd) auto
        let ?vs = "capture (add_locks ?need (vs_locks vs)) d"
        from adv Query Go st r have need: "\<forall>k \<in> set ?need. k \<notin> set (busy v i)"
          and v': "v' = put i q ?vs (v\<lparr>sv_sys := s'\<rparr>)"
          by (auto simp: Let_def list_ex_iff split: if_splits)
        from A(1) [unfolded Query] obtain B where "certified B q" "B (sv_db v) ?vs"
          by (rule queryE) (use good A(2) st r in blast)
        then have "session_ok (sv_db v) \<lparr>se_prog = q, se_rows = ?vs\<rparr>"
          by (auto simp: session_ok_def covered_capture)
        with need free show ?thesis
          unfolding v' by (intro conjI same) (auto simp: put_def)
      qed
    qed (use adv Query crash in auto)
  next
    case (Produce e ok bad)
    from A(1) [unfolded Produce] have "certified A ok" "certified A bad" by (auto elim: produceE)
    with A(2) cov have "session_ok (sv_db v) \<lparr>se_prog = ok, se_rows = vs\<rparr>"
      "session_ok (sv_db v) \<lparr>se_prog = bad, se_rows = vs\<rparr>" by (auto simp: session_ok_def)
    with same [of _ ok vs] same [of _ bad vs] adv Produce crash free show ?thesis
      by (cases m) (auto simp: put_def)
  next
    case (Commit q)
    show ?thesis
    proof (cases m)
      case Go
      with adv Commit have v': "v' = put i q no_rows (v\<lparr>sv_db := install vs (sv_db v)\<rparr>)" by simp
      from A(1) [unfolded Commit] have step: "step\<^sup>*\<^sup>* (sv_db v) (install vs (sv_db v))"
        and q: "certified (\<lambda>_ vs. vs = no_rows) q"
        using good A(2) by (auto elim: commitE)
      have "k \<notin> set (vs_locks vs)" if "k \<in> set (busy v i)" for k using free that by auto
      then have "side_by_side v'"
        using steps_good [OF step good] idle_ok [OF q] same_row_install [OF cov] unfolding v'
        by (intro put_keeps [OF v i]) (auto simp: put_def)
      with step show ?thesis by (simp add: v' put_def)
    qed (use adv Commit crash in auto)
  next
    case (Rollback q)
    from A(1) [unfolded Rollback] have "certified (\<lambda>_ vs. vs = no_rows) q" by (auto elim: rollbackE)
    with adv Rollback crash show ?thesis
      by (cases m) (auto simp: put_def intro!: idle)
  qed (use adv in auto)
qed

lemma server_step_keeps:
  assumes "server_step v v'" and "side_by_side v"
  shows "side_by_side v' \<and> step\<^sup>*\<^sup>* (sv_db v) (sv_db v')"
  using assms(1)
proof cases
  case (moves m i)
  then have i: "i < length (sv_sessions v)" by (simp add: move_session_def split: if_splits)
  have "sv_sessions v ! i = \<lparr>se_prog = se_prog (sv_sessions v ! i), se_rows = se_rows (sv_sessions v ! i)\<rparr>" by simp
  with moves i assms(2) show ?thesis
    by (intro advance_keeps [of v i]) (auto simp: move_session_def)
next
  case (ticks t)
  with assms(2) show ?thesis
    by (simp add: side_by_side_def locks_of_def busy_def)
qed

theorem side_by_side_commits:
  assumes "server_step\<^sup>*\<^sup>* v v'" and "side_by_side v"
  shows "side_by_side v' \<and> step\<^sup>*\<^sup>* (sv_db v) (sv_db v')"
  using assms
  by (induction rule: rtranclp_induct) (auto dest: server_step_keeps intro: rtranclp_trans)

text \<open>
  No deadlock: the rows a session waits for rank above all it holds, so of the sessions that wait
  the one that waits for the highest row waits for nobody who waits.
\<close>

definition wants :: "server \<Rightarrow> nat \<Rightarrow> row_key set" where
  "wants v i = (case se_prog (sv_sessions v ! i) of
     Query ks st \<Rightarrow> set (ks (busy v i) (sv_sys v) (install (se_rows (sv_sessions v ! i)) (sv_db v)))
   | _ \<Rightarrow> {})"

lemma stuck_waits:
  assumes "i < length (sv_sessions v)" and "se_prog (sv_sessions v ! i) \<noteq> Done" and "move_session Go i v = None"
  shows "\<exists>k \<in> wants v i. k \<in> set (busy v i)"
  using assms
  by (cases "se_prog (sv_sessions v ! i)")
    (auto simp: move_session_def wants_def Let_def list_ex_iff split: if_splits prod.splits sum.splits)

lemma wants_above:
  assumes v: "side_by_side v" and i: "i < length (sv_sessions v)" and k: "k \<in> wants v i" "k \<in> set (busy v i)"
    and h: "h \<in> set (locks_of v i)"
  shows "rank (sv_db v) h < rank (sv_db v) k"
proof -
  obtain ks st where p: "se_prog (sv_sessions v ! i) = Query ks st"
    using k(1) by (auto simp: wants_def split: prog.splits)
  from v i obtain A where A: "certified A (Query ks st)" "A (sv_db v) (se_rows (sv_sessions v ! i))"
    and good: "good (sv_db v)" unfolding side_by_side_def session_ok_def p [symmetric] by blast
  have "k \<notin> set (locks_of v i)" using v i k(2) by (auto simp: side_by_side_def)
  with A(1) show ?thesis
    by (rule_tac queryE) (use good A(2) k(1) h p in \<open>auto simp: wants_def locks_of_def\<close>)
qed

theorem some_session_moves:
  assumes v: "side_by_side v" and i: "i < length (sv_sessions v)" "se_prog (sv_sessions v ! i) \<noteq> Done"
  shows "\<exists>j v'. move_session Go j v = Some v'"
proof (rule ccontr)
  assume "\<not> ?thesis"
  then have stuck: "move_session Go j v = None" for j by (simp add: not_Some_eq [symmetric] del: not_Some_eq)
  let ?W = "{k. \<exists>j < length (sv_sessions v). k \<in> wants v j \<and> k \<in> set (busy v j)}"
  have fin: "finite ?W"
  proof (rule finite_subset)
    show "?W \<subseteq> (\<Union>j < length (sv_sessions v). set (busy v j))" by auto
  qed simp
  have next_up: "\<exists>k' \<in> ?W. rank (sv_db v) k < rank (sv_db v) k'" if "k \<in> ?W" for k
  proof -
    from that obtain j0 j where j: "j < length (sv_sessions v)" "k \<in> set (locks_of v j)"
      by (auto simp: in_busy)
    have "se_prog (sv_sessions v ! j) \<noteq> Done"
    proof
      assume fin_j: "se_prog (sv_sessions v ! j) = Done"
      from v j(1) obtain A where "certified A Done" "A (sv_db v) (se_rows (sv_sessions v ! j))"
        unfolding side_by_side_def session_ok_def fin_j [symmetric] by blast
      then have "se_rows (sv_sessions v ! j) = no_rows" by (auto elim: doneE)
      with j(2) show False by (simp add: locks_of_def)
    qed
    from stuck_waits [OF j(1) this stuck] obtain k' where "k' \<in> wants v j" "k' \<in> set (busy v j)" by blast
    with wants_above [OF v j(1) this j(2)] j(1) show ?thesis by blast
  qed
  obtain k0 where "k0 \<in> ?W" using stuck_waits [OF i stuck] i(1) by blast
  then have "Max (rank (sv_db v) ` ?W) \<in> rank (sv_db v) ` ?W" using fin by (intro Max_in) auto
  then obtain k where k: "Max (rank (sv_db v) ` ?W) = rank (sv_db v) k" "k \<in> ?W" by (rule imageE)
  from next_up [OF k(2)] obtain k' where "k' \<in> ?W" "rank (sv_db v) k < rank (sv_db v) k'" by blast
  with Max_ge [of "rank (sv_db v) ` ?W" "rank (sv_db v) k'"] fin k(1) show False by auto
qed

theorem all_finish:
  assumes "side_by_side v"
  shows "\<exists>is v'. run_schedule (map (Pair Go) is) v = Some v' \<and>
    list_all (\<lambda>s. se_prog s = Done) (sv_sessions v')"
proof -
  have "wf (listrel1 {(q, p). continues q p})" by (simp add: wf_continues)
  then show ?thesis using assms
  proof (induction "map se_prog (sv_sessions v)" arbitrary: v rule: wf_induct_rule)
    case less
    show ?case
    proof (cases "list_all (\<lambda>s. se_prog s = Done) (sv_sessions v)")
      case True
      then show ?thesis by (intro exI [of _ "[]"]) simp
    next
      case False
      then obtain i where "i < length (sv_sessions v)" "se_prog (sv_sessions v ! i) \<noteq> Done"
        by (auto simp: list_all_length)
      from some_session_moves [OF less.prems this] obtain j v1 where move: "move_session Go j v = Some v1" by blast
      then have j: "j < length (sv_sessions v)"
        and adv: "take_move Go j (se_prog (sv_sessions v ! j)) (se_rows (sv_sessions v ! j)) v = Some v1"
        by (auto simp: move_session_def split: if_splits)
      have ok: "side_by_side v1" using server_step_keeps [OF server_step.moves [OF move] less.prems] by blast
      have "(map se_prog (sv_sessions v1), map se_prog (sv_sessions v)) \<in> listrel1 {(q, p). continues q p}"
        unfolding listrel1_iff_update advance_continues(2) [OF adv j]
        using advance_continues(1) [OF adv j] j
        by (intro exI [of _ "se_prog (sv_sessions v ! j)"] exI [of _ j])
          (simp add: list_update_id [of "map se_prog (sv_sessions v)" j, simplified nth_map [OF j]])
      from less.hyps [OF this ok] obtain "is" v' where "run_schedule (map (Pair Go) is) v1 = Some v'"
        "list_all (\<lambda>s. se_prog s = Done) (sv_sessions v')" by blast
      with move show ?thesis by (intro exI [of _ "j # is"]) simp
    qed
  qed
qed

lemma clients_side_by_side:
  assumes "good (sv_db v)" and "\<And>p. p \<in> set ps \<Longrightarrow> certified (\<lambda>_ vs. vs = no_rows) p"
    and "sv_sessions v = map client ps"
  shows "side_by_side v"
  using assms by (auto simp: side_by_side_def locks_of_def client_def intro!: idle_ok)

end

end
