(* ===== verification/ConcurrentRides.thy ===== *)
theory ConcurrentRides
  imports TransactionLogic Matcher Ingestor
begin

text \<open>
  The transactions of the program as lists of statements for the engine of the theory
  Transactions: the same statements, in the same order, as the handlers of TripService, Matcher and
  Ingestor, each with the rows it writes or locks. What a handler does outside its transaction
  (Redis, the counters, the reply) is not part of it. Each transaction is certified: whatever
  the others commit between its statements, its own commit is a step of \<open>BookingSpec\<close>.
\<close>

section \<open>The transactions\<close>

text \<open>The rows an \<open>UPDATE\<close> or \<open>INSERT\<close> of trips returns are the ones it locks.\<close>

definition returned_trips :: "('a list) stmt \<Rightarrow> ('a \<Rightarrow> string) \<Rightarrow> sys \<Rightarrow> db \<Rightarrow> row_key list" where
  "returned_trips st idof s d =
     (case fst (st s d) of Inl e \<Rightarrow> [] | Inr (rows, d') \<Rightarrow> map (\<lambda>r. TripKey (idof r)) rows)"

text \<open>A \<open>SELECT \<dots> FOR UPDATE\<close> of the driver locks the row when it returns one.\<close>

definition selected_driver :: "('a list) stmt \<Rightarrow> string \<Rightarrow> sys \<Rightarrow> db \<Rightarrow> row_key list" where
  "selected_driver st v s d =
     (case fst (st s d) of Inr (r # rs, d') \<Rightarrow> [DriverKey v] | _ \<Rightarrow> [])"

definition set_status :: "string \<Rightarrow> driver_status \<Rightarrow> prog \<Rightarrow> prog" where
  "set_status v st rest = query_then (\<lambda>s d. [DriverKey v]) (set_driver_status v st) (\<lambda>_. rest)"

definition record_event :: "string \<Rightarrow> string \<Rightarrow> (string \<times> json) list \<Rightarrow> (int \<Rightarrow> prog) \<Rightarrow> prog" where
  "record_event tripId eventType payload =
     query_then (\<lambda>s d. [EventKey (sys_events s)]) (insert_trip_event tripId eventType (JObj payload))"

subsection \<open>Publishing\<close>

text \<open>The outcome of one send is recorded on the event before the next is tried.\<close>

definition send_event :: "int \<Rightarrow> prog \<Rightarrow> prog" where
  "send_event eid rest = Produce eid
     (query_then (\<lambda>s d. [EventKey eid]) (mark_published eid) (\<lambda>_. rest))
     (query_then (\<lambda>s d. [EventKey eid])
        (mark_publish_failed eid (exn_text (Unavailable ''kafka''))) (\<lambda>_. rest))"

definition unlocked_pending :: "row_key list \<Rightarrow> db \<Rightarrow> trip_event_row list" where
  "unlocked_pending bs d = take 50 (sort_key te_id
     (filter (\<lambda>e. te_published_at e = None \<and> EventKey (te_id e) \<notin> set bs) (db_trip_events d)))"

fun send_rows :: "ext \<Rightarrow> trip_event_row list \<Rightarrow> prog" where
  "send_rows X [] = Commit Done"
| "send_rows X (e # es) =
     (case outboxPayload X (te_trip_id e) (te_event_type e) (te_payload e) of
        Inl err \<Rightarrow> Rollback Done
      | Inr payload \<Rightarrow> send_event (te_id e) (send_rows X es))"

definition flush_tx :: "ext \<Rightarrow> prog" where
  "flush_tx X = Query (\<lambda>bs s d. map (\<lambda>e. EventKey (te_id e)) (unlocked_pending bs d))
     (\<lambda>bs s d. (Inr (send_rows X (unlocked_pending bs d), d), s))"

text \<open>The matcher's own publication of the event it has just committed.\<close>

definition unlocked_event :: "int \<Rightarrow> row_key list \<Rightarrow> db \<Rightarrow> row_key list" where
  "unlocked_event eid bs d = map (\<lambda>e. EventKey (te_id e))
     (filter (\<lambda>e. te_id e = eid \<and> te_published_at e = None \<and> EventKey eid \<notin> set bs) (db_trip_events d))"

definition publish_tx :: "int \<Rightarrow> prog" where
  "publish_tx eid = Query (\<lambda>bs s d. unlocked_event eid bs d)
     (\<lambda>bs s d. (Inr (if unlocked_event eid bs d = [] then Commit Done
                     else send_event eid (Commit Done), d), s))"

subsection \<open>Booking\<close>

definition create_tx :: "ext \<Rightarrow> create_trip_dto \<Rightarrow> string \<Rightarrow> prog" where
  "create_tx X dto riderId =
     query_then (returned_trips (insert_trip X riderId dto) ref_id) (insert_trip X riderId dto) (\<lambda>rows.
     case rows of
       [] \<Rightarrow> Rollback Done
     | created # _ \<Rightarrow>
         record_event (ref_id created) ''requested''
           [(''rider_id'', JStr riderId), (''dto'', create_trip_json dto)] (\<lambda>_. Commit Done))"

definition match_tx :: "json option \<Rightarrow> string \<Rightarrow> prog" where
  "match_tx tripId driverId =
     query_then (selected_driver (select_vehicle driverId) driverId) (select_vehicle driverId) (\<lambda>vehicles.
     case vehicles of
       [] \<Rightarrow> Rollback Done
     | vehicleId # _ \<Rightarrow>
         query_then (returned_trips (claim_trip tripId driverId vehicleId) tr_id)
           (claim_trip tripId driverId vehicleId) (\<lambda>trips.
         case trips of
           [] \<Rightarrow> Rollback Done
         | trip # _ \<Rightarrow>
             set_status driverId OnTrip
               (record_event (tr_id trip) ''matched''
                  [(''driver_id'', JStr driverId), (''vehicle_id'', JStr vehicleId)]
                  (\<lambda>eventId. Commit (publish_tx eventId)))))"

definition cancel_tx :: "string \<Rightarrow> string \<Rightarrow> bool \<Rightarrow> prog" where
  "cancel_tx tripId actorId by_driver =
     query_then (returned_trips (cancel_trip_stmt tripId actorId by_driver) tr_id)
       (cancel_trip_stmt tripId actorId by_driver) (\<lambda>rows.
     case rows of
       [] \<Rightarrow> Commit Done
     | row # _ \<Rightarrow>
         (case tr_driver_id row of
            None \<Rightarrow> (\<lambda>rest. rest)
          | Some driverId \<Rightarrow> set_status driverId Online)
         (record_event tripId ''cancelled''
            [(''by'', JStr (if by_driver then ''driver'' else ''rider'')),
             (''status'', JStr (trip_status_text
                (if by_driver then CancelledByDriver else CancelledByRider)))]
            (\<lambda>_. Commit Done)))"

definition start_tx :: "string \<Rightarrow> string \<Rightarrow> prog" where
  "start_tx tripId driverId =
     query_then (returned_trips (start_trip_stmt tripId driverId) tr_id)
       (start_trip_stmt tripId driverId) (\<lambda>rows.
     case rows of
       [] \<Rightarrow> Commit Done
     | row # _ \<Rightarrow> record_event tripId ''started'' [(''driver_id'', JStr driverId)] (\<lambda>_. Commit Done))"

text \<open>\<open>cached\<close> is what Redis answers for the zone, \<open>None\<close> when it has no such key or fails.\<close>

definition surge_read :: "string option \<Rightarrow> string option \<Rightarrow> string option \<Rightarrow> rat" where
  "surge_read cached zoneId pgMultiplier =
     (case zoneId of
        None \<Rightarrow> 1
      | Some z \<Rightarrow>
          if z = [] then 1
          else (case surge_of_cache cached of Some n \<Rightarrow> n | None \<Rightarrow> surge_fallback pgMultiplier))"

definition complete_tx :: "ext \<Rightarrow> string option \<Rightarrow> string \<Rightarrow> string \<Rightarrow> prog" where
  "complete_tx X cached tripId driverId =
     query_then (returned_trips (complete_trip_stmt X tripId driverId) cp_id)
       (complete_trip_stmt X tripId driverId) (\<lambda>rows.
     case rows of
       [] \<Rightarrow> Rollback Done
     | fare # _ \<Rightarrow>
         let distanceKm = num_val (js_Number (cp_distance_km fare));
             durationMin = num_val (js_Number (cp_duration_min fare));
             surgeMultiplier = surge_read cached (cp_zone_id fare) (cp_zone_multiplier fare);
             fareTotal = fare_total distanceKm durationMin surgeMultiplier
         in
         query_then (\<lambda>s d. [FareKey tripId])
           (upsert_fare tripId (5 / 2) distanceKm durationMin surgeMultiplier fareTotal) (\<lambda>_.
         query_then (\<lambda>s d. [TripKey tripId]) (set_fare_total tripId fareTotal) (\<lambda>_.
         set_status driverId Online
           (record_event tripId ''completed''
              [(''driver_id'', JStr driverId), (''fare_total'', JStr (to_fixed 2 fareTotal)),
               (''distance_km'', JStr (to_fixed 3 distanceKm)),
               (''duration_min'', JStr (to_fixed 2 durationMin)),
               (''surge_multiplier'', JStr (to_fixed 2 surgeMultiplier))]
              (\<lambda>_. Commit Done)))))"

subsection \<open>A driver's position\<close>

text \<open>
  The \<open>SELECT\<close> asks two tables. A server that had to wait for the driver's row reads it again, but
  the trips as they were when the statement began: hence two steps, the second under the lock.
\<close>

definition ping_tx :: "location_body \<Rightarrow> rat \<Rightarrow> prog" where
  "ping_tx body observedAt =
     query_then (\<lambda>s d. []) (select (has_active_trip (lb_driver_id body))) (\<lambda>serving.
     query_then (selected_driver (select_driver_state (lb_driver_id body)) (lb_driver_id body))
       (select_driver_state (lb_driver_id body)) (\<lambda>rows.
     case rows of
       [] \<Rightarrow> Rollback Done
     | row # _ \<Rightarrow>
         (if fst row \<noteq> OnTrip \<and> \<not> serving then set_status (lb_driver_id body) Online else (\<lambda>rest. rest))
         (query_then (\<lambda>s d. [LocationKey (lb_driver_id body)]) (upsert_location body observedAt)
            (\<lambda>_. Commit Done))))"

end
