(* ===== verification/RideTransactions.thy ===== *)
theory RideTransactions
  imports ConcurrentRides
begin

text \<open>
  The certificates of the booking transactions. An assertion says which rows the session holds, in
  which version, and what the committed rows under them are; the committed database is
  \<open>orderly\<close>: the invariants of \<open>BookingSpec\<close>, and every driver with an active trip is \<open>on_trip\<close>.
\<close>

section \<open>The specification\<close>

definition serving_on_trip :: "db \<Rightarrow> bool" where
  "serving_on_trip d \<longleftrightarrow> (\<forall>t \<in> set (db_trips d). \<forall>r \<in> set (db_drivers d).
     active t \<longrightarrow> tr_driver_id t = Some (dr_user_id r) \<longrightarrow> dr_status r = OnTrip)"

definition orderly :: "db \<Rightarrow> bool" where
  "orderly d \<longleftrightarrow> bookings_ok d \<and> exclusive d \<and> fares_ok d \<and> serving_on_trip d"

definition orderly_step :: "db \<Rightarrow> db \<Rightarrow> bool" where
  "orderly_step d d' \<longleftrightarrow> core_step d d' \<and> (orderly d \<longrightarrow> serving_on_trip d')"

lemma orderly_step_keeps: "orderly_step d d' \<Longrightarrow> orderly d \<Longrightarrow> orderly d'"
  using bookings_ok_step [of d d'] exclusive_step [of d d'] fares_ok_step [of d d']
  by (simp add: orderly_def orderly_step_def bookings_ok_def)

text \<open>
  The rows in the order the transactions take them: a trip that is under way, its fare, its driver,
  a trip that is only requested (or new), and last the event and the position.
\<close>

definition row_rank :: "db \<Rightarrow> row_key \<Rightarrow> nat" where
  "row_rank d k =
     (case k of
        TripKey i \<Rightarrow> (case row_at tr_id (db_trips d) i of
                       Some t \<Rightarrow> if tr_status t = Requested then 4 else 1
                     | None \<Rightarrow> 4)
      | FareKey _ \<Rightarrow> 2
      | DriverKey _ \<Rightarrow> 3
      | LocationKey _ \<Rightarrow> 5
      | EventKey _ \<Rightarrow> 5)"

lemma row_rank_simps [simp]:
  "row_rank d (FareKey i) = 2" "row_rank d (DriverKey i) = 3" "row_rank d (LocationKey i) = 5"
  "row_rank d (EventKey e) = 5" "row_rank d (TripKey i) < 5"
  by (simp_all add: row_rank_def split: option.split)

lemma row_rank_trip:
  "row_at tr_id (db_trips d) i = Some t \<Longrightarrow> row_rank d (TripKey i) = (if tr_status t = Requested then 4 else 1)"
  by (simp add: row_rank_def)

interpretation rides: committing orderly orderly_step row_rank
  by unfold_locales (rule orderly_step_keeps)

lemma orderly_keys:
  "orderly d \<Longrightarrow> distinct (map tr_id (db_trips d))" "orderly d \<Longrightarrow> distinct (map dr_user_id (db_drivers d))"
  "orderly d \<Longrightarrow> distinct (map te_id (db_trip_events d))" "orderly d \<Longrightarrow> keys_ok d"
  "orderly d \<Longrightarrow> distinct (map fr_trip_id (db_fare_records d))"
  by (simp_all add: orderly_def bookings_ok_def keys_ok_def fares_ok_def)

text \<open>A step that makes drivers online or on trip only, and gives a trip only to the latter.\<close>

lemma orderly_stepI:
  assumes step: "core_step d d'"
    and drivers: "\<And>r'. orderly d \<Longrightarrow> r' \<in> set (db_drivers d') \<Longrightarrow> dr_status r' \<noteq> OnTrip \<Longrightarrow> dr_status r' \<noteq> Online \<Longrightarrow>
      r' \<in> set (db_drivers d) \<and> (\<forall>t' \<in> set (db_trips d'). active t' \<longrightarrow> tr_driver_id t' = Some (dr_user_id r') \<longrightarrow>
        (\<exists>t \<in> set (db_trips d). active t \<and> tr_driver_id t = Some (dr_user_id r')))"
  shows "orderly_step d d'"
proof -
  have "dr_status r' = OnTrip" if d: "orderly d" and t': "t' \<in> set (db_trips d')" "active t'"
    "tr_driver_id t' = Some (dr_user_id r')" and r': "r' \<in> set (db_drivers d')" for t' r'
  proof (rule ccontr)
    assume no: "dr_status r' \<noteq> OnTrip"
    have "exclusive d'" using exclusive_step [OF step] d by (simp add: orderly_def)
    then have "dr_status r' \<noteq> Online" using exclusiveD(2) t' r' by blast
    with drivers [OF d r' no] t' obtain t where "t \<in> set (db_trips d)" "active t"
      "tr_driver_id t = Some (dr_user_id r')" "r' \<in> set (db_drivers d)" by blast
    with d no show False by (auto simp: orderly_def serving_on_trip_def)
  qed
  with step show ?thesis by (auto simp: orderly_step_def serving_on_trip_def)
qed

text \<open>The same, for a step that gives no driver a trip.\<close>

lemma orderly_step_oldI:
  assumes "core_step d d'"
    and "\<And>r'. r' \<in> set (db_drivers d') \<Longrightarrow> r' \<in> set (db_drivers d) \<or> dr_status r' = Online"
    and "\<And>t'. t' \<in> set (db_trips d') \<Longrightarrow> active t' \<Longrightarrow>
      \<exists>t \<in> set (db_trips d). active t \<and> tr_driver_id t = tr_driver_id t'"
  shows "orderly_step d d'"
proof (rule orderly_stepI [OF assms(1)])
  fix r' assume "r' \<in> set (db_drivers d')" and "dr_status r' \<noteq> Online"
  with assms(2) have "r' \<in> set (db_drivers d)" by blast
  moreover have "\<exists>t \<in> set (db_trips d). active t \<and> tr_driver_id t = Some (dr_user_id r')"
    if "t' \<in> set (db_trips d')" "active t'" "tr_driver_id t' = Some (dr_user_id r')" for t'
    using assms(3) [OF that(1,2)] that(3) by simp
  ultimately show "r' \<in> set (db_drivers d) \<and> (\<forall>t' \<in> set (db_trips d'). active t' \<longrightarrow>
      tr_driver_id t' = Some (dr_user_id r') \<longrightarrow>
      (\<exists>t \<in> set (db_trips d). active t \<and> tr_driver_id t = Some (dr_user_id r')))" by blast
qed

section \<open>Certifying statements\<close>

abbreviation ride_certified :: "(db \<Rightarrow> versions \<Rightarrow> bool) \<Rightarrow> prog \<Rightarrow> bool" where
  "ride_certified \<equiv> rides.certified"

abbreviation idle_rows :: "db \<Rightarrow> versions \<Rightarrow> bool" where
  "idle_rows \<equiv> \<lambda>_ vs. vs = no_rows"

lemma stable_idle: "stable idle_rows good"
  by (simp add: stable_def)

lemma certified_query_then:
  assumes "stable A orderly"
    and above: "\<And>s d vs k h. orderly d \<Longrightarrow> A d vs \<Longrightarrow> k \<in> set (ks s (install vs d)) \<Longrightarrow> k \<notin> set (vs_locks vs) \<Longrightarrow>
      h \<in> set (vs_locks vs) \<Longrightarrow> row_rank d h < row_rank d k"
    and run: "\<And>s d vs x d' s'. orderly d \<Longrightarrow> A d vs \<Longrightarrow> st s (install vs d) = (Inr (x, d'), s') \<Longrightarrow>
      \<exists>B. ride_certified B (rest x) \<and> B d (capture (add_locks (ks s (install vs d)) (vs_locks vs)) d')"
  shows "ride_certified A (query_then ks st rest)"
  unfolding query_then_def
proof (rule rides.certified.query [OF assms(1)], rule above)
  fix bs s d vs p d' s'
  assume "orderly d" "A d vs" and "(case st s (install vs d) of (Inl e, s') \<Rightarrow> (Inl e, s')
      | (Inr (x, d'), s') \<Rightarrow> (Inr (rest x, d'), s')) = (Inr (p, d'), s')"
  then show "\<exists>B. ride_certified B p \<and> B d (capture (add_locks (ks s (install vs d)) (vs_locks vs)) d')"
    using run by (cases "st s (install vs d)") (force split: sum.splits prod.splits)
qed

lemma around_mono: "around K d d' \<Longrightarrow> L \<subseteq> K \<Longrightarrow> around L d d'"
  by (auto simp: around_def)

lemma around_rows:
  assumes "around K d d'"
  shows "TripKey i \<in> K \<Longrightarrow> row_at tr_id (db_trips d') i = row_at tr_id (db_trips d) i"
    and "DriverKey i \<in> K \<Longrightarrow> row_at dr_user_id (db_drivers d') i = row_at dr_user_id (db_drivers d) i"
    and "EventKey e \<in> K \<Longrightarrow> row_at te_id (db_trip_events d') e = row_at te_id (db_trip_events d) e"
    and "LocationKey i \<in> K \<Longrightarrow> row_at dl_driver_id (db_driver_locations d') i = row_at dl_driver_id (db_driver_locations d) i"
    and "FareKey i \<in> K \<Longrightarrow> row_at fr_trip_id (db_fare_records d') i = row_at fr_trip_id (db_fare_records d) i"
    and "db_vehicles d' = db_vehicles d" and "db_users d' = db_users d"
proof -
  have same: "same_row d d' k" if "k \<in> K" for k using assms that by (simp add: around_def)
  note same = same [unfolded same_row_def held_trip_def held_driver_def held_event_def held_location_def held_fare_def]
  show "TripKey i \<in> K \<Longrightarrow> row_at tr_id (db_trips d') i = row_at tr_id (db_trips d) i"
    and "DriverKey i \<in> K \<Longrightarrow> row_at dr_user_id (db_drivers d') i = row_at dr_user_id (db_drivers d) i"
    and "EventKey e \<in> K \<Longrightarrow> row_at te_id (db_trip_events d') e = row_at te_id (db_trip_events d) e"
    and "LocationKey i \<in> K \<Longrightarrow> row_at dl_driver_id (db_driver_locations d') i = row_at dl_driver_id (db_driver_locations d) i"
    and "FareKey i \<in> K \<Longrightarrow> row_at fr_trip_id (db_fare_records d') i = row_at fr_trip_id (db_fare_records d) i"
    by (auto dest!: same)
  show "db_vehicles d' = db_vehicles d" and "db_users d' = db_users d"
    using assms by (simp_all add: around_def)
qed

lemma stableI:
  "(\<And>d d' vs. A d vs \<Longrightarrow> orderly d \<Longrightarrow> orderly d' \<Longrightarrow> around (set (vs_locks vs)) d d' \<Longrightarrow> A d' vs) \<Longrightarrow>
     stable A orderly"
  by (auto simp: stable_def)

lemma returning_by_key:
  assumes "distinct (map key rows)" and "\<And>r. p r \<Longrightarrow> key r = k"
  shows "returning p u rows =
    (case row_at key rows k of Some r \<Rightarrow> if p r then [u r] else [] | None \<Rightarrow> [])"
  using assms(1)
proof (induction rows)
  case (Cons a rows)
  have "k \<notin> key ` set rows \<Longrightarrow> filter p rows = []" using assms(2) by (auto simp: filter_empty_conv)
  with Cons show ?case
    by (auto simp: returning_def row_at_None_iff [symmetric] dest: assms(2) split: option.splits)
qed (simp add: returning_def)

text \<open>What a session sees of the rows it holds is what it keeps.\<close>

definition settled :: "db \<Rightarrow> versions \<Rightarrow> bool" where
  "settled d vs \<longleftrightarrow> capture (vs_locks vs) (install vs d) = vs"

lemmas held_defs = held_trip_def held_driver_def held_event_def held_location_def held_fare_def

lemma capture_Cons:
  "capture (k # ks) d = (let vs = capture ks d in \<lparr>vs_locks = k # ks,
     vs_trips = (case held_trip d k of None \<Rightarrow> [] | Some t \<Rightarrow> [t]) @ vs_trips vs,
     vs_drivers = (case held_driver d k of None \<Rightarrow> [] | Some r \<Rightarrow> [r]) @ vs_drivers vs,
     vs_events = (case held_event d k of None \<Rightarrow> [] | Some e \<Rightarrow> [e]) @ vs_events vs,
     vs_locations = (case held_location d k of None \<Rightarrow> [] | Some l \<Rightarrow> [l]) @ vs_locations vs,
     vs_fares = (case held_fare d k of None \<Rightarrow> [] | Some f \<Rightarrow> [f]) @ vs_fares vs\<rparr>)"
  by (simp add: capture_def Let_def List.map_filter_simps split: option.split)

lemma capture_Nil: "capture [] d = no_rows"
  by (simp add: capture_def no_rows_def List.map_filter_simps)

lemmas capture_simps = capture_Cons capture_Nil held_defs Let_def

lemma add_locks_simps [simp]:
  "add_locks [] held = held"
  "add_locks [k] held = (if k \<in> set held then held else k # held)"
  by (simp_all add: add_locks_def)


subsection \<open>Recording the event and committing\<close>

lemma held_log_event [simp]:
  "held_trip (log_event eid now tid ty p d) = held_trip d"
  "held_driver (log_event eid now tid ty p d) = held_driver d"
  "held_location (log_event eid now tid ty p d) = held_location d"
  "held_fare (log_event eid now tid ty p d) = held_fare d"
  by (simp_all add: fun_eq_iff held_defs log_event_def split: row_key.split)

lemma settled_fields:
  assumes "settled d vs"
  shows "List.map_filter (held_trip (install vs d)) (vs_locks vs) = vs_trips vs"
    and "List.map_filter (held_driver (install vs d)) (vs_locks vs) = vs_drivers vs"
    and "List.map_filter (held_event (install vs d)) (vs_locks vs) = vs_events vs"
    and "List.map_filter (held_location (install vs d)) (vs_locks vs) = vs_locations vs"
    and "List.map_filter (held_fare (install vs d)) (vs_locks vs) = vs_fares vs"
proof -
  have eq: "f (capture (vs_locks vs) (install vs d)) = f vs" for f :: "versions \<Rightarrow> 'b"
    using assms by (simp add: settled_def)
  show "List.map_filter (held_trip (install vs d)) (vs_locks vs) = vs_trips vs"
    and "List.map_filter (held_driver (install vs d)) (vs_locks vs) = vs_drivers vs"
    and "List.map_filter (held_event (install vs d)) (vs_locks vs) = vs_events vs"
    and "List.map_filter (held_location (install vs d)) (vs_locks vs) = vs_locations vs"
    and "List.map_filter (held_fare (install vs d)) (vs_locks vs) = vs_fares vs"
    using assms by (simp_all only: settled_def capture_def versions.simps) (metis versions.select_convs)+
qed

lemma map_filter_nothing: "(\<And>k. k \<in> set ks \<Longrightarrow> f k = None) \<Longrightarrow> List.map_filter f ks = []"
  by (induction ks) (auto simp: List.map_filter_simps)

definition with_event :: "trip_event_row \<Rightarrow> versions \<Rightarrow> versions" where
  "with_event e vs = vs\<lparr>vs_locks := EventKey (te_id e) # vs_locks vs, vs_events := [e]\<rparr>"

lemma install_with_event:
  assumes "vs_events vs = []" and "row_at te_id (db_trip_events d) (te_id e) = None"
  shows "install (with_event e vs) d = (install vs d)\<lparr>db_trip_events := db_trip_events d @ [e]\<rparr>"
  using assms by (simp add: install_def with_event_def install_inserted row_at_None_iff)

lemma insert_trip_event_Inr:
  assumes "insert_trip_event tid ty (JObj p) s d = (Inr (x, d'), s')"
  shows "x = sys_events s" and "tid \<in> tr_id ` set (db_trips d)" and "fresh_event x d"
    and "d' = log_event x (sys_now s) tid ty p d"
  using assms by (auto simp: insert_trip_event_def Let_def log_event_def event_row_def fresh_event_def split: if_splits)

lemma certified_record:
  assumes A: "stable A orderly"
    and settled: "\<And>d vs. orderly d \<Longrightarrow> A d vs \<Longrightarrow> settled d vs \<and> vs_events vs = [] \<and>
      (\<forall>k \<in> set (vs_locks vs). row_rank d k < 5)"
    and step: "\<And>d vs eid now. orderly d \<Longrightarrow> A d vs \<Longrightarrow> fresh_event eid d \<Longrightarrow>
      orderly_step d (log_event eid now tid ty p (install vs d))"
    and rest: "\<And>eid. ride_certified idle_rows (rest eid)"
  shows "ride_certified A (record_event tid ty p (\<lambda>eid. Commit (rest eid)))"
  unfolding record_event_def
proof (rule certified_query_then [OF A])
  fix s d vs k h assume "orderly d" and "A d vs" and "k \<in> set [EventKey (sys_events s)]" and "h \<in> set (vs_locks vs)"
  with settled show "row_rank d h < row_rank d k" by simp
next
  fix s d vs x d' s' assume d: "orderly d" and vs: "A d vs"
    and st: "insert_trip_event tid ty (JObj p) s (install vs d) = (Inr (x, d'), s')"
  note new = insert_trip_event_Inr [OF st]
  from settled [OF d vs] have se: "settled d vs \<and> vs_events vs = [] \<and> (\<forall>e. EventKey e \<notin> set (vs_locks vs))"
    by force
  let ?e = "event_row x (sys_now s) tid ty p"
  let ?B = "\<lambda>d' vs'. \<exists>vs. A d' vs \<and> vs' = with_event ?e vs \<and> row_at te_id (db_trip_events d') x = None"
  have fresh: "row_at te_id (db_trip_events d) x = None"
    using new(3) se by (simp add: fresh_event_def row_at_None_iff)
  have "capture (EventKey x # vs_locks vs) (log_event x (sys_now s) tid ty p (install vs d)) = with_event ?e vs"
  proof -
    have none: "List.map_filter (held_event (log_event x (sys_now s) tid ty p (install vs d))) (vs_locks vs) = []"
      using se by (intro map_filter_nothing) (auto simp: held_event_def split: row_key.split)
    have "held_event (log_event x (sys_now s) tid ty p (install vs d)) (EventKey x) = Some ?e"
      using fresh se by (simp add: held_event_def row_at_append)
    moreover have "settled d vs" using se by simp
    note settled_fields [OF this]
    ultimately show ?thesis using none se
      by (intro versions.equality)
        (simp_all add: capture_def with_event_def List.map_filter_simps, simp_all add: held_defs)
  qed
  then have "?B d (capture (add_locks [EventKey (sys_events s)] (vs_locks vs)) d')"
    using vs se fresh by (auto simp: new(1) new(4))
  moreover have "ride_certified ?B (Commit (rest x))"
  proof (rule rides.certified.commit [OF _ _ rest])
    show "stable ?B orderly"
    proof (rule stableI)
      fix d d' vs' assume B: "?B d vs'" and o: "orderly d" "orderly d'" and ar: "around (set (vs_locks vs')) d d'"
      then obtain vs where vs: "A d vs" "vs' = with_event ?e vs" "row_at te_id (db_trip_events d) x = None" by blast
      have "around (set (vs_locks vs)) d d'"
        by (rule around_mono [OF ar]) (auto simp: vs(2) with_event_def)
      then have "A d' vs" using A vs(1) o by (auto simp: stable_def)
      with around_rows(3) [OF ar, of x] vs show "?B d' vs'" by (auto simp: with_event_def)
    qed
  next
    fix d vs' assume d: "orderly d" and "?B d vs'"
    then obtain vs where vs: "A d vs" "vs' = with_event ?e vs" "row_at te_id (db_trip_events d) x = None" by blast
    have "install vs' d = log_event x (sys_now s) tid ty p (install vs d)"
      using install_with_event [of vs d ?e] settled [OF d vs(1)] vs(2,3) by (simp add: log_event_def)
    moreover have "fresh_event x d" using vs(3) by (simp add: fresh_event_def row_at_None_iff)
    ultimately show "orderly_step\<^sup>*\<^sup>* d (install vs' d)" using step [OF d vs(1)] by auto
  qed
  ultimately show "\<exists>B. ride_certified B (Commit (rest x)) \<and>
      B d (capture (add_locks [EventKey (sys_events s)] (vs_locks vs)) d')" by blast
qed


section \<open>Publishing\<close>

text \<open>A version of an event in which only the record of its publication has changed.\<close>

definition sent_on :: "trip_event_row \<Rightarrow> trip_event_row \<Rightarrow> bool" where
  "sent_on e e' \<longleftrightarrow> te_id e' = te_id e \<and> te_trip_id e' = te_trip_id e \<and>
     te_event_type e' = te_event_type e \<and> te_payload e' = te_payload e \<and>
     (te_published_at e \<noteq> None \<longrightarrow> te_published_at e' \<noteq> None)"

definition holds_events :: "int set \<Rightarrow> db \<Rightarrow> versions \<Rightarrow> bool" where
  "holds_events es d vs \<longleftrightarrow> EventKey ` es \<subseteq> set (vs_locks vs) \<and> vs_trips vs = [] \<and> vs_drivers vs = [] \<and> vs_locations vs = [] \<and> vs_fares vs = [] \<and>
     distinct (vs_locks vs) \<and> set (vs_locks vs) \<subseteq> range EventKey \<and> distinct (map te_id (vs_events vs)) \<and>
     (\<forall>v \<in> set (vs_events vs). EventKey (te_id v) \<in> set (vs_locks vs) \<and>
        (\<exists>e. row_at te_id (db_trip_events d) (te_id v) = Some e \<and> sent_on e v))"

lemma stable_events: "stable (holds_events es) orderly"
  by (rule stableI) (auto simp: holds_events_def around_rows)

lemma holds_events_idle: "vs = no_rows \<Longrightarrow> holds_events {} d vs"
  by (simp add: holds_events_def)

lemma sent_on_trans: "sent_on a b \<Longrightarrow> sent_on b c \<Longrightarrow> sent_on a c"
  by (auto simp: sent_on_def)

lemma distinct_held_events:
  "distinct ks \<Longrightarrow> distinct (map te_id (List.map_filter (held_event d) ks))"
proof (induction ks)
  case (Cons k ks)
  have "te_id e \<notin> te_id ` set (List.map_filter (held_event d) ks)" if "held_event d k = Some e" for e
  proof
    assume "te_id e \<in> te_id ` set (List.map_filter (held_event d) ks)"
    then obtain k' e' where "k' \<in> set ks" "held_event d k' = Some e'" "te_id e' = te_id e"
      by (auto simp: in_map_filter)
    with held_SomeD(3) [OF that] held_SomeD(3) [of d k' e'] Cons.prems show False by simp
  qed
  with Cons show ?case by (auto simp: List.map_filter_simps split: option.split)
qed (simp add: List.map_filter_simps)

lemma events_captured:
  assumes vs: "holds_events es d vs" and new: "set ks \<subseteq> range EventKey"
    and u: "\<And>e. sent_on e (u e)"
    and d': "d' = (install vs d)\<lparr>db_trip_events := update_rows p u (db_trip_events (install vs d))\<rparr>"
  shows "holds_events (es \<union> {e. EventKey e \<in> set ks}) d (capture (add_locks ks (vs_locks vs)) d')"
proof -
  let ?ks = "add_locks ks (vs_locks vs)"
  have only: "set ?ks \<subseteq> range EventKey" and "distinct ?ks"
    using vs new by (auto simp: holds_events_def add_locks_def)
  have te: "te_id (u e) = te_id e" for e using u by (simp add: sent_on_def)
  have "EventKey (te_id v) \<in> set ?ks \<and> (\<exists>e. row_at te_id (db_trip_events d) (te_id v) = Some e \<and> sent_on e v)"
    if v: "v \<in> set (List.map_filter (held_event d') ?ks)" for v
  proof -
    from v obtain k where k: "k \<in> set ?ks" "held_event d' k = Some v" by (auto simp: in_map_filter)
    note key = held_SomeD(3) [OF k(2)]
    with k(2) have "row_at te_id (db_trip_events d') (te_id v) = Some v" by (simp add: held_event_def)
    then obtain v0 where v0: "row_at te_id (db_trip_events (install vs d)) (te_id v) = Some v0" "sent_on v0 v"
      using u by (auto simp: d' row_at_update [of te_id u, OF te] sent_on_def split: if_splits)
    have "\<exists>e. row_at te_id (db_trip_events d) (te_id v) = Some e \<and> sent_on e v0"
    proof (cases "row_at te_id (vs_events vs) (te_id v)")
      case None
      with v0(1) show ?thesis by (auto simp: row_at_install sent_on_def)
    next
      case (Some w)
      with v0(1) have "v0 = w" by (simp add: row_at_install)
      with row_at_SomeD [OF Some] vs show ?thesis by (auto simp: holds_events_def)
    qed
    with v0(2) k(1) key show ?thesis by (auto intro: sent_on_trans)
  qed
  moreover have "List.map_filter (held_trip d') ?ks = []" "List.map_filter (held_driver d') ?ks = []"
    "List.map_filter (held_location d') ?ks = []" "List.map_filter (held_fare d') ?ks = []"
    using only by (auto intro!: map_filter_nothing simp: held_defs split: row_key.split)
  ultimately show ?thesis
    using vs \<open>distinct ?ks\<close> only distinct_held_events [of ?ks d'] by (auto simp: holds_events_def capture_def)
qed

lemma install_rows_Cons:
  assumes "row_at key rows (key v) = Some e" and "key v \<notin> key ` set vs"
  shows "install_rows key (v # vs) rows = install_rows key vs (update_rows (\<lambda>r. key r = key v) (\<lambda>_. v) rows)"
proof -
  have keys: "key ` set (update_rows (\<lambda>r. key r = key v) (\<lambda>_. v) rows) = key ` set rows"
  proof -
    have "(\<lambda>r. key (if key r = key v then v else r)) = key" by auto
    then show ?thesis by (simp only: set_update_rows image_image)
  qed
  have none: "row_at key vs (key v) = None" using assms(2) by (simp add: row_at_None_iff)
  have "map (\<lambda>r. case row_at key (v # vs) (key r) of Some v \<Rightarrow> v | None \<Rightarrow> r) rows =
      map (\<lambda>r. case row_at key vs (key r) of Some v \<Rightarrow> v | None \<Rightarrow> r)
        (update_rows (\<lambda>r. key r = key v) (\<lambda>_. v) rows)"
    unfolding update_rows_def using none by simp
  moreover have "key v \<in> key ` set rows" using row_at_SomeD [OF assms(1)] by (metis imageI)
  ultimately show ?thesis unfolding install_rows_def keys by simp
qed

lemma publish_orderly_step:
  assumes "\<And>e. sent_on e (f e)"
  shows "orderly_step d (d\<lparr>db_trip_events := update_rows (\<lambda>e. te_id e = eid) f (db_trip_events d)\<rparr>)"
proof (rule orderly_stepI [OF core_step.publish_event])
qed (use assms in \<open>auto simp: sent_on_def\<close>)

lemma install_events_steps:
  assumes "distinct (map te_id (db_trip_events d))" and "distinct (map te_id vs)"
    and "\<forall>v \<in> set vs. \<exists>e. row_at te_id (db_trip_events d) (te_id v) = Some e \<and> sent_on e v"
  shows "orderly_step\<^sup>*\<^sup>* d (d\<lparr>db_trip_events := install_rows te_id vs (db_trip_events d)\<rparr>)"
  using assms
proof (induction vs arbitrary: d)
  case (Cons v vs)
  then obtain e where e: "row_at te_id (db_trip_events d) (te_id v) = Some e" "sent_on e v" by auto
  let ?f = "\<lambda>r. if r = e then v else r"
  let ?rows = "update_rows (\<lambda>r. te_id r = te_id v) ?f (db_trip_events d)"
  let ?d = "d\<lparr>db_trip_events := ?rows\<rparr>"
  have same: "r = e" if "r \<in> set (db_trip_events d)" "te_id r = te_id v" for r
    using row_at_distinct [OF Cons.prems(1) that(1)] that(2) e(1) by simp
  have f: "te_id (?f r) = te_id r" for r using e(2) by (simp add: sent_on_def)
  have rows: "?rows = update_rows (\<lambda>r. te_id r = te_id v) (\<lambda>_. v) (db_trip_events d)"
    unfolding update_rows_def using same by (intro map_cong) auto
  have "sent_on r r" for r by (simp add: sent_on_def)
  then have step: "orderly_step d ?d" using e(2) by (intro publish_orderly_step) simp
  have at: "row_at te_id ?rows (te_id w) = row_at te_id (db_trip_events d) (te_id w)" if "w \<in> set vs" for w
  proof -
    have "te_id w \<in> te_id ` set vs" using that by (rule imageI)
    then have "te_id w \<noteq> te_id v" using Cons.prems(2) by auto
    then show ?thesis
      using f by (cases "row_at te_id (db_trip_events d) (te_id w)") (auto simp: row_at_update dest: row_at_SomeD)
  qed
  have "orderly_step\<^sup>*\<^sup>* ?d (?d\<lparr>db_trip_events := install_rows te_id vs (db_trip_events ?d)\<rparr>)"
    by (rule Cons.IH) (use Cons.prems at f in \<open>simp_all add: map_update_rows [of te_id ?f]\<close>)
  moreover have "install_rows te_id (v # vs) (db_trip_events d) = install_rows te_id vs ?rows"
    unfolding rows by (rule install_rows_Cons [OF e(1)]) (use Cons.prems(2) in simp)
  ultimately show ?case using step by (simp add: converse_rtranclp_into_rtranclp)
qed simp

lemma certified_commit_events: "ride_certified (holds_events es) (Commit Done)"
proof (rule rides.certified.commit [OF stable_events _ rides.certified_done])
  fix d vs assume d: "orderly d" and vs: "holds_events es d vs"
  have "install vs d = d\<lparr>db_trip_events := install_rows te_id (vs_events vs) (db_trip_events d)\<rparr>"
    using vs by (intro db.equality) (simp_all add: holds_events_def)
  moreover have "orderly_step\<^sup>*\<^sup>* d (d\<lparr>db_trip_events := install_rows te_id (vs_events vs) (db_trip_events d)\<rparr>)"
    using vs by (intro install_events_steps orderly_keys [OF d]) (auto simp: holds_events_def)
  ultimately show "orderly_step\<^sup>*\<^sup>* d (install vs d)" by simp
qed

lemma certified_mark:
  assumes "eid \<in> es" and "ride_certified (holds_events es) rest" and "\<And>now e. sent_on e (u now e)"
  shows "ride_certified (holds_events es) (query_then (\<lambda>s d. [EventKey eid]) (update_events eid u) (\<lambda>_. rest))"
proof (rule certified_query_then [OF stable_events])
  fix s d vs k h assume "holds_events es d vs" and "k \<in> set [EventKey eid]" and "k \<notin> set (vs_locks vs)"
  with assms(1) show "row_rank d h < row_rank d k" by (auto simp: holds_events_def)
next
  fix s d vs x d' s' assume "holds_events es d vs" and "update_events eid u s (install vs d) = (Inr (x, d'), s')"
  then have "holds_events (es \<union> {e. EventKey e \<in> set [EventKey eid]}) d
      (capture (add_locks [EventKey eid] (vs_locks vs)) d')"
    using assms(3) by (intro events_captured [where u = "u (sys_now s)"]) (auto simp: update_events_def)
  moreover have "es \<union> {e. EventKey e \<in> set [EventKey eid]} = es" using assms(1) by auto
  ultimately show "\<exists>B. ride_certified B rest \<and> B d (capture (add_locks [EventKey eid] (vs_locks vs)) d')"
    using assms(2) by metis
qed

lemma certified_send:
  assumes "eid \<in> es" and "ride_certified (holds_events es) rest"
  shows "ride_certified (holds_events es) (send_event eid rest)"
  unfolding send_event_def mark_published_def mark_publish_failed_def
  by (intro rides.certified.produce stable_events certified_mark assms) (simp_all add: sent_on_def)

lemma certified_send_rows: "te_id ` set rows \<subseteq> es \<Longrightarrow> ride_certified (holds_events es) (send_rows X rows)"
proof (induction rows)
  case (Cons e rows)
  have "ride_certified (holds_events es) (Rollback Done)"
    by (rule rides.certified.rollback [OF stable_events rides.certified_done])
  with Cons certified_send show ?case by (auto split: sum.split)
qed (simp add: certified_commit_events)

lemma certified_pick_events:
  assumes "\<And>bs s d p d' s'. st bs s d = (Inr (p, d'), s') \<Longrightarrow>
      d' = d \<and> ride_certified (holds_events {e. EventKey e \<in> set (ks bs s d)}) p"
    and "\<And>bs s d. set (ks bs s d) \<subseteq> range EventKey"
  shows "ride_certified idle_rows (Query ks st)"
proof (rule rides.certified.query [OF stable_idle])
  fix bs s d vs p d' s' assume vs: "vs = no_rows" and "st bs s (install vs d) = (Inr (p, d'), s')"
  with assms(1) have p: "d' = d" "ride_certified (holds_events {e. EventKey e \<in> set (ks bs s d)}) p"
    by (metis no_rows_simps(7))+
  have "update_rows (\<lambda>_. False) (\<lambda>e. e) rows = rows" for rows :: "trip_event_row list"
    by (simp add: update_rows_def)
  then have "holds_events ({} \<union> {e. EventKey e \<in> set (ks bs s (install vs d))}) d
      (capture (add_locks (ks bs s (install vs d)) (vs_locks vs)) d')"
    using holds_events_idle [OF vs] assms(2) p(1) vs
    by (intro events_captured [where u = "\<lambda>e. e" and p = "\<lambda>_. False"]) (auto simp: sent_on_def)
  with p(2) vs show "\<exists>B. ride_certified B p \<and> B d (capture (add_locks (ks bs s (install vs d)) (vs_locks vs)) d')" by auto
qed simp

lemma certified_flush: "ride_certified idle_rows (flush_tx X)"
  unfolding flush_tx_def by (rule certified_pick_events) (auto intro: certified_send_rows)

lemma certified_publish: "ride_certified idle_rows (publish_tx eid)"
  unfolding publish_tx_def
  by (rule certified_pick_events)
    (auto simp: unlocked_event_def filter_empty_conv image_iff intro!: certified_send certified_commit_events
      split: if_splits)

section \<open>Matching\<close>

definition free_driver_row :: "string \<Rightarrow> string \<Rightarrow> db \<Rightarrow> driver_row \<Rightarrow> bool" where
  "free_driver_row v vid d r \<longleftrightarrow> row_at dr_user_id (db_drivers d) v = Some r \<and> dr_status r = Online \<and>
     (\<exists>ve \<in> set (db_vehicles d). ve_driver_id ve = v \<and> ve_is_active ve \<and> ve_id ve = vid)"

definition matched_row :: "string \<Rightarrow> string \<Rightarrow> rat \<Rightarrow> trip_row \<Rightarrow> trip_row" where
  "matched_row v vid now t = t\<lparr>tr_driver_id := Some v, tr_vehicle_id := Some vid,
     tr_status := Matched, tr_matched_at := Some now\<rparr>"

lemma matched_row_id [simp]: "tr_id (matched_row v vid now t) = tr_id t"
  by (simp add: matched_row_def)

definition holds_driver :: "string \<Rightarrow> string \<Rightarrow> db \<Rightarrow> versions \<Rightarrow> bool" where
  "holds_driver v vid d vs \<longleftrightarrow>
     (\<exists>r. free_driver_row v vid d r \<and> vs = no_rows\<lparr>vs_locks := [DriverKey v], vs_drivers := [r]\<rparr>)"

definition holds_match :: "bool \<Rightarrow> string \<Rightarrow> string \<Rightarrow> string \<Rightarrow> db \<Rightarrow> versions \<Rightarrow> bool" where
  "holds_match on_trip tid v vid d vs \<longleftrightarrow>
     (\<exists>r t since. free_driver_row v vid d r \<and> row_at tr_id (db_trips d) tid = Some t \<and> tr_status t = Requested \<and>
        vs = no_rows\<lparr>vs_locks := [TripKey tid, DriverKey v], vs_trips := [matched_row v vid since t],
                    vs_drivers := [if on_trip then r\<lparr>dr_status := OnTrip\<rparr> else r]\<rparr>)"

lemma free_driver_row_around:
  "free_driver_row v vid d r \<Longrightarrow> around K d d' \<Longrightarrow> DriverKey v \<in> K \<Longrightarrow> free_driver_row v vid d' r"
  by (simp add: free_driver_row_def around_rows)

lemma stable_match: "stable (holds_driver v vid) orderly" "stable (holds_match b tid v vid) orderly"
  by (rule stableI; unfold holds_driver_def holds_match_def; elim exE conjE;
      force simp: around_rows intro: free_driver_row_around)+

lemma settled_match:
  assumes "holds_match b tid v vid d vs"
  shows "settled d vs \<and> vs_events vs = [] \<and> (\<forall>k \<in> set (vs_locks vs). row_rank d k < 5)"
  using assms
  by (auto simp: holds_match_def settled_def capture_simps row_at_install free_driver_row_def no_rows_def
      dest!: row_at_SomeD)

lemma select_vehicle_Inr:
  assumes "select_vehicle v s d = (Inr (vid # vids, d'), s')" and "orderly d"
  shows "d' = d \<and> (\<exists>r. free_driver_row v vid d r)"
proof -
  let ?rows = "concat (map (\<lambda>r. map ve_id (filter (\<lambda>v. ve_driver_id v = dr_user_id r \<and> ve_is_active v)
          (db_vehicles d))) (filter (\<lambda>r. dr_user_id r = v \<and> dr_status r = Online) (db_drivers d)))"
  from assms(1) have d': "d' = d" and "take 1 ?rows = vid # vids" by (auto simp: select_vehicle_def select_def)
  then have "vid \<in> set ?rows" by (cases ?rows) auto
  then obtain r ve where "r \<in> set (db_drivers d)" "dr_user_id r = v" "dr_status r = Online"
    "ve \<in> set (db_vehicles d)" "ve_driver_id ve = v" "ve_is_active ve" "ve_id ve = vid"
    by (auto split: if_splits)
  with d' row_at_distinct [OF orderly_keys(2) [OF assms(2)], of r] show ?thesis
    by (auto simp: free_driver_row_def)
qed


lemma claim_trip_Inr:
  assumes "claim_trip tripId v vid s d = (Inr (rows, d'), s')" and "orderly d"
  obtains (none) "rows = []" "db_drivers d' = db_drivers d" | (one) t where "rows = [matched_row v vid (sys_now s) t]"
    and "row_at tr_id (db_trips d) (tr_id t) = Some t" and "tr_status t = Requested"
    and "d' = with_trips (\<lambda>s. tr_id s = tr_id t \<and> tr_status s = Requested) (matched_row v vid (sys_now s)) d"
proof -
  obtain p where p: "uuid_param tripId = Inr p"
    "rows = returning (\<lambda>t. Some (tr_id t) = p \<and> tr_status t = Requested) (matched_row v vid (sys_now s)) (db_trips d)"
    "d' = with_trips (\<lambda>t. Some (tr_id t) = p \<and> tr_status t = Requested) (matched_row v vid (sys_now s)) d"
    using assms(1) by (auto simp: claim_trip_def by_uuid_def update_trips_eq matched_row_def [abs_def] split: sum.splits)
  show thesis
  proof (cases p)
    case None
    with p show ?thesis by (intro none) (simp_all add: returning_def)
  next
    case (Some tid)
    have q: "(\<lambda>t. Some (tr_id t) = p \<and> tr_status t = Requested) = (\<lambda>t. tr_id t = tid \<and> tr_status t = Requested)"
      by (simp add: Some)
    note p = p(2,3) [unfolded q]
    have rows: "rows = (case row_at tr_id (db_trips d) tid of None \<Rightarrow> [] | Some t \<Rightarrow>
        if tr_id t = tid \<and> tr_status t = Requested then [matched_row v vid (sys_now s) t] else [])"
      unfolding p by (rule returning_by_key [OF orderly_keys(1) [OF assms(2)]]) simp
    show ?thesis
    proof (cases "row_at tr_id (db_trips d) tid")
      case (Some t)
      with row_at_SomeD [OF Some] rows p none one show ?thesis by (auto split: if_splits)
    qed (use rows p none in simp)
  qed
qed

lemma install_match:
  assumes "orderly d" and "row_at tr_id (db_trips d) tid = Some t" and "tr_status t = Requested"
    and "row_at dr_user_id (db_drivers d) v = Some r"
  shows "install (no_rows\<lparr>vs_locks := ks, vs_trips := [matched_row v vid since t],
      vs_drivers := [r\<lparr>dr_status := OnTrip\<rparr>]\<rparr>) d =
    with_driver_status v OnTrip (with_trips (\<lambda>t. tr_id t = tid \<and> tr_status t = Requested) (matched_row v vid since) d)"
proof -
  note r = row_at_SomeD [OF assms(4)] and t = row_at_SomeD [OF assms(2)]
  have "install_rows tr_id [matched_row v vid since t] (db_trips d) =
      update_rows (\<lambda>t. tr_id t = tid \<and> tr_status t = Requested) (matched_row v vid since) (db_trips d)"
    using assms t by (intro install_written orderly_keys) auto
  moreover have "install_rows dr_user_id [r\<lparr>dr_status := OnTrip\<rparr>] (db_drivers d) =
      update_rows (\<lambda>r. dr_user_id r = v) (\<lambda>r. r\<lparr>dr_status := OnTrip\<rparr>) (db_drivers d)"
    using assms r by (intro install_written [where u = "\<lambda>r. r\<lparr>dr_status := OnTrip\<rparr>"] orderly_keys) auto
  ultimately show ?thesis
    by (intro db.equality) (simp_all add: with_driver_status_def with_trips_def)
qed

lemma install_claim:
  assumes "orderly d" and "row_at tr_id (db_trips d) tid = Some t" and "tr_status t = Requested"
    and "row_at dr_user_id (db_drivers d) v = Some r"
  shows "install (no_rows\<lparr>vs_locks := ks, vs_trips := [matched_row v vid since t], vs_drivers := [r]\<rparr>) d =
    with_trips (\<lambda>t. tr_id t = tid \<and> tr_status t = Requested) (matched_row v vid since) d"
proof -
  have "install_rows tr_id [matched_row v vid since t] (db_trips d) =
      update_rows (\<lambda>t. tr_id t = tid \<and> tr_status t = Requested) (matched_row v vid since) (db_trips d)"
    using assms row_at_SomeD [OF assms(2)] by (intro install_written orderly_keys) auto
  with install_same [OF orderly_keys(2) [OF assms(1)] assms(4)] show ?thesis
    by (intro db.equality) (simp_all add: with_trips_def)
qed

lemma match_commits:
  assumes d: "orderly d" and vs: "holds_match True tid v vid d vs" and "fresh_event eid d"
  shows "orderly_step d (log_event eid now tid ''matched'' payload (install vs d))"
proof -
  from vs obtain r t since ve where r: "row_at dr_user_id (db_drivers d) v = Some r" "dr_status r = Online"
    and ve: "ve \<in> set (db_vehicles d)" "ve_driver_id ve = v" "ve_is_active ve" "vid = ve_id ve"
    and t: "row_at tr_id (db_trips d) tid = Some t" "tr_status t = Requested"
    and vs: "vs = no_rows\<lparr>vs_locks := [TripKey tid, DriverKey v], vs_trips := [matched_row v vid since t],
                    vs_drivers := [r\<lparr>dr_status := OnTrip\<rparr>]\<rparr>"
    by (auto simp: holds_match_def free_driver_row_def)
  note d' = install_match [OF d t r(1), where ks = "[TripKey tid, DriverKey v]", of vid since, folded vs]
  have "core_step d (log_event eid now tid ''matched'' payload (install vs d))"
    unfolding d' ve(4) matched_row_def [abs_def]
    by (rule core_step.match_trip [of r _ v _ t])
      (use row_at_SomeD [OF r(1)] row_at_SomeD [OF t(1)] r(2) t(2) ve assms(3) in simp_all)
  then show ?thesis
  proof (rule orderly_stepI)
    fix r' assume "r' \<in> set (db_drivers (log_event eid now tid ''matched'' payload (install vs d)))"
      and not: "dr_status r' \<noteq> OnTrip" "dr_status r' \<noteq> Online"
    then obtain r0 where "r0 \<in> set (db_drivers d)"
      "r' = (if dr_user_id r0 = v then r0\<lparr>dr_status := OnTrip\<rparr> else r0)"
      unfolding d' by (auto simp only: step_tables with_driver_status_drivers dest!: in_update_rowsD)
    with not have r': "r' \<in> set (db_drivers d)" "dr_user_id r' \<noteq> v" by (auto split: if_splits)
    have "\<exists>t \<in> set (db_trips d). active t \<and> tr_driver_id t = Some (dr_user_id r')"
      if "t' \<in> set (db_trips (log_event eid now tid ''matched'' payload (install vs d)))"
        "active t'" "tr_driver_id t' = Some (dr_user_id r')" for t'
    proof -
      from that(1) obtain t0 where "t0 \<in> set (db_trips d)"
        "t' = (if tr_id t0 = tid \<and> tr_status t0 = Requested then matched_row v vid since t0 else t0)"
        unfolding d' by (auto simp only: step_tables dest!: in_update_rowsD)
      with that(2,3) r'(2) show ?thesis by (auto simp: matched_row_def split: if_splits)
    qed
    with r'(1) show "r' \<in> set (db_drivers d) \<and> (\<forall>t' \<in> set (db_trips (log_event eid now tid ''matched'' payload (install vs d))).
        active t' \<longrightarrow> tr_driver_id t' = Some (dr_user_id r') \<longrightarrow>
        (\<exists>t \<in> set (db_trips d). active t \<and> tr_driver_id t = Some (dr_user_id r')))" by blast
  qed
qed


lemma certified_rollback: "stable A orderly \<Longrightarrow> ride_certified A (Rollback Done)"
  by (rule rides.certified.rollback [OF _ rides.certified_done])

lemma certified_book:
  assumes "tid = tr_id trip"
  shows "ride_certified (holds_match False tid v vid) (set_status v OnTrip (record_event (tr_id trip) ''matched''
     [(''driver_id'', JStr v), (''vehicle_id'', JStr vid)] (\<lambda>eventId. Commit (publish_tx eventId))))"
  unfolding set_status_def
proof (rule certified_query_then [OF stable_match(2)])
  let ?rest = "record_event (tr_id trip) ''matched'' [(''driver_id'', JStr v), (''vehicle_id'', JStr vid)]
     (\<lambda>eventId. Commit (publish_tx eventId))"
  fix s d vs x d' s' assume "orderly d" and vs: "holds_match False tid v vid d vs"
    and st: "set_driver_status v OnTrip s (install vs d) = (Inr (x, d'), s')"
  from vs obtain r t since where r: "free_driver_row v vid d r" and t: "row_at tr_id (db_trips d) tid = Some t"
    "tr_status t = Requested" and vs': "vs = no_rows\<lparr>vs_locks := [TripKey tid, DriverKey v],
      vs_trips := [matched_row v vid since t], vs_drivers := [r]\<rparr>" by (auto simp: holds_match_def)
  have d': "d' = with_driver_status v OnTrip (install vs d)" using st by (simp add: set_driver_status_eq)
  note key = row_at_SomeD [OF t(1)] row_at_SomeD [OF r [unfolded free_driver_row_def, THEN conjunct1]]
  have "row_at tr_id (db_trips d') tid = Some (matched_row v vid since t)"
    using key by (simp add: d' vs' row_at_install)
  moreover have "row_at dr_user_id (db_drivers d') v = Some (r\<lparr>dr_status := OnTrip\<rparr>)"
    using key by (simp add: d' vs' with_driver_status_drivers row_at_update row_at_install)
  ultimately have "capture [TripKey tid, DriverKey v] d' = no_rows\<lparr>vs_locks := [TripKey tid, DriverKey v],
      vs_trips := [matched_row v vid since t], vs_drivers := [r\<lparr>dr_status := OnTrip\<rparr>]\<rparr>"
    by (simp add: capture_simps no_rows_def)
  with r t have "holds_match True tid v vid d (capture (add_locks [DriverKey v] (vs_locks vs)) d')"
    by (auto simp: holds_match_def vs')
  moreover have "ride_certified (holds_match True tid v vid) ?rest"
    unfolding assms by (rule certified_record [OF stable_match(2) settled_match match_commits certified_publish])
  ultimately show "\<exists>B. ride_certified B ?rest \<and> B d (capture (add_locks [DriverKey v] (vs_locks vs)) d')" by blast
qed (auto simp: holds_match_def)

lemma holds_driver_sees: "orderly d \<Longrightarrow> holds_driver v vid d vs \<Longrightarrow> install vs d = d"
  using install_same [OF orderly_keys(2), of d v]
  by (auto simp: holds_driver_def free_driver_row_def intro!: db.equality)

lemma certified_claim:
  "ride_certified (holds_driver v vid)
     (query_then (returned_trips (claim_trip tripId v vid) tr_id) (claim_trip tripId v vid) (\<lambda>trips.
      case trips of [] \<Rightarrow> Rollback Done
      | trip # _ \<Rightarrow> set_status v OnTrip (record_event (tr_id trip) ''matched''
           [(''driver_id'', JStr v), (''vehicle_id'', JStr vid)] (\<lambda>eventId. Commit (publish_tx eventId)))))"
  (is "ride_certified _ (query_then _ ?st ?rest)")
proof (rule certified_query_then [OF stable_match(1)])
  fix s d vs k h assume d: "orderly d" and vs: "holds_driver v vid d vs"
    and k: "k \<in> set (returned_trips ?st tr_id s (install vs d))" and h: "h \<in> set (vs_locks vs)"
  have "row_rank d h = 3" using vs h by (auto simp: holds_driver_def)
  moreover have "row_rank d k = 4"
  proof (cases "fst (?st s d)")
    case (Inl e)
    with k holds_driver_sees [OF d vs] show ?thesis by (simp add: returned_trips_def)
  next
    case (Inr r)
    then obtain rows d' s' where st: "?st s d = (Inr (rows, d'), s')" by (cases r; cases "?st s d") auto
    with k holds_driver_sees [OF d vs] have "k \<in> (\<lambda>t. TripKey (tr_id t)) ` set rows" by (simp add: returned_trips_def)
    then show ?thesis
      by (rule_tac claim_trip_Inr [OF st d]) (auto simp: row_rank_trip)
  qed
  ultimately show "row_rank d h < row_rank d k" by simp
next
  fix s d vs x d' s' assume d: "orderly d" and vs: "holds_driver v vid d vs"
    and st: "?st s (install vs d) = (Inr (x, d'), s')"
  from vs obtain r where r: "free_driver_row v vid d r"
    and vs': "vs = no_rows\<lparr>vs_locks := [DriverKey v], vs_drivers := [r]\<rparr>" by (auto simp: holds_driver_def)
  note same = holds_driver_sees [OF d vs]
  have locks: "returned_trips ?st tr_id s (install vs d) = map (\<lambda>t. TripKey (tr_id t)) x"
    by (simp add: returned_trips_def st)
  from st [unfolded same] d show "\<exists>B. ride_certified B (?rest x) \<and>
      B d (capture (add_locks (returned_trips ?st tr_id s (install vs d)) (vs_locks vs)) d')"
  proof (cases rule: claim_trip_Inr)
    case none
    then have "holds_driver v vid d (capture (add_locks (returned_trips ?st tr_id s (install vs d)) (vs_locks vs)) d')"
      unfolding locks using r by (simp add: vs' holds_driver_def capture_simps free_driver_row_def no_rows_def)
    with none show ?thesis using certified_rollback [OF stable_match(1)] by auto
  next
    case (one t)
    let ?t = "matched_row v vid (sys_now s) t"
    have "row_at tr_id (db_trips d') (tr_id t) = Some ?t"
      using one by (simp add: row_at_update)
    moreover have "row_at dr_user_id (db_drivers d') v = Some r"
      using one r by (simp add: free_driver_row_def)
    ultimately have "capture [TripKey (tr_id t), DriverKey v] d' = no_rows\<lparr>vs_locks := [TripKey (tr_id t), DriverKey v],
        vs_trips := [?t], vs_drivers := [r]\<rparr>"
      by (simp add: capture_simps no_rows_def)
    with r one have "holds_match False (tr_id t) v vid d
        (capture (add_locks (returned_trips ?st tr_id s (install vs d)) (vs_locks vs)) d')"
      unfolding locks by (auto simp: holds_match_def vs')
    moreover have "ride_certified (holds_match False (tr_id t) v vid) (?rest x)"
      using certified_book [of "tr_id t" ?t v vid] by (simp add: one(1))
    ultimately show ?thesis by blast
  qed
qed

lemma certified_match: "ride_certified idle_rows (match_tx tripId v)"
  unfolding match_tx_def
proof (rule certified_query_then [OF stable_idle])
  let ?st = "select_vehicle v"
  fix s d vs x d' s' assume d: "orderly d" and vs: "vs = no_rows"
    and st: "?st s (install vs d) = (Inr (x, d'), s')"
  show "\<exists>B. ride_certified B (case x of [] \<Rightarrow> Rollback Done
      | vehicleId # _ \<Rightarrow>
          query_then (returned_trips (claim_trip tripId v vehicleId) tr_id) (claim_trip tripId v vehicleId) (\<lambda>trips.
          case trips of [] \<Rightarrow> Rollback Done
          | trip # _ \<Rightarrow> set_status v OnTrip (record_event (tr_id trip) ''matched''
              [(''driver_id'', JStr v), (''vehicle_id'', JStr vehicleId)] (\<lambda>eventId. Commit (publish_tx eventId))))) \<and>
      B d (capture (add_locks (selected_driver ?st v s (install vs d)) (vs_locks vs)) d')"
  proof (cases x)
    case Nil
    with st vs have "selected_driver ?st v s (install vs d) = []" by (simp add: selected_driver_def)
    then show ?thesis using Nil vs certified_rollback [OF stable_idle] by (auto simp: capture_Nil)
  next
    case (Cons vid vids)
    from select_vehicle_Inr [OF st [unfolded Cons vs no_rows_simps] d]
    obtain r where r: "d' = d" "free_driver_row v vid d r" by blast
    have "selected_driver ?st v s (install vs d) = [DriverKey v]"
      using st Cons by (simp add: selected_driver_def)
    with r vs have "holds_driver v vid d (capture (add_locks (selected_driver ?st v s (install vs d)) (vs_locks vs)) d')"
      by (auto simp: holds_driver_def capture_simps free_driver_row_def no_rows_def)
    with certified_claim [of v vid tripId] Cons show ?thesis by auto
  qed
qed simp

end
