(* ===== verification/TripTransactions.thy ===== *)
theory TripTransactions
  imports RideTransactions
begin

text \<open>
  The certificates of the trip service's transactions and of the driver's position: requesting,
  cancelling, starting and completing a trip, and the ping. Together with those of the matcher and
  of the outbox they cover every transaction of the theory ConcurrentRides.
\<close>

section \<open>A trip held in a new version\<close>

text \<open>
  The session holds the trip \<open>t\<close> as \<open>n\<close>, perhaps a new fare record, and perhaps the row of a driver
  it has set online.
\<close>

definition holds_booking ::
    "trip_row \<Rightarrow> trip_row \<Rightarrow> fare_record_row list \<Rightarrow> string option \<Rightarrow> db \<Rightarrow> versions \<Rightarrow> bool" where
  "holds_booking t n fares freed d vs \<longleftrightarrow> row_at tr_id (db_trips d) (tr_id t) = Some t \<and>
     (case freed of
        None \<Rightarrow> vs = no_rows\<lparr>vs_locks := map (FareKey \<circ> fr_trip_id) fares @ [TripKey (tr_id t)],
                  vs_trips := [n], vs_fares := fares\<rparr>
      | Some v \<Rightarrow> (\<exists>r. row_at dr_user_id (db_drivers d) v = Some r \<and>
          vs = no_rows\<lparr>vs_locks := DriverKey v # map (FareKey \<circ> fr_trip_id) fares @ [TripKey (tr_id t)],
                 vs_trips := [n], vs_drivers := [r\<lparr>dr_status := Online\<rparr>], vs_fares := fares\<rparr>))"

lemma stable_booking: "stable (holds_booking t n fares freed) orderly"
  by (rule stableI) (auto simp: holds_booking_def around_rows split: option.splits)

lemma settled_booking:
  assumes "holds_booking t n fares freed d vs" and "tr_id n = tr_id t" and "length fares \<le> 1"
  shows "settled d vs \<and> vs_events vs = [] \<and> (\<forall>k \<in> set (vs_locks vs). row_rank d k < 5)"
proof -
  from assms(3) consider "fares = []" | f where "fares = [f]" by (cases fares) auto
  then show ?thesis
    using assms(1,2)
    by cases (auto simp: holds_booking_def settled_def capture_simps row_at_install no_rows_def
        dest!: row_at_SomeD split: option.splits)
qed

lemma update_one:
  assumes "distinct (map key rows)" and "row_at key rows k = Some r" and "p r" and "\<And>x. p x \<Longrightarrow> key x = k"
  shows "update_rows p u rows = update_rows (\<lambda>x. key x = k) (\<lambda>_. u r) rows"
proof -
  have "x = r" if "x \<in> set rows" "key x = k" for x
    using row_at_distinct [OF assms(1) that(1)] assms(2) that(2) by simp
  then show ?thesis
    unfolding update_rows_def using assms(3,4) by (intro map_cong) auto
qed

lemma install_one:
  assumes "distinct (map key rows)" and "row_at key rows k = Some r" and "key n = k"
  shows "install_rows key [n] rows = update_rows (\<lambda>x. key x = k) (\<lambda>_. n) rows"
proof -
  have "install_rows key [n] rows = install_rows key [] (update_rows (\<lambda>r. key r = key n) (\<lambda>_. n) rows)"
    using assms by (intro install_rows_Cons) simp_all
  then show ?thesis by (simp add: assms(3))
qed

text \<open>The first statement: an update of the trip by its id, whatever it returns of it.\<close>

lemma certified_trip_update:
  assumes st: "\<And>s d. st s d = (Inr (map (g s d) (returning p (u (sys_now s)) (db_trips d)), with_trips p (u (sys_now s)) d), s)"
    and g: "\<And>s d t. idof (g s d t) = tr_id t" and p: "\<And>t. p t \<Longrightarrow> tr_id t = tid"
    and u: "\<And>now t. tr_id (u now t) = tr_id t"
    and none: "ride_certified idle_rows (rest [])"
    and one: "\<And>t now s d. p t \<Longrightarrow> tr_status t = Requested \<longrightarrow> tr_driver_id t = None \<Longrightarrow>
      ride_certified (holds_booking t (u now t) [] None) (rest [g s d (u now t)])"
  shows "ride_certified idle_rows (query_then (returned_trips st idof) st rest)"
proof (rule certified_query_then [OF stable_idle])
  fix s d vs x d' s' assume d: "orderly d" and vs: "vs = no_rows"
    and run: "st s (install vs d) = (Inr (x, d'), s')"
  let ?rows = "returning p (u (sys_now s)) (db_trips d)"
  have x: "x = map (g s d) ?rows" and d': "d' = with_trips p (u (sys_now s)) d"
    using run by (auto simp: vs st)
  have locks: "returned_trips st idof s (install vs d) = map (\<lambda>t. TripKey (tr_id t)) ?rows"
    by (simp add: returned_trips_def st vs g)
  have rows: "?rows = (case row_at tr_id (db_trips d) tid of None \<Rightarrow> []
      | Some t \<Rightarrow> if p t then [u (sys_now s) t] else [])"
    by (rule returning_by_key [OF orderly_keys(1) [OF d] p])
  show "\<exists>B. ride_certified B (rest x) \<and>
      B d (capture (add_locks (returned_trips st idof s (install vs d)) (vs_locks vs)) d')"
  proof (cases "\<exists>t. row_at tr_id (db_trips d) tid = Some t \<and> p t")
    case True
    then obtain t where t: "row_at tr_id (db_trips d) tid = Some t" "p t" by blast
    with rows have rows: "?rows = [u (sys_now s) t]" by simp
    have id: "tr_id t = tid" using p t(2) by simp
    have "row_at tr_id (db_trips d') tid = Some (u (sys_now s) t)"
      using t by (simp add: d' row_at_update u)
    then have "holds_booking t (u (sys_now s) t) [] None d (capture [TripKey tid] d')"
      using t id by (simp add: holds_booking_def capture_simps no_rows_def)
    moreover have "tr_status t = Requested \<longrightarrow> tr_driver_id t = None"
      using row_at_SomeD [OF t(1)] d by (auto simp: orderly_def bookings_ok_def trip_ok_def)
    ultimately show ?thesis
      unfolding locks rows x using one [OF t(2), of "sys_now s" s d] by (auto simp: u id vs)
  next
    case False
    then have rows: "?rows = []" unfolding rows by (auto split: option.split)
    show ?thesis unfolding locks rows x using none vs by (auto simp: capture_Nil)
  qed
qed simp

text \<open>The driver of the trip is set online.\<close>

lemma certified_free:
  assumes t: "active t" "tr_driver_id t = Some v" and n: "tr_id n = tr_id t" and f: "length fares \<le> 1"
    and rest: "ride_certified (holds_booking t n fares (Some v)) rest"
  shows "ride_certified (holds_booking t n fares None) (set_status v Online rest)"
  unfolding set_status_def
proof (rule certified_query_then [OF stable_booking])
  fix s d vs x d' s' assume d: "orderly d" and vs: "holds_booking t n fares None d vs"
    and st: "set_driver_status v Online s (install vs d) = (Inr (x, d'), s')"
  have d': "d' = with_driver_status v Online (install vs d)" using st by (simp add: set_driver_status_eq)
  from vs have at: "row_at tr_id (db_trips d) (tr_id t) = Some t"
    and vs': "vs = no_rows\<lparr>vs_locks := map (FareKey \<circ> fr_trip_id) fares @ [TripKey (tr_id t)],
                  vs_trips := [n], vs_fares := fares\<rparr>" by (simp_all add: holds_booking_def)
  have "trip_ok d t" using row_at_SomeD [OF at] d by (auto simp: orderly_def bookings_ok_def)
  then have "v \<in> dr_user_id ` set (db_drivers d)"
    using t by (auto simp: trip_ok_def active_def driver_ids_def)
  then obtain r where r: "row_at dr_user_id (db_drivers d) v = Some r"
    using row_at_None_iff [of dr_user_id "db_drivers d" v] by (cases "row_at dr_user_id (db_drivers d) v") auto
  from f consider "fares = []" | f where "fares = [f]" by (cases fares) auto
  then have "holds_booking t n fares (Some v) d (capture (add_locks [DriverKey v] (vs_locks vs)) d')"
    using at r n row_at_SomeD [OF r] row_at_SomeD [OF at]
    by cases (simp_all add: holds_booking_def vs' d' capture_simps no_rows_def with_driver_status_drivers
        row_at_install row_at_update with_driver_status_def)
  with rest show "\<exists>B. ride_certified B rest \<and> B d (capture (add_locks [DriverKey v] (vs_locks vs)) d')" by blast
qed (use t in \<open>auto simp: holds_booking_def row_rank_trip active_def\<close>)

lemma certified_record_booking:
  assumes n: "tr_id n = tr_id t" and f: "length fares \<le> 1"
    and step: "\<And>d vs eid now. orderly d \<Longrightarrow> holds_booking t n fares freed d vs \<Longrightarrow> fresh_event eid d \<Longrightarrow>
      orderly_step d (log_event eid now (tr_id t) ty p (install vs d))"
  shows "ride_certified (holds_booking t n fares freed) (record_event (tr_id t) ty p (\<lambda>_. Commit Done))"
  by (rule certified_record [OF stable_booking settled_booking [OF _ n f] step rides.certified_done])

section \<open>Cancelling\<close>

definition cancelled_row :: "bool \<Rightarrow> rat \<Rightarrow> trip_row \<Rightarrow> trip_row" where
  "cancelled_row by_driver now t = t\<lparr>tr_status := if by_driver then CancelledByDriver else CancelledByRider\<rparr>"

lemma cancelled_row_id [simp]: "tr_id (cancelled_row b now t) = tr_id t"
  by (simp add: cancelled_row_def)

lemma cancel_stmt_eq:
  "cancel_trip_stmt tripId actorId by_driver s d =
     (Inr (map (\<lambda>t. t) (returning (cancellable tripId actorId by_driver) (cancelled_row by_driver (sys_now s)) (db_trips d)),
      with_trips (cancellable tripId actorId by_driver) (cancelled_row by_driver (sys_now s)) d), s)"
  by (simp add: cancel_trip_stmt_def update_trips_eq cancellable_def [abs_def] cancelled_row_def [abs_def])

lemma install_booking:
  assumes "orderly d" and "holds_booking t n fares freed d vs" and "tr_id n = tr_id t"
    and "fares = [] \<or> (\<exists>f. fares = [f] \<and> fr_trip_id f \<notin> fr_trip_id ` set (db_fare_records d))"
  shows "install vs d = free_driver freed (d\<lparr>db_trips := update_rows (\<lambda>x. tr_id x = tr_id t) (\<lambda>_. n) (db_trips d),
     db_fare_records := db_fare_records d @ fares\<rparr>)"
proof -
  have t: "install_rows tr_id [n] (db_trips d) = update_rows (\<lambda>x. tr_id x = tr_id t) (\<lambda>_. n) (db_trips d)"
    using assms by (intro install_one orderly_keys) (simp_all add: holds_booking_def split: option.splits)
  have f: "install_rows fr_trip_id fares (db_fare_records d) = db_fare_records d @ fares"
    using assms(4) by (auto simp: install_inserted)
  show ?thesis
  proof (cases freed)
    case None
    with t f assms(2) show ?thesis
      by (intro db.equality) (simp_all add: holds_booking_def free_driver_def)
  next
    case (Some v)
    with assms(2) obtain r where r: "row_at dr_user_id (db_drivers d) v = Some r"
      and vs: "vs = no_rows\<lparr>vs_locks := DriverKey v # map (FareKey \<circ> fr_trip_id) fares @ [TripKey (tr_id t)],
        vs_trips := [n], vs_drivers := [r\<lparr>dr_status := Online\<rparr>], vs_fares := fares\<rparr>"
      by (auto simp: holds_booking_def)
    have "install_rows dr_user_id [r\<lparr>dr_status := Online\<rparr>] (db_drivers d) =
        update_rows (\<lambda>x. dr_user_id x = v) (\<lambda>x. x\<lparr>dr_status := Online\<rparr>) (db_drivers d)"
      using row_at_SomeD [OF r]
      by (intro install_written [OF orderly_keys(2) [OF assms(1)] r, where u = "\<lambda>x. x\<lparr>dr_status := Online\<rparr>"]) auto
    with t f show ?thesis
      by (intro db.equality) (simp_all add: vs Some free_driver_def with_driver_status_def)
  qed
qed

lemma free_driver_rows:
  "r' \<in> set (db_drivers (free_driver v d)) \<Longrightarrow> r' \<in> set (db_drivers d) \<or> dr_status r' = Online"
  by (auto simp: free_driver_drivers dest!: in_update_rowsD split: option.splits if_splits)

lemma updated_trips:
  assumes "t' \<in> set (update_rows (\<lambda>x. tr_id x = k) (\<lambda>_. n) rows)" and "t' \<noteq> n"
  shows "t' \<in> set rows"
  using in_update_rowsD [OF assms(1)] assms(2) by (auto split: if_splits)

lemma cancel_commits_tx:
  assumes d: "orderly d" and vs: "holds_booking t (cancelled_row b since t) [] (tr_driver_id t) d vs"
    and t: "cancellable tid actorId b t" and eid: "fresh_event eid d"
    and p: "jget (JObj p) ''status'' = Some (JStr (trip_status_text (if b then CancelledByDriver else CancelledByRider)))"
  shows "orderly_step d (log_event eid now (tr_id t) ''cancelled'' p (install vs d))"
proof -
  have at: "row_at tr_id (db_trips d) (tr_id t) = Some t" using vs by (simp add: holds_booking_def)
  have id: "tr_id t = tid" using t by (simp add: cancellable_def)
  let ?d = "with_trips (cancellable tid actorId b) (cancelled_row b since) d"
  have "update_rows (cancellable tid actorId b) (cancelled_row b since) (db_trips d) =
      update_rows (\<lambda>x. tr_id x = tr_id t) (\<lambda>_. cancelled_row b since t) (db_trips d)"
    using t by (intro update_one [OF orderly_keys(1) [OF d] at]) (auto simp: cancellable_def)
  then have d': "install vs d = free_driver (tr_driver_id t) ?d"
    using install_booking [OF d vs] by (simp add: with_trips_def)
  have "core_step d (log_event eid now (tr_id t) ''cancelled'' p (free_driver (tr_driver_id t) ?d))"
    unfolding id cancelled_row_def [abs_def]
    by (rule core_step.cancel_trip [OF _ t eid p]) (use row_at_SomeD [OF at] in simp)
  then have "orderly_step d (log_event eid now (tr_id t) ''cancelled'' p (free_driver (tr_driver_id t) ?d))"
  proof (rule orderly_step_oldI, unfold step_tables)
    fix r' assume "r' \<in> set (db_drivers (free_driver (tr_driver_id t) ?d))"
    from free_driver_rows [OF this] show "r' \<in> set (db_drivers d) \<or> dr_status r' = Online" by simp
  next
    fix t' assume "t' \<in> set (update_rows (cancellable tid actorId b) (cancelled_row b since) (db_trips d))" "active t'"
    then have "t' \<in> set (db_trips d)"
      by (auto simp: cancelled_row_def active_def dest!: in_update_rowsD split: if_splits)
    with \<open>active t'\<close> show "\<exists>t \<in> set (db_trips d). active t \<and> tr_driver_id t = tr_driver_id t'" by blast
  qed
  then show ?thesis unfolding d' .
qed

lemma certified_cancel: "ride_certified idle_rows (cancel_tx tripId actorId by_driver)"
  unfolding cancel_tx_def
proof (rule certified_trip_update [where g = "\<lambda>_ _ t. t", OF cancel_stmt_eq])
  show "ride_certified idle_rows (case [] of [] \<Rightarrow> Commit Done | row # rows \<Rightarrow> rest row)" for rest :: "trip_row \<Rightarrow> prog"
    unfolding list.case by (rule rides.certified.commit [OF stable_idle _ rides.certified_done]) simp
next
  fix t :: trip_row and now
  let ?p = "[(''by'', JStr (if by_driver then ''driver'' else ''rider'')),
     (''status'', JStr (trip_status_text (if by_driver then CancelledByDriver else CancelledByRider)))]"
  let ?n = "cancelled_row by_driver now t"
  assume t: "cancellable tripId actorId by_driver t" and free: "tr_status t = Requested \<longrightarrow> tr_driver_id t = None"
  have id: "tr_id t = tripId" using t by (simp add: cancellable_def)
  have log: "ride_certified (holds_booking t ?n [] (tr_driver_id t)) (record_event tripId ''cancelled'' ?p (\<lambda>_. Commit Done))"
    unfolding id [symmetric]
    by (rule certified_record_booking) (use cancel_commits_tx [OF _ _ t] in \<open>simp_all\<close>)
  show "ride_certified (holds_booking t ?n [] None) (case [?n] of [] \<Rightarrow> Commit Done
      | row # _ \<Rightarrow> (case tr_driver_id row of None \<Rightarrow> (\<lambda>rest. rest) | Some driverId \<Rightarrow> set_status driverId Online)
           (record_event tripId ''cancelled'' ?p (\<lambda>_. Commit Done)))"
  proof (cases "tr_driver_id t")
    case None
    with log show ?thesis by (simp add: cancelled_row_def)
  next
    case (Some v)
    have "active t" using t free Some by (auto simp: cancellable_def active_def)
    with certified_free [OF this Some, of ?n "[]"] log Some show ?thesis by (simp add: cancelled_row_def)
  qed
qed (simp_all add: cancellable_def)


section \<open>Starting\<close>

definition started_row :: "rat \<Rightarrow> trip_row \<Rightarrow> trip_row" where
  "started_row now t = t\<lparr>tr_status := InProgress, tr_started_at := Some now\<rparr>"

definition startable :: "string \<Rightarrow> string \<Rightarrow> trip_row \<Rightarrow> bool" where
  "startable tripId driverId t \<longleftrightarrow> tr_id t = tripId \<and> tr_driver_id t = Some driverId \<and> tr_status t = Matched"

lemma started_row_id [simp]: "tr_id (started_row now t) = tr_id t"
  by (simp add: started_row_def)

lemma start_stmt_eq:
  "start_trip_stmt tripId driverId s d =
     (Inr (map (\<lambda>t. t) (returning (startable tripId driverId) (started_row (sys_now s)) (db_trips d)),
      with_trips (startable tripId driverId) (started_row (sys_now s)) d), s)"
  by (simp add: start_trip_stmt_def update_trips_eq startable_def [abs_def] started_row_def [abs_def])

lemma start_commits_tx:
  assumes d: "orderly d" and vs: "holds_booking t (started_row since t) [] None d vs"
    and t: "startable tid v t" and eid: "fresh_event eid d"
  shows "orderly_step d (log_event eid now (tr_id t) ''started'' p (install vs d))"
proof -
  have at: "row_at tr_id (db_trips d) (tr_id t) = Some t" using vs by (simp add: holds_booking_def)
  have id: "tr_id t = tid" using t by (simp add: startable_def)
  let ?d = "with_trips (startable tid v) (started_row since) d"
  have "update_rows (startable tid v) (started_row since) (db_trips d) =
      update_rows (\<lambda>x. tr_id x = tr_id t) (\<lambda>_. started_row since t) (db_trips d)"
    using t by (intro update_one [OF orderly_keys(1) [OF d] at]) (auto simp: startable_def)
  then have d': "install vs d = ?d"
    using install_booking [OF d vs] by (simp add: with_trips_def free_driver_def)
  have "core_step d (log_event eid now (tr_id t) ''started'' p ?d)"
    unfolding id started_row_def [abs_def] startable_def [abs_def]
    by (rule core_step.start_trip [OF _ _ _ _ eid]) (use row_at_SomeD [OF at] t in \<open>auto simp: startable_def\<close>)
  then have "orderly_step d (log_event eid now (tr_id t) ''started'' p ?d)"
  proof (rule orderly_step_oldI, unfold step_tables)
    fix t' assume "t' \<in> set (update_rows (startable tid v) (started_row since) (db_trips d))" "active t'"
    then obtain t0 where "t0 \<in> set (db_trips d)" "t' = (if startable tid v t0 then started_row since t0 else t0)"
      by (auto dest: in_update_rowsD)
    with \<open>active t'\<close> show "\<exists>t \<in> set (db_trips d). active t \<and> tr_driver_id t = tr_driver_id t'"
      by (intro bexI [of _ t0]) (auto simp: startable_def started_row_def active_def)
  qed simp
  then show ?thesis unfolding d' .
qed

lemma certified_commit_idle: "ride_certified idle_rows (Commit Done)"
  by (rule rides.certified.commit [OF stable_idle _ rides.certified_done]) simp

lemma certified_start: "ride_certified idle_rows (start_tx tripId driverId)"
  unfolding start_tx_def
proof (rule certified_trip_update [where g = "\<lambda>_ _ t. t", OF start_stmt_eq])
  fix t :: trip_row and now
  assume t: "startable tripId driverId t"
  then have id: "tr_id t = tripId" by (simp add: startable_def)
  show "ride_certified (holds_booking t (started_row now t) [] None) (case [started_row now t] of [] \<Rightarrow> Commit Done
      | row # _ \<Rightarrow> record_event tripId ''started'' [(''driver_id'', JStr driverId)] (\<lambda>_. Commit Done))"
    unfolding list.case id [symmetric]
    by (rule certified_record_booking) (use start_commits_tx [OF _ _ t] in simp_all)
qed (simp_all add: startable_def certified_commit_idle)

section \<open>Completing\<close>

definition completed_now :: "rat \<Rightarrow> trip_row \<Rightarrow> trip_row" where
  "completed_now now t = t\<lparr>tr_status := Completed, tr_completed_at := Some now\<rparr>"

definition totalled :: "rat \<Rightarrow> trip_row \<Rightarrow> trip_row" where
  "totalled amount t = t\<lparr>tr_fare_total := Some amount, tr_currency := ''USD''\<rparr>"

definition completable :: "string \<Rightarrow> string \<Rightarrow> trip_row \<Rightarrow> bool" where
  "completable tripId driverId t \<longleftrightarrow> tr_id t = tripId \<and> tr_driver_id t = Some driverId \<and> tr_status t = InProgress"

lemma completed_ids [simp]: "tr_id (completed_now now t) = tr_id t" "tr_id (totalled amount t) = tr_id t"
  by (simp_all add: completed_now_def totalled_def)

definition fare_inputs :: "ext \<Rightarrow> sys \<Rightarrow> db \<Rightarrow> trip_row \<Rightarrow> completed_row" where
  "fare_inputs X s d t = \<lparr>cp_id = tr_id t,
     cp_distance_km = pg_numeric_text 3 (pg_round 3 (x_distance X (tr_pickup t) (tr_dropoff t) / 1000)),
     cp_duration_min = pg_numeric_text 2 (duration_minutes t (sys_now s)),
     cp_zone_id = map_option sz_id (zone_of X d (tr_pickup t)),
     cp_zone_multiplier = map_option (\<lambda>z. pg_numeric_text 2 (sz_base_multiplier z)) (zone_of X d (tr_pickup t))\<rparr>"

lemma complete_stmt_eq:
  "complete_trip_stmt X tripId driverId s d =
     (Inr (map (fare_inputs X s d) (returning (completable tripId driverId) (completed_now (sys_now s)) (db_trips d)),
      with_trips (completable tripId driverId) (completed_now (sys_now s)) d), s)"
  by (simp add: complete_trip_stmt_def Let_def completable_def [abs_def] completed_now_def [abs_def]
      with_trips_def fare_inputs_def [abs_def])

definition fare_ok :: "fare_record_row \<Rightarrow> bool" where
  "fare_ok f \<longleftrightarrow> 0 \<le> fr_distance_km f \<and> 0 \<le> fr_duration_min f \<and> 1 \<le> fr_surge_multiplier f"

text \<open>A trip in progress has no fare record.\<close>

lemma no_fare_yet:
  assumes d: "orderly d" and at: "row_at tr_id (db_trips d) (tr_id t) = Some t" and t: "tr_status t = InProgress"
  shows "tr_id t \<notin> fr_trip_id ` set (db_fare_records d)"
proof
  assume "tr_id t \<in> fr_trip_id ` set (db_fare_records d)"
  then obtain f where f: "f \<in> set (db_fare_records d)" "fr_trip_id f = tr_id t" by auto
  have "fares_ok d" using d by (simp add: orderly_def)
  with f(1) obtain t' where t': "fare_of d f t'" unfolding fares_ok_def by blast
  then have "t' \<in> set (db_trips d)" "tr_id t' = tr_id t" "tr_status t' = Completed"
    using f(2) by (simp_all add: fare_of_def)
  moreover from row_at_distinct [OF orderly_keys(1) [OF d] this(1)] have "t' = t"
    unfolding \<open>tr_id t' = tr_id t\<close> at by (rule option.inject [THEN iffD1, OF sym])
  ultimately show False using t by simp
qed

lemma complete_commits_tx:
  assumes d: "orderly d"
    and vs: "holds_booking t (totalled (fr_total f) (completed_now since t)) [f] (Some v) d vs"
    and t: "completable tid v t" and f: "fr_trip_id f = tid" "fare_ok f" and eid: "fresh_event eid d"
  shows "orderly_step d (log_event eid now (tr_id t) ''completed'' p (install vs d))"
proof -
  have at: "row_at tr_id (db_trips d) (tr_id t) = Some t" using vs by (simp add: holds_booking_def)
  have id: "tr_id t = tid" and status: "tr_status t = InProgress" using t by (simp_all add: completable_def)
  have new: "fr_trip_id f \<notin> fr_trip_id ` set (db_fare_records d)"
    using no_fare_yet [OF d at status] by (simp add: id f(1))
  let ?n = "totalled (fr_total f) (completed_now since t)"
  let ?d1 = "(with_trips (completable tid v) (completed_now since) d)\<lparr>db_fare_records := db_fare_records d @ [f]\<rparr>"
  let ?d = "with_driver_status v Online (with_trips (\<lambda>t. tr_id t = tid) (totalled (fr_total f)) ?d1)"
  have "update_rows (completable tid v) (completed_now since) (db_trips d) =
      update_rows (\<lambda>x. tr_id x = tid) (\<lambda>_. completed_now since t) (db_trips d)"
    using t at by (intro update_one [OF orderly_keys(1) [OF d], of tid t]) (auto simp: completable_def id)
  moreover have "update_rows (\<lambda>x. tr_id x = tid) (totalled (fr_total f))
      (update_rows (\<lambda>x. tr_id x = tid) (\<lambda>_. completed_now since t) (db_trips d)) =
      update_rows (\<lambda>x. tr_id x = tr_id t) (\<lambda>_. ?n) (db_trips d)"
    by (simp add: update_rows_def id)
  ultimately have "?d = with_driver_status v Online
      (d\<lparr>db_trips := update_rows (\<lambda>x. tr_id x = tr_id t) (\<lambda>_. ?n) (db_trips d),
         db_fare_records := db_fare_records d @ [f]\<rparr>)"
    by (intro db.equality) (simp_all add: with_trips_def with_driver_status_def)
  then have d': "install vs d = ?d"
    using install_booking [OF d vs] new by (simp add: free_driver_def)
  have "core_step d (log_event eid now (tr_id t) ''completed'' p ?d)"
    unfolding id completed_now_def [abs_def] totalled_def [abs_def] completable_def [abs_def]
    by (rule core_step.complete_trip [OF _ _ _ _ eid])
      (use row_at_SomeD [OF at] t f new in \<open>auto simp: completable_def fare_ok_def\<close>)
  then have "orderly_step d (log_event eid now (tr_id t) ''completed'' p ?d)"
  proof (rule orderly_step_oldI)
    fix r' assume "r' \<in> set (db_drivers (log_event eid now (tr_id t) ''completed'' p ?d))"
    then show "r' \<in> set (db_drivers d) \<or> dr_status r' = Online"
      by (auto simp: with_driver_status_drivers dest!: in_update_rowsD split: if_splits)
  next
    fix t' assume t': "t' \<in> set (db_trips (log_event eid now (tr_id t) ''completed'' p ?d))" "active t'"
    have "db_trips (log_event eid now (tr_id t) ''completed'' p ?d) = db_trips (install vs d)"
      unfolding d' by simp
    also have "\<dots> = update_rows (\<lambda>x. tr_id x = tr_id t) (\<lambda>_. ?n) (db_trips d)"
      using install_booking [OF d vs] new by (simp add: free_driver_def)
    finally have "t' \<in> set (update_rows (\<lambda>x. tr_id x = tr_id t) (\<lambda>_. ?n) (db_trips d))" using t'(1) by simp
    moreover have "t' \<noteq> ?n" using t'(2) by (auto simp: active_def totalled_def completed_now_def)
    ultimately show "\<exists>t \<in> set (db_trips d). active t \<and> tr_driver_id t = tr_driver_id t'"
      using updated_trips t'(2) by blast
  qed
  then show ?thesis unfolding d' .
qed


lemma stable_and: "stable A orderly \<Longrightarrow> stable (\<lambda>d vs. A d vs \<and> P) orderly"
  by (auto simp: stable_def)

text \<open>The two statements of the fare, from a trip just completed.\<close>

lemma certified_fare:
  assumes t: "tr_status t = InProgress" "tr_id t = tid" and n: "tr_id n = tid"
    and rest: "\<And>f. fr_trip_id f = tid \<Longrightarrow> fare_ok f \<Longrightarrow>
      pg_numeric 10 2 (js_decimal amount) = Some (fr_total f) \<Longrightarrow> ride_certified (holds_booking t n [f] None) rest"
  shows "ride_certified (holds_booking t n [] None)
     (query_then (\<lambda>s d. [FareKey tid]) (upsert_fare tid base km mins surge amount) (\<lambda>_. rest))"
proof (rule certified_query_then [OF stable_booking])
  fix s d vs x d' s' assume d: "orderly d" and vs: "holds_booking t n [] None d vs"
    and st: "upsert_fare tid base km mins surge amount s (install vs d) = (Inr (x, d'), s')"
  from upsert_fare_Inr [OF st] obtain f where f: "d' = with_fare f (install vs d)" "fr_trip_id f = tid"
    "fare_ok f" "pg_numeric 10 2 (js_decimal amount) = Some (fr_total f)" unfolding fare_ok_def by metis
  from vs have at: "row_at tr_id (db_trips d) tid = Some t"
    and vs': "vs = no_rows\<lparr>vs_locks := [TripKey tid], vs_trips := [n]\<rparr>"
    by (simp_all add: holds_booking_def t(2))
  have new: "tid \<notin> fr_trip_id ` set (db_fare_records d)"
    using no_fare_yet [OF d _ t(1)] at by (simp add: t(2))
  then have d': "db_fare_records d' = db_fare_records d @ [f]"
    by (simp add: f(1,2) with_fare_def vs')
  have "db_trips d' = db_trips (install vs d)" by (simp add: f(1) with_fare_def)
  then have "row_at tr_id (db_trips d') tid = Some n" by (simp add: vs' row_at_install n)
  moreover have "row_at fr_trip_id (db_fare_records d') tid = Some f"
    using new by (simp add: d' row_at_append row_at_None_iff [symmetric] f(2))
  ultimately have "holds_booking t n [f] None d (capture (add_locks [FareKey tid] (vs_locks vs)) d')"
    using at by (simp add: holds_booking_def vs' capture_simps no_rows_def t(2) f(2))
  with rest [OF f(2-4)] show "\<exists>B. ride_certified B rest \<and> B d (capture (add_locks [FareKey tid] (vs_locks vs)) d')" by blast
qed (use t in \<open>auto simp: holds_booking_def row_rank_trip\<close>)

lemma certified_total:
  assumes n: "tr_id n = tid" "tr_id t = tid" and f: "fr_trip_id f = tid"
    and amount: "pg_numeric 10 2 (js_decimal amount) = Some (fr_total f)"
    and rest: "ride_certified (holds_booking t (totalled (fr_total f) n) [f] None) rest"
  shows "ride_certified (holds_booking t n [f] None)
     (query_then (\<lambda>s d. [TripKey tid]) (set_fare_total tid amount) (\<lambda>_. rest))"
proof (rule certified_query_then [OF stable_booking])
  fix s d vs x d' s' assume vs: "holds_booking t n [f] None d vs"
    and st: "set_fare_total tid amount s (install vs d) = (Inr (x, d'), s')"
  from set_fare_total_Inr [OF st] amount
  have d': "d' = with_trips (\<lambda>t. tr_id t = tid) (totalled (fr_total f)) (install vs d)"
    unfolding totalled_def [abs_def] by (metis option.inject)
  from vs have at: "row_at tr_id (db_trips d) tid = Some t"
    and vs': "vs = no_rows\<lparr>vs_locks := [FareKey tid, TripKey tid], vs_trips := [n], vs_fares := [f]\<rparr>"
    by (simp_all add: holds_booking_def n f)
  have "row_at tr_id (db_trips d') tid = Some (totalled (fr_total f) n)"
    by (simp add: d' vs' row_at_update row_at_install n)
  moreover have "row_at fr_trip_id (db_fare_records d') tid = Some f"
    by (simp add: d' vs' row_at_install f)
  ultimately have "holds_booking t (totalled (fr_total f) n) [f] None d
      (capture (add_locks [TripKey tid] (vs_locks vs)) d')"
    using at by (simp add: holds_booking_def vs' capture_simps no_rows_def n f)
  with rest show "\<exists>B. ride_certified B rest \<and> B d (capture (add_locks [TripKey tid] (vs_locks vs)) d')" by blast
qed (use n in \<open>auto simp: holds_booking_def\<close>)

lemma certified_complete: "ride_certified idle_rows (complete_tx X cached tripId driverId)"
  unfolding complete_tx_def
proof (rule certified_trip_update [where g = "fare_inputs X", OF complete_stmt_eq])
  fix t :: trip_row and now s d
  assume t: "completable tripId driverId t"
  then have id: "tr_id t = tripId" and status: "tr_status t = InProgress" and v: "tr_driver_id t = Some driverId"
    by (simp_all add: completable_def)
  have log: "ride_certified (holds_booking t (totalled (fr_total f) (completed_now now t)) [f] (Some driverId))
      (record_event tripId ''completed'' p (\<lambda>_. Commit Done))" if "fr_trip_id f = tripId" "fare_ok f" for f p
    unfolding id [symmetric]
    by (rule certified_record_booking) (use complete_commits_tx [OF _ _ t that] in simp_all)
  have free: "ride_certified (holds_booking t (totalled (fr_total f) (completed_now now t)) [f] None)
      (set_status driverId Online (record_event tripId ''completed'' p (\<lambda>_. Commit Done)))"
    if "fr_trip_id f = tripId" "fare_ok f" for f p
    by (rule certified_free [OF _ v _ _ log [OF that]]) (simp_all add: active_def status)
  show "ride_certified (holds_booking t (completed_now now t) [] None)
     (case [fare_inputs X s d (completed_now now t)] of [] \<Rightarrow> Rollback Done
      | fare # _ \<Rightarrow>
         let distanceKm = num_val (js_Number (cp_distance_km fare));
             durationMin = num_val (js_Number (cp_duration_min fare));
             surgeMultiplier = surge_read cached (cp_zone_id fare) (cp_zone_multiplier fare);
             fareTotal = fare_total distanceKm durationMin surgeMultiplier
         in
         query_then (\<lambda>s d. [FareKey tripId])
           (upsert_fare tripId (5 / 2) distanceKm durationMin surgeMultiplier fareTotal) (\<lambda>_.
         query_then (\<lambda>s d. [TripKey tripId]) (set_fare_total tripId fareTotal) (\<lambda>_.
         set_status driverId Online
           (record_event tripId ''completed''
              [(''driver_id'', JStr driverId), (''fare_total'', JStr (to_fixed 2 fareTotal)),
               (''distance_km'', JStr (to_fixed 3 distanceKm)),
               (''duration_min'', JStr (to_fixed 2 durationMin)),
               (''surge_multiplier'', JStr (to_fixed 2 surgeMultiplier))]
              (\<lambda>_. Commit Done)))))"
    unfolding list.case Let_def
    by (intro certified_fare [OF status id] certified_total free) (simp_all add: id)
qed (simp_all add: completable_def certified_rollback [OF stable_idle] fare_inputs_def)

section \<open>Requesting\<close>

definition holds_request :: "trip_row \<Rightarrow> db \<Rightarrow> versions \<Rightarrow> bool" where
  "holds_request n d vs \<longleftrightarrow> row_at tr_id (db_trips d) (tr_id n) = None \<and>
     tr_rider_id n \<in> us_id ` set (db_users d) \<and> vs = no_rows\<lparr>vs_locks := [TripKey (tr_id n)], vs_trips := [n]\<rparr>"

lemma stable_request: "stable (holds_request n) orderly"
  by (rule stableI) (auto simp: holds_request_def around_rows)

lemma settled_request:
  "holds_request n d vs \<Longrightarrow> settled d vs \<and> vs_events vs = [] \<and> (\<forall>k \<in> set (vs_locks vs). row_rank d k < 5)"
  by (auto simp: holds_request_def settled_def capture_simps row_at_install no_rows_def)

lemma request_commits_tx:
  assumes vs: "holds_request n d vs" and eid: "fresh_event eid d"
    and n: "tr_status n = Requested" "tr_driver_id n = None" "tr_vehicle_id n = None" "tr_fare_total n = None"
  shows "orderly_step d (log_event eid now (tr_id n) ''requested'' p (install vs d))"
proof -
  have new: "tr_id n \<notin> tr_id ` set (db_trips d)" and rider: "tr_rider_id n \<in> us_id ` set (db_users d)"
    using vs by (simp_all add: holds_request_def row_at_None_iff)
  have d': "install vs d = d\<lparr>db_trips := db_trips d @ [n]\<rparr>"
    using vs install_inserted [of tr_id n "db_trips d", OF new]
    by (intro db.equality) (simp_all add: holds_request_def)
  show ?thesis unfolding d'
    by (rule orderly_step_oldI [OF core_step.request_trip [OF new rider n eid]])
      (use n(1) in \<open>auto simp: active_def\<close>)
qed

lemma certified_create: "ride_certified idle_rows (create_tx X dto riderId)"
  unfolding create_tx_def
proof (rule certified_query_then [OF stable_idle])
  let ?st = "insert_trip X riderId dto"
  fix s d vs x d' s' assume vs: "vs = no_rows" and run: "?st s (install vs d) = (Inr (x, d'), s')"
  from run [unfolded vs no_rows_simps] obtain pickup dropoff where x: "x = [trip_ref_of (new_trip X s riderId dto pickup dropoff)]"
    and d': "d' = d\<lparr>db_trips := db_trips d @ [new_trip X s riderId dto pickup dropoff]\<rparr>"
    and new: "tr_id (new_trip X s riderId dto pickup dropoff) \<notin> tr_id ` set (db_trips d)"
    and rider: "riderId \<in> us_id ` set (db_users d)" by (rule insert_trip_Inr)
  let ?n = "new_trip X s riderId dto pickup dropoff"
  have "tr_rider_id ?n = riderId" by (simp add: new_trip_def)
  moreover have "row_at tr_id (db_trips d') (tr_id ?n) = Some ?n"
    using new by (simp add: d' row_at_append row_at_None_iff [symmetric])
  moreover have "returned_trips ?st ref_id s (install vs d) = [TripKey (tr_id ?n)]"
    by (simp add: returned_trips_def run x trip_ref_of_def)
  ultimately have "holds_request ?n d (capture (add_locks (returned_trips ?st ref_id s (install vs d)) (vs_locks vs)) d')"
    using new rider by (simp add: holds_request_def vs capture_simps row_at_None_iff no_rows_def)
  moreover have "ride_certified (holds_request ?n) (record_event (tr_id ?n) ''requested'' p (\<lambda>_. Commit Done))" for p
    by (rule certified_record [OF stable_request settled_request _ rides.certified_done], assumption,
        rule request_commits_tx) (simp_all add: new_trip_def)
  ultimately show "\<exists>B. ride_certified B (case x of [] \<Rightarrow> Rollback Done
     | created # _ \<Rightarrow> record_event (ref_id created) ''requested''
           [(''rider_id'', JStr riderId), (''dto'', create_trip_json dto)] (\<lambda>_. Commit Done)) \<and>
      B d (capture (add_locks (returned_trips ?st ref_id s (install vs d)) (vs_locks vs)) d')"
    by (auto simp: x trip_ref_of_def)
qed simp

section \<open>A ping\<close>

definition holds_ping :: "driver_row \<Rightarrow> bool \<Rightarrow> driver_location_row list \<Rightarrow> db \<Rightarrow> versions \<Rightarrow> bool" where
  "holds_ping r online ls d vs \<longleftrightarrow> row_at dr_user_id (db_drivers d) (dr_user_id r) = Some r \<and>
     vs = no_rows\<lparr>vs_locks := map (LocationKey \<circ> dl_driver_id) ls @ [DriverKey (dr_user_id r)],
            vs_drivers := [if online then r\<lparr>dr_status := Online\<rparr> else r], vs_locations := ls\<rparr>"

lemma stable_ping: "stable (holds_ping r online ls) orderly"
  by (rule stableI) (auto simp: holds_ping_def around_rows)

lemma idle_driver:
  assumes "orderly d" and "row_at dr_user_id (db_drivers d) v = Some r" and "dr_status r \<noteq> OnTrip"
  shows "\<not> (\<exists>t \<in> set (db_trips d). tr_driver_id t = Some v \<and> active t)"
  using assms row_at_SomeD [OF assms(2)] by (auto simp: orderly_def serving_on_trip_def)

lemma ping_commits_tx:
  assumes d: "orderly d" and vs: "holds_ping r online ls d vs"
    and r: "dr_status r \<noteq> Suspended" "online \<Longrightarrow> dr_status r \<noteq> OnTrip"
  shows "orderly_step d (install vs d)"
proof -
  let ?v = "dr_user_id r" and ?locations = "install_rows dl_driver_id ls (db_driver_locations d)"
  have at: "row_at dr_user_id (db_drivers d) ?v = Some r" using vs by (simp add: holds_ping_def)
  note keys = orderly_keys(2) [OF d]
  show ?thesis
  proof (cases online)
    case True
    have "install_rows dr_user_id [r\<lparr>dr_status := Online\<rparr>] (db_drivers d) =
        update_rows (\<lambda>x. dr_user_id x = ?v) (\<lambda>x. x\<lparr>dr_status := Online\<rparr>) (db_drivers d)"
      by (rule install_written [OF keys at, where u = "\<lambda>x. x\<lparr>dr_status := Online\<rparr>"]) simp_all
    then have d': "install vs d = (with_driver_status ?v Online d)\<lparr>db_driver_locations := ?locations\<rparr>"
      using vs True by (intro db.equality) (simp_all add: holds_ping_def with_driver_status_def)
    show ?thesis unfolding d'
    proof (rule orderly_step_oldI)
      show "core_step d ((with_driver_status ?v Online d)\<lparr>db_driver_locations := ?locations\<rparr>)"
        by (rule core_step.ping [of r]) (use row_at_SomeD [OF at] r True idle_driver [OF d at] in simp_all)
    qed (auto simp: with_driver_status_drivers dest!: in_update_rowsD split: if_splits)
  next
    case False
    then have d': "install vs d = d\<lparr>db_driver_locations := ?locations\<rparr>"
      using vs install_same [OF keys at] by (intro db.equality) (simp_all add: holds_ping_def)
    show ?thesis unfolding d'
      by (rule orderly_step_oldI [OF core_step.registers [OF registry_step.elsewhere]]) (auto simp: same_bookings_def)
  qed
qed

lemma row_at_overwrite:
  "key n = k \<Longrightarrow> k \<in> key ` set rows \<Longrightarrow> row_at key (update_rows (\<lambda>r. key r = k) (\<lambda>_. n) rows) k = Some n"
  by (induction rows) (auto simp: update_rows_def)

lemma upsert_location_row:
  assumes "upsert_location body observedAt s d = (Inr (x, d'), s')"
  obtains l where "dl_driver_id l = lb_driver_id body" and "d' = d\<lparr>db_driver_locations :=
    if lb_driver_id body \<in> dl_driver_id ` set (db_driver_locations d)
    then update_rows (\<lambda>x. dl_driver_id x = lb_driver_id body) (\<lambda>_. l) (db_driver_locations d)
    else db_driver_locations d @ [l]\<rparr>"
proof (cases "timestamp_param observedAt")
  case (Inr seen)
  show ?thesis
    by (rule that [of "\<lparr>dl_driver_id = lb_driver_id body, dl_location = lb_point body,
        dl_heading_deg = lb_heading_deg body, dl_speed_mps = lb_speed_mps body, dl_updated_at = seen\<rparr>"])
      (use assms Inr in \<open>simp_all add: upsert_location_def Let_def split: if_splits\<close>)
qed (use assms in \<open>simp add: upsert_location_def\<close>)

lemma certified_locate:
  assumes r: "dr_status r \<noteq> Suspended" "online \<Longrightarrow> dr_status r \<noteq> OnTrip" "dr_user_id r = lb_driver_id body"
  shows "ride_certified (holds_ping r online [])
     (query_then (\<lambda>s d. [LocationKey (lb_driver_id body)]) (upsert_location body observedAt) (\<lambda>_. Commit Done))"
proof (rule certified_query_then [OF stable_ping])
  fix s d vs x d' s' assume vs: "holds_ping r online [] d vs"
    and st: "upsert_location body observedAt s (install vs d) = (Inr (x, d'), s')"
  let ?v = "lb_driver_id body"
  from upsert_location_row [OF st] obtain l where l: "dl_driver_id l = ?v" and d': "d' = (install vs d)\<lparr>db_driver_locations :=
       if ?v \<in> dl_driver_id ` set (db_driver_locations (install vs d))
       then update_rows (\<lambda>x. dl_driver_id x = ?v) (\<lambda>_. l) (db_driver_locations (install vs d))
       else db_driver_locations (install vs d) @ [l]\<rparr>" .
  have "row_at dl_driver_id (db_driver_locations d') ?v = Some l"
    unfolding d' using l row_at_overwrite [of dl_driver_id l ?v "db_driver_locations (install vs d)"]
    by (auto simp: row_at_append row_at_None_iff [THEN iffD2] split: option.split)
  moreover have "db_drivers d' = db_drivers (install vs d)" by (simp add: d')
  ultimately have "holds_ping r online [l] d (capture (add_locks [LocationKey ?v] (vs_locks vs)) d')"
    using vs r(3) l by (auto simp: holds_ping_def capture_simps no_rows_def row_at_install)
  moreover have "ride_certified (holds_ping r online [l]) (Commit Done)"
    by (rule rides.certified.commit [OF stable_ping _ rides.certified_done])
      (use ping_commits_tx [OF _ _ r(1,2)] in blast)
  ultimately show "\<exists>B. ride_certified B (Commit Done) \<and> B d (capture (add_locks [LocationKey ?v] (vs_locks vs)) d')" by blast
qed (auto simp: holds_ping_def)

lemma select_driver_state_Inr:
  assumes "select_driver_state v s d = (Inr (row # rows, d'), s')" and "orderly d"
  obtains r where "d' = d" and "row_at dr_user_id (db_drivers d) v = Some r" and "dr_status r \<noteq> Suspended"
    and "dr_status r = fst row"
proof -
  let ?p = "\<lambda>r. dr_user_id r = v \<and> dr_status r \<noteq> Suspended"
  let ?f = "\<lambda>r. (dr_status r, has_active_trip (dr_user_id r) d)"
  have d': "d' = d" and rows: "map ?f (filter ?p (db_drivers d)) = row # rows"
    using assms(1) by (auto simp: select_driver_state_def select_def)
  have "row \<in> ?f ` set (filter ?p (db_drivers d))"
    unfolding set_map [symmetric] rows by simp
  then obtain r where r: "r \<in> set (db_drivers d)" "dr_user_id r = v" "dr_status r \<noteq> Suspended" "row = ?f r" by auto
  have "row_at dr_user_id (db_drivers d) v = Some r"
    using row_at_distinct [OF orderly_keys(2) [OF assms(2)] r(1)] unfolding r(2) .
  then show thesis
    using that [OF d' _ r(3)] r(4) by simp
qed

text \<open>What the first look at the trips said does not matter: the status of the locked row does.\<close>

lemma certified_position:
  "ride_certified idle_rows
     (query_then (selected_driver (select_driver_state (lb_driver_id body)) (lb_driver_id body))
       (select_driver_state (lb_driver_id body)) (\<lambda>rows.
     case rows of
       [] \<Rightarrow> Rollback Done
     | row # _ \<Rightarrow>
         (if fst row \<noteq> OnTrip \<and> \<not> serving then set_status (lb_driver_id body) Online else (\<lambda>rest. rest))
         (query_then (\<lambda>s d. [LocationKey (lb_driver_id body)]) (upsert_location body observedAt)
            (\<lambda>_. Commit Done))))" (is "ride_certified _ (query_then _ ?st ?rest)")
proof (rule certified_query_then [OF stable_idle])
  let ?v = "lb_driver_id body"
  let ?tail = "query_then (\<lambda>s d. [LocationKey ?v]) (upsert_location body observedAt) (\<lambda>_. Commit Done)"
  fix s d vs x d' s' assume d: "orderly d" and vs: "vs = no_rows" and st: "?st s (install vs d) = (Inr (x, d'), s')"
  show "\<exists>B. ride_certified B (?rest x) \<and> B d (capture (add_locks (selected_driver ?st ?v s (install vs d)) (vs_locks vs)) d')"
  proof (cases x)
    case Nil
    with st have "selected_driver ?st ?v s (install vs d) = []" by (simp add: selected_driver_def)
    then show ?thesis using Nil vs certified_rollback [OF stable_idle] by (auto simp: capture_Nil)
  next
    case (Cons row rows)
    from select_driver_state_Inr [OF st [unfolded Cons vs no_rows_simps] d]
    obtain r where r: "d' = d" "row_at dr_user_id (db_drivers d) ?v = Some r" "dr_status r \<noteq> Suspended"
      "dr_status r = fst row" .
    have id: "dr_user_id r = ?v" using row_at_SomeD [OF r(2)] by simp
    have locks: "selected_driver ?st ?v s (install vs d) = [DriverKey ?v]"
      using st Cons by (simp add: selected_driver_def)
    have held: "holds_ping r False [] d (capture (add_locks (selected_driver ?st ?v s (install vs d)) (vs_locks vs)) d')"
      unfolding locks using r vs by (simp add: holds_ping_def capture_simps no_rows_def id)
    have "ride_certified (holds_ping r False []) (set_status ?v Online ?tail)" if on: "fst row \<noteq> OnTrip"
      unfolding set_status_def
    proof (rule certified_query_then [OF stable_ping])
      fix s d vs x d' s' assume vs: "holds_ping r False [] d vs"
        and st: "set_driver_status ?v Online s (install vs d) = (Inr (x, d'), s')"
      have "holds_ping r True [] d (capture (add_locks [DriverKey ?v] (vs_locks vs)) d')"
        using vs st by (auto simp: holds_ping_def set_driver_status_eq capture_simps no_rows_def id
            with_driver_status_drivers row_at_update row_at_install)
      moreover have "ride_certified (holds_ping r True []) ?tail"
        by (rule certified_locate [OF r(3) _ id]) (simp add: r(4) on)
      ultimately show "\<exists>B. ride_certified B ?tail \<and> B d (capture (add_locks [DriverKey ?v] (vs_locks vs)) d')" by blast
    qed (auto simp: holds_ping_def id)
    moreover have "ride_certified (holds_ping r False []) ?tail" by (rule certified_locate [OF r(3) _ id]) simp
    ultimately have "ride_certified (holds_ping r False []) (?rest x)" unfolding Cons by simp
    with held show ?thesis by blast
  qed
qed simp

lemma certified_ping: "ride_certified idle_rows (ping_tx body observedAt)"
  unfolding ping_tx_def
proof (rule certified_query_then [OF stable_idle])
  fix s d vs x d' s'
  assume "vs = no_rows" and "select (has_active_trip (lb_driver_id body)) s (install vs d) = (Inr (x, d'), s')"
  with certified_position [of body x observedAt]
  show "\<exists>B. ride_certified B (query_then (selected_driver (select_driver_state (lb_driver_id body)) (lb_driver_id body))
       (select_driver_state (lb_driver_id body)) (\<lambda>rows. case rows of [] \<Rightarrow> Rollback Done
     | row # _ \<Rightarrow> (if fst row \<noteq> OnTrip \<and> \<not> x then set_status (lb_driver_id body) Online else (\<lambda>rest. rest))
         (query_then (\<lambda>s d. [LocationKey (lb_driver_id body)]) (upsert_location body observedAt)
            (\<lambda>_. Commit Done)))) \<and> B d (capture (add_locks [] (vs_locks vs)) d')"
    by (auto simp: capture_Nil)
qed simp

section \<open>All of them side by side\<close>

inductive ride_tx :: "prog \<Rightarrow> bool" where
  "ride_tx (create_tx X dto riderId)"
| "ride_tx (match_tx tripId driverId)"
| "ride_tx (cancel_tx tripId' actorId by_driver)"
| "ride_tx (start_tx tripId' driverId)"
| "ride_tx (complete_tx X cached tripId' driverId)"
| "ride_tx (ping_tx body observedAt)"
| "ride_tx (flush_tx X)"
| "ride_tx (publish_tx eid)"

lemma ride_tx_certified: "ride_tx p \<Longrightarrow> ride_certified idle_rows p"
  by (induction rule: ride_tx.induct)
    (rule certified_create certified_match certified_cancel certified_start certified_complete certified_ping
      certified_flush certified_publish)+

lemma rides_side_by_side:
  assumes "server_step\<^sup>*\<^sup>* v v'" and "orderly (sv_db v)" and "sv_sessions v = map client ps"
    and "list_all ride_tx ps"
  shows "rides.side_by_side v'" and "orderly_step\<^sup>*\<^sup>* (sv_db v) (sv_db v')"
proof -
  have "rides.side_by_side v"
    using assms(2-4) by (intro rides.clients_side_by_side) (auto simp: list_all_iff intro: ride_tx_certified)
  with rides.side_by_side_commits [OF assms(1)]
  show "rides.side_by_side v'" and "orderly_step\<^sup>*\<^sup>* (sv_db v) (sv_db v')" by blast+
qed

end
