(* ===== verification/PublishOnce.thy ===== *)
theory PublishOnce
  imports RideTransactions
begin

text \<open>
  Publishers side by side: the outbox of every API replica and the matcher's own publication send
  the same events. \<open>FOR UPDATE SKIP LOCKED\<close> gives each event to one of them at a time; this theory
  shows that, as long as no connection is lost, an event is sent successfully only once.
\<close>

section \<open>The publishers\<close>

inductive publisher :: "prog \<Rightarrow> bool" where
  "publisher (flush_tx X)"
| "publisher (publish_tx eid)"

text \<open>A send may fail, a connection is not lost.\<close>

inductive calm_step :: "server \<Rightarrow> server \<Rightarrow> bool" where
  calm: "move_session m i v = Some v' \<Longrightarrow> m \<noteq> Crash \<Longrightarrow> calm_step v v'"
| calm_ticks: "sys_now (sv_sys v) \<le> t \<Longrightarrow> calm_step v (v\<lparr>sv_sys := (sv_sys v)\<lparr>sys_now := t\<rparr>\<rparr>)"

lemma run_schedule_calm:
  "run_schedule ms v = Some v' \<Longrightarrow> list_all (\<lambda>(m, i). m \<noteq> Crash) ms \<Longrightarrow> calm_step\<^sup>*\<^sup>* v v'"
proof (induction ms v rule: run_schedule.induct)
  case (2 m i ms v)
  then show ?case
    by (auto split: option.splits intro: converse_rtranclp_into_rtranclp calm_step.calm)
qed simp

text \<open>The column \<open>payload\<close> holds objects, never text that would have to be parsed.\<close>

definition plain_events :: "db \<Rightarrow> bool" where
  "plain_events d \<longleftrightarrow> (\<forall>e \<in> set (db_trip_events d). case te_payload e of JStr _ \<Rightarrow> False | _ \<Rightarrow> True)"

definition is_published :: "db \<Rightarrow> int \<Rightarrow> bool" where
  "is_published d e \<longleftrightarrow> (\<exists>r. row_at te_id (db_trip_events d) e = Some r \<and> te_published_at r \<noteq> None)"

definition send_all :: "int list \<Rightarrow> prog" where
  "send_all ids = foldr send_event ids (Commit Done)"

lemma send_all_simps [simp]: "send_all [] = Commit Done" "send_all (e # es) = send_event e (send_all es)"
  by (simp_all add: send_all_def)

lemma send_all_not_Done: "send_all ids \<noteq> Done"
  by (cases ids) (simp_all add: send_event_def)

lemma send_rows_plain:
  assumes "\<forall>e \<in> set rows. case te_payload e of JStr _ \<Rightarrow> False | _ \<Rightarrow> True"
  shows "send_rows X rows = send_all (map te_id rows)"
  using assms by (induction rows) (auto simp: outboxPayload_def Let_def split: json.splits)

section \<open>What a publisher holds\<close>

definition unsent :: "int list \<Rightarrow> db \<Rightarrow> versions \<Rightarrow> bool" where
  "unsent ids d vs \<longleftrightarrow> holds_events (set ids) d vs \<and> distinct ids \<and>
     (\<forall>e \<in> set ids. \<exists>r. row_at te_id (vs_events vs) e = Some r \<and> te_published_at r = None)"

definition marking :: "int \<Rightarrow> int list \<Rightarrow> prog" where
  "marking e ids = query_then (\<lambda>s d. [EventKey e]) (mark_published e) (\<lambda>_. send_all ids)"

definition failing :: "int \<Rightarrow> int list \<Rightarrow> prog" where
  "failing e ids = query_then (\<lambda>s d. [EventKey e])
     (mark_publish_failed e (exn_text (Unavailable ''kafka''))) (\<lambda>_. send_all ids)"

lemma send_event_eq: "send_event e (send_all ids) = Produce e (marking e ids) (failing e ids)"
  by (simp add: send_event_def marking_def failing_def)

definition publisher_ok :: "db \<Rightarrow> db_session \<Rightarrow> bool" where
  "publisher_ok d s \<longleftrightarrow>
     (se_rows s = no_rows \<and> (publisher (se_prog s) \<or> se_prog s = Done)) \<or>
     (\<exists>ids. se_prog s = send_all ids \<and> unsent ids d (se_rows s)) \<or>
     (\<exists>e ids. (se_prog s = marking e ids \<or> se_prog s = failing e ids) \<and> unsent (e # ids) d (se_rows s))"

text \<open>A session that has sent the event and will commit that it has.\<close>

definition has_sent :: "db_session \<Rightarrow> int \<Rightarrow> bool" where
  "has_sent s e \<longleftrightarrow>
     (\<exists>r. row_at te_id (vs_events (se_rows s)) e = Some r \<and> te_published_at r \<noteq> None) \<or>
     (\<exists>ids. se_prog s = marking e ids \<and> EventKey e \<in> set (vs_locks (se_rows s)))"

definition sends_ok :: "server \<Rightarrow> bool" where
  "sends_ok v \<longleftrightarrow> orderly (sv_db v) \<and> plain_events (sv_db v) \<and> distinct (sv_sent v) \<and>
     (\<forall>s \<in> set (sv_sessions v). publisher_ok (sv_db v) s) \<and>
     (\<forall>i < length (sv_sessions v). \<forall>k \<in> set (locks_of v i). k \<notin> set (busy v i)) \<and>
     (\<forall>e \<in> set (sv_sent v). is_published (sv_db v) e \<or> (\<exists>s \<in> set (sv_sessions v). has_sent s e))"

lemma has_sent_holds: "publisher_ok d s \<Longrightarrow> has_sent s e \<Longrightarrow> EventKey e \<in> set (vs_locks (se_rows s))"
  by (auto simp: publisher_ok_def has_sent_def unsent_def holds_events_def dest!: row_at_SomeD)

lemma unsent_not_published:
  assumes "unsent (e # ids) d vs"
  shows "\<not> is_published d e"
proof -
  from assms obtain r where r: "row_at te_id (vs_events vs) e = Some r" "te_published_at r = None"
    and vs: "holds_events (set (e # ids)) d vs" by (auto simp: unsent_def)
  from row_at_SomeD [OF r(1)] vs obtain c where "row_at te_id (db_trip_events d) e = Some c" "sent_on c r"
    by (auto simp: holds_events_def)
  with r(2) show ?thesis by (auto simp: is_published_def sent_on_def)
qed


lemma capture_event:
  "EventKey k \<in> set ks \<Longrightarrow> row_at te_id (vs_events (capture ks d)) k = row_at te_id (db_trip_events d) k"
proof (induction ks)
  case (Cons a ks)
  have miss: "held_event d a = Some r \<Longrightarrow> a \<noteq> EventKey k \<Longrightarrow> te_id r \<noteq> k" for r
    using held_SomeD(3) by blast
  have absent: "row_at te_id (vs_events (capture ks d)) k = None" if "EventKey k \<notin> set ks"
  proof -
    have "k \<notin> te_id ` set (vs_events (capture ks d))"
      using that by (auto simp: capture_def in_map_filter dest: held_SomeD)
    then show ?thesis by (simp add: row_at_None_iff)
  qed
  show ?case
  proof (cases "a = EventKey k")
    case True
    have "row_at te_id (db_trip_events d) k = Some r \<Longrightarrow> te_id r = k" for r by (drule row_at_SomeD) simp
    with True Cons.IH absent show ?thesis
      by (cases "row_at te_id (db_trip_events d) k"; cases "EventKey k \<in> set ks") (simp_all add: capture_Cons Let_def held_event_def)
  next
    case False
    with Cons miss show ?thesis
      by (cases "held_event d a") (simp_all add: capture_Cons Let_def)
  qed
qed simp

lemma publisher_around:
  assumes "publisher_ok d s" and "around (set (vs_locks (se_rows s))) d d'"
  shows "publisher_ok d' s"
proof -
  have "unsent ids d vs \<Longrightarrow> around (set (vs_locks vs)) d d' \<Longrightarrow> unsent ids d' vs" for ids vs
    by (auto simp: unsent_def holds_events_def around_rows)
  with assms show ?thesis unfolding publisher_ok_def by blast
qed

lemma holds_events_covered: "holds_events es d vs \<Longrightarrow> covered vs"
  by (simp add: holds_events_def covered_def)

lemma mark_versions:
  assumes vs: "unsent (e # ids) d vs" and u: "\<And>r. sent_on r (u r)"
    and d': "d' = (install vs d)\<lparr>db_trip_events := update_rows (\<lambda>r. te_id r = e) u (db_trip_events (install vs d))\<rparr>"
  shows "unsent ids d (capture (vs_locks vs) d')"
    and "row_at te_id (vs_events vs) k = Some r \<Longrightarrow>
      row_at te_id (vs_events (capture (vs_locks vs) d')) k = Some (if k = e then u r else r)"
proof -
  have te: "te_id (u r) = te_id r" for r using u by (simp add: sent_on_def)
  have held: "holds_events (set (e # ids)) d vs" and dist: "distinct (e # ids)" using vs by (simp_all add: unsent_def)
  have look: "row_at te_id (vs_events (capture (vs_locks vs) d')) k = Some (if k = e then u r else r)"
    if r: "row_at te_id (vs_events vs) k = Some r" for k r
  proof -
    have "EventKey k \<in> set (vs_locks vs)" using row_at_SomeD [OF r] held by (auto simp: holds_events_def)
    moreover have "row_at te_id (db_trip_events d') k = Some (if k = e then u r else r)"
      using row_at_SomeD [OF r] r by (simp add: d' row_at_update te row_at_install)
    ultimately show ?thesis by (simp add: capture_event)
  qed
  then show "row_at te_id (vs_events vs) k = Some r \<Longrightarrow>
      row_at te_id (vs_events (capture (vs_locks vs) d')) k = Some (if k = e then u r else r)" .
  have "holds_events (set (e # ids) \<union> {k. EventKey k \<in> set [EventKey e]}) d (capture (add_locks [EventKey e] (vs_locks vs)) d')"
    using u by (intro events_captured [OF held _ _ d']) auto
  moreover have "add_locks [EventKey e] (vs_locks vs) = vs_locks vs"
    using held by (simp add: holds_events_def)
  ultimately have "holds_events (set (e # ids)) d (capture (vs_locks vs) d')"
    by (simp add: holds_events_def)
  then have "holds_events (set ids) d (capture (vs_locks vs) d')" by (auto simp: holds_events_def)
  moreover have "\<exists>r. row_at te_id (vs_events (capture (vs_locks vs) d')) k = Some r \<and> te_published_at r = None"
    if "k \<in> set ids" for k
  proof -
    from vs that obtain r where "row_at te_id (vs_events vs) k = Some r" "te_published_at r = None"
      by (auto simp: unsent_def)
    with look [OF this(1)] dist that show ?thesis by auto
  qed
  ultimately show "unsent ids d (capture (vs_locks vs) d')" using dist by (simp add: unsent_def)
qed

lemma pick_versions:
  assumes "distinct (map te_id rows)" and "set rows \<subseteq> set (db_trip_events d)" and "orderly d"
    and "\<forall>r \<in> set rows. te_published_at r = None"
  shows "unsent (map te_id rows) d (capture (map (\<lambda>r. EventKey (te_id r)) rows) d)"
proof -
  let ?ks = "map (\<lambda>r. EventKey (te_id r)) rows"
  have same: "update_rows (\<lambda>_. False) (\<lambda>e. e) es = es" for es :: "trip_event_row list"
    by (simp add: update_rows_def)
  have dist: "distinct ?ks" using assms(1) by (induction rows) auto
  then have locks: "add_locks ?ks (vs_locks no_rows) = ?ks" by (simp add: add_locks_def distinct_remdups_id)
  have "holds_events ({} \<union> {k. EventKey k \<in> set ?ks}) d (capture (add_locks ?ks (vs_locks no_rows)) d)"
    by (rule events_captured [OF holds_events_idle [OF refl], where u = "\<lambda>e. e" and p = "\<lambda>_. False"])
      (auto simp: sent_on_def same)
  then have "holds_events {k. EventKey k \<in> set ?ks} d (capture ?ks d)" unfolding locks by simp
  then have "holds_events (set (map te_id rows)) d (capture ?ks d)" by (auto simp: holds_events_def)
  moreover have "\<exists>r. row_at te_id (vs_events (capture ?ks d)) k = Some r \<and> te_published_at r = None"
    if "k \<in> set (map te_id rows)" for k
  proof -
    from that obtain r where r: "r \<in> set rows" "k = te_id r" by auto
    then have "EventKey k \<in> set ?ks" by auto
    then have "row_at te_id (vs_events (capture ?ks d)) k = row_at te_id (db_trip_events d) k" by (rule capture_event)
    also have "\<dots> = Some r"
      unfolding r(2) using r(1) assms(2) by (intro row_at_distinct orderly_keys [OF assms(3)]) auto
    finally show ?thesis using r(1) assms(4) by auto
  qed
  ultimately show ?thesis using assms(1) by (simp add: unsent_def)
qed


section \<open>Steps\<close>

lemma sent_where:
  assumes "sends_ok v" and "e \<in> set (sv_sent v)"
  shows "is_published (sv_db v) e \<or> (\<exists>j < length (sv_sessions v). has_sent (sv_sessions v ! j) e)"
proof -
  from assms have "is_published (sv_db v) e \<or> (\<exists>s \<in> set (sv_sessions v). has_sent s e)" by (simp add: sends_ok_def)
  then show ?thesis by (metis in_set_conv_nth)
qed

lemma sends_put:
  assumes v: "sends_ok v" and i: "i < length (sv_sessions v)"
    and sessions: "sv_sessions v' = (sv_sessions v)[i := s']"
    and d': "orderly (sv_db v')" "plain_events (sv_db v')" "db_vehicles (sv_db v') = db_vehicles (sv_db v)"
      "db_users (sv_db v') = db_users (sv_db v)" "\<And>k. k \<in> set (busy v i) \<Longrightarrow> same_row (sv_db v) (sv_db v') k"
      "\<And>e. is_published (sv_db v) e \<Longrightarrow> is_published (sv_db v') e"
    and s': "publisher_ok (sv_db v') s'" "\<forall>k \<in> set (vs_locks (se_rows s')). k \<notin> set (busy v i)"
    and sent: "distinct (sv_sent v')" "\<And>e. e \<in> set (sv_sent v') \<Longrightarrow> e \<in> set (sv_sent v) \<or> has_sent s' e"
      "\<And>e. has_sent (sv_sessions v ! i) e \<Longrightarrow> has_sent s' e \<or> is_published (sv_db v') e"
  shows "sends_ok v'"
proof -
  let ?n = "length (sv_sessions v)"
  have locks: "locks_of v' j = (if j = i then vs_locks (se_rows s') else locks_of v j)" if "j < ?n" for j
    using that i by (simp add: locks_of_def sessions nth_list_update)
  have ok: "publisher_ok (sv_db v) (sv_sessions v ! j)" if "j < ?n" for j
    using v that by (simp add: sends_ok_def)
  have "publisher_ok (sv_db v') (sv_sessions v' ! j)" if j: "j < ?n" for j
  proof (cases "j = i")
    case False
    then have "\<forall>k \<in> set (locks_of v j). k \<in> set (busy v i)" using j by (auto simp: in_busy)
    then have "around (set (vs_locks (se_rows (sv_sessions v ! j)))) (sv_db v) (sv_db v')"
      using d' by (auto simp: around_def locks_of_def)
    with publisher_around [OF ok [OF j]] False show ?thesis by (simp add: sessions)
  qed (use s'(1) i in \<open>simp add: sessions\<close>)
  then have "\<forall>s \<in> set (sv_sessions v'). publisher_ok (sv_db v') s"
    by (auto simp: in_set_conv_nth sessions)
  moreover have "k \<notin> set (busy v' j)" if "j < ?n" "k \<in> set (locks_of v' j)" for j k
    using v that s'(2) i by (auto simp: in_busy locks sends_ok_def sessions split: if_splits)
  moreover have "is_published (sv_db v') e \<or> (\<exists>s \<in> set (sv_sessions v'). has_sent s e)" if e: "e \<in> set (sv_sent v')" for e
  proof (cases "has_sent s' e")
    case True
    have "s' \<in> set (sv_sessions v')" using i by (simp add: sessions set_update_memI)
    with True show ?thesis by blast
  next
    case False
    with sent(2) [OF e] have "e \<in> set (sv_sent v)" by blast
    from sent_where [OF v this] consider "is_published (sv_db v) e" | j where "j < ?n" "has_sent (sv_sessions v ! j) e"
      by blast
    then show ?thesis
    proof cases
      case 2
      show ?thesis
      proof (cases "j = i")
        case True
        with 2 sent(3) False show ?thesis by blast
      next
        case False
        then have "sv_sessions v ! j \<in> set (sv_sessions v')"
          using 2(1) by (metis length_list_update nth_list_update_neq nth_mem sessions)
        with 2(2) show ?thesis by blast
      qed
    qed (use d'(6) in blast)
  qed
  ultimately show ?thesis using d'(1,2) sent(1) by (simp add: sends_ok_def sessions)
qed

text \<open>The same when only the session changes.\<close>

lemma sends_put_same:
  assumes "sends_ok v" and "i < length (sv_sessions v)" and "sv_sessions v' = (sv_sessions v)[i := s']"
    and "sv_db v' = sv_db v" and "publisher_ok (sv_db v) s'" and "\<forall>k \<in> set (vs_locks (se_rows s')). k \<notin> set (busy v i)"
    and "distinct (sv_sent v')" and "\<And>e. e \<in> set (sv_sent v') \<Longrightarrow> e \<in> set (sv_sent v) \<or> has_sent s' e"
    and "\<And>e. has_sent (sv_sessions v ! i) e \<Longrightarrow> has_sent s' e"
  shows "sends_ok v'"
  by (rule sends_put [OF assms(1-3)])
    (use assms around_refl [of UNIV "sv_db v"] in \<open>auto simp: sends_ok_def around_def\<close>)

lemma idle_sent: "publisher_ok d s \<Longrightarrow> se_rows s = no_rows \<Longrightarrow> \<not> has_sent s e"
  by (auto dest: has_sent_holds)

text \<open>An event in hand has not been sent by anyone.\<close>

lemma in_hand_unsent:
  assumes v: "sends_ok v" and i: "i < length (sv_sessions v)"
    and s: "sv_sessions v ! i = \<lparr>se_prog = send_all (e # ids), se_rows = vs\<rparr>"
    and un: "unsent (e # ids) (sv_db v) vs"
  shows "e \<notin> set (sv_sent v)"
proof
  assume "e \<in> set (sv_sent v)"
  from sent_where [OF v this] unsent_not_published [OF un]
  obtain j where j: "j < length (sv_sessions v)" "has_sent (sv_sessions v ! j) e" by blast
  from v j(1) have "publisher_ok (sv_db v) (sv_sessions v ! j)" by (simp add: sends_ok_def)
  from has_sent_holds [OF this j(2)] have "EventKey e \<in> set (locks_of v j)" by (simp add: locks_of_def)
  moreover have "EventKey e \<in> set (locks_of v i)"
    using un by (simp add: locks_of_def s unsent_def holds_events_def)
  ultimately have "j = i" using v i j(1) by (auto simp: sends_ok_def in_busy)
  with j(2) un show False
    by (auto simp: has_sent_def s unsent_def marking_def send_event_def query_then_def)
qed


lemma commit_sends:
  assumes d: "orderly d" "plain_events d" and un: "unsent [] d vs"
  shows "orderly (install vs d)" and "plain_events (install vs d)" and "is_published d e \<Longrightarrow> is_published (install vs d) e"
    and "row_at te_id (vs_events vs) e = Some r \<Longrightarrow> te_published_at r \<noteq> None \<Longrightarrow> is_published (install vs d) e"
proof -
  have held: "holds_events {} d vs" using un by (simp add: unsent_def)
  have "install vs d = d\<lparr>db_trip_events := install_rows te_id (vs_events vs) (db_trip_events d)\<rparr>"
    using held by (intro db.equality) (simp_all add: holds_events_def)
  moreover have "orderly_step\<^sup>*\<^sup>* d (d\<lparr>db_trip_events := install_rows te_id (vs_events vs) (db_trip_events d)\<rparr>)"
    using held by (intro install_events_steps orderly_keys [OF d(1)]) (auto simp: holds_events_def)
  ultimately show "orderly (install vs d)" using rides.steps_good d(1) by simp
  have version: "\<exists>c. row_at te_id (db_trip_events d) (te_id v) = Some c \<and> sent_on c v" if "v \<in> set (vs_events vs)" for v
    using held that by (simp add: holds_events_def)
  show "is_published (install vs d) e" if "is_published d e"
  proof -
    from that obtain c where c: "row_at te_id (db_trip_events d) e = Some c" "te_published_at c \<noteq> None"
      by (auto simp: is_published_def)
    show ?thesis
    proof (cases "row_at te_id (vs_events vs) e")
      case None
      with c show ?thesis by (simp add: is_published_def row_at_install)
    next
      case (Some v)
      note v = row_at_SomeD [OF Some]
      from version [of v] v c(1) have "sent_on c v" by auto
      with c(2) Some show ?thesis by (simp add: is_published_def row_at_install sent_on_def)
    qed
  qed
  show "row_at te_id (vs_events vs) e = Some r \<Longrightarrow> te_published_at r \<noteq> None \<Longrightarrow> is_published (install vs d) e"
    by (simp add: is_published_def row_at_install)
  have "\<exists>c \<in> set (db_trip_events d). te_payload x = te_payload c" if "x \<in> set (db_trip_events (install vs d))" for x
  proof -
    from that consider "x \<in> set (vs_events vs)" | "x \<in> set (db_trip_events d)"
      unfolding install_tables install_rows_def by (auto split: option.splits dest!: row_at_SomeD)
    then show ?thesis
    proof cases
      case 1
      from version [OF this] obtain c where c: "row_at te_id (db_trip_events d) (te_id x) = Some c" "sent_on c x" by blast
      with row_at_SomeD [OF c(1)] show ?thesis by (auto simp: sent_on_def)
    qed blast
  qed
  with d(2) show "plain_events (install vs d)" by (fastforce simp: plain_events_def)
qed


lemma advance_query:
  assumes "take_move Go i (Query ks st) vs v = Some v'"
    and "st (busy v i) (sv_sys v) (install vs (sv_db v)) = (Inr (p, d), s)"
  shows "v' = put i p (capture (add_locks (ks (busy v i) (sv_sys v) (install vs (sv_db v))) (vs_locks vs)) d) (v\<lparr>sv_sys := s\<rparr>)"
    and "\<forall>k \<in> set (ks (busy v i) (sv_sys v) (install vs (sv_db v))). k \<notin> set (busy v i)"
  using assms by (auto simp: Let_def list_ex_iff split: if_splits)

text \<open>A publisher takes its events.\<close>

lemma pick_keeps:
  assumes v: "sends_ok v" and i: "i < length (sv_sessions v)"
    and s: "sv_sessions v ! i = \<lparr>se_prog = Query ks st, se_rows = no_rows\<rparr>"
    and adv: "take_move Go i (Query ks st) no_rows v = Some v'"
    and st: "st (busy v i) (sv_sys v) (sv_db v) = (Inr (send_all (map te_id rows), sv_db v), sv_sys v)"
    and ks: "ks (busy v i) (sv_sys v) (sv_db v) = map (\<lambda>r. EventKey (te_id r)) rows"
    and rows: "distinct (map te_id rows)" "set rows \<subseteq> set (db_trip_events (sv_db v))"
      "\<forall>r \<in> set rows. te_published_at r = None"
  shows "sends_ok v'"
proof -
  let ?ks = "map (\<lambda>r. EventKey (te_id r)) rows"
  note q = advance_query [OF adv, unfolded no_rows_simps ks, OF st]
  have "distinct ?ks" using rows(1) by (induction rows) auto
  then have locks: "add_locks ?ks [] = ?ks" by (simp add: add_locks_def distinct_remdups_id)
  have d: "orderly (sv_db v)" using v by (simp add: sends_ok_def)
  have un: "unsent (map te_id rows) (sv_db v) (capture ?ks (sv_db v))"
    by (rule pick_versions [OF rows(1,2) d rows(3)])
  have ok: "publisher_ok (sv_db v) (sv_sessions v ! i)" using v i by (simp add: sends_ok_def)
  show ?thesis
  proof (rule sends_put_same [OF v i])
    show "sv_sessions v' = (sv_sessions v)[i := \<lparr>se_prog = send_all (map te_id rows), se_rows = capture ?ks (sv_db v)\<rparr>]"
      unfolding q(1) locks by (simp add: put_def)
    show "publisher_ok (sv_db v) \<lparr>se_prog = send_all (map te_id rows), se_rows = capture ?ks (sv_db v)\<rparr>"
      using un by (auto simp: publisher_ok_def)
    show "has_sent (sv_sessions v ! i) e \<Longrightarrow> has_sent s' e" for e s'
      using idle_sent [OF ok] s by simp
  qed (use q(2) v in \<open>auto simp: q(1) put_def sends_ok_def\<close>)
qed

lemma distinct_single: "distinct xs \<Longrightarrow> set xs \<subseteq> {a} \<Longrightarrow> xs = (if xs = [] then [] else [a])"
  by (cases xs; cases "tl xs") auto

lemma publisher_starts:
  assumes v: "sends_ok v" and i: "i < length (sv_sessions v)"
    and s: "sv_sessions v ! i = \<lparr>se_prog = p, se_rows = no_rows\<rparr>" and p: "publisher p"
    and adv: "take_move Go i p no_rows v = Some v'"
  shows "sends_ok v'"
  using p
proof cases
  case (1 X)
  have d: "orderly (sv_db v)" "plain_events (sv_db v)" using v by (simp_all add: sends_ok_def)
  let ?rows = "unlocked_pending (busy v i) (sv_db v)"
  have sub: "set ?rows \<subseteq> {e \<in> set (db_trip_events (sv_db v)). te_published_at e = None}"
    by (auto simp: unlocked_pending_def dest!: in_set_takeD)
  then have plain: "send_rows X ?rows = send_all (map te_id ?rows)"
    using d(2) by (intro send_rows_plain) (auto simp: plain_events_def)
  have "distinct (map te_id (sort_key te_id (filter q (db_trip_events (sv_db v)))))" for q
    using orderly_keys(3) [OF d(1)] by (simp add: distinct_map inj_on_def)
  then have "distinct (map te_id ?rows)"
    unfolding unlocked_pending_def take_map [symmetric] by (rule distinct_take)
  with sub show ?thesis
    by (intro pick_keeps [OF v i s [unfolded 1 flush_tx_def] adv [unfolded 1 flush_tx_def], of ?rows]) (auto simp: plain)
next
  case (2 eid)
  have d: "orderly (sv_db v)" using v by (simp add: sends_ok_def)
  let ?rows = "filter (\<lambda>e. te_id e = eid \<and> te_published_at e = None \<and> EventKey eid \<notin> set (busy v i))
      (db_trip_events (sv_db v))"
  have dist: "distinct (map te_id ?rows)"
    using orderly_keys(3) [OF d] by (simp add: distinct_map inj_on_def)
  have "te_id r = eid" if "r \<in> set ?rows" for r using that by simp
  then have "set (map te_id ?rows) \<subseteq> {eid}" by auto
  from distinct_single [OF dist this] have ids: "map te_id ?rows = (if ?rows = [] then [] else [eid])" by simp
  have locked: "unlocked_event eid (busy v i) (sv_db v) = map (\<lambda>r. EventKey (te_id r)) ?rows"
    by (simp add: unlocked_event_def)
  have "(if unlocked_event eid (busy v i) (sv_db v) = [] then Commit Done else send_event eid (Commit Done)) =
      send_all (map te_id ?rows)"
    unfolding ids locked by simp
  with dist show ?thesis
    by (intro pick_keeps [OF v i s [unfolded 2 publish_tx_def] adv [unfolded 2 publish_tx_def], of ?rows])
      (auto simp: locked)
qed

lemma query_then_inj:
  "query_then ks st rest = query_then ks' st' rest' \<Longrightarrow> ks = ks' \<and>
     (\<forall>s d. (case st s d of (Inl e, s') \<Rightarrow> (Inl e, s') | (Inr (x, d'), s') \<Rightarrow> (Inr (rest x, d'), s')) =
            (case st' s d of (Inl e, s') \<Rightarrow> (Inl e, s') | (Inr (x, d'), s') \<Rightarrow> (Inr (rest' x, d'), s')))"
  unfolding query_then_def prog.inject by (metis (no_types))

lemma marking_inj: "marking e ids = marking e' ids' \<Longrightarrow> e = e'"
  unfolding marking_def by (drule query_then_inj) (auto dest: fun_cong)

lemma marking_not_failing: "marking e ids \<noteq> failing e' ids'"
proof
  assume eq: "marking e ids = failing e' ids'"
  note same = query_then_inj [OF eq [unfolded marking_def failing_def]]
  from same have e: "e' = e" by (auto dest: fun_cong)
  let ?d = "empty_db\<lparr>db_trip_events := [event_row e 0 [] [] []]\<rparr>"
  let ?s = "\<lparr>sys_now = 0, sys_uuids = 0, sys_events = 0\<rparr> :: sys"
  from same have "(case mark_published e ?s ?d of (Inl err, s') \<Rightarrow> (Inl err, s') | (Inr (x, d'), s') \<Rightarrow> (Inr (send_all ids, d'), s')) =
      (case mark_publish_failed e (exn_text (Unavailable ''kafka'')) ?s ?d of (Inl err, s') \<Rightarrow> (Inl err, s')
       | (Inr (x, d'), s') \<Rightarrow> (Inr (send_all ids', d'), s'))" unfolding e by blast
  then show False
    by (simp add: mark_published_def mark_publish_failed_def update_events_def update_rows_def event_row_def empty_db_def)
qed

lemma mark_keeps:
  assumes v: "sends_ok v" and i: "i < length (sv_sessions v)"
    and s: "sv_sessions v ! i = \<lparr>se_prog = query_then (\<lambda>s d. [EventKey e]) (update_events e u) (\<lambda>_. send_all ids), se_rows = vs\<rparr>"
    and adv: "take_move Go i (query_then (\<lambda>s d. [EventKey e]) (update_events e u) (\<lambda>_. send_all ids)) vs v = Some v'"
    and un: "unsent (e # ids) (sv_db v) vs" and u: "\<And>now r. sent_on r (u now r)"
    and sent: "\<And>e'. has_sent (sv_sessions v ! i) e' \<Longrightarrow>
      (\<exists>r. row_at te_id (vs_events vs) e' = Some r \<and> te_published_at r \<noteq> None) \<or>
      (e' = e \<and> (\<forall>now r. te_published_at (u now r) \<noteq> None))"
  shows "sends_ok v'"
proof -
  let ?d = "(install vs (sv_db v))\<lparr>db_trip_events :=
    update_rows (\<lambda>r. te_id r = e) (u (sys_now (sv_sys v))) (db_trip_events (install vs (sv_db v)))\<rparr>"
  let ?s' = "\<lparr>se_prog = send_all ids, se_rows = capture (vs_locks vs) ?d\<rparr>"
  have free: "\<forall>k \<in> set (vs_locks vs). k \<notin> set (busy v i)"
    using v i s by (auto simp: sends_ok_def locks_of_def)
  have held: "EventKey e \<in> set (vs_locks vs)" using un by (simp add: unsent_def holds_events_def)
  have "v' = put i (send_all ids) (capture (add_locks [EventKey e] (vs_locks vs)) ?d) (v\<lparr>sv_sys := sv_sys v\<rparr>)"
    by (rule advance_query(1) [OF adv [unfolded query_then_def]]) (simp add: update_events_def)
  then have v': "v' = put i (send_all ids) (capture (vs_locks vs) ?d) v" using held by simp
  note marked = mark_versions [where u = "u (sys_now (sv_sys v))", OF un u refl]
  show ?thesis
  proof (rule sends_put_same [OF v i])
    show "sv_sessions v' = (sv_sessions v)[i := ?s']" by (simp add: v' put_def)
    show "publisher_ok (sv_db v) ?s'" using marked(1) by (auto simp: publisher_ok_def)
    show "has_sent ?s' e'" if "has_sent (sv_sessions v ! i) e'" for e'
    proof -
      from sent [OF that] obtain r where "row_at te_id (vs_events vs) e' = Some r"
        "te_published_at r \<noteq> None \<or> (e' = e \<and> (\<forall>now r. te_published_at (u now r) \<noteq> None))"
        using un by (auto simp: unsent_def)
      with marked(2) u show ?thesis by (fastforce simp: has_sent_def sent_on_def)
    qed
  qed (use free v in \<open>auto simp: v' put_def sends_ok_def\<close>)
qed

lemma calm_advance:
  assumes v: "sends_ok v" and i: "i < length (sv_sessions v)"
    and s: "sv_sessions v ! i = \<lparr>se_prog = p, se_rows = vs\<rparr>"
    and adv: "take_move m i p vs v = Some v'" and m: "m \<noteq> Crash"
  shows "sends_ok v'"
proof -
  have ok: "publisher_ok (sv_db v) (sv_sessions v ! i)" using v i by (simp add: sends_ok_def)
  have d: "orderly (sv_db v)" "plain_events (sv_db v)"
    and free: "\<forall>k \<in> set (vs_locks vs). k \<notin> set (busy v i)" and sent: "distinct (sv_sent v)"
    using v i s by (auto simp: sends_ok_def locks_of_def)
  from ok consider (idle) "vs = no_rows" "publisher p" | (ended) "p = Done"
    | (sending) ids where "p = send_all ids" "unsent ids (sv_db v) vs"
    | (mark) e ids where "p = marking e ids" "unsent (e # ids) (sv_db v) vs"
    | (fail) e ids where "p = failing e ids" "unsent (e # ids) (sv_db v) vs"
    by (auto simp: publisher_ok_def s)
  then show ?thesis
  proof cases
    case idle
    have "m = Go" using adv idle(2) m by (cases m) (auto simp: flush_tx_def publish_tx_def elim!: publisher.cases)
    with publisher_starts [OF v i] s adv idle show ?thesis by simp
  next
    case ended
    with adv show ?thesis by simp
  next
    case (sending ids)
    show ?thesis
    proof (cases ids)
      case Nil
      have v': "v' = put i Done no_rows (v\<lparr>sv_db := install vs (sv_db v)\<rparr>)"
        using adv m sending(1) Nil by (cases m) auto
      note c = commit_sends [OF d sending(2) [unfolded Nil]]
      have cov: "covered vs" using sending(2) holds_events_covered by (auto simp: unsent_def)
      show ?thesis
      proof (rule sends_put [OF v i])
        show "sv_sessions v' = (sv_sessions v)[i := \<lparr>se_prog = Done, se_rows = no_rows\<rparr>]" by (simp add: v' put_def)
        show "k \<in> set (busy v i) \<Longrightarrow> same_row (sv_db v) (sv_db v') k" for k
          using same_row_install [OF cov] free by (auto simp: v' put_def)
        show "has_sent (sv_sessions v ! i) e \<Longrightarrow> has_sent s' e \<or> is_published (sv_db v') e" for e s'
          using c(4) by (auto simp: has_sent_def s sending(1) Nil marking_def query_then_def v' put_def)
      qed (use c sent in \<open>auto simp: v' put_def publisher_ok_def\<close>)
    next
      case (Cons e rest)
      have un: "unsent (e # rest) (sv_db v) vs" using sending(2) Cons by simp
      have p: "p = Produce e (marking e rest) (failing e rest)" using sending(1) Cons by (simp add: send_event_eq)
      have not: "\<not> has_sent (sv_sessions v ! i) e'" if "\<forall>r. row_at te_id (vs_events vs) e' = Some r \<longrightarrow> te_published_at r = None" for e'
        using that by (auto simp: has_sent_def s p marking_def query_then_def)
      have keeps: "has_sent (sv_sessions v ! i) e' \<Longrightarrow> has_sent \<lparr>se_prog = q, se_rows = vs\<rparr> e'" for e' q
        by (auto simp: has_sent_def s p marking_def query_then_def)
      have held: "EventKey e \<in> set (vs_locks vs)" using un by (simp add: unsent_def holds_events_def)
      show ?thesis
      proof (cases m)
        case Go
        with adv p have v': "v' = put i (marking e rest) vs (v\<lparr>sv_sent := sv_sent v @ [e]\<rparr>)" by simp
        have "e \<notin> set (sv_sent v)"
          using in_hand_unsent [OF v i _ un] s sending(1) Cons by simp
        then show ?thesis
        proof (intro sends_put_same [OF v i])
          show "sv_sessions v' = (sv_sessions v)[i := \<lparr>se_prog = marking e rest, se_rows = vs\<rparr>]" by (simp add: v' put_def)
        qed (use un sent free held keeps in \<open>auto simp: v' put_def publisher_ok_def has_sent_def\<close>)
      next
        case SendFails
        with adv p have v': "v' = put i (failing e rest) vs v" by simp
        show ?thesis
        proof (intro sends_put_same [OF v i])
          show "sv_sessions v' = (sv_sessions v)[i := \<lparr>se_prog = failing e rest, se_rows = vs\<rparr>]" by (simp add: v' put_def)
        qed (use un sent free keeps in \<open>auto simp: v' put_def publisher_ok_def\<close>)
      qed (use m in simp)
    qed
  next
    case (mark e ids)
    have "m = Go" using adv mark(1) m by (cases m) (auto simp: marking_def query_then_def)
    have sent: "(\<exists>r. row_at te_id (vs_events vs) e' = Some r \<and> te_published_at r \<noteq> None) \<or> e' = e"
      if "has_sent (sv_sessions v ! i) e'" for e'
      using that by (auto simp: has_sent_def s mark(1) dest: marking_inj)
    show ?thesis
      by (rule mark_keeps [OF v i s [unfolded mark(1) marking_def mark_published_def]
            adv [unfolded \<open>m = Go\<close> mark(1) marking_def mark_published_def] mark(2)])
        (use sent in \<open>auto simp: sent_on_def\<close>)
  next
    case (fail e ids)
    have "m = Go" using adv fail(1) m by (cases m) (auto simp: failing_def query_then_def)
    have sent: "\<exists>r. row_at te_id (vs_events vs) e' = Some r \<and> te_published_at r \<noteq> None"
      if "has_sent (sv_sessions v ! i) e'" for e'
      using that marking_not_failing [of _ _ e ids] by (auto simp: has_sent_def s fail(1) eq_commute [of "failing _ _"])
    show ?thesis
      by (rule mark_keeps [OF v i s [unfolded fail(1) failing_def mark_publish_failed_def]
            adv [unfolded \<open>m = Go\<close> fail(1) failing_def mark_publish_failed_def] fail(2)])
        (use sent in \<open>auto simp: sent_on_def\<close>)
  qed
qed


lemma calm_keeps:
  assumes "calm_step v v'" and v: "sends_ok v"
  shows "sends_ok v'"
  using assms(1)
proof cases
  case (calm m i)
  then have i: "i < length (sv_sessions v)" by (simp add: move_session_def split: if_splits)
  have "sv_sessions v ! i = \<lparr>se_prog = se_prog (sv_sessions v ! i), se_rows = se_rows (sv_sessions v ! i)\<rparr>" by simp
  from calm_advance [OF v i this] calm i show ?thesis by (auto simp: move_session_def)
next
  case (calm_ticks t)
  with v show ?thesis by (simp add: sends_ok_def locks_of_def busy_def)
qed

lemma calm_run: "calm_step\<^sup>*\<^sup>* v v' \<Longrightarrow> sends_ok v \<Longrightarrow> sends_ok v'"
  by (induction rule: rtranclp_induct) (auto intro: calm_keeps)

lemma publishers_ok:
  assumes "orderly (sv_db v)" and "plain_events (sv_db v)" and "sv_sent v = []"
    and "sv_sessions v = map client ps" and "list_all publisher ps"
  shows "sends_ok v"
  using assms
  by (auto simp: sends_ok_def client_def publisher_ok_def list_all_iff locks_of_def)

text \<open>When every publisher has ended, what was sent is marked as published.\<close>

lemma ended_published:
  assumes v: "sends_ok v" and ended: "list_all (\<lambda>s. se_prog s = Done) (sv_sessions v)" and e: "e \<in> set (sv_sent v)"
  shows "is_published (sv_db v) e"
proof -
  have "\<not> has_sent (sv_sessions v ! j) e" if j: "j < length (sv_sessions v)" for j
  proof -
    have "publisher_ok (sv_db v) (sv_sessions v ! j)" and "se_prog (sv_sessions v ! j) = Done"
      using v ended j by (simp_all add: sends_ok_def list_all_length)
    then have "se_rows (sv_sessions v ! j) = no_rows"
      using send_all_not_Done send_all_not_Done [symmetric]
      by (auto simp: publisher_ok_def marking_def failing_def query_then_def)
    with idle_sent [OF \<open>publisher_ok _ _\<close>] show ?thesis by blast
  qed
  with sent_where [OF v e] show ?thesis by blast
qed

end
