(* ===== verification/ConcurrencyProperties.thy ===== *)
theory ConcurrencyProperties
  imports TripTransactions PublishOnce SampleCity ApiProperties
begin

text \<open>
  The properties of transactions that run side by side: whatever their order, what they commit are
  steps of \<open>BookingSpec\<close>, they never block each other for good, and the transaction of the matcher
  is the one its handler issues.
\<close>

section \<open>Handlers and their transactions\<close>

definition alone :: "prog \<Rightarrow> versions \<Rightarrow> sys \<Rightarrow> db \<Rightarrow> server" where
  "alone p vs s d = \<lparr>sv_sys = s, sv_db = d, sv_sessions = [\<lparr>se_prog = p, se_rows = vs\<rparr>], sv_sent = []\<rparr>"

definition reaches :: "server \<Rightarrow> server \<Rightarrow> bool" where
  "reaches v v' \<longleftrightarrow> (\<exists>n. run_schedule (replicate n (Go, 0)) v = Some v')"

lemma reaches_refl: "reaches v v"
  unfolding reaches_def by (rule exI [of _ 0]) simp

lemma reaches_step: "move_session Go 0 v = Some v1 \<Longrightarrow> reaches v1 v' \<Longrightarrow> reaches v v'"
  unfolding reaches_def by (elim exE, rule_tac x = "Suc n" in exI) simp

lemma busy_alone [simp]: "busy (alone p vs s d) 0 = []"
  by (simp add: busy_def alone_def)

lemma alone_query:
  assumes "st s (install vs d) = (Inr (x, d'), s')"
    and "reaches (alone (rest x) (capture (add_locks (ks s (install vs d)) (vs_locks vs)) d') s' d) v'"
  shows "reaches (alone (query_then ks st rest) vs s d) v'"
  by (rule reaches_step [OF _ assms(2)])
    (use assms(1) busy_alone [of "query_then ks st rest" vs s d] in
      \<open>simp add: move_session_def query_then_def alone_def put_def Let_def list_ex_iff\<close>)

lemma alone_failed:
  assumes "st s (install vs d) = (Inl e, s')" and "reaches (alone Done no_rows s' d) v'"
  shows "reaches (alone (query_then ks st rest) vs s d) v'"
  by (rule reaches_step [OF _ assms(2)])
    (use assms(1) busy_alone [of "query_then ks st rest" vs s d] in
      \<open>simp add: move_session_def query_then_def alone_def put_def Let_def list_ex_iff\<close>)

lemma alone_end:
  "reaches (alone p no_rows s (install vs d)) v' \<Longrightarrow> reaches (alone (Commit p) vs s d) v'"
  "reaches (alone p no_rows s d) v' \<Longrightarrow> reaches (alone (Rollback p) vs s d) v'"
  by (rule reaches_step; simp add: move_session_def alone_def put_def)+

lemma with_client_served:
  assumes "w_faults w = []"
  shows "with_client body w = finally_do body release w"
  using assms by (simp add: with_client_def connect_def await_def call_served ret_def)

definition in_tx :: "db \<Rightarrow> sys \<Rightarrow> world \<Rightarrow> world" where
  "in_tx d s w = w\<lparr>w_sys := s, w_tx := Some \<lparr>tx_db = d, tx_aborted = False\<rparr>\<rparr>"

lemma query_in_tx_ok:
  assumes "w_faults w = []" and "st s d = (Inr (x, d'), s')"
  shows "await (query st) f (in_tx d s w) = f x (in_tx d' s' w)"
  using query_in_tx [of "in_tx d s w" d st x d' s'] assms by (simp add: in_tx_def await_def)

lemma query_in_tx_failed:
  assumes "w_faults w = []" and "st s d = (Inl e, s')"
  shows "\<exists>w1. await (query st) f (in_tx d s w) = (Inl e, w1) \<and> w_db w1 = w_db w \<and> w_sys w1 = s' \<and> w_faults w1 = []"
  using assms by (simp add: in_tx_def await_def query_served run_stmt_def abort_tx_def)


lemma rethrown:
  assumes "w_faults w1 = []"
  shows "\<exists>w2. rollback_rethrow e w1 = (Inl e, w2) \<and> w_db w2 = w_db w1 \<and> w_sys w2 = w_sys w1 \<and> w_faults w2 = []"
  using assms
  by (simp add: rollback_rethrow_def await_def rollback_def call_served ret_def throw_def close_tx_def)

definition match_ends :: "server \<Rightarrow> (exn + match_result option) \<times> world \<Rightarrow> bool" where
  "match_ends u res \<longleftrightarrow> sv_db u = w_db (snd res) \<and> sv_sys u = w_sys (snd res) \<and>
     map se_prog (sv_sessions u) =
       [case fst res of Inr (Some m) \<Rightarrow> publish_tx (mr_eventId m) | _ \<Rightarrow> Done]"

lemma match_ends_alone:
  "match_ends (alone p vs s d) (q, w) \<longleftrightarrow> d = w_db w \<and> s = w_sys w \<and>
     p = (case q of Inr (Some m) \<Rightarrow> publish_tx (mr_eventId m) | _ \<Rightarrow> Done)"
  by (auto simp: match_ends_def alone_def)

lemma client_outcome:
  fixes body :: "'a act"
  assumes "w_faults w = []" and "body (in_tx (w_db w) (w_sys w) w) = (q, w1)" and "w_faults w1 = []"
  shows "\<exists>w2. with_client (try_catch (await begin_tx (\<lambda>_. body)) rollback_rethrow) w = (q, w2) \<and>
    w_db w2 = w_db w1 \<and> w_sys w2 = w_sys w1"
proof -
  have began: "await begin_tx (\<lambda>_. body) w = (q, w1)"
    using assms(1,2) by (simp add: begin_tx_def await_def call_served set_state_def in_tx_def)
  show ?thesis
  proof (cases q)
    case (Inl e)
    obtain w2 where "(rollback_rethrow e :: 'a act) w1 = (Inl e, w2)" "w_db w2 = w_db w1" "w_sys w2 = w_sys w1"
      using rethrown [OF assms(3), of e, where ?'a = 'a] by blast
    with began Inl show ?thesis
      unfolding with_client_served [OF assms(1)]
      by (auto simp: finally_do_def try_catch_def release_def set_state_def close_tx_def)
  next
    case (Inr x)
    with began show ?thesis
      unfolding with_client_served [OF assms(1)]
      by (simp add: finally_do_def try_catch_def release_def set_state_def close_tx_def)
  qed
qed

lemma tx_ends:
  assumes "w_faults w = []"
  shows "\<exists>w1. await rollback f (in_tx d s w) = f () w1 \<and> w_db w1 = w_db w \<and> w_sys w1 = s \<and> w_faults w1 = []"
    and "\<exists>w1. await commit f (in_tx d s w) = f () w1 \<and> w_db w1 = d \<and> w_sys w1 = s \<and> w_faults w1 = []"
    and "\<exists>w1. await (zrem v) f w = f () w1 \<and> w_db w1 = w_db w \<and> w_sys w1 = w_sys w \<and> w_faults w1 = []"
proof -
  have f: "w_faults (in_tx d s w) = []" using assms by (simp add: in_tx_def)
  show "\<exists>w1. await rollback f (in_tx d s w) = f () w1 \<and> w_db w1 = w_db w \<and> w_sys w1 = s \<and> w_faults w1 = []"
    by (rule exI [of _ "close_tx (in_tx d s w)"])
      (use assms in \<open>simp add: rollback_def call_served [OF f] await_def ret_def, simp add: in_tx_def close_tx_def\<close>)
  show "\<exists>w1. await commit f (in_tx d s w) = f () w1 \<and> w_db w1 = d \<and> w_sys w1 = s \<and> w_faults w1 = []"
    by (rule exI [of _ "w\<lparr>w_sys := s, w_db := d, w_tx := None\<rparr>"])
      (use assms in \<open>simp add: commit_def call_served [OF f] await_def set_state_def, simp add: in_tx_def commit_now_def close_tx_def\<close>)
  show "\<exists>w1. await (zrem v) f w = f () w1 \<and> w_db w1 = w_db w \<and> w_sys w1 = w_sys w \<and> w_faults w1 = []"
    by (rule exI [of _ "w\<lparr>w_geo := al_del v (w_geo w)\<rparr>"])
      (use assms in \<open>simp add: zrem_def call_served await_def set_state_def\<close>)
qed

text \<open>After the claim: the driver's status, the event and the commit.\<close>

lemma book_alone:
  assumes d: "orderly d" and w: "w_faults w = []" "w_db w = d" and m: "holds_match False tid v vid d vs"
    and trip: "tr_id trip = tid"
  obtains q w1 u where
    "await (query (set_driver_status v OnTrip)) (\<lambda>_.
     await (query (insert_trip_event (tr_id trip) ''matched''
              (JObj [(''driver_id'', JStr v), (''vehicle_id'', JStr vid)]))) (\<lambda>eventId.
     await commit (\<lambda>_. await (zrem v) (\<lambda>_.
     ret (Some \<lparr>mr_tripId = tr_id trip, mr_driverId = v, mr_vehicleId = vid, mr_eventId = eventId\<rparr>)))))
     (in_tx (install vs d) s w) = (q, w1)" and "w_faults w1 = []"
    and "reaches (alone (set_status v OnTrip (record_event (tr_id trip) ''matched''
              [(''driver_id'', JStr v), (''vehicle_id'', JStr vid)] (\<lambda>eid. Commit (publish_tx eid)))) vs s d) u"
    and "match_ends u (q, w1)"
proof -
  let ?p = "[(''driver_id'', JStr v), (''vehicle_id'', JStr vid)]"
  let ?d2 = "with_driver_status v OnTrip (install vs d)"
  from m obtain r t since where r: "free_driver_row v vid d r" and t: "row_at tr_id (db_trips d) tid = Some t"
    "tr_status t = Requested" and vs: "vs = no_rows\<lparr>vs_locks := [TripKey tid, DriverKey v],
      vs_trips := [matched_row v vid since t], vs_drivers := [r]\<rparr>" by (auto simp: holds_match_def)
  define held where "held = capture [TripKey tid, DriverKey v] ?d2"
  note key = row_at_SomeD [OF t(1)] row_at_SomeD [OF r [unfolded free_driver_row_def, THEN conjunct1]]
  have t2: "row_at tr_id (db_trips ?d2) tid = Some (matched_row v vid since t)"
    using key by (simp add: vs row_at_install)
  have r2: "row_at dr_user_id (db_drivers ?d2) v = Some (r\<lparr>dr_status := OnTrip\<rparr>)"
    using key by (simp add: vs with_driver_status_drivers row_at_update row_at_install)
  from t2 r2 have vs2: "held = no_rows\<lparr>vs_locks := [TripKey tid, DriverKey v],
      vs_trips := [matched_row v vid since t], vs_drivers := [r\<lparr>dr_status := OnTrip\<rparr>]\<rparr>"
    by (simp add: held_def capture_simps no_rows_def)
  note driver = r [unfolded free_driver_row_def, THEN conjunct1]
  have d2: "install held d = ?d2"
    unfolding vs2 using install_match [OF d t driver] install_claim [OF d t driver] by (simp add: vs)
  have set: "set_driver_status v OnTrip s (install vs d) = (Inr ((), ?d2), s)" by (simp add: set_driver_status_eq)
  have locks: "add_locks [DriverKey v] (vs_locks vs) = [TripKey tid, DriverKey v]" by (simp add: vs)
  have engine: "reaches (alone (set_status v OnTrip rest) vs s d) u"
    if "reaches (alone rest held s d) u" for rest u
    unfolding set_status_def
    by (rule alone_query [where ks = "\<lambda>s d. [DriverKey v]" and st = "set_driver_status v OnTrip", OF set])
      (simp only: locks that held_def [symmetric])
  have act: "await (query (set_driver_status v OnTrip)) f (in_tx (install vs d) s w) = f () (in_tx ?d2 s w)" for f :: "unit \<Rightarrow> 'x act"
    by (rule query_in_tx_ok [where st = "set_driver_status v OnTrip", OF w(1) set])
  let ?st = "insert_trip_event (tr_id trip) ''matched'' (JObj ?p)"
  let ?ks = "\<lambda>(s :: sys) (d :: db). [EventKey (sys_events s)]"
  obtain res s' where st: "?st s ?d2 = (res, s')" by fastforce
  show thesis
  proof (cases res)
    case (Inl e)
    let ?tail = "\<lambda>eventId. await commit (\<lambda>_. await (zrem v) (\<lambda>_.
      ret (Some \<lparr>mr_tripId = tr_id trip, mr_driverId = v, mr_vehicleId = vid, mr_eventId = eventId\<rparr>)))"
    obtain w1 where w1: "await (query ?st) ?tail (in_tx ?d2 s w) = (Inl e, w1)" "w_db w1 = w_db w" "w_sys w1 = s'" "w_faults w1 = []"
      using query_in_tx_failed [where st = ?st, OF w(1) st [unfolded Inl], of ?tail] by blast
    have "reaches (alone (set_status v OnTrip (record_event (tr_id trip) ''matched'' ?p (\<lambda>eid. Commit (publish_tx eid)))) vs s d)
        (alone Done no_rows s' d)"
      unfolding record_event_def
      by (rule engine, rule alone_failed [where ks = ?ks and st = ?st], simp only: d2 st Inl, rule reaches_refl)
    then show thesis
      by (rule that [rotated 2]) (use w1 w in \<open>simp_all add: act match_ends_alone\<close>)
  next
    case (Inr xd)
    then obtain eid d' where st: "?st s ?d2 = (Inr (eid, d'), s')" using st by (cases xd) auto
    note new = insert_trip_event_Inr [OF st]
    let ?e = "event_row eid (sys_now s) (tr_id trip) ''matched'' ?p"
    let ?written = "with_event ?e held"
    have fresh: "row_at te_id (db_trip_events d) eid = None"
      using new(3) by (simp add: fresh_event_def row_at_None_iff vs)
    have "install ?written d = log_event eid (sys_now s) (tr_id trip) ''matched'' ?p (install held d)"
      using install_with_event [of held d ?e] fresh by (simp add: log_event_def vs2)
    then have d': "install ?written d = d'" by (simp only: d2 new(4))
    have kept: "capture (add_locks (?ks s (install held d)) (vs_locks held)) d' = ?written"
      unfolding new(4) new(1) [symmetric]
      using fresh t2 r2 by (simp add: vs2 capture_simps with_event_def no_rows_def row_at_append, simp add: vs)
    have "reaches (alone (set_status v OnTrip (record_event (tr_id trip) ''matched'' ?p (\<lambda>eid. Commit (publish_tx eid)))) vs s d)
        (alone (publish_tx eid) no_rows s' d')"
      unfolding record_event_def
      by (rule engine, rule alone_query [where ks = ?ks and st = ?st], simp only: d2 st, unfold kept,
          rule alone_end(1), unfold d', rule reaches_refl)
    moreover obtain w1 where "await (query ?st) (\<lambda>eventId. await commit (\<lambda>_. await (zrem v) (\<lambda>_.
        ret (Some \<lparr>mr_tripId = tr_id trip, mr_driverId = v, mr_vehicleId = vid, mr_eventId = eventId\<rparr>)))) (in_tx ?d2 s w) =
        (Inr (Some \<lparr>mr_tripId = tr_id trip, mr_driverId = v, mr_vehicleId = vid, mr_eventId = eid\<rparr>), w1)"
      "w_db w1 = d'" "w_sys w1 = s'" "w_faults w1 = []"
    proof -
      let ?m = "\<lparr>mr_tripId = tr_id trip, mr_driverId = v, mr_vehicleId = vid, mr_eventId = eid\<rparr>"
      from tx_ends(2) [OF w(1), of "\<lambda>_. await (zrem v) (\<lambda>_. ret (Some ?m))" d' s'] obtain w2 where
        w2: "await commit (\<lambda>_. await (zrem v) (\<lambda>_. ret (Some ?m))) (in_tx d' s' w) = await (zrem v) (\<lambda>_. ret (Some ?m)) w2"
        "w_db w2 = d'" "w_sys w2 = s'" "w_faults w2 = []" by blast
      from tx_ends(3) [OF w2(4), of v "\<lambda>_. ret (Some ?m)"] w2(2,3) obtain w3 where
        "await (zrem v) (\<lambda>_. ret (Some ?m)) w2 = ret (Some ?m) w3" "w_db w3 = d'" "w_sys w3 = s'" "w_faults w3 = []"
        by auto
      with w2(1) show ?thesis
        by (intro that) (simp_all add: query_in_tx_ok [where st = ?st, OF w(1) st] ret_def)
    qed
    moreover from this have "match_ends (alone (publish_tx eid) no_rows s' d')
        (Inr (Some \<lparr>mr_tripId = tr_id trip, mr_driverId = v, mr_vehicleId = vid, mr_eventId = eid\<rparr>), w1)"
      unfolding match_ends_alone by simp
    ultimately show thesis
      by (intro that [rotated 2]) (simp_all add: act)
  qed
qed


definition book :: "string \<Rightarrow> string \<Rightarrow> trip_row \<Rightarrow> (match_result option) act" where
  "book v vid trip =
     await (query (set_driver_status v OnTrip)) (\<lambda>_.
     await (query (insert_trip_event (tr_id trip) ''matched''
              (JObj [(''driver_id'', JStr v), (''vehicle_id'', JStr vid)]))) (\<lambda>eventId.
     await commit (\<lambda>_. await (zrem v) (\<lambda>_.
     ret (Some \<lparr>mr_tripId = tr_id trip, mr_driverId = v, mr_vehicleId = vid, mr_eventId = eventId\<rparr>)))))"

definition assign_body :: "json option \<Rightarrow> string \<Rightarrow> (match_result option) act" where
  "assign_body tripId v =
     await (query (select_vehicle v)) (\<lambda>vehicles.
     case vehicles of
       [] \<Rightarrow> await rollback (\<lambda>_. await (zrem v) (\<lambda>_. ret None))
     | vid # _ \<Rightarrow>
         await (query (claim_trip tripId v vid)) (\<lambda>trips.
         case trips of [] \<Rightarrow> await rollback (\<lambda>_. ret None) | trip # _ \<Rightarrow> book v vid trip))"

lemma assignDriver_eq:
  "assignDriver tripId v = with_client (try_catch (await begin_tx (\<lambda>_. assign_body tripId v)) rollback_rethrow)"
  unfolding assignDriver_def assign_body_def book_def ..

definition runs_as :: "prog \<Rightarrow> (match_result option) act \<Rightarrow> db \<Rightarrow> versions \<Rightarrow> sys \<Rightarrow> world \<Rightarrow> bool" where
  "runs_as p m d vs s w \<longleftrightarrow> (\<exists>u. reaches (alone p vs s (w_db w)) u \<and> match_ends u (m (in_tx d s w)) \<and>
     w_faults (snd (m (in_tx d s w))) = [])"

lemma runs_as_query:
  assumes "w_faults w = []" and "st s d = (Inr (x, d'), s')" and "install vs (w_db w) = d"
    and "runs_as (rest x) (f x) d' (capture (add_locks (ks s d) (vs_locks vs)) d') s' w"
  shows "runs_as (query_then ks st rest) (await (query st) f) d vs s w"
proof -
  from assms(4) obtain u where u: "reaches (alone (rest x) (capture (add_locks (ks s d) (vs_locks vs)) d') s' (w_db w)) u"
    "match_ends u (f x (in_tx d' s' w))" "w_faults (snd (f x (in_tx d' s' w))) = []" by (auto simp: runs_as_def)
  have "reaches (alone (query_then ks st rest) vs s (w_db w)) u"
    by (rule alone_query [where st = st and ks = ks, OF assms(2) [folded assms(3)]])
      (use u(1) assms(3) in metis)
  with u show ?thesis
    unfolding runs_as_def query_in_tx_ok [where st = st, OF assms(1,2)] by blast
qed

lemma runs_as_failed:
  assumes "w_faults w = []" and "st s d = (Inl e, s')" and "install vs (w_db w) = d"
  shows "runs_as (query_then ks st rest) (await (query st) f) d vs s w"
proof -
  obtain w1 where w1: "await (query st) f (in_tx d s w) = (Inl e, w1)" "w_db w1 = w_db w" "w_sys w1 = s'" "w_faults w1 = []"
    using query_in_tx_failed [where st = st, OF assms(1,2), of f] by blast
  have "reaches (alone (query_then ks st rest) vs s (w_db w)) (alone Done no_rows s' (w_db w))"
    by (rule alone_failed [where st = st, OF assms(2) [folded assms(3)] reaches_refl])
  moreover have "match_ends (alone Done no_rows s' (w_db w)) (Inl e, w1)"
    unfolding match_ends_alone using w1 by simp
  ultimately show ?thesis unfolding runs_as_def w1(1) snd_conv using w1(4) by blast
qed

lemma runs_as_rollback:
  assumes "w_faults w = []" and "f = (\<lambda>_. ret None) \<or> f = (\<lambda>_. await (zrem v) (\<lambda>_. ret None))"
  shows "runs_as (Rollback Done) (await rollback f) d vs s w"
proof -
  obtain w1 where w1: "await rollback f (in_tx d s w) = f () w1" "w_db w1 = w_db w" "w_sys w1 = s" "w_faults w1 = []"
    using tx_ends(1) [OF assms(1), of f d s] by auto
  obtain w2 where w2: "f () w1 = (Inr None, w2)" "w_db w2 = w_db w" "w_sys w2 = s" "w_faults w2 = []"
    using assms(2) tx_ends(3) [OF w1(4), of v "\<lambda>_. ret None"] w1(2-4) by (auto simp: ret_def)
  have "reaches (alone (Rollback Done) vs s (w_db w)) (alone Done no_rows s (w_db w))"
    by (rule alone_end(2), rule reaches_refl)
  moreover have "match_ends (alone Done no_rows s (w_db w)) (Inr None, w2)"
    unfolding match_ends_alone using w2 by simp
  ultimately show ?thesis unfolding runs_as_def w1(1) w2(1) snd_conv using w2(4) by blast
qed

lemma runs_as_book:
  assumes "orderly (w_db w)" and "w_faults w = []" and "holds_match False (tr_id trip) v vid (w_db w) vs"
    and "install vs (w_db w) = d"
  shows "runs_as (set_status v OnTrip (record_event (tr_id trip) ''matched''
     [(''driver_id'', JStr v), (''vehicle_id'', JStr vid)] (\<lambda>eid. Commit (publish_tx eid)))) (book v vid trip) d vs s w"
  using book_alone [OF assms(1,2) refl assms(3) refl, of s, folded book_def] assms(4)
  unfolding runs_as_def by (metis snd_conv)

lemma runs_as_match:
  assumes d: "orderly (w_db w)" and w: "w_faults w = []"
  shows "runs_as (match_tx tripId v) (assign_body tripId v) (w_db w) no_rows s w"
proof -
  let ?d = "w_db w"
  obtain vehicles where sel: "select_vehicle v s ?d = (Inr (vehicles, ?d), s)"
    by (auto simp: select_vehicle_def select_def)
  have ks: "selected_driver (select_vehicle v) v s ?d = (case vehicles of [] \<Rightarrow> [] | _ \<Rightarrow> [DriverKey v])"
    by (simp add: selected_driver_def sel split: list.split)
  show ?thesis
    unfolding match_tx_def assign_body_def
  proof (rule runs_as_query [where st = "select_vehicle v", OF w sel no_rows_simps(7)])
    let ?vs = "capture (add_locks (selected_driver (select_vehicle v) v s ?d) (vs_locks no_rows)) ?d"
    let ?rest = "\<lambda>vehicleId. query_then (returned_trips (claim_trip tripId v vehicleId) tr_id)
      (claim_trip tripId v vehicleId) (\<lambda>trips. case trips of [] \<Rightarrow> Rollback Done
      | trip # _ \<Rightarrow> set_status v OnTrip (record_event (tr_id trip) ''matched''
         [(''driver_id'', JStr v), (''vehicle_id'', JStr vehicleId)] (\<lambda>eventId. Commit (publish_tx eventId))))"
    let ?f = "\<lambda>vid. await (query (claim_trip tripId v vid)) (\<lambda>trips.
      case trips of [] \<Rightarrow> await rollback (\<lambda>_. ret None) | trip # _ \<Rightarrow> book v vid trip)"
    have "runs_as (?rest vid) (?f vid) ?d ?vs s w" if vehicles: "vehicles = vid # vids" for vid vids
    proof -
      from select_vehicle_Inr [OF sel [unfolded vehicles] d] obtain r where r: "free_driver_row v vid ?d r" by blast
      have vs: "?vs = no_rows\<lparr>vs_locks := [DriverKey v], vs_drivers := [r]\<rparr>"
        using r by (simp add: ks vehicles capture_simps free_driver_row_def no_rows_def)
      have held: "holds_driver v vid ?d ?vs" using r vs by (auto simp: holds_driver_def)
      note sees = holds_driver_sees [OF d held]
      obtain res s' where st: "claim_trip tripId v vid s ?d = (res, s')" by fastforce
      show ?thesis
      proof (cases res)
        case (Inl e)
        show ?thesis by (rule runs_as_failed [where st = "claim_trip tripId v vid", OF w st [unfolded Inl] sees])
      next
        case (Inr xd)
        then obtain trips d' where st: "claim_trip tripId v vid s ?d = (Inr (trips, d'), s')" using st by (cases xd) auto
        have locks: "returned_trips (claim_trip tripId v vid) tr_id s ?d = map (\<lambda>t. TripKey (tr_id t)) trips"
          by (simp add: returned_trips_def st)
        show ?thesis
        proof (rule runs_as_query [where st = "claim_trip tripId v vid", OF w st sees])
          show "runs_as (case trips of [] \<Rightarrow> Rollback Done | trip # _ \<Rightarrow> set_status v OnTrip (record_event (tr_id trip) ''matched''
              [(''driver_id'', JStr v), (''vehicle_id'', JStr vid)] (\<lambda>eventId. Commit (publish_tx eventId))))
            (case trips of [] \<Rightarrow> await rollback (\<lambda>_. ret None) | trip # _ \<Rightarrow> book v vid trip) d'
            (capture (add_locks (returned_trips (claim_trip tripId v vid) tr_id s ?d) (vs_locks ?vs)) d') s' w"
            using st d
          proof (cases rule: claim_trip_Inr)
            case none
            have "runs_as (Rollback Done) (await rollback (\<lambda>_. ret None)) d'
              (capture (add_locks (returned_trips (claim_trip tripId v vid) tr_id s ?d) (vs_locks ?vs)) d') s' w"
              by (rule runs_as_rollback [OF w]) blast
            then show ?thesis by (simp only: none(1) list.case)
          next
            case (one t)
            let ?t = "matched_row v vid (sys_now s) t"
            let ?vs2 = "capture (add_locks (returned_trips (claim_trip tripId v vid) tr_id s ?d) (vs_locks ?vs)) d'"
            have at: "row_at tr_id (db_trips d') (tr_id t) = Some ?t" using one by (simp add: row_at_update)
            have "row_at dr_user_id (db_drivers d') v = Some r" using one r by (simp add: free_driver_row_def)
            with at have vs2: "?vs2 = no_rows\<lparr>vs_locks := [TripKey (tr_id t), DriverKey v],
                vs_trips := [?t], vs_drivers := [r]\<rparr>"
              unfolding locks vs one(1) by (simp add: capture_simps no_rows_def)
            have "holds_match False (tr_id ?t) v vid ?d ?vs2"
              unfolding vs2 holds_match_def using r one by auto
            moreover have "install ?vs2 ?d = d'"
              unfolding vs2 install_claim [OF d one(2,3) r [unfolded free_driver_row_def, THEN conjunct1]]
              by (rule one(4) [symmetric])
            ultimately show ?thesis
              using runs_as_book [OF d w, of ?t v vid ?vs2 d'] by (simp only: one(1) list.case)
          qed
        qed
      qed
    qed
    moreover have "runs_as (Rollback Done) (await rollback (\<lambda>_. await (zrem v) (\<lambda>_. ret None))) ?d ?vs s w"
      by (rule runs_as_rollback [OF w]) blast
    ultimately show "runs_as (case vehicles of [] \<Rightarrow> Rollback Done | vehicleId # _ \<Rightarrow> ?rest vehicleId)
      (case vehicles of [] \<Rightarrow> await rollback (\<lambda>_. await (zrem v) (\<lambda>_. ret None)) | vid # _ \<Rightarrow> ?f vid) ?d ?vs s w"
      by (cases vehicles) simp_all
  qed
qed


text \<open>The transaction of the concurrent model is the handler's: when the servers answer, the matcher's
  \<open>assignDriver\<close> leaves the database and the counters exactly as its transaction does when it runs
  with no other session, ends with a match in the same cases, and goes on to publish the same event.\<close>

theorem match_handler_is_transaction:
  assumes "orderly (w_db w)" and "w_faults w = []"
  shows "\<exists>u. reaches (alone (match_tx tripId v) no_rows (w_sys w) (w_db w)) u \<and>
    match_ends u (assignDriver tripId v w)"
proof -
  let ?w = "in_tx (w_db w) (w_sys w) w"
  from runs_as_match [OF assms, of tripId v "w_sys w"] obtain u where u:
    "reaches (alone (match_tx tripId v) no_rows (w_sys w) (w_db w)) u" "match_ends u (assign_body tripId v ?w)"
    "w_faults (snd (assign_body tripId v ?w)) = []" unfolding runs_as_def by blast
  obtain q w1 where run: "assign_body tripId v ?w = (q, w1)" by fastforce
  with u(3) have "w_faults w1 = []" by simp
  from client_outcome [where body = "assign_body tripId v", OF assms(2) run this] obtain w2 where "assignDriver tripId v w = (q, w2)"
    "w_db w2 = w_db w1" "w_sys w2 = w_sys w1" unfolding assignDriver_eq by blast
  with u(1,2) run show ?thesis by (auto simp: match_ends_def)
qed

section \<open>Any number of sessions\<close>

lemma sample_orderly: "orderly sample_db"
  using sample_db_ok sample_exclusive
  by (simp add: orderly_def db_ok_def serving_on_trip_def sample_db_def sample_trip_def active_def)

theorem match_handler_is_transaction_witness:
  "\<exists>u. reaches (alone (match_tx (Some (JStr trip4)) driver2) no_rows (w_sys sample_world) sample_db) u \<and>
     match_ends u (assignDriver (Some (JStr trip4)) driver2 sample_world) \<and>
     map tr_status (db_trips (sv_db u)) = [Matched]"
proof -
  have db: "w_db sample_world = sample_db" by (simp add: sample_world_def)
  have "map tr_status (db_trips (w_db (snd (assignDriver (Some (JStr trip4)) driver2 sample_world)))) = [Matched]"
    by code_simp
  with match_handler_is_transaction [of sample_world "Some (JStr trip4)" driver2] sample_orderly show ?thesis
    by (auto simp: db match_ends_def sample_world_def)
qed

section \<open>Any number of sessions\<close>

text \<open>C6. Whatever the order in which the server takes their statements, and wherever connections are
  lost, any number of sessions that request, match, cancel, start and complete trips, record
  positions and publish events commit only steps of the booking specification, and every committed
  database is orderly: no driver has two trips, and a driver with a trip is \<open>on_trip\<close>.\<close>

theorem concurrent_rides_refine_spec:
  assumes "server_step\<^sup>*\<^sup>* v v'" and "orderly (sv_db v)" and "sv_sessions v = map client ps"
    and "list_all ride_tx ps"
  shows "core_step\<^sup>*\<^sup>* (sv_db v) (sv_db v') \<and> orderly (sv_db v')"
proof -
  from rides_side_by_side(2) [OF assms] have steps: "orderly_step\<^sup>*\<^sup>* (sv_db v) (sv_db v')" .
  have "core_step\<^sup>*\<^sup>* (sv_db v) (sv_db v')"
    by (rule mono_rtranclp [rule_format, OF _ steps]) (simp add: orderly_step_def)
  with rides.steps_good [OF steps assms(2)] show ?thesis by blast
qed

text \<open>Two riders, one driver: two matchers and a cancellation, taken in turns.\<close>

definition trip6 :: string where "trip6 = uuid_of (CHR ''6'')"

definition race_db :: db where
  "race_db = sample_db\<lparr>db_trips := [sample_trip, sample_trip\<lparr>tr_id := trip6\<rparr>]\<rparr>"

definition race :: "prog list" where
  "race = [match_tx (Some (JStr trip4)) driver2, match_tx (Some (JStr trip6)) driver2,
     cancel_tx trip4 rider1 False]"

definition race_server :: server where
  "race_server = \<lparr>sv_sys = w_sys sample_world, sv_db = race_db, sv_sessions = map client race, sv_sent = []\<rparr>"

definition race_moves :: "(client_move \<times> nat) list" where
  "race_moves = [(Go, 0), (Go, 0), (Go, 0), (Go, 0), (Go, 0), (Go, 1), (Go, 2), (Go, 2)]"

lemma race_programs: "list_all ride_tx race"
  by (simp add: race_def ride_tx.intros)

lemma race_orderly: "orderly race_db"
proof -
  have "trip4 \<noteq> trip6" by code_simp
  then show ?thesis
    using sample_orderly
    by (auto simp: orderly_def bookings_ok_def keys_ok_def trip_ok_def user_ids_def driver_ids_def exclusive_def
        fares_ok_def serving_on_trip_def race_db_def sample_db_def sample_trip_def active_def)
qed

lemma race_runs:
  assumes "run_schedule ms race_server = Some u"
  shows "server_step\<^sup>*\<^sup>* race_server u" and "orderly (sv_db race_server)"
    and "sv_sessions race_server = map client race"
  using run_schedule_steps [OF assms] race_orderly by (simp_all add: race_server_def)

theorem concurrent_rides_refine_spec_witness:
  "\<exists>u. run_schedule race_moves race_server = Some u \<and> orderly (sv_db u) \<and>
     map tr_status (db_trips (sv_db u)) = [Matched, Requested] \<and>
     move_session Go 1 race_server \<noteq> None \<and>
     move_session Go 1 (the (run_schedule [(Go, 0)] race_server)) = None"
proof -
  have "map_option (\<lambda>u. map tr_status (db_trips (sv_db u))) (run_schedule race_moves race_server) = Some [Matched, Requested]"
    by code_simp
  then obtain u where u: "run_schedule race_moves race_server = Some u"
    "map tr_status (db_trips (sv_db u)) = [Matched, Requested]" by auto
  have "case move_session Go 1 race_server of None \<Rightarrow> False | Some _ \<Rightarrow> True"
    "case move_session Go 1 (the (run_schedule [(Go, 0)] race_server)) of None \<Rightarrow> True | Some _ \<Rightarrow> False"
    by (code_simp, code_simp)
  with u concurrent_rides_refine_spec [OF race_runs [OF u(1)] race_programs] show ?thesis
    by (auto split: option.splits)
qed

text \<open>C8. No deadlock, and every session ends: from any state such sessions can reach, the server can
  take the remaining statements in an order that lets every session finish, though the matcher
  locks the driver before the trip and a cancellation the trip before the driver.\<close>

theorem concurrent_rides_all_finish:
  assumes "server_step\<^sup>*\<^sup>* v v'" and "orderly (sv_db v)" and "sv_sessions v = map client ps"
    and "list_all ride_tx ps"
  shows "\<exists>is u. run_schedule (map (Pair Go) is) v' = Some u \<and> list_all (\<lambda>s. se_prog s = Done) (sv_sessions u)"
  by (rule rides.all_finish [OF rides_side_by_side(1) [OF assms]])

theorem concurrent_rides_all_finish_witness:
  "\<exists>v is u. run_schedule (take 3 race_moves) race_server = Some v \<and>
     run_schedule (map (Pair Go) is) v = Some u \<and> list_all (\<lambda>s. se_prog s = Done) (sv_sessions u)"
proof -
  have "case run_schedule (take 3 race_moves) race_server of None \<Rightarrow> False | Some _ \<Rightarrow> True" by code_simp
  then obtain v where v: "run_schedule (take 3 race_moves) race_server = Some v" by (auto split: option.splits)
  with concurrent_rides_all_finish [OF race_runs [OF v] race_programs] show ?thesis by blast
qed

section \<open>Publishers side by side\<close>

text \<open>C7. Every replica of the API flushes the outbox, and the matcher publishes the events it has
  committed itself. However many of them run at once, in whatever order, and whatever sends fail,
  no event is sent successfully twice as long as no connection is lost; and once all have ended,
  every event that was sent is marked as published, so that no later flush sends it again.\<close>

theorem events_sent_once:
  assumes "calm_step\<^sup>*\<^sup>* v v'" and "orderly (sv_db v)" and "plain_events (sv_db v)" and "sv_sent v = []"
    and "sv_sessions v = map client ps" and "list_all publisher ps"
  shows "distinct (sv_sent v') \<and>
    (list_all (\<lambda>s. se_prog s = Done) (sv_sessions v') \<longrightarrow> list_all (is_published (sv_db v')) (sv_sent v'))"
proof -
  have "sends_ok v'" by (rule calm_run [OF assms(1) publishers_ok [OF assms(2-6)]])
  then show ?thesis
    using ended_published by (auto simp: sends_ok_def list_all_iff)
qed

text \<open>Two publications of the event of the sample city and a flush; a send that fails is made up for
  by the other. A connection lost after the send is the one way to a second message.\<close>

definition publish_server :: server where
  "publish_server = \<lparr>sv_sys = w_sys sample_world, sv_db = sample_db,
     sv_sessions = map client [publish_tx 0, flush_tx sample_ext, publish_tx 0], sv_sent = []\<rparr>"

definition publish_moves :: "(client_move \<times> nat) list" where
  "publish_moves = [(Go, 0), (Go, 1), (Go, 0), (Go, 0), (Go, 1), (Go, 0), (Go, 2), (Go, 2)]"

lemma publish_programs:
  "plain_events (sv_db publish_server)" "orderly (sv_db publish_server)"
  "sv_sessions publish_server = map client [publish_tx 0, flush_tx sample_ext, publish_tx 0]"
  "list_all publisher [publish_tx 0, flush_tx sample_ext, publish_tx 0]" "sv_sent publish_server = []"
  using sample_orderly
  by (simp_all add: publish_server_def plain_events_def sample_db_def event_row_def publisher.intros)

theorem events_sent_once_witness:
  "\<exists>u. run_schedule publish_moves publish_server = Some u \<and> sv_sent u = [0] \<and> is_published (sv_db u) 0"
proof -
  have "map_option (\<lambda>u. (sv_sent u, list_all (\<lambda>s. case se_prog s of Done \<Rightarrow> True | _ \<Rightarrow> False) (sv_sessions u)))
      (run_schedule publish_moves publish_server) = Some ([0], True)" by code_simp
  then obtain u where u: "run_schedule publish_moves publish_server = Some u" "sv_sent u = [0]"
    "list_all (\<lambda>s. case se_prog s of Done \<Rightarrow> True | _ \<Rightarrow> False) (sv_sessions u)" by auto
  have "list_all (\<lambda>s. se_prog s = Done) (sv_sessions u)"
    using u(3) by (rule list.pred_mono_strong) (simp split: prog.splits)
  with u events_sent_once [OF run_schedule_calm [OF u(1)] publish_programs(2,1,5,3,4)] show ?thesis
    by (simp add: publish_moves_def)
qed

lemma lost_connection_sends_twice:
  "map_option sv_sent (run_schedule [(Go, 0), (Go, 0), (Crash, 0), (Go, 1), (Go, 1)] publish_server) = Some [0, 0]"
  by code_simp

end
