(* ===== verification/WebClient.thy ===== *)
theory WebClient
  imports WsGateway Validation
begin

text \<open>
  The client side of the API, \<open>apps/web/src\<close>: the session in \<open>localStorage\<close>, the requests and
  their endpoints (\<open>api/client.ts\<close>), the vehicle draft (\<open>domain/vehicle.ts\<close>), the trip socket
  (\<open>hooks/useTripSocket.ts\<close>), the profile hook (\<open>hooks/useMe.ts\<close>) and the sign-in gate
  (\<open>components/AuthGate.tsx\<close>). \<open>fetch\<close> is a parameter: the answer to a request, or the reason it
  was rejected; so is \<open>JSON.parse\<close>. A React state is a record and a callback a function on it; an
  \<open>async\<close> callback is the function of its state and of what the call answered.
\<close>

section \<open>Errors\<close>

datatype web_error = ApiError int json string "json option" "json option" | PlainError string

text \<open>\<open>a ?? b\<close>.\<close>

definition nullish :: "json option \<Rightarrow> json \<Rightarrow> json" where
  "nullish v d = (case v of None \<Rightarrow> d | Some JNull \<Rightarrow> d | Some j \<Rightarrow> j)"

definition field_opt :: "json option \<Rightarrow> string \<Rightarrow> json option" where
  "field_opt parsed k = (case parsed of None \<Rightarrow> None | Some JNull \<Rightarrow> None | Some j \<Rightarrow> jget j k)"

definition readableApiMessage :: "int \<Rightarrow> json option \<Rightarrow> string \<Rightarrow> string" where
  "readableApiMessage status parsed fallback =
     (let raw = field_opt parsed ''message'';
          message = (case raw of
                       Some (JArr xs) \<Rightarrow> Some (JStr (join_with ''; '' (map (\<lambda>x. if x = JNull then [] else json_text x) xs)))
                     | _ \<Rightarrow> raw)
      in if truthy_opt message then json_text (the message)
         else if trim fallback \<noteq> [] then trim fallback
         else if status = 401
         then ''We could not sign you in. Check the selected demo account and try again.''
         else ''Request failed ('' @ show_int status @ '')'')"

fun web_message :: "web_error \<Rightarrow> string" where
  "web_message (ApiError status code msg details trace) = msg"
| "web_message (PlainError msg) = msg"

section \<open>The session\<close>

record auth_session =
  ss_id :: string
  ss_role :: string
  ss_token :: string

text \<open>\<open>localStorage\<close> and the listeners, with the calls they received.\<close>

record browser =
  br_storage :: "(string \<times> string) list"
  br_listeners :: "nat list"
  br_calls :: "nat list"

definition TOKEN_KEY :: string where "TOKEN_KEY = ''ridex_token''"
definition USER_ID_KEY :: string where "USER_ID_KEY = ''ridex_user_id''"
definition ROLE_KEY :: string where "ROLE_KEY = ''ridex_role''"

definition isRole :: "string option \<Rightarrow> bool" where
  "isRole value = (case value of None \<Rightarrow> False | Some r \<Rightarrow> r \<in> set [''rider'', ''driver'', ''admin''])"

definition getItem :: "string \<Rightarrow> browser \<Rightarrow> string option" where
  "getItem k b = map_of (br_storage b) k"

definition setItem :: "string \<Rightarrow> string \<Rightarrow> browser \<Rightarrow> browser" where
  "setItem k v b = b\<lparr>br_storage := al_set k v (br_storage b)\<rparr>"

definition removeItem :: "string \<Rightarrow> browser \<Rightarrow> browser" where
  "removeItem k b = b\<lparr>br_storage := al_del k (br_storage b)\<rparr>"

definition notifyAuthChange :: "browser \<Rightarrow> browser" where
  "notifyAuthChange b = b\<lparr>br_calls := br_calls b @ br_listeners b\<rparr>"

definition setSession :: "auth_session \<Rightarrow> browser \<Rightarrow> browser" where
  "setSession session b =
     notifyAuthChange (setItem ROLE_KEY (ss_role session) (setItem USER_ID_KEY (ss_id session)
       (setItem TOKEN_KEY (ss_token session) b)))"

definition getSession :: "browser \<Rightarrow> auth_session option" where
  "getSession b =
     (let token = getItem TOKEN_KEY b; i = getItem USER_ID_KEY b; role = getItem ROLE_KEY b
      in if token = None \<or> token = Some [] \<or> i = None \<or> i = Some [] \<or> \<not> isRole role then None
         else Some \<lparr>ss_id = the i, ss_role = the role, ss_token = the token\<rparr>)"

definition getToken :: "browser \<Rightarrow> string option" where
  "getToken b = getItem TOKEN_KEY b"

definition clear_session :: "browser \<Rightarrow> browser" where
  "clear_session b = notifyAuthChange (removeItem ROLE_KEY (removeItem USER_ID_KEY (removeItem TOKEN_KEY b)))"

text \<open>\<open>subscribe\<close> adds to a set; the function it returns is \<open>unsubscribe\<close>.\<close>

definition subscribe :: "nat \<Rightarrow> browser \<Rightarrow> browser" where
  "subscribe l b = (if l \<in> set (br_listeners b) then b else b\<lparr>br_listeners := br_listeners b @ [l]\<rparr>)"

definition unsubscribe :: "nat \<Rightarrow> browser \<Rightarrow> browser" where
  "unsubscribe l b = b\<lparr>br_listeners := filter (\<lambda>x. x \<noteq> l) (br_listeners b)\<rparr>"

section \<open>Requests\<close>

record init =
  in_method :: string
  in_headers :: "(string \<times> string) list"
  in_body :: "json option"

record request =
  rq_url :: string
  rq_init :: init

record response =
  rs_status :: int
  rs_text :: string

definition response_ok :: "response \<Rightarrow> bool" where
  "response_ok r \<longleftrightarrow> 200 \<le> rs_status r \<and> rs_status r \<le> 299"

definition get_init :: init where
  "get_init = \<lparr>in_method = ''GET'', in_headers = [], in_body = None\<rparr>"

definition method_init :: "string \<Rightarrow> init" where
  "method_init m = \<lparr>in_method = m, in_headers = [], in_body = None\<rparr>"

definition json_init :: "string \<Rightarrow> (string \<times> json) list \<Rightarrow> init" where
  "json_init m kvs = \<lparr>in_method = m, in_headers = [], in_body = Some (JObj kvs)\<rparr>"

definition req_request :: "string option \<Rightarrow> string \<Rightarrow> init \<Rightarrow> browser \<Rightarrow> request" where
  "req_request base path i b =
     (let headers = in_headers i;
          headers = (if in_body i \<noteq> None \<and> (case map_of headers ''content-type'' of None \<Rightarrow> True | Some v \<Rightarrow> v = [])
                     then al_set ''content-type'' ''application/json'' headers else headers);
          headers = (case getToken b of
                       None \<Rightarrow> headers
                     | Some tok \<Rightarrow> if tok = [] then headers else al_set ''authorization'' (''Bearer '' @ tok) headers)
      in \<lparr>rq_url = (case base of None \<Rightarrow> ''/api'' | Some u \<Rightarrow> u) @ path, rq_init = i\<lparr>in_headers := headers\<rparr>\<rparr>)"

text \<open>What becomes of the answer; \<open>None\<close> is \<open>undefined\<close>, the result of a 204.\<close>

definition req_response :: "(string \<Rightarrow> json option) \<Rightarrow> string + response \<Rightarrow> web_error + json option" where
  "req_response parse answer =
     (case answer of
        Inl reason \<Rightarrow> Inl (PlainError reason)
      | Inr res \<Rightarrow>
          if \<not> response_ok res then
            let parsed = parse (rs_text res) in
            Inl (ApiError (rs_status res) (nullish (field_opt parsed ''code'') (JStr ''request_failed''))
                   (readableApiMessage (rs_status res) parsed (rs_text res))
                   (field_opt parsed ''details'') (field_opt parsed ''trace_id''))
          else if rs_status res = 204 then Inr None
          else (case parse (rs_text res) of None \<Rightarrow> Inl (PlainError ''SyntaxError'') | Some j \<Rightarrow> Inr (Some j)))"

definition req ::
    "(request \<Rightarrow> string + response) \<Rightarrow> (string \<Rightarrow> json option) \<Rightarrow> string option \<Rightarrow> string \<Rightarrow> init \<Rightarrow> browser
     \<Rightarrow> web_error + json option" where
  "req fetch parse base path i b = req_response parse (fetch (req_request base path i b))"

section \<open>Endpoints\<close>

definition hex_digit :: "nat \<Rightarrow> char" where
  "hex_digit n = ''0123456789ABCDEF'' ! n"

definition percent :: "nat \<Rightarrow> string" where
  "percent n = [CHR ''%'', hex_digit (n div 16), hex_digit (n mod 16)]"

text \<open>\<open>application/x-www-form-urlencoded\<close>, as \<open>URLSearchParams\<close> prints it.\<close>

definition form_char :: "char \<Rightarrow> string" where
  "form_char c =
     (if is_digit c \<or> letter c \<or> c \<in> set ''*-._'' then [c]
      else if c = CHR '' '' then ''+''
      else let n = (of_char c :: nat) in
        if n < 128 then percent n else percent (192 + n div 64) @ percent (128 + n mod 64))"

definition form_encode :: "string \<Rightarrow> string" where
  "form_encode s = concat (map form_char s)"

definition search_params :: "(string \<times> string) list \<Rightarrow> string" where
  "search_params kvs = join_with ''&'' (map (\<lambda>(k, v). form_encode k @ ''='' @ form_encode v) kvs)"

definition listTrips_query :: "string option \<Rightarrow> rat option \<Rightarrow> string" where
  "listTrips_query status limit =
     (let qs = search_params
           ((case status of None \<Rightarrow> [] | Some s \<Rightarrow> if s = [] then [] else [(''status'', s)]) @
            (case limit of None \<Rightarrow> [] | Some n \<Rightarrow> [(''limit'', js_String n)]))
      in if qs = [] then [] else CHR ''?'' # qs)"

text \<open>Optional fields that are \<open>undefined\<close> are not printed.\<close>

definition opt_field :: "string \<Rightarrow> json option \<Rightarrow> (string \<times> json) list" where
  "opt_field k v = (case v of None \<Rightarrow> [] | Some j \<Rightarrow> [(k, j)])"

record vehicle_draft =
  vd_plate :: string
  vd_make :: string
  vd_model :: string
  vd_year :: rat
  vd_color :: string
  vd_capacity :: rat

definition normalizeVehicleDraft :: "vehicle_draft \<Rightarrow> vehicle_draft" where
  "normalizeVehicleDraft draft =
     \<lparr>vd_plate = to_upper (trim (vd_plate draft)), vd_make = trim (vd_make draft),
      vd_model = trim (vd_model draft), vd_year = vd_year draft, vd_color = trim (vd_color draft),
      vd_capacity = vd_capacity draft\<rparr>"

definition emptyVehicleDraft :: "rat \<Rightarrow> vehicle_draft" where
  "emptyVehicleDraft thisYear =
     \<lparr>vd_plate = [], vd_make = [], vd_model = [], vd_year = thisYear, vd_color = ''White'', vd_capacity = 4\<rparr>"

definition vehicleSummary :: "string \<Rightarrow> string \<Rightarrow> int \<Rightarrow> string \<Rightarrow> string" where
  "vehicleSummary brand model year color =
     brand @ '' '' @ model @ '' '' @ [CHR 0xB7] @ '' '' @ show_int year @ '' '' @ [CHR 0xB7] @ '' '' @ color"

definition draft_body :: "vehicle_draft \<Rightarrow> (string \<times> json) list" where
  "draft_body d =
     [(''plate'', JStr (vd_plate d)), (''make'', JStr (vd_make d)), (''model'', JStr (vd_model d)),
      (''year'', JNum (vd_year d)), (''color'', JStr (vd_color d)), (''capacity'', JNum (vd_capacity d))]"

datatype api_call =
  Signup "(string \<times> json) list"
| Login string string
| DemoLogin string "string option"
| GetMe
| Vehicles
| CreateVehicle vehicle_draft
| UpdateVehicle string "(string \<times> json) list"
| DeleteVehicle string
| CreateTrip "(string \<times> json) list"
| ListTrips "string option" "rat option"
| GetTrip string
| CancelTrip string
| StartTrip string
| CompleteTrip string
| RateTrip string rat "string option"
| SetDriverStatus string string
| Nearby rat rat rat
| Daily
| Surge

fun endpoint :: "api_call \<Rightarrow> string \<times> init" where
  "endpoint (Signup body) = (''/auth/signup'', json_init ''POST'' body)"
| "endpoint (Login phone password) =
     (''/auth/login'', json_init ''POST'' [(''phone'', JStr phone), (''password'', JStr password)])"
| "endpoint (DemoLogin phone role) =
     (''/auth/demo-login'', json_init ''POST'' ((''phone'', JStr phone) # opt_field ''expected_role'' (map_option JStr role)))"
| "endpoint GetMe = (''/me'', get_init)"
| "endpoint Vehicles = (''/vehicles'', get_init)"
| "endpoint (CreateVehicle body) = (''/vehicles'', json_init ''POST'' (draft_body (normalizeVehicleDraft body)))"
| "endpoint (UpdateVehicle i body) = (''/vehicles/'' @ i, json_init ''PATCH'' body)"
| "endpoint (DeleteVehicle i) = (''/vehicles/'' @ i, method_init ''DELETE'')"
| "endpoint (CreateTrip body) = (''/trips'', json_init ''POST'' body)"
| "endpoint (ListTrips status limit) = (''/trips'' @ listTrips_query status limit, get_init)"
| "endpoint (GetTrip i) = (''/trips/'' @ i, get_init)"
| "endpoint (CancelTrip i) = (''/trips/'' @ i @ ''/cancel'', method_init ''POST'')"
| "endpoint (StartTrip i) = (''/trips/'' @ i @ ''/start'', method_init ''POST'')"
| "endpoint (CompleteTrip i) = (''/trips/'' @ i @ ''/complete'', method_init ''POST'')"
| "endpoint (RateTrip i rating comment) =
     (''/trips/'' @ i @ ''/rating'',
      json_init ''POST'' ((''rating'', JNum rating) # opt_field ''comment'' (map_option JStr comment)))"
| "endpoint (SetDriverStatus i status) =
     (''/drivers/'' @ i @ ''/status'', json_init ''PATCH'' [(''status'', JStr status)])"
| "endpoint (Nearby lon lat radius) =
     (''/drivers/nearby?lon='' @ js_String lon @ ''&lat='' @ js_String lat @ ''&radius_m='' @ js_String radius, get_init)"
| "endpoint Daily = (''/admin/reports/daily'', get_init)"
| "endpoint Surge = (''/admin/surge'', get_init)"

text \<open>The location ping goes to the ingestor, outside \<open>req\<close>.\<close>

definition sendLocation_request :: "string option \<Rightarrow> (string \<times> json) list \<Rightarrow> rat \<Rightarrow> browser \<Rightarrow> request" where
  "sendLocation_request ingestBase body now b =
     (let headers = [(''content-type'', ''application/json'')];
          headers = (case getToken b of
                       None \<Rightarrow> headers
                     | Some tok \<Rightarrow> if tok = [] then headers else al_set ''authorization'' (''Bearer '' @ tok) headers)
      in \<lparr>rq_url = (case ingestBase of None \<Rightarrow> ''/ingest'' | Some u \<Rightarrow> u) @ ''/v1/locations'',
          rq_init = \<lparr>in_method = ''POST'', in_headers = headers, in_body = Some (JObj (spread body [(''ts'', JNum now)]))\<rparr>\<rparr>)"

definition sendLocation_response :: "(string \<Rightarrow> json option) \<Rightarrow> string + response \<Rightarrow> web_error + json" where
  "sendLocation_response parse answer =
     (case answer of
        Inl reason \<Rightarrow> Inl (PlainError reason)
      | Inr res \<Rightarrow>
          if \<not> response_ok res then Inl (PlainError (show_int (rs_status res) @ '' '' @ rs_text res))
          else (case parse (rs_text res) of None \<Rightarrow> Inl (PlainError ''SyntaxError'') | Some j \<Rightarrow> Inr j))"

section \<open>The trip socket\<close>

definition http_base :: "string \<Rightarrow> bool" where
  "http_base s \<longleftrightarrow> starts_with ''HTTP://'' (to_upper s) \<or> starts_with ''HTTPS://'' (to_upper s)"

definition wsOrigin :: "string \<Rightarrow> string \<Rightarrow> string" where
  "wsOrigin wsBase locationOrigin = (if http_base wsBase then wsBase else locationOrigin)"

definition drop_slash :: "string \<Rightarrow> string" where
  "drop_slash s = (if s \<noteq> [] \<and> last s = CHR ''/'' then butlast s else s)"

text \<open>\<open>pathname\<close> stands for \<open>new URL(s).pathname\<close>.\<close>

definition wsPath :: "(string \<Rightarrow> string) \<Rightarrow> string \<Rightarrow> string option \<Rightarrow> string" where
  "wsPath pathname wsBase socketPath =
     (if socketPath \<noteq> None \<and> socketPath \<noteq> Some [] then the socketPath
      else if http_base wsBase then drop_slash (pathname wsBase) @ ''/socket.io''
      else drop_slash wsBase @ ''/socket.io'')"

definition isDriverLocationEvent :: "json \<Rightarrow> bool" where
  "isDriverLocationEvent evt =
     (case evt of
        JObj _ \<Rightarrow>
          (case jget evt ''driver_id'' of Some (JStr _) \<Rightarrow> True | _ \<Rightarrow> False) \<and>
          (case jget evt ''lat'' of Some (JNum lat) \<Rightarrow> - 90 \<le> lat \<and> lat \<le> 90 | _ \<Rightarrow> False) \<and>
          (case jget evt ''lon'' of Some (JNum lon) \<Rightarrow> - 180 \<le> lon \<and> lon \<le> 180 | _ \<Rightarrow> False)
      | _ \<Rightarrow> False)"

record trip_socket =
  tk_tripId :: "string option"
  tk_driverIdRef :: "string option"
  tk_connected :: bool
  tk_events :: "json list"
  tk_driverLocation :: "json option"
  tk_sent :: "(string \<times> string) list"

text \<open>The effect of a changed driver: only a socket that exists subscribes.\<close>

definition socket_set_driver :: "string option \<Rightarrow> trip_socket \<Rightarrow> trip_socket" where
  "socket_set_driver driverId s =
     (let s = s\<lparr>tk_driverIdRef := driverId, tk_driverLocation := None\<rparr>
      in if tk_connected s \<and> driverId \<noteq> None \<and> driverId \<noteq> Some []
         then s\<lparr>tk_sent := tk_sent s @ [(''driver:subscribe'', the driverId)]\<rparr> else s)"

definition socket_set_trip :: "string option \<Rightarrow> trip_socket \<Rightarrow> trip_socket" where
  "socket_set_trip tripId s =
     (let s = s\<lparr>tk_tripId := tripId, tk_events := [], tk_driverLocation := None\<rparr>
      in if tripId = None \<or> tripId = Some [] then s\<lparr>tk_connected := False\<rparr>
         else s\<lparr>tk_connected := True, tk_sent := tk_sent s @ [(''trip:subscribe'', the tripId)]\<rparr>)"

definition on_trip_event :: "json \<Rightarrow> trip_socket \<Rightarrow> trip_socket" where
  "on_trip_event evt s = s\<lparr>tk_events := tk_events s @ [evt]\<rparr>"

definition on_driver_location :: "json \<Rightarrow> trip_socket \<Rightarrow> trip_socket" where
  "on_driver_location evt s =
     (case tk_driverIdRef s of
        None \<Rightarrow> s
      | Some currentDriverId \<Rightarrow>
          if currentDriverId = [] \<or> \<not> isDriverLocationEvent evt \<or> jget evt ''driver_id'' \<noteq> Some (JStr currentDriverId)
          then s else s\<lparr>tk_driverLocation := Some evt\<rparr>)"

section \<open>The profile hook\<close>

record use_me =
  um_me :: "json option"
  um_loading :: bool
  um_error :: "string option"

definition me_refresh :: "browser \<Rightarrow> web_error + json option \<Rightarrow> use_me \<Rightarrow> use_me" where
  "me_refresh b answer u =
     (if getSession b = None then u\<lparr>um_me := None\<rparr>
      else (case answer of
              Inr next \<Rightarrow> u\<lparr>um_me := next, um_error := None, um_loading := False\<rparr>
            | Inl e \<Rightarrow> u\<lparr>um_error := Some (web_message e), um_loading := False\<rparr>))"

section \<open>The sign-in gate\<close>

definition labelFor :: "string \<Rightarrow> string" where
  "labelFor role = to_upper (take 1 role) @ drop 1 role"

definition describeError :: "web_error \<Rightarrow> string" where
  "describeError e =
     (case e of
        ApiError status code msg details trace \<Rightarrow>
          if status = 401
          then ''Sign-in failed. The demo user may need to be re-seeded; try another demo member or manual credentials.''
          else if status = 503
          then ''One-click demo login is not enabled on this deployment. Enter the seeded credentials manually.''
          else msg
      | PlainError msg \<Rightarrow> msg)"

record auth_gate =
  ag_session :: "auth_session option"
  ag_err :: "string option"
  ag_loading :: bool

text \<open>What the gate's own listener does.\<close>

definition gate_notified :: "browser \<Rightarrow> auth_gate \<Rightarrow> auth_gate" where
  "gate_notified b g = g\<lparr>ag_session := getSession b\<rparr>"

definition acceptSession ::
    "string \<Rightarrow> auth_session \<Rightarrow> auth_gate \<times> browser \<Rightarrow> (web_error + unit) \<times> auth_gate \<times> browser" where
  "acceptSession role sess = (\<lambda>(g, b).
     (if ss_role sess \<noteq> role
      then (Inl (PlainError (''This account is '' @ ss_role sess @ ''; open the '' @ ss_role sess @
              '' workspace or choose a '' @ role @ '' demo member.'')),
            gate_notified (clear_session b) g, clear_session b)
      else (Inr (), g\<lparr>ag_session := Some sess\<rparr>, setSession sess b)))"

text \<open>\<open>submitLogin\<close> and \<open>submitDemoLogin\<close>, given the answer of the call they await.\<close>

definition submit_answer ::
    "string \<Rightarrow> web_error + auth_session \<Rightarrow> auth_gate \<times> browser \<Rightarrow> auth_gate \<times> browser" where
  "submit_answer role answer = (\<lambda>(g, b).
     (let g = g\<lparr>ag_err := None\<rparr>;
          (r, g, b) = (case answer of Inl e \<Rightarrow> (Inl e, g, b) | Inr sess \<Rightarrow> acceptSession role sess (g, b))
      in ((case r of Inl e \<Rightarrow> g\<lparr>ag_err := Some (describeError e), ag_loading := False\<rparr>
           | Inr _ \<Rightarrow> g\<lparr>ag_loading := False\<rparr>), b)))"

definition shows_children :: "string \<Rightarrow> auth_gate \<Rightarrow> bool" where
  "shows_children role g \<longleftrightarrow> map_option ss_role (ag_session g) = Some role"

section \<open>Facts the properties share\<close>

lemma getItem_setItem [simp]: "getItem k (setItem k' v b) = (if k = k' then Some v else getItem k b)"
  by (simp add: getItem_def setItem_def)

lemma getItem_removeItem [simp]: "getItem k (removeItem k' b) = (if k = k' then None else getItem k b)"
  by (simp add: getItem_def removeItem_def)

lemma getItem_notify [simp]: "getItem k (notifyAuthChange b) = getItem k b"
  by (simp add: getItem_def notifyAuthChange_def)

lemma session_keys [simp]:
  "TOKEN_KEY \<noteq> USER_ID_KEY" "TOKEN_KEY \<noteq> ROLE_KEY" "USER_ID_KEY \<noteq> ROLE_KEY"
  "USER_ID_KEY \<noteq> TOKEN_KEY" "ROLE_KEY \<noteq> TOKEN_KEY" "ROLE_KEY \<noteq> USER_ID_KEY"
  by (simp_all add: TOKEN_KEY_def USER_ID_KEY_def ROLE_KEY_def)

lemma getSession_set:
  "ss_token s \<noteq> [] \<Longrightarrow> ss_id s \<noteq> [] \<Longrightarrow> isRole (Some (ss_role s)) \<Longrightarrow> getSession (setSession s b) = Some s"
  by (simp add: getSession_def setSession_def Let_def)

lemma getSession_clear: "getSession (clear_session b) = None"
  by (simp add: getSession_def clear_session_def Let_def)

lemma token_of_session: "getSession b = Some s \<Longrightarrow> getToken b = Some (ss_token s) \<and> ss_token s \<noteq> []"
  by (auto simp: getSession_def getToken_def Let_def split: if_splits)

end
