(* ===== verification/WebPages.thy ===== *)
theory WebPages
  imports WebClient
begin

text \<open>
  The pages of the web client, \<open>apps/web/src/pages\<close> and \<open>components\<close>, as state machines without
  their rendering: the rider page with its socket (\<open>Rider.tsx\<close>), the driver page (\<open>Driver.tsx\<close>),
  the driver's active trip (\<open>ActiveTripCard.tsx\<close>), the rating dialog (\<open>RatingDialog.tsx\<close>), the
  vehicles (\<open>VehiclesPanel.tsx\<close>), the history (\<open>TripHistory.tsx\<close>) and the totals of the
  administrator (\<open>Admin.tsx\<close>). A callback that awaits a call is two functions: what it does before,
  and what it does with the answer; the answers of the calls the rider page leaves running come in
  any order. Toasts are left out. A trip is the JSON object the API answered.
\<close>

section \<open>Coordinates\<close>

definition parseCoordinate :: "string \<Rightarrow> rat option" where
  "parseCoordinate value =
     (let trimmed = trim value in
      if trimmed = [] \<or> trimmed = ''-'' \<or> trimmed = ''.'' \<or> trimmed = ''-.'' then None
      else case js_Number trimmed of Num next \<Rightarrow> Some next | _ \<Rightarrow> None)"

definition toCoordinate :: "string \<Rightarrow> rat \<Rightarrow> rat" where
  "toCoordinate value fallback =
     (let trimmed = trim value in
      if trimmed = [] \<or> trimmed = ''-'' \<or> trimmed = ''.'' \<or> trimmed = ''-.'' then fallback
      else case js_Number trimmed of Num next \<Rightarrow> next | _ \<Rightarrow> fallback)"

definition validLat :: "string \<Rightarrow> bool" where
  "validLat value = (case parseCoordinate value of None \<Rightarrow> False | Some n \<Rightarrow> - 90 \<le> n \<and> n \<le> 90)"

definition validLon :: "string \<Rightarrow> bool" where
  "validLon value = (case parseCoordinate value of None \<Rightarrow> False | Some n \<Rightarrow> - 180 \<le> n \<and> n \<le> 180)"

definition yandexRouteUrl :: "rat \<times> rat \<Rightarrow> rat \<times> rat \<Rightarrow> string" where
  "yandexRouteUrl pickup dropoff =
     ''https://yandex.com/maps/?'' @ search_params
       [(''rtext'', js_String (fst pickup) @ '','' @ js_String (snd pickup) @ ''~'' @
           js_String (fst dropoff) @ '','' @ js_String (snd dropoff)),
        (''rtt'', ''auto'')]"

definition yandexPointUrl :: "rat \<times> rat \<Rightarrow> rat \<Rightarrow> string" where
  "yandexPointUrl position zoom =
     ''https://yandex.com/maps/?'' @ search_params
       [(''ll'', js_String (snd position) @ '','' @ js_String (fst position)), (''z'', js_String zoom)]"

section \<open>Events and trips\<close>

fun has_substring :: "string \<Rightarrow> string \<Rightarrow> bool" where
  "has_substring sub [] = (sub = [])"
| "has_substring sub (c # cs) = (starts_with sub (c # cs) \<or> has_substring sub cs)"

definition eventType :: "json \<Rightarrow> string" where
  "eventType event =
     json_text (nullish (jget event ''type'') (nullish (jget event ''event'') (nullish (jget event ''status'') (JStr []))))"

definition eventLabel :: "json option \<Rightarrow> string" where
  "eventLabel event =
     json_text (nullish (field_opt event ''type'') (nullish (field_opt event ''event'')
       (nullish (field_opt event ''status'') (JStr ''trip:event''))))"

definition driverIdFromEvent :: "json \<Rightarrow> string option" where
  "driverIdFromEvent event =
     (case jget event ''driver_id'' of Some (JStr s) \<Rightarrow> if s = [] then None else Some s | _ \<Rightarrow> None)"

definition TERMINAL_STATUSES :: "string list" where
  "TERMINAL_STATUSES = [''completed'', ''cancelled_by_rider'', ''cancelled_by_driver'', ''expired'']"

definition isTerminalTrip :: "json option \<Rightarrow> bool" where
  "isTerminalTrip status = (case status of Some (JStr s) \<Rightarrow> s \<in> set TERMINAL_STATUSES | _ \<Rightarrow> False)"

definition set_id :: "string option \<Rightarrow> bool" where
  "set_id i \<longleftrightarrow> i \<noteq> None \<and> i \<noteq> Some []"

text \<open>\<open>now\<close> is \<open>new Date().toISOString()\<close>.\<close>

definition mergeActiveTrip ::
    "string \<Rightarrow> json option \<Rightarrow> string option \<Rightarrow> (string \<times> json) list \<Rightarrow> json option" where
  "mergeActiveTrip now previous tripId next =
     (if previous = None \<and> \<not> set_id tripId then None
      else Some (JObj (spread
        (case previous of
           Some p \<Rightarrow> spread_entries p
         | None \<Rightarrow> [(''id'', JStr (the tripId)), (''status'', JStr ''requested''), (''requested_at'', JStr now)])
        next)))"

definition trip_field :: "json option \<Rightarrow> string \<Rightarrow> json option" where
  "trip_field t k = (case t of None \<Rightarrow> None | Some j \<Rightarrow> jget j k)"

definition active_driver_id :: "json option \<Rightarrow> string option" where
  "active_driver_id t = (case trip_field t ''driver_id'' of Some (JStr s) \<Rightarrow> Some s | _ \<Rightarrow> None)"

section \<open>The rider page\<close>

text \<open>The calls to \<open>getTrip\<close> that are still running: of the effect that restores a trip, of an event that
  refreshes it, and of the completed event, for the rating.\<close>

datatype running = Restoring string | Refreshing string | ForRating string

record rider_page =
  rp_tripId :: "string option"
  rp_stored :: "string option"
  rp_activeTrip :: "json option"
  rp_err :: "string option"
  rp_requesting :: bool
  rp_checkingCoverage :: bool
  rp_nearbyDrivers :: "json option"
  rp_historyKey :: nat
  rp_pendingRating :: "json option"
  rp_pickup :: "string \<times> string"
  rp_dropoff :: "string \<times> string"
  rp_handled :: nat
  rp_running :: "running list"
  rp_socket :: trip_socket

definition rider_start :: "string option \<Rightarrow> rider_page" where
  "rider_start stored =
     \<lparr>rp_tripId = stored, rp_stored = stored, rp_activeTrip = None, rp_err = None, rp_requesting = False,
      rp_checkingCoverage = False, rp_nearbyDrivers = None, rp_historyKey = 0, rp_pendingRating = None,
      rp_pickup = (''41.311'', ''69.279''), rp_dropoff = (''41.330'', ''69.250''), rp_handled = 0,
      rp_running = [],
      rp_socket = \<lparr>tk_tripId = None, tk_driverIdRef = None, tk_connected = False, tk_events = [],
        tk_driverLocation = None, tk_sent = []\<rparr>\<rparr>"

subsection \<open>Effects of a changed state\<close>

definition is_restoring :: "running \<Rightarrow> bool" where
  "is_restoring r = (case r of Restoring _ \<Rightarrow> True | _ \<Rightarrow> False)"

text \<open>The effects on \<open>tripId\<close>: the copy in \<open>localStorage\<close>, the call that restores the trip (the one of the
  previous trip is cancelled), the socket, and the counter of handled events.\<close>

definition trip_changed :: "rider_page \<Rightarrow> rider_page" where
  "trip_changed p =
     (let rest = filter (\<lambda>r. \<not> is_restoring r) (rp_running p);
          p = p\<lparr>rp_socket := socket_set_trip (rp_tripId p) (rp_socket p)\<rparr>
      in if set_id (rp_tripId p)
         then p\<lparr>rp_stored := rp_tripId p, rp_running := rest @ [Restoring (the (rp_tripId p))]\<rparr>
         else p\<lparr>rp_stored := None, rp_running := rest, rp_activeTrip := None, rp_handled := 0\<rparr>)"

definition driver_changed :: "rider_page \<Rightarrow> rider_page" where
  "driver_changed p = p\<lparr>rp_socket := socket_set_driver (active_driver_id (rp_activeTrip p)) (rp_socket p)\<rparr>"

text \<open>The effects that run after a callback took the page from \<open>p\<close> to \<open>p'\<close>.\<close>

definition settle :: "rider_page \<Rightarrow> rider_page \<Rightarrow> rider_page" where
  "settle p p' =
     (let q = (if rp_tripId p' = rp_tripId p then p' else trip_changed p')
      in if rp_tripId p' = rp_tripId p \<and> active_driver_id (rp_activeTrip q) = active_driver_id (rp_activeTrip p)
         then q else driver_changed q)"

definition mounted :: "string option \<Rightarrow> rider_page" where
  "mounted stored = driver_changed (trip_changed (rider_start stored))"

subsection \<open>Events of the socket\<close>

definition leave_trip :: "rider_page \<Rightarrow> rider_page" where
  "leave_trip p = p\<lparr>rp_activeTrip := None, rp_tripId := None, rp_historyKey := rp_historyKey p + 1\<rparr>"

definition start_call :: "(string \<Rightarrow> running) \<Rightarrow> string option \<Rightarrow> rider_page \<Rightarrow> rider_page" where
  "start_call kind tripId p = (if set_id tripId then p\<lparr>rp_running := rp_running p @ [kind (the tripId)]\<rparr> else p)"

definition handle_event :: "string \<Rightarrow> string option \<Rightarrow> rider_page \<Rightarrow> json \<Rightarrow> rider_page" where
  "handle_event now tripId p evt =
     (let ty = eventType evt in
      if has_substring ''completed'' ty then leave_trip (start_call ForRating tripId p)
      else if has_substring ''cancelled'' ty \<or> has_substring ''expired'' ty then leave_trip p
      else if has_substring ''matched'' ty \<or> has_substring ''accepted'' ty then
        start_call Refreshing tripId
          (p\<lparr>rp_activeTrip := mergeActiveTrip now (rp_activeTrip p) tripId
               ((''status'', JStr (if has_substring ''accepted'' ty then ''accepted'' else ''matched'')) #
                opt_field ''driver_id'' (map_option JStr (driverIdFromEvent evt)))\<rparr>)
      else if has_substring ''started'' ty \<or> has_substring ''in_progress'' ty then
        start_call Refreshing tripId
          (p\<lparr>rp_activeTrip := mergeActiveTrip now (rp_activeTrip p) tripId [(''status'', JStr ''in_progress'')]\<rparr>)
      else p)"

text \<open>The effect on \<open>events\<close>: those that were not handled, all with the \<open>tripId\<close> of this rendering.\<close>

definition handle_new :: "string \<Rightarrow> rider_page \<Rightarrow> rider_page" where
  "handle_new now p =
     (let events = tk_events (rp_socket p) in
      if length events \<le> rp_handled p then p
      else foldl (handle_event now (rp_tripId p)) (p\<lparr>rp_handled := length events\<rparr>) (drop (rp_handled p) events))"

definition rider_events :: "string \<Rightarrow> json list \<Rightarrow> rider_page \<Rightarrow> rider_page" where
  "rider_events now evts p =
     (if tk_connected (rp_socket p)
      then settle p (handle_new now (p\<lparr>rp_socket := fold on_trip_event evts (rp_socket p)\<rparr>)) else p)"

definition rider_location :: "json \<Rightarrow> rider_page \<Rightarrow> rider_page" where
  "rider_location evt p =
     (if tk_connected (rp_socket p) then p\<lparr>rp_socket := on_driver_location evt (rp_socket p)\<rparr> else p)"

subsection \<open>Answers\<close>

definition trip_answered :: "running \<Rightarrow> web_error + json \<Rightarrow> rider_page \<Rightarrow> rider_page" where
  "trip_answered r answer p =
     (case (r, answer) of
        (Restoring _, Inr trip) \<Rightarrow>
          if isTerminalTrip (jget trip ''status'') then leave_trip p
          else p\<lparr>rp_activeTrip := Some trip, rp_err := None\<rparr>
      | (Restoring _, Inl e) \<Rightarrow>
          p\<lparr>rp_activeTrip := None, rp_err := Some (''Could not restore active trip: '' @ web_message e)\<rparr>
      | (Refreshing _, Inr trip) \<Rightarrow> p\<lparr>rp_activeTrip := Some trip\<rparr>
      | (ForRating _, Inr trip) \<Rightarrow> p\<lparr>rp_pendingRating := Some trip\<rparr>
      | _ \<Rightarrow> p)"

text \<open>The answer of the \<open>n\<close>-th call that is running.\<close>

definition rider_answer :: "nat \<Rightarrow> web_error + json \<Rightarrow> rider_page \<Rightarrow> rider_page" where
  "rider_answer n answer p =
     (if n < length (rp_running p)
      then settle p (trip_answered (rp_running p ! n) answer
             (p\<lparr>rp_running := take n (rp_running p) @ drop (Suc n) (rp_running p)\<rparr>))
      else p)"

subsection \<open>The rider's actions\<close>

definition coordinatesValid :: "rider_page \<Rightarrow> bool" where
  "coordinatesValid p \<longleftrightarrow> validLat (fst (rp_pickup p)) \<and> validLon (snd (rp_pickup p)) \<and>
     validLat (fst (rp_dropoff p)) \<and> validLon (snd (rp_dropoff p))"

definition pickup_of :: "string \<times> string \<Rightarrow> rat \<times> rat" where
  "pickup_of t = (toCoordinate (fst t) (fl (41311 / 1000)), toCoordinate (snd t) (fl (69279 / 1000)))"

definition point_json :: "rat \<times> rat \<Rightarrow> json" where
  "point_json q = JObj [(''lat'', JNum (fst q)), (''lon'', JNum (snd q))]"

definition request_body :: "rider_page \<Rightarrow> (string \<times> json) list" where
  "request_body p =
     [(''pickup'', point_json (pickup_of (rp_pickup p))), (''dropoff'', point_json (pickup_of (rp_dropoff p))),
      (''pickup_address'', JStr ''Amir Temur Square''),
      (''dropoff_address'', JStr ''Inha University in Tashkent'')]"

definition requestRide :: "rider_page \<Rightarrow> rider_page \<times> api_call option" where
  "requestRide p =
     (if \<not> coordinatesValid p
      then (p\<lparr>rp_err := Some ''Enter valid pickup and dropoff coordinates before requesting a ride.''\<rparr>, None)
      else (p\<lparr>rp_err := None, rp_requesting := True\<rparr>, Some (CreateTrip (request_body p))))"

definition requestRide_answer :: "web_error + json \<Rightarrow> rider_page \<Rightarrow> rider_page" where
  "requestRide_answer answer p =
     settle p ((case answer of
        Inr trip \<Rightarrow> p\<lparr>rp_activeTrip := Some trip,
                       rp_tripId := (case jget trip ''id'' of Some (JStr i) \<Rightarrow> Some i | _ \<Rightarrow> None)\<rparr>
      | Inl e \<Rightarrow> p\<lparr>rp_err := Some (web_message e)\<rparr>)\<lparr>rp_requesting := False\<rparr>)"

definition checkCoverage :: "rider_page \<Rightarrow> rider_page \<times> api_call option" where
  "checkCoverage p =
     (if \<not> validLat (fst (rp_pickup p)) \<or> \<not> validLon (snd (rp_pickup p))
      then (p\<lparr>rp_err := Some ''Enter a valid pickup coordinate before checking coverage.''\<rparr>, None)
      else (p\<lparr>rp_err := None, rp_checkingCoverage := True\<rparr>,
            Some (Nearby (snd (pickup_of (rp_pickup p))) (fst (pickup_of (rp_pickup p))) 3000)))"

definition checkCoverage_answer :: "web_error + json \<Rightarrow> rider_page \<Rightarrow> rider_page" where
  "checkCoverage_answer answer p =
     (case answer of
        Inr drivers \<Rightarrow> p\<lparr>rp_nearbyDrivers := Some drivers\<rparr>
      | Inl e \<Rightarrow> p\<lparr>rp_err := Some (web_message e)\<rparr>)\<lparr>rp_checkingCoverage := False\<rparr>"

definition cancelRide :: "rider_page \<Rightarrow> rider_page \<times> api_call option" where
  "cancelRide p = (if \<not> set_id (rp_tripId p) then (p, None) else (p\<lparr>rp_err := None\<rparr>, Some (CancelTrip (the (rp_tripId p)))))"

definition cancelRide_answer :: "web_error + json option \<Rightarrow> rider_page \<Rightarrow> rider_page" where
  "cancelRide_answer answer p =
     settle p (case answer of Inr _ \<Rightarrow> leave_trip p | Inl e \<Rightarrow> p\<lparr>rp_err := Some (web_message e)\<rparr>)"

definition submitRating :: "rat \<Rightarrow> string option \<Rightarrow> rider_page \<Rightarrow> api_call option" where
  "submitRating rating comment p =
     (case rp_pendingRating p of
        None \<Rightarrow> None
      | Some t \<Rightarrow> Some (RateTrip (json_text (nullish (jget t ''id'') JNull)) rating comment))"

definition submitRating_answer :: "web_error + json option \<Rightarrow> rider_page \<Rightarrow> rider_page" where
  "submitRating_answer answer p =
     (case answer of Inr _ \<Rightarrow> p\<lparr>rp_pendingRating := None, rp_historyKey := rp_historyKey p + 1\<rparr> | Inl e \<Rightarrow> p)"

definition fillDemoRoute :: "rider_page \<Rightarrow> rider_page" where
  "fillDemoRoute p =
     p\<lparr>rp_pickup := (''41.311'', ''69.279''), rp_dropoff := (''41.330'', ''69.250''),
       rp_nearbyDrivers := None, rp_err := None\<rparr>"

section \<open>The driver page\<close>

record driver_page =
  dv_online :: bool
  dv_pos :: "rat \<times> rat"
  dv_err :: "string option"
  dv_sending :: bool
  dv_statusPending :: bool
  dv_pingsSent :: nat
  dv_latText :: string
  dv_lonText :: string

definition driver_start :: driver_page where
  "driver_start =
     \<lparr>dv_online = False, dv_pos = (fl (41311 / 1000), fl (69279 / 1000)), dv_err = None, dv_sending = False,
      dv_statusPending = False, dv_pingsSent = 0, dv_latText = ''41.311000'', dv_lonText = ''69.279000''\<rparr>"

definition toggleOnline :: "auth_session option \<Rightarrow> driver_page \<Rightarrow> driver_page \<times> (api_call \<times> bool) option" where
  "toggleOnline session d =
     (if dv_statusPending d then (d, None)
      else case session of
        None \<Rightarrow> (d, None)
      | Some s \<Rightarrow>
          let next = \<not> dv_online d in
          (d\<lparr>dv_statusPending := True, dv_err := None\<rparr>,
           Some (SetDriverStatus (ss_id s) (if next then ''online'' else ''offline''), next)))"

definition toggleOnline_answer :: "bool \<Rightarrow> web_error + json option \<Rightarrow> driver_page \<Rightarrow> driver_page" where
  "toggleOnline_answer next answer d =
     (case answer of Inr _ \<Rightarrow> d\<lparr>dv_online := next\<rparr> | Inl e \<Rightarrow> d\<lparr>dv_err := Some (web_message e)\<rparr>)
       \<lparr>dv_statusPending := False\<rparr>"

text \<open>The text fields follow the position unless they already read as it.\<close>

definition sync_text :: "rat \<Rightarrow> string \<Rightarrow> string" where
  "sync_text x cur = (if js_Number cur = Num x then cur else to_fixed 6 x)"

definition set_pos :: "rat \<times> rat \<Rightarrow> driver_page \<Rightarrow> driver_page" where
  "set_pos q d = d\<lparr>dv_pos := q, dv_latText := sync_text (fst q) (dv_latText d),
     dv_lonText := sync_text (snd q) (dv_lonText d)\<rparr>"

definition move :: "rat \<Rightarrow> rat \<Rightarrow> driver_page \<Rightarrow> driver_page" where
  "move dLat dLon d = set_pos (fl (fst (dv_pos d) + dLat), fl (snd (dv_pos d) + dLon)) d"

definition parseDraftCoordinate :: "string \<Rightarrow> rat option" where
  "parseDraftCoordinate value =
     (let trimmed = trim value in
      if trimmed = [] \<or> trimmed = ''-'' \<or> trimmed = ''.'' \<or> trimmed = ''-.'' then None
      else case js_Number trimmed of Num next \<Rightarrow> Some next | _ \<Rightarrow> None)"

text \<open>Typing a coordinate: the field keeps what was typed, the position follows when it is one.\<close>

definition type_lat :: "string \<Rightarrow> driver_page \<Rightarrow> driver_page" where
  "type_lat value d =
     (let d = d\<lparr>dv_latText := value\<rparr> in
      case parseDraftCoordinate value of
        None \<Rightarrow> d
      | Some next \<Rightarrow> if - 90 \<le> next \<and> next \<le> 90 then set_pos (next, snd (dv_pos d)) d else d)"

definition type_lon :: "string \<Rightarrow> driver_page \<Rightarrow> driver_page" where
  "type_lon value d =
     (let d = d\<lparr>dv_lonText := value\<rparr> in
      case parseDraftCoordinate value of
        None \<Rightarrow> d
      | Some next \<Rightarrow> if - 180 \<le> next \<and> next \<le> 180 then set_pos (fst (dv_pos d), next) d else d)"

definition ping_body :: "auth_session \<Rightarrow> driver_page \<Rightarrow> (string \<times> json) list" where
  "ping_body s d =
     [(''driver_id'', JStr (ss_id s)), (''lat'', JNum (fst (dv_pos d))), (''lon'', JNum (snd (dv_pos d)))]"

definition ping_answer :: "bool \<Rightarrow> web_error + json \<Rightarrow> driver_page \<Rightarrow> driver_page" where
  "ping_answer cancelled answer d =
     (if cancelled then d
      else (case answer of
              Inr _ \<Rightarrow> d\<lparr>dv_pingsSent := dv_pingsSent d + 1, dv_err := None\<rparr>
            | Inl e \<Rightarrow> d\<lparr>dv_err := Some (web_message e)\<rparr>)\<lparr>dv_sending := False\<rparr>)"

section \<open>The driver's active trip\<close>

record trip_card =
  cd_trip :: "json option"
  cd_loading :: bool
  cd_busy :: bool
  cd_err :: "string option"

definition is_active_trip :: "json \<Rightarrow> bool" where
  "is_active_trip t \<longleftrightarrow> jget t ''status'' = Some (JStr ''matched'') \<or> jget t ''status'' = Some (JStr ''in_progress'')"

definition poll_answer :: "web_error + json list \<Rightarrow> trip_card \<Rightarrow> trip_card" where
  "poll_answer answer c =
     (case answer of
        Inr list \<Rightarrow> c\<lparr>cd_trip := find is_active_trip list, cd_err := None\<rparr>
      | Inl e \<Rightarrow> c\<lparr>cd_err := Some (web_message e)\<rparr>)\<lparr>cd_loading := False\<rparr>"

definition card_start_answer :: "json \<Rightarrow> web_error + json \<Rightarrow> trip_card \<Rightarrow> trip_card" where
  "card_start_answer trip answer c =
     (case answer of
        Inr next \<Rightarrow> c\<lparr>cd_trip := Some (JObj (spread (spread_entries trip) (spread_entries next)))\<rparr>
      | Inl e \<Rightarrow> c\<lparr>cd_err := Some (web_message e)\<rparr>)\<lparr>cd_busy := False\<rparr>"

text \<open>\<open>complete\<close> and \<open>cancel\<close> drop the trip when the call succeeds.\<close>

definition card_end_answer :: "web_error + json option \<Rightarrow> trip_card \<Rightarrow> trip_card" where
  "card_end_answer answer c =
     (case answer of
        Inr _ \<Rightarrow> c\<lparr>cd_trip := None\<rparr> | Inl e \<Rightarrow> c\<lparr>cd_err := Some (web_message e)\<rparr>)\<lparr>cd_busy := False\<rparr>"

definition fareText :: "json option \<Rightarrow> json \<Rightarrow> string" where
  "fareText currency amount =
     json_text (nullish currency (JStr ''USD'')) @ '' '' @
     (case to_number amount of Num q \<Rightarrow> to_fixed 2 q | _ \<Rightarrow> json_text amount)"

section \<open>The rating dialog\<close>

record rating_dialog =
  rg_rating :: int
  rg_hover :: int
  rg_comment :: string
  rg_submitting :: bool
  rg_err :: "string option"

definition dialog_open :: rating_dialog where
  "dialog_open = \<lparr>rg_rating = 5, rg_hover = 0, rg_comment = [], rg_submitting = False, rg_err = None\<rparr>"

definition chooseRating :: "int \<Rightarrow> rating_dialog \<Rightarrow> rating_dialog" where
  "chooseRating next g = (let bounded = min 5 (max 1 next) in g\<lparr>rg_rating := bounded, rg_hover := bounded\<rparr>)"

definition keyToRating :: "int \<Rightarrow> string \<Rightarrow> int option" where
  "keyToRating n key =
     (if key = ''ArrowRight'' \<or> key = ''ArrowUp'' then Some (if n = 5 then 1 else n + 1)
      else if key = ''ArrowLeft'' \<or> key = ''ArrowDown'' then Some (if n = 1 then 5 else n - 1)
      else if key = ''Home'' then Some 1 else if key = ''End'' then Some 5 else None)"

definition handleStarKeyDown :: "string \<Rightarrow> int \<Rightarrow> rating_dialog \<Rightarrow> rating_dialog" where
  "handleStarKeyDown key n g =
     (case keyToRating n key of None \<Rightarrow> g | Some next \<Rightarrow> if next = 0 then g else chooseRating next g)"

definition dialog_submit :: "rating_dialog \<Rightarrow> rating_dialog \<times> int \<times> string option" where
  "dialog_submit g =
     (g\<lparr>rg_submitting := True, rg_err := None\<rparr>, rg_rating g,
      (if trim (rg_comment g) = [] then None else Some (trim (rg_comment g))))"

definition dialog_answer :: "web_error + unit \<Rightarrow> rating_dialog \<Rightarrow> rating_dialog" where
  "dialog_answer answer g =
     (case answer of Inr _ \<Rightarrow> g | Inl e \<Rightarrow> g\<lparr>rg_err := Some (web_message e)\<rparr>)\<lparr>rg_submitting := False\<rparr>"

section \<open>The vehicles and the history\<close>

record vehicles_panel =
  vp_list :: "json list"
  vp_loading :: bool
  vp_err :: "string option"
  vp_showForm :: bool
  vp_draft :: vehicle_draft
  vp_busy :: bool

definition panel_refresh :: "web_error + json list \<Rightarrow> vehicles_panel \<Rightarrow> vehicles_panel" where
  "panel_refresh answer v =
     (case answer of
        Inr rows \<Rightarrow> v\<lparr>vp_list := rows, vp_err := None\<rparr>
      | Inl e \<Rightarrow> v\<lparr>vp_err := Some (web_message e)\<rparr>)\<lparr>vp_loading := False\<rparr>"

definition panel_submit :: "vehicles_panel \<Rightarrow> vehicles_panel \<times> api_call" where
  "panel_submit v =
     (v\<lparr>vp_busy := True, vp_err := None\<rparr>, CreateVehicle (normalizeVehicleDraft (vp_draft v)))"

definition panel_submit_answer ::
    "rat \<Rightarrow> web_error + json \<Rightarrow> web_error + json list \<Rightarrow> vehicles_panel \<Rightarrow> vehicles_panel" where
  "panel_submit_answer thisYear answer listed v =
     (case answer of
        Inr _ \<Rightarrow> panel_refresh listed (v\<lparr>vp_showForm := False, vp_draft := emptyVehicleDraft thisYear\<rparr>)
      | Inl e \<Rightarrow> v\<lparr>vp_err := Some (web_message e)\<rparr>)\<lparr>vp_busy := False\<rparr>"

text \<open>\<open>setActive\<close> and \<open>remove\<close>.\<close>

definition panel_change_answer ::
    "web_error + json option \<Rightarrow> web_error + json list \<Rightarrow> vehicles_panel \<Rightarrow> vehicles_panel" where
  "panel_change_answer answer listed v =
     (case answer of
        Inr _ \<Rightarrow> panel_refresh listed v
      | Inl e \<Rightarrow> v\<lparr>vp_err := Some (web_message e)\<rparr>)\<lparr>vp_busy := False\<rparr>"

record trip_history =
  th_trips :: "json list"
  th_loading :: bool
  th_err :: "string option"

definition history_refresh :: "web_error + json list \<Rightarrow> trip_history \<Rightarrow> trip_history" where
  "history_refresh answer h =
     (case answer of
        Inr rows \<Rightarrow> h\<lparr>th_trips := rows, th_err := None\<rparr>
      | Inl e \<Rightarrow> h\<lparr>th_err := Some (web_message e)\<rparr>)\<lparr>th_loading := False\<rparr>"

section \<open>The administrator's totals\<close>

definition admin_number :: "json option \<Rightarrow> rat" where
  "admin_number v = (case to_number (nullish v (JNum 0)) of Num q \<Rightarrow> q | _ \<Rightarrow> 0)"

definition admin_totals :: "json list \<Rightarrow> rat \<times> rat \<times> rat" where
  "admin_totals daily =
     foldl (\<lambda>(trips, km, revenue) item.
       (fl (trips + admin_number (jget item ''trips'')), fl (km + admin_number (jget item ''total_km'')),
        fl (revenue + admin_number (jget item ''gross_revenue'')))) (0, 0, 0) daily"

end
