(* ===== verification/WebProperties.thy ===== *)
theory WebProperties
  imports WebPages TripProperties
begin

text \<open>
  What the web client and the servers promise each other: the gate admits its own role, a session
  that was signed in is honoured by the guard, a vehicle draft and a rating are accepted as sent, a
  location ping reaches the map of the rider, and the rider page follows the events of its trip.
\<close>

section \<open>The sign-in gate\<close>

text \<open>A workspace opens for its own role only: when sign-in answers with a session, the gate of a
  role either opens, without an error, with that session stored and readable, or, for an account of
  another role, it stays closed, shows why, and no session remains in the browser.\<close>

theorem gate_admits_its_role:
  assumes "submit_answer role (Inr s) (g, b) = (g', b')"
    and "ss_token s \<noteq> []" and "ss_id s \<noteq> []" and "isRole (Some (ss_role s))"
  shows "if ss_role s = role
    then shows_children role g' \<and> ag_err g' = None \<and> getSession b' = Some s \<and> ag_session g' = Some s
    else \<not> shows_children role g' \<and> ag_err g' \<noteq> None \<and> getSession b' = None \<and> getToken b' = None"
  using assms getSession_set [OF assms(2-4), of b] getSession_clear [of b]
  by (auto simp: submit_answer_def acceptSession_def shows_children_def gate_notified_def Let_def
      getToken_def clear_session_def split: if_splits)

definition blank_browser :: browser where
  "blank_browser = \<lparr>br_storage = [], br_listeners = [1], br_calls = []\<rparr>"

definition closed_gate :: auth_gate where
  "closed_gate = \<lparr>ag_session = None, ag_err = None, ag_loading = True\<rparr>"

theorem gate_admits_its_role_witness:
  "case submit_answer ''rider'' (Inr \<lparr>ss_id = ''d'', ss_role = ''driver'', ss_token = ''t''\<rparr>) (closed_gate, blank_browser)
   of (g', b') \<Rightarrow> \<not> shows_children ''rider'' g' \<and> getSession b' = None"
proof -
  let ?s = "\<lparr>ss_id = ''d'', ss_role = ''driver'', ss_token = ''t''\<rparr>"
  obtain g' b' where run: "submit_answer ''rider'' (Inr ?s) (closed_gate, blank_browser) = (g', b')" by fastforce
  have "if ss_role ?s = ''rider''
    then shows_children ''rider'' g' \<and> ag_err g' = None \<and> getSession b' = Some ?s \<and> ag_session g' = Some ?s
    else \<not> shows_children ''rider'' g' \<and> ag_err g' \<noteq> None \<and> getSession b' = None \<and> getToken b' = None"
    by (rule gate_admits_its_role [OF run]) (simp_all add: isRole_def)
  then show ?thesis by (simp add: run)
qed

section \<open>A session is honoured\<close>

lemma req_request_bearer:
  assumes "getSession b = Some s"
  shows "map_of (in_headers (rq_init (req_request base path i b))) ''authorization'' = Some (''Bearer '' @ ss_token s)"
  using token_of_session [OF assms] by (simp add: req_request_def Let_def)

lemma login_result:
  assumes "w_tx w = None" and "loginWithPassword A phone password w = (Inr s, w')"
  shows "\<exists>u \<in> set (db_users (w_db w)). us_phone u = phone \<and> us_is_active u \<and> ax_verify A (us_password_hash u) password \<and>
    s = \<lparr>se_id = us_id u, se_role = us_role u, se_token = ax_sign A (sys_now (w_sys w')) (us_id u) (us_role u)\<rparr>"
proof -
  obtain r w1 where q: "query (select_credentials phone) w = (r, w1)" by (metis surj_pair)
  note run = assms(2) [unfolded loginWithPassword_def await_def q prod.case]
  obtain u where r: "r = Inr (Some u)"
    using run by (cases r) (auto simp: throw_def split: option.splits)
  have u: "us_is_active u" "ax_verify A (us_password_hash u) password"
    using run unfolding r by (simp_all add: throw_def split: if_splits)
  then have s: "s = \<lparr>se_id = us_id u, se_role = us_role u, se_token = ax_sign A (sys_now (w_sys w1)) (us_id u) (us_role u)\<rparr>" "w' = w1"
    using run unfolding r by (auto simp: signToken_def effect_simps)
  have "find (\<lambda>u. us_phone u = phone) (db_users (w_db w)) = Some u"
    using query_select_result [OF assms(1)] q r unfolding select_credentials_def by metis
  then have "u \<in> set (db_users (w_db w))" "us_phone u = phone" by (auto simp: find_Some_iff)
  with u s show ?thesis by auto
qed

text \<open>C17. Who signs in with the password is let in as who they are: when \<open>login\<close> answers with a session,
  the account exists, is active, and the password is its own; and every request the web client then
  makes with that session passes the guard of the API as that account and role, on every route that
  admits the role, and is refused with 403 on the others. Of the tokens only this is assumed: while
  they are valid, \<open>verify\<close> returns the claims that were signed.\<close>

theorem sign_in_is_honoured:
  assumes "w_tx w = None" and "login A dto w = (Inr s, w')"
    and "\<And>sub role. \<exists>c. ax_verifyToken A later (ax_sign A (sys_now (w_sys w')) sub role) = Some c \<and>
      jget c ''sub'' = Some (JStr sub) \<and> jget c ''role'' = Some (JStr role)"
    and "getSession b = Some \<lparr>ss_id = se_id s, ss_role = se_role s, ss_token = se_token s\<rparr>"
  shows "\<exists>u c. u \<in> set (db_users (w_db w)) \<and> us_phone u = ln_phone dto \<and> us_is_active u \<and>
    ax_verify A (us_password_hash u) (ln_password dto) \<and>
    jget c ''sub'' = Some (JStr (us_id u)) \<and> jget c ''role'' = Some (JStr (us_role u)) \<and>
    jwt_guard A False roles later (map_of (in_headers (rq_init (req_request base path i b))) ''authorization'') =
      (if roles = [] \<or> us_role u \<in> set roles then Inr (Some c)
       else Inl (Http 403 None (''requires role: '' @ join_with ''|'' roles)))"
proof -
  obtain u where u: "u \<in> set (db_users (w_db w))" "us_phone u = ln_phone dto" "us_is_active u"
      "ax_verify A (us_password_hash u) (ln_password dto)"
    and s: "s = \<lparr>se_id = us_id u, se_role = us_role u, se_token = ax_sign A (sys_now (w_sys w')) (us_id u) (us_role u)\<rparr>"
    using login_result [OF assms(1) assms(2) [unfolded login_def]] by auto
  obtain c where c: "ax_verifyToken A later (se_token s) = Some c" "jget c ''sub'' = Some (JStr (us_id u))"
      "jget c ''role'' = Some (JStr (us_role u))"
    using assms(3) [of "us_id u" "us_role u"] s by auto
  have "jwt_guard A False roles later (Some (''Bearer '' @ se_token s)) =
      (if roles = [] \<or> us_role u \<in> set roles then Inr (Some c)
       else Inl (Http 403 None (''requires role: '' @ join_with ''|'' roles)))"
    using c by (auto simp: jwt_guard_def)
  then show ?thesis using u c req_request_bearer [OF assms(4), of base path i] by (intro exI [of _ u] exI [of _ c]) (simp add: s)
qed

text \<open>Tokens whose claims can be read back: the length of the subject, the subject and the role.\<close>

definition echo_auth :: auth_ext where
  "echo_auth = sample_auth\<lparr>ax_sign := (\<lambda>now sub role. replicate (length sub) CHR ''a'' @ '';'' @ sub @ role),
     ax_verifyToken := (\<lambda>now t.
       let n = length (takeWhile (\<lambda>c. c = CHR ''a'') t); rest = drop (Suc n) t
       in Some (JObj [(''sub'', JStr (take n rest)), (''role'', JStr (drop n rest))]))\<rparr>"

lemma echo_auth_reads:
  "ax_verifyToken echo_auth later (ax_sign echo_auth now sub role) = Some (JObj [(''sub'', JStr sub), (''role'', JStr role)])"
proof -
  have "takeWhile (\<lambda>c. c = CHR ''a'') (replicate n CHR ''a'' @ CHR '';'' # t) = replicate n CHR ''a''" for n t
    by (induction n) simp_all
  then show ?thesis by (simp add: echo_auth_def Let_def)
qed

theorem sign_in_is_honoured_witness:
  "\<exists>(u :: user_row) c base. us_phone u = ''+100000001'' \<and> jget c ''sub'' = Some (JStr (us_id u)) \<and>
    jwt_guard echo_auth False [''rider''] 7 (map_of (in_headers (rq_init (req_request base ''/trips'' get_init
      (setSession \<lparr>ss_id = rider1, ss_role = ''rider'', ss_token = ax_sign echo_auth 100000 rider1 ''rider''\<rparr> blank_browser))))
      ''authorization'') = Inr (Some c)"
proof -
  let ?dto = "\<lparr>ln_phone = ''+100000001'', ln_password = ''password''\<rparr>"
  let ?t = "ax_sign echo_auth 100000 rider1 ''rider''"
  let ?s = "\<lparr>se_id = rider1, se_role = ''rider'', se_token = ?t\<rparr>"
  let ?b = "setSession \<lparr>ss_id = rider1, ss_role = ''rider'', ss_token = ?t\<rparr> blank_browser"
  have log: "fst (login echo_auth ?dto sample_world) = Inr ?s" by code_simp
  then obtain w' where run: "login echo_auth ?dto sample_world = (Inr ?s, w')" by (metis prod.collapse)
  have "?t \<noteq> [] \<and> rider1 \<noteq> []" by code_simp
  then have b: "getSession ?b = Some \<lparr>ss_id = se_id ?s, ss_role = se_role ?s, ss_token = se_token ?s\<rparr>"
    using getSession_set [of "\<lparr>ss_id = rider1, ss_role = ''rider'', ss_token = ?t\<rparr>" blank_browser] by (simp add: isRole_def)
  have signed: "\<exists>c. ax_verifyToken echo_auth 7 (ax_sign echo_auth (sys_now (w_sys w')) sub role) = Some c \<and>
      jget c ''sub'' = Some (JStr sub) \<and> jget c ''role'' = Some (JStr role)" for sub role
    by (simp add: echo_auth_reads)
  obtain u c where u: "u \<in> set (db_users (w_db sample_world))" "us_phone u = ''+100000001''"
      "jget c ''sub'' = Some (JStr (us_id u))"
    and g: "jwt_guard echo_auth False [''rider''] 7
        (map_of (in_headers (rq_init (req_request None ''/trips'' get_init ?b))) ''authorization'') =
      (if [''rider''] = [] \<or> us_role u \<in> set [''rider''] then Inr (Some c)
       else Inl (Http 403 None (''requires role: '' @ join_with ''|'' [''rider''])))"
    using sign_in_is_honoured [where base = None and path = "''/trips''" and i = get_init and roles = "[''rider'']", OF _ run signed b]
    by (auto simp: sample_world_def)
  have "us_role u = ''rider''"
    using u(1,2) by (auto simp: sample_world_def sample_db_def sample_user_def)
  with g have "jwt_guard echo_auth False [''rider''] 7
      (map_of (in_headers (rq_init (req_request None ''/trips'' get_init ?b))) ''authorization'') = Inr (Some c)" by simp
  then show ?thesis using u(2,3) by blast
qed

section \<open>A vehicle draft is accepted as sent\<close>

lemma upper_char_space: "js_space (upper_char c) = js_space c"
  by (auto simp: upper_char_def js_space_def Let_def)

lemma upper_char_idem: "upper_char (upper_char c) = upper_char c"
  by (auto simp: upper_char_def Let_def)

lemma dropWhile_upper: "dropWhile js_space (map upper_char s) = map upper_char (dropWhile js_space s)"
  by (induction s) (simp_all add: upper_char_space)

lemma trim_to_upper: "trim (to_upper s) = to_upper (trim s)"
  by (simp only: trim_def to_upper_def dropWhile_upper rev_map)

lemma to_upper_idem: "to_upper (to_upper s) = to_upper s"
  by (simp add: to_upper_def upper_char_idem)

text \<open>What the API asks of a vehicle.\<close>

definition draft_ok :: "vehicle_draft \<Rightarrow> bool" where
  "draft_ok d \<longleftrightarrow> VEHICLE_PLATE_PATTERN (vd_plate d) \<and> length (vd_make d) \<in> {1..64} \<and>
     length (vd_model d) \<in> {1..64} \<and> length (vd_color d) \<in> {1..32} \<and>
     vd_year d = of_int \<lfloor>vd_year d\<rfloor> \<and> 1990 \<le> vd_year d \<and> vd_year d \<le> 2100 \<and>
     vd_capacity d = of_int \<lfloor>vd_capacity d\<rfloor> \<and> 1 \<le> vd_capacity d \<and> vd_capacity d \<le> 8"

text \<open>C27. Client and server agree on what a vehicle is: the body the web client sends for a draft is accepted
  exactly if the draft, trimmed and its plate in capitals, is one the API asks for, and then the
  server keeps every field as the client sent it: its own normalisation changes nothing any more.\<close>

theorem client_vehicle_accepted:
  "create_vehicle_dto_of (in_body (snd (endpoint (CreateVehicle d)))) =
     (let n = normalizeVehicleDraft d in
      if draft_ok n
      then Inr \<lparr>cv_plate = vd_plate n, cv_make = vd_make n, cv_model = vd_model n, cv_year = \<lfloor>vd_year n\<rfloor>,
                cv_color = vd_color n, cv_capacity = \<lfloor>vd_capacity n\<rfloor>\<rparr>
      else Inl (Http 422 None ''Unprocessable Entity''))"
proof -
  let ?n = "normalizeVehicleDraft d"
  have kept: "to_upper (trim (vd_plate ?n)) = vd_plate ?n" "trim (vd_make ?n) = vd_make ?n"
    "trim (vd_model ?n) = vd_model ?n" "trim (vd_color ?n) = vd_color ?n"
    by (simp_all add: normalizeVehicleDraft_def trim_to_upper to_upper_idem trim_idem)
  have body: "in_body (snd (endpoint (CreateVehicle d))) = Some (JObj (draft_body ?n))"
    by (simp add: json_init_def)
  have "map (transform_entry create_vehicle_fields) (draft_body ?n) = draft_body ?n"
    by (simp add: draft_body_def create_vehicle_fields_def transform_entry_def plain_def transformed_def
        normalizePlate_def trimString_def kept)
  moreover have "set (map fst (draft_body ?n)) \<subseteq> set (map fd_name create_vehicle_fields)"
    by (simp add: draft_body_def create_vehicle_fields_def plain_def transformed_def)
  moreover have "list_all (field_ok (draft_body ?n)) create_vehicle_fields = draft_ok ?n"
    by (simp add: draft_body_def create_vehicle_fields_def field_ok_def plain_def transformed_def draft_ok_def)
      (auto simp: VEHICLE_PLATE_PATTERN_def Suc_le_eq)
  moreover have "str_of (draft_body ?n) ''plate'' = vd_plate ?n \<and> str_of (draft_body ?n) ''make'' = vd_make ?n \<and>
      str_of (draft_body ?n) ''model'' = vd_model ?n \<and> int_of_field (draft_body ?n) ''year'' = \<lfloor>vd_year ?n\<rfloor> \<and>
      str_of (draft_body ?n) ''color'' = vd_color ?n \<and> int_of_field (draft_body ?n) ''capacity'' = \<lfloor>vd_capacity ?n\<rfloor>"
    by (simp add: str_of_def int_of_field_def draft_body_def)
  ultimately show ?thesis
    unfolding body create_vehicle_dto_of_def validate_def Let_def by simp
qed

section \<open>A rating is accepted as sent\<close>

datatype dialog_input = StarKey string int | Star int | Comment string

fun dialog_step :: "rating_dialog \<Rightarrow> dialog_input \<Rightarrow> rating_dialog" where
  "dialog_step g (StarKey key n) = handleStarKeyDown key n g"
| "dialog_step g (Star n) = chooseRating n g"
| "dialog_step g (Comment s) = (if length s \<le> 512 then g\<lparr>rg_comment := s\<rparr> else g)"

lemma length_trim: "length (trim s) \<le> length s"
  using length_dropWhile_le [of js_space] by (metis trim_def length_rev le_trans)

lemma dialog_steps_ok:
  "1 \<le> rg_rating (foldl dialog_step dialog_open inputs) \<and> rg_rating (foldl dialog_step dialog_open inputs) \<le> 5 \<and>
   length (rg_comment (foldl dialog_step dialog_open inputs)) \<le> 512"
proof (induction inputs rule: rev_induct)
  case (snoc x xs)
  then show ?case
    by (cases x) (auto simp: handleStarKeyDown_def chooseRating_def Let_def split: option.split)
qed (simp add: dialog_open_def)

text \<open>Whatever keys and stars the rider presses and whatever fits the comment field, the rating the dialog
  submits is one of 1 to 5, and the API accepts the request as it is, with that rating and the
  trimmed comment.\<close>

theorem rating_dialog_accepted:
  "case dialog_submit (foldl dialog_step dialog_open inputs) of (g, rating, comment) \<Rightarrow>
     1 \<le> rating \<and> rating \<le> 5 \<and>
     rate_trip_dto_of (in_body (snd (endpoint (RateTrip tripId (of_int rating) comment)))) =
       Inr \<lparr>rd_rating = rating, rd_comment = comment\<rparr>"
proof -
  let ?g = "foldl dialog_step dialog_open inputs"
  have "length (trim (rg_comment ?g)) \<le> 512" using dialog_steps_ok [of inputs] length_trim le_trans by blast
  then show ?thesis
    using dialog_steps_ok [of inputs]
    by (auto simp: dialog_submit_def json_init_def opt_field_def rate_trip_dto_of_def validate_def rate_trip_fields_def
        Let_def transform_entry_def plain_def optional_def field_ok_def int_of_field_def opt_str_of_def)
qed

section \<open>The rider page follows its trip\<close>

text \<open>What the page shows of the trip: its status and the driver it follows.\<close>

definition shown_status :: "rider_page \<Rightarrow> json option" where
  "shown_status p = trip_field (rp_activeTrip p) ''status''"

text \<open>An object has every key once.\<close>

definition is_object :: "json option \<Rightarrow> bool" where
  "is_object t = (case t of None \<Rightarrow> True | Some (JObj kvs) \<Rightarrow> distinct (map fst kvs) | _ \<Rightarrow> False)"

lemma map_of_rev: "distinct (map fst kvs) \<Longrightarrow> map_of (rev kvs) k = map_of kvs k"
proof (induction kvs)
  case (Cons kv kvs)
  then have "map_of kvs (fst kv) = None" by (simp add: map_of_eq_None_iff)
  then show ?case using Cons by (cases kv) (simp add: map_add_def split: option.split)
qed simp

lemma jget_spread:
  assumes "distinct (map fst a)" and "distinct (map fst b)"
  shows "jget (JObj (spread a b)) k = (case map_of b k of None \<Rightarrow> map_of a k | Some v \<Rightarrow> Some v)"
  using assms distinct_spread [OF assms(1), of b] by (simp add: map_of_rev map_of_spread)

lemma merged_field:
  assumes "set_id tripId" and "is_object previous" and "distinct (map fst next)" and "map_of next k = Some v"
  shows "trip_field (mergeActiveTrip now previous tripId next) k = Some v"
proof (cases previous)
  case None
  then show ?thesis
    using assms jget_spread [of "[(''id'', JStr (the tripId)), (''status'', JStr ''requested''), (''requested_at'', JStr now)]" "next" k]
    by (simp add: mergeActiveTrip_def trip_field_def)
next
  case (Some j)
  then obtain kvs where j: "j = JObj kvs" and d: "distinct (map fst kvs)"
    using assms(2) by (cases j) (simp_all add: is_object_def)
  show ?thesis
    using assms(4) jget_spread [OF d assms(3), of k] Some j by (simp add: mergeActiveTrip_def trip_field_def spread_entries_def)
qed

text \<open>The events of the outbox, as the page reads them.\<close>

lemma outbox_event:
  assumes "outboxPayload X i ty (JObj payload) = Inr kvs" and "''type'' \<notin> fst ` set payload"
    and "distinct (map fst payload)"
  shows "eventType (JObj kvs) = ''trip.'' @ ty"
    and "map_of payload ''driver_id'' = Some (JStr v) \<Longrightarrow> v \<noteq> [] \<Longrightarrow> driverIdFromEvent (JObj kvs) = Some v"
proof -
  have kvs: "kvs = spread [(''type'', JStr (''trip.'' @ ty)), (''trip_id'', JStr i)] payload"
    using assms(1) by (simp add: outboxPayload_def spread_entries_def Let_def)
  have get: "jget (JObj kvs) k = (case map_of payload k of None \<Rightarrow>
      map_of [(''type'', JStr (''trip.'' @ ty)), (''trip_id'', JStr i)] k | Some v \<Rightarrow> Some v)" for k
    unfolding kvs by (rule jget_spread) (simp_all add: assms(3))
  have "map_of payload ''type'' = None" using assms(2) by (simp add: map_of_eq_None_iff)
  then show "eventType (JObj kvs) = ''trip.'' @ ty" using get [of "''type''"] by (simp add: eventType_def nullish_def)
  assume "map_of payload ''driver_id'' = Some (JStr v)" "v \<noteq> []"
  then show "driverIdFromEvent (JObj kvs) = Some v"
    using get [of "''driver_id''"] by (simp add: driverIdFromEvent_def)
qed

lemma rider_event_one:
  assumes "tk_connected (rp_socket p)" and "rp_handled p = length (tk_events (rp_socket p))"
  shows "rider_events now [e] p = settle p (handle_event now (rp_tripId p)
    (p\<lparr>rp_socket := on_trip_event e (rp_socket p), rp_handled := Suc (rp_handled p)\<rparr>) e)"
  using assms by (simp add: rider_events_def handle_new_def Let_def on_trip_event_def)

lemma rider_page_event:
  assumes "outboxPayload X i ty (JObj payload) = Inr kvs"
    and "''type'' \<notin> fst ` set payload" and "distinct (map fst payload)"
    and "tk_connected (rp_socket p)" and "rp_handled p = length (tk_events (rp_socket p))"
    and "rp_tripId p = Some i" and "i \<noteq> []" and "is_object (rp_activeTrip p)"
    and "q = rider_events now [JObj kvs] p"
  shows "ty = ''completed'' \<or> ty = ''cancelled'' \<Longrightarrow>
      rp_tripId q = None \<and> rp_activeTrip q = None \<and> rp_stored q = None \<and> \<not> tk_connected (rp_socket q)"
    and "ty = ''matched'' \<Longrightarrow> map_of payload ''driver_id'' = Some (JStr v) \<Longrightarrow> v \<noteq> [] \<Longrightarrow>
      shown_status q = Some (JStr (trip_status_text Matched)) \<and> rp_tripId q = Some i \<and>
      active_driver_id (rp_activeTrip q) = Some v \<and>
      (active_driver_id (rp_activeTrip p) \<noteq> Some v \<longrightarrow>
        tk_sent (rp_socket q) = tk_sent (rp_socket p) @ [(''driver:subscribe'', v)])"
    and "ty = ''started'' \<Longrightarrow> shown_status q = Some (JStr (trip_status_text InProgress)) \<and> rp_tripId q = Some i"
    and "ty = ''requested'' \<or> ty = ''rated'' \<Longrightarrow> rp_activeTrip q = rp_activeTrip p \<and> rp_tripId q = Some i"
proof -
  have id: "set_id (Some i)" using assms(7) by (simp add: set_id_def)
  note run = assms(9) [unfolded rider_event_one [OF assms(4,5)] assms(6)]
  note ev = outbox_event [OF assms(1-3)]
  note merged = merged_field [OF id assms(8)]
  show "rp_tripId q = None \<and> rp_activeTrip q = None \<and> rp_stored q = None \<and> \<not> tk_connected (rp_socket q)"
    if "ty = ''completed'' \<or> ty = ''cancelled''"
    using that assms(6)
    by (elim disjE) (simp_all add: run handle_event_def ev(1) leave_trip_def settle_def trip_changed_def driver_changed_def
        socket_set_trip_def socket_set_driver_def set_id_def start_call_def Let_def active_driver_id_def trip_field_def)
  show "shown_status q = Some (JStr (trip_status_text InProgress)) \<and> rp_tripId q = Some i" if "ty = ''started''"
    using that assms(6) id merged [of "[(''status'', JStr ''in_progress'')]" "''status''"]
    by (simp add: run handle_event_def ev(1) settle_def driver_changed_def start_call_def Let_def shown_status_def)
  show "rp_activeTrip q = rp_activeTrip p \<and> rp_tripId q = Some i" if "ty = ''requested'' \<or> ty = ''rated''"
    using that assms(6) by (elim disjE) (simp_all add: run handle_event_def ev(1) settle_def Let_def)
  assume "ty = ''matched''" and v: "map_of payload ''driver_id'' = Some (JStr v)" "v \<noteq> []"
  let ?next = "[(''status'', JStr ''matched''), (''driver_id'', JStr v)]"
  have "trip_field (mergeActiveTrip now (rp_activeTrip p) (Some i) ?next) ''driver_id'' = Some (JStr v)"
    and "trip_field (mergeActiveTrip now (rp_activeTrip p) (Some i) ?next) ''status'' = Some (JStr ''matched'')"
    by (rule merged; simp)+
  then show "shown_status q = Some (JStr (trip_status_text Matched)) \<and> rp_tripId q = Some i \<and>
      active_driver_id (rp_activeTrip q) = Some v \<and>
      (active_driver_id (rp_activeTrip p) \<noteq> Some v \<longrightarrow>
        tk_sent (rp_socket q) = tk_sent (rp_socket p) @ [(''driver:subscribe'', v)])"
    using \<open>ty = ''matched''\<close> assms(4,6) id v ev(2) [OF v]
    by (simp add: run handle_event_def ev(1) settle_def driver_changed_def start_call_def Let_def shown_status_def
        opt_field_def active_driver_id_def socket_set_driver_def on_trip_event_def)
qed

text \<open>C22. The rider page follows its trip: for every event the outbox of the trip service publishes, the page
  that shows the trip reacts as the trip did. A completed or cancelled trip is left, its socket closed
  and its id forgotten; a matched trip is shown as matched and the page subscribes to the driver of
  the event; a started one is shown as in progress; the others change nothing of what is shown.\<close>

theorem rider_page_follows_trip:
  assumes "outboxPayload X i ty (JObj payload) = Inr kvs"
    and "''type'' \<notin> fst ` set payload" and "distinct (map fst payload)"
    and "tk_connected (rp_socket p)" and "rp_handled p = length (tk_events (rp_socket p))"
    and "rp_tripId p = Some i" and "i \<noteq> []" and "is_object (rp_activeTrip p)"
    and "q = rider_events now [JObj kvs] p"
  shows "(ty = ''completed'' \<or> ty = ''cancelled'' \<longrightarrow>
      rp_tripId q = None \<and> rp_activeTrip q = None \<and> rp_stored q = None \<and> \<not> tk_connected (rp_socket q)) \<and>
    (ty = ''matched'' \<and> map_of payload ''driver_id'' = Some (JStr v) \<and> v \<noteq> [] \<longrightarrow>
      shown_status q = Some (JStr (trip_status_text Matched)) \<and> rp_tripId q = Some i \<and>
      active_driver_id (rp_activeTrip q) = Some v \<and>
      (active_driver_id (rp_activeTrip p) \<noteq> Some v \<longrightarrow>
        tk_sent (rp_socket q) = tk_sent (rp_socket p) @ [(''driver:subscribe'', v)])) \<and>
    (ty = ''started'' \<longrightarrow> shown_status q = Some (JStr (trip_status_text InProgress)) \<and> rp_tripId q = Some i) \<and>
    (ty = ''requested'' \<or> ty = ''rated'' \<longrightarrow> rp_activeTrip q = rp_activeTrip p \<and> rp_tripId q = Some i)"
proof -
  note E = rider_page_event [OF assms]
  show ?thesis
    by (rule conjI, rule impI, erule E(1), rule conjI, rule impI, elim conjE, erule (2) E(2),
        rule conjI, rule impI, erule E(3), rule impI, erule E(4))
qed

text \<open>The page of the sample rider, whose trip was just restored.\<close>

definition requested_trip :: json where
  "requested_trip = JObj [(''id'', JStr trip4), (''status'', JStr ''requested'')]"

definition riding_page :: rider_page where
  "riding_page = rider_answer 0 (Inr requested_trip) (mounted (Some trip4))"

lemma riding_page_facts:
  "tk_connected (rp_socket riding_page)" "rp_handled riding_page = 0" "tk_events (rp_socket riding_page) = []"
  "rp_tripId riding_page = Some trip4" "rp_activeTrip riding_page = Some requested_trip" "trip4 \<noteq> []" "driver2 \<noteq> []"
  by (code_simp, code_simp, code_simp, code_simp, code_simp, code_simp, code_simp)

theorem rider_page_follows_trip_witness:
  "shown_status (rider_events ''now'' [JObj [(''type'', JStr ''trip.matched''), (''trip_id'', JStr trip4),
      (''driver_id'', JStr driver2)]] riding_page) = Some (JStr ''matched'')"
proof -
  have out: "outboxPayload sample_ext trip4 ''matched'' (JObj [(''driver_id'', JStr driver2)]) =
      Inr [(''type'', JStr ''trip.matched''), (''trip_id'', JStr trip4), (''driver_id'', JStr driver2)]"
    by (simp add: outboxPayload_def spread_entries_def)
  show ?thesis
    using rider_page_follows_trip [OF out _ _ riding_page_facts(1) _ riding_page_facts(4,6) _ refl, of "''now''" driver2]
      riding_page_facts(2,3,5,7) by (simp add: is_object_def requested_trip_def)
qed

text \<open>C28. A trip that is over comes back to the page: the answer of a \<open>getTrip\<close> that a matched event started is
  taken whenever it arrives, also after the trip was cancelled or completed and the page has left it;
  the page then shows the trip as it was, with no trip id and no socket to correct it.\<close>

theorem late_answer_revives_trip:
  assumes "n < length (rp_running p)" and "rp_running p ! n = Refreshing i" and "rp_tripId p = None"
  shows "rp_activeTrip (rider_answer n (Inr trip) p) = Some trip \<and> rp_tripId (rider_answer n (Inr trip) p) = None"
  using assms by (simp add: rider_answer_def trip_answered_def settle_def driver_changed_def Let_def)

text \<open>Matched, then cancelled by the driver, then the answer of the first \<open>getTrip\<close>.\<close>

definition left_page :: rider_page where
  "left_page = rider_events ''now'' [JObj [(''type'', JStr ''trip.cancelled'')]]
     (rider_events ''now'' [JObj [(''type'', JStr ''trip.matched''), (''driver_id'', JStr driver2)]] riding_page)"

theorem late_answer_revives_trip_witness:
  "\<exists>trip. jget trip ''status'' = Some (JStr ''matched'') \<and> rp_activeTrip left_page = None \<and>
     shown_status (rider_answer 0 (Inr trip) left_page) = Some (JStr ''matched'') \<and>
     rp_tripId (rider_answer 0 (Inr trip) left_page) = None"
proof -
  let ?trip = "JObj [(''id'', JStr trip4), (''status'', JStr ''matched'')]"
  have left: "rp_running left_page = [Refreshing trip4] \<and> rp_tripId left_page = None \<and> rp_activeTrip left_page = None"
    by code_simp
  then have "rp_activeTrip (rider_answer 0 (Inr ?trip) left_page) = Some ?trip \<and>
      rp_tripId (rider_answer 0 (Inr ?trip) left_page) = None"
    by (intro late_answer_revives_trip) simp_all
  then show ?thesis using left by (intro exI [of _ ?trip]) (simp add: shown_status_def trip_field_def)
qed

section \<open>A ping reaches the map\<close>

definition kafka_kept :: "world \<Rightarrow> world \<Rightarrow> bool" where
  "kafka_kept w w' \<longleftrightarrow> w_kafka w' = w_kafka w"

interpretation kafka_rel: effect_relation kafka_kept
  by unfold_locales (simp_all add: kafka_kept_def)

lemma kafka_call: "keeps kafka_kept f \<Longrightarrow> keeps kafka_kept (call server f)"
  by (auto simp: keeps_def call_def kafka_kept_def split: fault.split)

lemma kafka_set: "(\<And>w. w_kafka (u w) = w_kafka w) \<Longrightarrow> keeps kafka_kept (set_state u)"
  by (simp add: keeps_def kafka_kept_def effect_simps)

lemma kafka_query: "keeps kafka_kept (query st)"
proof -
  have "keeps kafka_kept (run_stmt st)"
    by (auto simp: keeps_def kafka_kept_def run_stmt_def split: option.split prod.split sum.split)
  from kafka_call [OF this] show ?thesis
    by (auto simp: keeps_def kafka_kept_def query_def abort_tx_def split: prod.split sum.split) (metis snd_conv)+
qed

lemma kafka_tx: "keeps kafka_kept connect" "keeps kafka_kept begin_tx" "keeps kafka_kept commit"
  "keeps kafka_kept rollback" "keeps kafka_kept release"
proof -
  show "keeps kafka_kept connect" "keeps kafka_kept begin_tx" "keeps kafka_kept release"
    unfolding connect_def begin_tx_def release_def
    by (auto intro!: kafka_call kafka_set kafka_rel.keeps_ret simp: close_tx_def)
  have "keeps kafka_kept (call ''postgres'' (set_state commit_now))" "keeps kafka_kept (call ''postgres'' (ret ()))"
    by (auto intro!: kafka_call kafka_set kafka_rel.keeps_ret simp: commit_now_def close_tx_def split: option.split)
  then show "keeps kafka_kept commit" "keeps kafka_kept rollback"
    by (auto simp: keeps_def kafka_kept_def commit_def rollback_def close_tx_def split: prod.split) (metis snd_conv)+
qed

lemma kafka_persist: "keeps kafka_kept (persistLocation body ts)"
  unfolding persistLocation_def with_client_def Let_def rollback_rethrow_def
  by (auto intro!: kafka_rel.keeps_await kafka_rel.keeps_try kafka_rel.keeps_finally kafka_rel.keeps_ret
      kafka_rel.keeps_throw kafka_query kafka_tx split: list.split)

lemma kafka_index: "keeps kafka_kept (updateAvailabilityIndex body online)"
  unfolding updateAvailabilityIndex_def geoadd_def zrem_def
  by (auto intro!: kafka_call kafka_set) (simp add: keeps_def kafka_kept_def)

lemma await_Inr:
  "await m f w = (Inr x, w') \<Longrightarrow> \<exists>y w1. m w = (Inr y, w1) \<and> f y w1 = (Inr x, w')"
  by (auto simp: await_def split: prod.splits sum.splits)

lemma kafka_send_Inr:
  "kafka_send m w = (Inr x, w') \<Longrightarrow> w_kafka w' = w_kafka w @ [m]"
  by (auto simp: kafka_send_def call_def effect_simps split: fault.splits)

lemma published_location:
  assumes "await (persistLocation b ts) (\<lambda>online. await (updateAvailabilityIndex b online) (\<lambda>_.
      await (publishLocation topic b ts) (\<lambda>_. ret reply))) w = (Inr x, w')"
  shows "w_kafka w' = w_kafka w @ [\<lparr>km_topic = topic, km_key = Some (lb_driver_id b),
      km_value = Some (JsonText (JObj (spread (lb_entries b) [(''ts'', JNum ts)])))\<rparr>]"
proof -
  obtain on w1 where p: "persistLocation b ts w = (Inr on, w1)"
    and r1: "await (updateAvailabilityIndex b on) (\<lambda>_. await (publishLocation topic b ts) (\<lambda>_. ret reply)) w1 = (Inr x, w')"
    using await_Inr [OF assms] by blast
  obtain y w2 where i: "updateAvailabilityIndex b on w1 = (Inr y, w2)"
    and r2: "await (publishLocation topic b ts) (\<lambda>_. ret reply) w2 = (Inr x, w')"
    using await_Inr [OF r1] by blast
  obtain z where k: "publishLocation topic b ts w2 = (Inr z, w')"
    using await_Inr [OF r2] by (auto simp: effect_simps)
  have "w_kafka w1 = w_kafka w" using kafka_persist [of b ts] p unfolding keeps_def kafka_kept_def by (metis snd_conv)
  moreover have "w_kafka w2 = w_kafka w1" using kafka_index [of b on] i unfolding keeps_def kafka_kept_def by (metis snd_conv)
  ultimately show ?thesis using kafka_send_Inr [OF k [unfolded publishLocation_def]] by simp
qed

lemma accepted_location:
  assumes "post_location decode hmac secret topic authorization (Some body) w = (Inr reply, w')" and "rp_code reply = 202"
  shows "isValidLocationBody (Some body)"
    and "\<exists>ts. w_kafka w' = w_kafka w @ [\<lparr>km_topic = topic, km_key = Some (lb_driver_id (location_body_of body)),
      km_value = Some (JsonText (JObj (spread (spread_entries body) [(''ts'', JNum ts)])))\<rparr>]"
proof -
  note run = assms(1) [unfolded post_location_def await_def effect_simps prod.case sum.case]
  obtain token where t: "bearer_token authorization = Some token"
    using run assms(2) by (cases "bearer_token authorization") (auto simp: reply_error_def)
  note run = run [unfolded t option.case]
  obtain user where u: "verifyJwt decode hmac (sys_now (w_sys w)) token secret = Inr user"
    using run assms(2)
    by (cases "verifyJwt decode hmac (sys_now (w_sys w)) token secret") (auto simp: reply_error_def effect_simps)
  note run = run [unfolded u sum.case]
  have role: "jget user ''role'' = Some (JStr ''driver'')"
    using run assms(2) by (rule_tac ccontr) (auto simp: reply_error_def effect_simps)
  note run = run [unfolded role, simplified]
  show valid: "isValidLocationBody (Some body)"
    using run assms(2) by (rule_tac ccontr) (auto simp: reply_error_def effect_simps)
  note run = run [unfolded eqTrueI [OF valid] not_True_eq_False if_False Let_def option.sel]
  let ?b = "location_body_of body"
  have sub: "jget user ''sub'' = Some (JStr (lb_driver_id ?b))"
    using run assms(2) by (rule_tac ccontr) (auto simp: reply_error_def effect_simps)
  note run = run [unfolded sub, simplified]
  obtain ts where "(case lb_ts ?b of None \<Rightarrow> Some (JNum (sys_now (w_sys w))) | Some JNull \<Rightarrow> Some (JNum (sys_now (w_sys w))) | v \<Rightarrow> v) = Some (JNum ts)"
    using run assms(2)
    by (cases "lb_ts ?b") (auto simp: reply_error_def effect_simps split: option.splits json.splits)
  note run = run [unfolded this option.case json.case]
  have "await (persistLocation ?b ts) (\<lambda>online. await (updateAvailabilityIndex ?b online) (\<lambda>_.
      await (publishLocation topic ?b ts) (\<lambda>_. ret \<lparr>rp_code = 202, rp_body = JObj [(''ok'', JBool True), (''ts'', JNum ts)]\<rparr>)))
      w = (Inr reply, w')"
    using run by (simp add: await_def ret_def)
  from published_location [OF this] show "\<exists>ts. w_kafka w' = w_kafka w @ [\<lparr>km_topic = topic, km_key = Some (lb_driver_id ?b),
      km_value = Some (JsonText (JObj (spread (spread_entries body) [(''ts'', JNum ts)])))\<rparr>]"
    by (auto simp: location_body_of_def)
qed

text \<open>C19. A ping of the driver's page reaches the map of the rider: when the ingestor accepts it, exactly one
  message was published, the gateway sends it to the room of that driver and of no one else, and a
  rider's page that follows the driver shows it, at the position the driver's page had.\<close>

theorem ping_reaches_map:
  assumes "r = sendLocation_request base (ping_body s d) now b"
    and "post_location decode hmac secret topic (map_of (in_headers (rq_init r)) ''authorization'')
      (in_body (rq_init r)) w = (Inr reply, w')"
    and "rp_code reply = 202" and "tripTopic \<noteq> topic" and "tk_driverIdRef t = Some (ss_id s)"
  shows "\<exists>m evt. w_kafka w' = w_kafka w @ [m] \<and>
    fanout tripTopic topic m g = emit_to_room (driver_room (ss_id s)) ''driver:location'' evt g \<and>
    tk_driverLocation (on_driver_location evt t) = Some evt \<and>
    jget evt ''lat'' = Some (JNum (fst (dv_pos d))) \<and> jget evt ''lon'' = Some (JNum (snd (dv_pos d)))"
proof -
  let ?kvs = "spread (ping_body s d) [(''ts'', JNum now)]"
  have body: "in_body (rq_init r) = Some (JObj ?kvs)" by (simp add: assms(1) sendLocation_request_def Let_def)
  have run: "post_location decode hmac secret topic (map_of (in_headers (rq_init r)) ''authorization'')
      (Some (JObj ?kvs)) w = (Inr reply, w')" using assms(2) by (simp only: body)
  obtain ts where k: "w_kafka w' = w_kafka w @ [\<lparr>km_topic = topic, km_key = Some (lb_driver_id (location_body_of (JObj ?kvs))),
      km_value = Some (JsonText (JObj (spread (spread_entries (JObj ?kvs)) [(''ts'', JNum ts)])))\<rparr>]"
    using accepted_location(2) [OF run assms(3)] by blast
  let ?evt = "JObj (spread ?kvs [(''ts'', JNum ts)])"
  have evt: "jget ?evt ''driver_id'' = Some (JStr (ss_id s))" "jget ?evt ''lat'' = Some (JNum (fst (dv_pos d)))"
    "jget ?evt ''lon'' = Some (JNum (snd (dv_pos d)))"
    by (simp_all add: ping_body_def)
  have "UUID_RE (ss_id s)" and range: "- 90 \<le> fst (dv_pos d)" "fst (dv_pos d) \<le> 90" "- 180 \<le> snd (dv_pos d)" "snd (dv_pos d) \<le> 180"
    using accepted_location(1) [OF run assms(3)]
    by (simp_all add: isValidLocationBody_def ping_body_def in_interval_def number_field_def)
  then have "ss_id s \<noteq> []" by (auto simp: UUID_RE_def)
  then have "tk_driverLocation (on_driver_location ?evt t) = Some ?evt"
    using assms(5) evt range by (simp add: on_driver_location_def isDriverLocationEvent_def del: spread.simps jget.simps)
  moreover have "fanout tripTopic topic \<lparr>km_topic = topic, km_key = i, km_value = Some (JsonText ?evt)\<rparr> g =
      emit_to_room (driver_room (ss_id s)) ''driver:location'' ?evt g" for i
    using assms(4) evt \<open>ss_id s \<noteq> []\<close>
    by (simp add: fanout_def parseJsonMessage_def truthy_opt_def del: spread.simps jget.simps)
  ultimately show ?thesis using k evt by (auto simp: spread_entries_def simp del: spread.simps jget.simps)
qed

text \<open>The sample driver, signed in, on the start position of the page.\<close>

definition driver_browser :: browser where
  "driver_browser = setSession \<lparr>ss_id = driver2, ss_role = ''driver'', ss_token = ''h.driver.sig''\<rparr> blank_browser"

definition driver_request :: request where
  "driver_request = sendLocation_request None
     (ping_body \<lparr>ss_id = driver2, ss_role = ''driver'', ss_token = ''h.driver.sig''\<rparr> (driver_start\<lparr>dv_pos := (41, 69)\<rparr>)) 100000 driver_browser"

lemma driver_ping_accepted:
  "case post_location (dp_decode city) (dp_hmac city) (dp_secret city) (dp_locationTopic city)
      (map_of (in_headers (rq_init driver_request)) ''authorization'') (in_body (rq_init driver_request)) sample_world of
     (Inr reply, w') \<Rightarrow> rp_code reply = 202 | (Inl e, w') \<Rightarrow> False"
  by code_simp

theorem ping_reaches_map_witness:
  "\<exists>(w' :: world) m evt. w_kafka w' = w_kafka sample_world @ [m] \<and> jget evt ''lat'' = Some (JNum 41) \<and>
     fanout ''trips'' ''locations'' m \<lparr>gw_sockets = [], gw_emitted = []\<rparr> =
       emit_to_room (driver_room driver2) ''driver:location'' evt \<lparr>gw_sockets = [], gw_emitted = []\<rparr>"
proof -
  let ?s = "\<lparr>ss_id = driver2, ss_role = ''driver'', ss_token = ''h.driver.sig''\<rparr>"
  let ?g = "\<lparr>gw_sockets = [], gw_emitted = []\<rparr> :: gateway"
  let ?t = "(rp_socket (rider_start None))\<lparr>tk_driverIdRef := Some driver2\<rparr>"
  obtain reply w' where run: "post_location (dp_decode city) (dp_hmac city) (dp_secret city) (dp_locationTopic city)
      (map_of (in_headers (rq_init driver_request)) ''authorization'') (in_body (rq_init driver_request)) sample_world =
      (Inr reply, w')" and ok: "rp_code reply = 202"
    using driver_ping_accepted by (auto split: prod.splits sum.splits)
  have "''trips'' \<noteq> dp_locationTopic city" by (simp add: city_def)
  moreover have "tk_driverIdRef ?t = Some (ss_id ?s)" by simp
  ultimately have "\<exists>m evt. w_kafka w' = w_kafka sample_world @ [m] \<and>
      fanout ''trips'' (dp_locationTopic city) m ?g = emit_to_room (driver_room (ss_id ?s)) ''driver:location'' evt ?g \<and>
      tk_driverLocation (on_driver_location evt ?t) = Some evt \<and>
      jget evt ''lat'' = Some (JNum (fst (dv_pos (driver_start\<lparr>dv_pos := (41, 69)\<rparr>)))) \<and>
      jget evt ''lon'' = Some (JNum (snd (dv_pos (driver_start\<lparr>dv_pos := (41, 69)\<rparr>))))"
    by (rule ping_reaches_map [OF driver_request_def run ok])
  then show ?thesis by (auto simp: city_def)
qed

end
