(* ===== verification/DemoSignIn.thy ===== *)
theory DemoSignIn
  imports WebProperties
begin

text \<open>
  The form of the sign-in gate (\<open>components/AuthGate.tsx\<close>): the demo members of each role, what is
  typed and chosen, and the two ways to sign in; and the seeded accounts of the API
  (\<open>auth/demo-users.ts\<close>). The theorem follows a one-click sign-in from the button to the open
  workspace. Titles, avatars and the other texts of a member are left out.
\<close>

section \<open>The members\<close>

record demo_member =
  mb_name :: string
  mb_phone :: string

definition rider_members :: "demo_member list" where
  "rider_members =
     [\<lparr>mb_name = ''Aziza Rider'', mb_phone = ''+998901111111''\<rparr>,
      \<lparr>mb_name = ''Bekzod Rider'', mb_phone = ''+998902222222''\<rparr>]"

definition driver_members :: "demo_member list" where
  "driver_members =
     [\<lparr>mb_name = ''Davron Driver'', mb_phone = ''+998903333333''\<rparr>,
      \<lparr>mb_name = ''Eldor Driver'', mb_phone = ''+998904444444''\<rparr>,
      \<lparr>mb_name = ''Farhod Driver'', mb_phone = ''+998905555555''\<rparr>]"

definition admin_members :: "demo_member list" where
  "admin_members = [\<lparr>mb_name = ''Demo Admin'', mb_phone = ''+998900000000''\<rparr>]"

definition ROLE_CONTEXT :: "string \<Rightarrow> demo_member list" where
  "ROLE_CONTEXT role =
     (if role = ''rider'' then rider_members
      else if role = ''driver'' then driver_members
      else if role = ''admin'' then admin_members else [])"

record demo_user =
  du_role :: string
  du_name :: string
  du_phone :: string

definition SEEDED_DEMO_USERS :: "demo_user list" where
  "SEEDED_DEMO_USERS =
     [\<lparr>du_role = ''admin'', du_name = ''Demo Admin'', du_phone = ''+998900000000''\<rparr>,
      \<lparr>du_role = ''rider'', du_name = ''Aziza Rider'', du_phone = ''+998901111111''\<rparr>,
      \<lparr>du_role = ''rider'', du_name = ''Bekzod Rider'', du_phone = ''+998902222222''\<rparr>,
      \<lparr>du_role = ''driver'', du_name = ''Davron Driver'', du_phone = ''+998903333333''\<rparr>,
      \<lparr>du_role = ''driver'', du_name = ''Eldor Driver'', du_phone = ''+998904444444''\<rparr>,
      \<lparr>du_role = ''driver'', du_name = ''Farhod Driver'', du_phone = ''+998905555555''\<rparr>]"

section \<open>The form\<close>

record login_form =
  lf_phone :: string
  lf_password :: string
  lf_selectedPhone :: string
  lf_action :: "string option"

definition login_form_start :: login_form where
  "login_form_start = \<lparr>lf_phone = [], lf_password = [], lf_selectedPhone = [], lf_action = None\<rparr>"

definition selectedMember :: "string \<Rightarrow> login_form \<Rightarrow> demo_member" where
  "selectedMember role f =
     (case find (\<lambda>member. mb_phone member = lf_selectedPhone f) (ROLE_CONTEXT role) of
        Some member \<Rightarrow> member
      | None \<Rightarrow> hd (ROLE_CONTEXT role))"

text \<open>The effect of a new role.\<close>

definition role_chosen :: "string \<Rightarrow> login_form \<times> auth_gate \<Rightarrow> login_form \<times> auth_gate" where
  "role_chosen role = (\<lambda>(f, g).
     (let first = hd (ROLE_CONTEXT role)
      in (f\<lparr>lf_selectedPhone := mb_phone first, lf_phone := mb_phone first, lf_password := []\<rparr>, g\<lparr>ag_err := None\<rparr>)))"

definition chooseMember :: "demo_member \<Rightarrow> login_form \<times> auth_gate \<Rightarrow> login_form \<times> auth_gate" where
  "chooseMember member = (\<lambda>(f, g).
     (f\<lparr>lf_selectedPhone := mb_phone member, lf_phone := mb_phone member\<rparr>, g\<lparr>ag_err := None\<rparr>))"

definition type_phone :: "string \<Rightarrow> login_form \<times> auth_gate \<Rightarrow> login_form \<times> auth_gate" where
  "type_phone value = (\<lambda>(f, g). (f\<lparr>lf_phone := value\<rparr>, g))"

definition type_password :: "string \<Rightarrow> login_form \<times> auth_gate \<Rightarrow> login_form \<times> auth_gate" where
  "type_password value = (\<lambda>(f, g). (f\<lparr>lf_password := value\<rparr>, g))"

definition submitLogin :: "login_form \<times> auth_gate \<Rightarrow> (login_form \<times> auth_gate) \<times> api_call" where
  "submitLogin = (\<lambda>(f, g).
     ((f\<lparr>lf_action := Some ''manual''\<rparr>, g\<lparr>ag_loading := True, ag_err := None\<rparr>),
      Login (trim (lf_phone f)) (lf_password f)))"

definition submitDemoLogin ::
    "string \<Rightarrow> demo_member \<Rightarrow> login_form \<times> auth_gate \<Rightarrow> (login_form \<times> auth_gate) \<times> api_call" where
  "submitDemoLogin role member = (\<lambda>(f, g).
     ((f\<lparr>lf_selectedPhone := mb_phone member, lf_phone := mb_phone member, lf_action := Some ''demo''\<rparr>,
       g\<lparr>ag_loading := True, ag_err := None\<rparr>),
      DemoLogin (mb_phone member) (Some role)))"

text \<open>The answer of either call.\<close>

definition login_answer ::
    "string \<Rightarrow> web_error + auth_session \<Rightarrow> (login_form \<times> auth_gate) \<times> browser \<Rightarrow> (login_form \<times> auth_gate) \<times> browser" where
  "login_answer role answer = (\<lambda>((f, g), b).
     (let (g, b) = submit_answer role answer (g, b) in ((f\<lparr>lf_action := None\<rparr>, g), b)))"

definition manual_enabled :: "login_form \<times> auth_gate \<Rightarrow> bool" where
  "manual_enabled = (\<lambda>(f, g). \<not> (ag_loading g \<or> length (lf_password f) < 8))"

definition demo_enabled :: "login_form \<times> auth_gate \<Rightarrow> bool" where
  "demo_enabled = (\<lambda>(f, g). \<not> ag_loading g)"

section \<open>Facts about the members\<close>

text \<open>Every member is a seeded account of its role, and every seeded account is offered.\<close>

lemma members_are_seeded:
  "(\<exists>u \<in> set SEEDED_DEMO_USERS. du_role u = role \<and> du_name u = mb_name m \<and> du_phone u = mb_phone m) \<longleftrightarrow>
   m \<in> set (ROLE_CONTEXT role)"
  by (cases m) (auto simp: SEEDED_DEMO_USERS_def ROLE_CONTEXT_def rider_members_def driver_members_def
      admin_members_def)

lemma selected_is_member:
  assumes "ROLE_CONTEXT role \<noteq> []"
  shows "selectedMember role f \<in> set (ROLE_CONTEXT role)"
  using assms by (auto simp: selectedMember_def find_Some_iff split: option.split)

section \<open>One click\<close>

definition demo_request :: "string \<Rightarrow> demo_member \<Rightarrow> json option" where
  "demo_request role m = in_body (snd (endpoint (DemoLogin (mb_phone m) (Some role))))"

lemma demo_request_valid:
  assumes "m \<in> set (ROLE_CONTEXT role)"
  shows "demo_login_dto_of (demo_request role m) = Inr \<lparr>dm_phone = mb_phone m, dm_expected_role = Some role\<rparr>"
proof -
  have "list_all (\<lambda>role. list_all (\<lambda>m. demo_login_dto_of (demo_request role m) =
      Inr \<lparr>dm_phone = mb_phone m, dm_expected_role = Some role\<rparr>) (ROLE_CONTEXT role)) [''rider'', ''driver'', ''admin'']"
    by code_simp
  moreover have "role \<in> set [''rider'', ''driver'', ''admin'']"
    using assms by (auto simp: ROLE_CONTEXT_def split: if_splits)
  ultimately show ?thesis using assms by (auto simp: list_all_iff)
qed

lemma seeded_phones: "demoPhonesFromEnv (Some (join_with '','' (map du_phone SEEDED_DEMO_USERS))) = map du_phone SEEDED_DEMO_USERS"
  by code_simp

lemma query_select_quiet:
  assumes "w_tx w = None" and "w_faults w = []"
  shows "fst (query (select f) w) = Inr (f (w_db w)) \<and> w_sys (snd (query (select f) w)) = w_sys w"
  using assms by (simp add: query_def call_def run_stmt_def select_def take_fault_def)

text \<open>C18. One click opens the workspace: on a deployment that allows the seeded phones and whose seed
  password is that of the seeded accounts, the request the gate sends for any of its demo members is
  answered with a session of the account with the role of the page, and with this answer the gate
  shows the page.\<close>

theorem demo_sign_in_opens_workspace:
  assumes "w_tx w = None" and "w_faults w = []"
    and "w_env w ''RIDEX_DEMO_LOGIN_ENABLED'' = Some ''true''"
    and "w_env w ''RIDEX_DEMO_LOGIN_PHONES'' = Some (join_with '','' (map du_phone SEEDED_DEMO_USERS))"
    and "w_env w ''RIDEX_SEED_PASSWORD'' = Some pw" and "pw \<noteq> []"
    and "m \<in> set (ROLE_CONTEXT role)"
    and "find (\<lambda>u. us_phone u = mb_phone m) (db_users (w_db w)) = Some u"
    and "us_role u = role" and "us_is_active u" and "ax_verify A (us_password_hash u) pw"
    and "submitDemoLogin role m form = (form', DemoLogin phone expected)"
  shows "\<exists>s. fst (auth_controller X V A (PostDemoLogin (in_body (snd (endpoint (DemoLogin phone expected))))) w) = Inr (200, s) \<and>
    se_id s = us_id u \<and> se_role s = role \<and>
    shows_children role (snd (fst (login_answer role
      (Inr \<lparr>ss_id = se_id s, ss_role = se_role s, ss_token = se_token s\<rparr>) (form', b))))"
proof -
  have call: "phone = mb_phone m" "expected = Some role"
    using assms(12) by (auto simp: submitDemoLogin_def split: prod.splits)
  obtain v where v: "v \<in> set SEEDED_DEMO_USERS" "du_phone v = mb_phone m"
    using assms(7) members_are_seeded [of role m] by auto
  define s where "s = \<lparr>se_id = us_id u, se_role = us_role u, se_token = ax_sign A (sys_now (w_sys w)) (us_id u) (us_role u)\<rparr>"
  obtain w' where cred: "query (select_credentials (mb_phone m)) w = (Inr (Some u), w')" "w_sys w' = w_sys w"
    using query_select_quiet [OF assms(1,2)] assms(8) unfolding select_credentials_def by (metis prod.collapse)
  have listed: "demoPhonesFromEnv (w_env w ''RIDEX_DEMO_LOGIN_PHONES'') = map du_phone SEEDED_DEMO_USERS"
    by (simp only: assms(4) seeded_phones)
  have known: "mb_phone m \<in> set (map du_phone SEEDED_DEMO_USERS)" using v by (metis image_eqI set_map)
  then have "map du_phone SEEDED_DEMO_USERS \<noteq> []" by auto
  with known have "fst (demoLogin A \<lparr>dm_phone = mb_phone m, dm_expected_role = Some role\<rparr> w) = Inr s"
    using cred assms(9-11)
    by (simp add: demoLogin_def await_def get_state_def listed assms(3,5,6) loginWithPassword_def signToken_def
        ret_def s_def del: set_map)
  then have "fst (auth_controller X V A (PostDemoLogin (in_body (snd (endpoint (DemoLogin phone expected))))) w) = Inr (200, s)"
    using demo_request_valid [OF assms(7)]
    by (auto simp: call demo_request_def body_pipe_def fmap_def await_def ret_def split: prod.split sum.split)
  moreover have "se_role s = role" "se_id s = us_id u" using assms(9) by (simp_all add: s_def)
  ultimately show ?thesis
    by (intro exI [of _ s]) (auto simp: login_answer_def submit_answer_def acceptSession_def shows_children_def split: prod.splits)
qed

definition demo_world :: world where
  "demo_world = sample_world\<lparr>
     w_db := sample_db\<lparr>db_users := [sample_user rider1 ''rider'' ''+998901111111'']\<rparr>,
     w_env := sample_env(''RIDEX_DEMO_LOGIN_ENABLED'' \<mapsto> ''true'', ''RIDEX_SEED_PASSWORD'' \<mapsto> ''password'',
       ''RIDEX_DEMO_LOGIN_PHONES'' \<mapsto> join_with '','' (map du_phone SEEDED_DEMO_USERS))\<rparr>"

definition shut_gate :: auth_gate where
  "shut_gate = \<lparr>ag_session = None, ag_err = None, ag_loading = False\<rparr>"

theorem demo_sign_in_opens_workspace_witness:
  "\<exists>s. fst (auth_controller sample_ext sample_validators sample_auth
        (PostDemoLogin (demo_request ''rider'' (hd rider_members))) demo_world) = Inr (200, s) \<and>
     se_id s = rider1 \<and> se_role s = ''rider'' \<and> \<not> shows_children ''rider'' shut_gate \<and>
     shows_children ''rider'' (snd (fst (login_answer ''rider''
      (Inr \<lparr>ss_id = se_id s, ss_role = se_role s, ss_token = se_token s\<rparr>)
      (fst (submitDemoLogin ''rider'' (hd rider_members) (login_form_start, shut_gate)), blank_browser))))"
proof -
  let ?u = "sample_user rider1 ''rider'' ''+998901111111''"
  have m: "hd rider_members \<in> set (ROLE_CONTEXT ''rider'')" by (simp add: ROLE_CONTEXT_def rider_members_def)
  have phone: "mb_phone (hd rider_members) = ''+998901111111''" by (simp add: rider_members_def)
  have user: "find (\<lambda>u. us_phone u = mb_phone (hd rider_members)) (db_users (w_db demo_world)) = Some ?u"
    by (simp add: demo_world_def phone sample_user_def)
  have call: "submitDemoLogin ''rider'' (hd rider_members) (login_form_start, shut_gate) =
      (fst (submitDemoLogin ''rider'' (hd rider_members) (login_form_start, shut_gate)),
       DemoLogin (mb_phone (hd rider_members)) (Some ''rider''))"
    by (simp add: submitDemoLogin_def)
  have env: "w_tx demo_world = None" "w_faults demo_world = []"
    "w_env demo_world ''RIDEX_DEMO_LOGIN_ENABLED'' = Some ''true''"
    "w_env demo_world ''RIDEX_DEMO_LOGIN_PHONES'' = Some (join_with '','' (map du_phone SEEDED_DEMO_USERS))"
    "w_env demo_world ''RIDEX_SEED_PASSWORD'' = Some ''password''"
    by (simp_all add: demo_world_def sample_world_def)
  have u: "us_role ?u = ''rider''" "us_is_active ?u" "ax_verify sample_auth (us_password_hash ?u) ''password''"
    "us_id ?u = rider1" and pw: "''password'' \<noteq> []"
    and closed: "\<not> shows_children ''rider'' shut_gate"
    by (simp_all add: sample_user_def sample_auth_def shows_children_def shut_gate_def)
  note opened = demo_sign_in_opens_workspace [OF env pw m user u(1-3) call,
      of sample_ext sample_validators blank_browser, unfolded u(4)]
  show ?thesis using opened closed by (simp only: demo_request_def simp_thms)
qed

end
