(* ===== verification/WebWidgets.thy ===== *)
theory WebWidgets
  imports WebPages
begin

text \<open>
  The parts of the web client the pages are built from: the map with its two providers
  (\<open>components/RideMap.tsx\<close>) and the markers the pages put on it, the toasts (\<open>hooks/useToast.tsx\<close>),
  the user menu (\<open>components/UserMenu.tsx\<close>), debounced values (\<open>hooks/useDebouncedValue.ts\<close>), the
  vehicle form, and which buttons a page offers. Rendering is left out: a component is its state,
  its effects, and the facts its markup depends on. The Yandex map is a list of the markers that
  were added to it; its calls do not fail.
\<close>

section \<open>Markers\<close>

record map_marker =
  mm_id :: string
  mm_label :: string
  mm_position :: "rat \<times> rat"
  mm_tone :: "string option"

definition MAP_LEGEND :: "(string \<times> string) list" where
  "MAP_LEGEND = [(''pickup'', ''Pickup''), (''dropoff'', ''Dropoff''), (''driver'', ''Driver''), (''nearby'', ''Nearby'')]"

definition tone_or_nearby :: "string option \<Rightarrow> string" where
  "tone_or_nearby tone = (case tone of Some t \<Rightarrow> t | None \<Rightarrow> ''nearby'')"

definition toneLabel :: "string option \<Rightarrow> string" where
  "toneLabel tone =
     (case find (\<lambda>item. fst item = tone_or_nearby tone) MAP_LEGEND of Some item \<Rightarrow> snd item | None \<Rightarrow> ''Marker'')"

definition coordinateText :: "rat \<times> rat \<Rightarrow> string" where
  "coordinateText position = to_fixed 5 (fst position) @ '', '' @ to_fixed 5 (snd position)"

definition toLngLat :: "rat \<times> rat \<Rightarrow> rat \<times> rat" where
  "toLngLat position = (snd position, fst position)"

definition centerKey :: "rat \<times> rat \<Rightarrow> string" where
  "centerKey center = to_fixed 4 (fst center) @ '','' @ to_fixed 4 (snd center)"

definition markerKey :: "map_marker list \<Rightarrow> string" where
  "markerKey markers = join_with ''|'' (map (\<lambda>m.
     mm_id m @ '':'' @ to_fixed 5 (fst (mm_position m)) @ '':'' @ to_fixed 5 (snd (mm_position m)) @ '':'' @
     (case mm_tone m of Some t \<Rightarrow> t | None \<Rightarrow> []) @ '':'' @ mm_label m) markers)"

subsection \<open>The provider\<close>

text \<open>\<open>import.meta.env\<close>; \<open>to_lower\<close> is \<open>toLowerCase\<close> on ASCII.\<close>

definition build_env :: "(string \<Rightarrow> string option) \<Rightarrow> string \<Rightarrow> string" where
  "build_env E name = trim (case E name of Some s \<Rightarrow> s | None \<Rightarrow> [])"

definition lower_char :: "char \<Rightarrow> char" where
  "lower_char c = (let n = (of_char c :: int) in if 65 \<le> n \<and> n \<le> 90 then char_of (n + 32) else c)"

definition hasYandexMapsKey :: "(string \<Rightarrow> string option) \<Rightarrow> bool" where
  "hasYandexMapsKey E \<longleftrightarrow> 0 < length (build_env E ''VITE_YANDEX_MAPS_API_KEY'')"

definition shouldUseYandex :: "(string \<Rightarrow> string option) \<Rightarrow> bool" where
  "shouldUseYandex E \<longleftrightarrow>
     (let provider = map lower_char (build_env E ''VITE_MAP_PROVIDER'')
      in hasYandexMapsKey E \<and> (provider = ''yandex'' \<or> provider = ''auto'' \<or> provider = []))"

datatype map_status = MapLoading | MapReady | MapError

text \<open>Which map is shown: Leaflet also after Yandex has failed to load.\<close>

definition shows_leaflet :: "(string \<Rightarrow> string option) \<Rightarrow> map_status \<Rightarrow> bool" where
  "shows_leaflet E status \<longleftrightarrow> \<not> shouldUseYandex E \<or> status = MapError"

subsection \<open>Loading the Yandex API\<close>

text \<open>The page has \<open>window.ymaps3\<close> or not, the module keeps one promise: pending, or settled with the outcome
  of the script. A promise that failed is kept as well.\<close>

datatype api_promise = Pending | Loaded | Failed

record yandex_loader =
  yl_ymaps3 :: bool
  yl_promise :: "api_promise option"

definition loadYandexMaps :: "yandex_loader \<Rightarrow> api_promise \<times> yandex_loader" where
  "loadYandexMaps w =
     (if yl_ymaps3 w then (Loaded, w)
      else case yl_promise w of
        Some p \<Rightarrow> (p, w)
      | None \<Rightarrow> (Pending, w\<lparr>yl_promise := Some Pending\<rparr>))"

text \<open>The script ran; \<open>exposed\<close>: it set \<open>window.ymaps3\<close>, and \<open>ready\<close>: its promise resolved.\<close>

definition script_onload :: "bool \<Rightarrow> bool \<Rightarrow> yandex_loader \<Rightarrow> yandex_loader" where
  "script_onload exposed ready w =
     (let w = w\<lparr>yl_ymaps3 := yl_ymaps3 w \<or> exposed\<rparr>
      in w\<lparr>yl_promise := Some (if yl_ymaps3 w \<and> ready then Loaded else Failed)\<rparr>)"

definition script_onerror :: "yandex_loader \<Rightarrow> yandex_loader" where
  "script_onerror w = w\<lparr>yl_promise := Some Failed\<rparr>"

text \<open>What a mounted map does when the promise it waits for has settled, unless it was unmounted meanwhile.\<close>

definition map_settles :: "bool \<Rightarrow> api_promise \<Rightarrow> map_status \<Rightarrow> map_status" where
  "map_settles cancelled p status =
     (if cancelled then status
      else case p of Loaded \<Rightarrow> MapReady | Failed \<Rightarrow> MapError | Pending \<Rightarrow> status)"

subsection \<open>The Leaflet viewport\<close>

text \<open>\<open>setView(center, zoom, {animate})\<close>, when the key of the centre has changed.\<close>

definition viewport_effect ::
    "string \<Rightarrow> rat \<times> rat \<Rightarrow> nat \<Rightarrow> string option \<Rightarrow> string option \<times> ((rat \<times> rat) \<times> nat \<times> bool) option" where
  "viewport_effect key center zoom lastKey =
     (if lastKey = Some key then (lastKey, None) else (Some key, Some (center, zoom, lastKey \<noteq> None)))"

subsection \<open>The markers of the Yandex map\<close>

record map_node =
  nd_handle :: nat
  nd_coordinates :: "rat \<times> rat"
  nd_label :: string
  nd_tone :: string

text \<open>\<open>markerNodes\<close>, the children of the map, and a supply of names for new nodes.\<close>

record yandex_map =
  ym_nodes :: "(string \<times> map_node) list"
  ym_children :: "nat list"
  ym_next :: nat

definition empty_map :: yandex_map where
  "empty_map = \<lparr>ym_nodes = [], ym_children = [], ym_next = 0\<rparr>"

definition createYandexMarkerElement :: "nat \<Rightarrow> map_marker \<Rightarrow> map_node" where
  "createYandexMarkerElement h m =
     \<lparr>nd_handle = h, nd_coordinates = toLngLat (mm_position m), nd_label = mm_label m,
      nd_tone = tone_or_nearby (mm_tone m)\<rparr>"

definition sync_marker :: "yandex_map \<Rightarrow> map_marker \<Rightarrow> yandex_map" where
  "sync_marker y m =
     (case map_of (ym_nodes y) (mm_id m) of
        Some existing \<Rightarrow>
          y\<lparr>ym_nodes := al_set (mm_id m) (existing\<lparr>nd_coordinates := toLngLat (mm_position m)\<rparr>) (ym_nodes y)\<rparr>
      | None \<Rightarrow>
          y\<lparr>ym_nodes := al_set (mm_id m) (createYandexMarkerElement (ym_next y) m) (ym_nodes y),
            ym_children := ym_children y @ [ym_next y], ym_next := ym_next y + 1\<rparr>)"

definition drop_marker :: "string set \<Rightarrow> yandex_map \<Rightarrow> string \<times> map_node \<Rightarrow> yandex_map" where
  "drop_marker seen y entry =
     (if fst entry \<in> seen then y
      else y\<lparr>ym_children := removeAll (nd_handle (snd entry)) (ym_children y),
             ym_nodes := al_del (fst entry) (ym_nodes y)\<rparr>)"

definition sync_markers :: "map_marker list \<Rightarrow> yandex_map \<Rightarrow> yandex_map" where
  "sync_markers markers y =
     (let y = foldl sync_marker y markers
      in foldl (drop_marker (mm_id ` set markers)) y (ym_nodes y))"

definition marker_effect :: "map_status \<Rightarrow> map_marker list \<Rightarrow> yandex_map \<Rightarrow> yandex_map" where
  "marker_effect status markers y = (if status = MapReady then sync_markers markers y else y)"

section \<open>The markers of the pages\<close>

definition text_field :: "json \<Rightarrow> string \<Rightarrow> string" where
  "text_field j k = (case jget j k of Some (JStr s) \<Rightarrow> s | _ \<Rightarrow> [])"

definition num_field :: "json \<Rightarrow> string \<Rightarrow> rat" where
  "num_field j k = (case jget j k of Some (JNum q) \<Rightarrow> q | _ \<Rightarrow> 0)"

definition rider_markers :: "rat \<times> rat \<Rightarrow> rat \<times> rat \<Rightarrow> json list option \<Rightarrow> json option \<Rightarrow> map_marker list" where
  "rider_markers mapPickup mapDropoff nearbyDrivers driverLocation =
     [\<lparr>mm_id = ''pickup'', mm_label = ''Pickup'', mm_position = mapPickup, mm_tone = Some ''pickup''\<rparr>,
      \<lparr>mm_id = ''dropoff'', mm_label = ''Dropoff'', mm_position = mapDropoff, mm_tone = Some ''dropoff''\<rparr>] @
     map (\<lambda>driver. \<lparr>mm_id = text_field driver ''driver_id'',
            mm_label = ''Driver '' @ take 4 (text_field driver ''driver_id''),
            mm_position = (num_field driver ''lat'', num_field driver ''lon''), mm_tone = Some ''nearby''\<rparr>)
       (case nearbyDrivers of Some ds \<Rightarrow> ds | None \<Rightarrow> []) @
     (case driverLocation of
        Some loc \<Rightarrow>
          [\<lparr>mm_id = ''matched-'' @ text_field loc ''driver_id'',
            mm_label = ''Matched driver '' @ take 4 (text_field loc ''driver_id''),
            mm_position = (num_field loc ''lat'', num_field loc ''lon''), mm_tone = Some ''driver''\<rparr>]
      | None \<Rightarrow> [])"

definition driver_markers :: "bool \<Rightarrow> rat \<times> rat \<Rightarrow> map_marker list" where
  "driver_markers is_online mapPos =
     [\<lparr>mm_id = ''driver'', mm_label = if is_online then ''Online driver'' else ''Driver'',
       mm_position = mapPos, mm_tone = Some ''driver''\<rparr>]"

section \<open>What the pages show\<close>

text \<open>The estimate of a distance in kilometres, in real numbers: a degree is 111 km.\<close>

definition estimatedDistanceKm :: "real \<times> real \<Rightarrow> real \<times> real \<Rightarrow> real" where
  "estimatedDistanceKm pickup dropoff =
     (let latKm = (fst dropoff - fst pickup) * 111;
          lonKm = (snd dropoff - snd pickup) * 111 * cos (fst pickup * pi / 180)
      in max (1 / 10) (sqrt (latKm\<^sup>2 + lonKm\<^sup>2)))"

text \<open>\<open>time\<close> is \<open>toLocaleTimeString\<close>; a date further from 1970 than \<open>Date\<close> reaches is invalid.\<close>

definition lastSeenText :: "(rat \<Rightarrow> string) \<Rightarrow> rat option \<Rightarrow> string" where
  "lastSeenText time ts =
     (case ts of
        None \<Rightarrow> ''Live location received''
      | Some ts \<Rightarrow>
          if ts = 0 then ''Live location received''
          else if \<bar>ts\<bar> > 8640000000000000 then ''Live location received''
          else ''Last seen '' @ time ts)"

definition liveDriverCopy :: "(rat \<Rightarrow> string) \<Rightarrow> string option \<Rightarrow> json option \<Rightarrow> string" where
  "liveDriverCopy time activeDriverId driverLocation =
     (if \<not> set_id activeDriverId
      then ''Live driver tracking starts as soon as a driver is matched.''
      else case driverLocation of
        Some loc \<Rightarrow>
          lastSeenText time (case jget loc ''ts'' of Some (JNum ts) \<Rightarrow> Some ts | _ \<Rightarrow> None) @ '' at '' @
          to_fixed 5 (num_field loc ''lat'') @ '', '' @ to_fixed 5 (num_field loc ''lon'') @ ''.''
      | None \<Rightarrow> ''Matched driver assigned. Waiting for the next live location ping.'')"

definition field_description :: "string \<Rightarrow> bool \<Rightarrow> string" where
  "field_description name ok =
     ''coordinate-format-hint '' @ name @ ''-help'' @
     (if ok then [] else '' coordinate-error '' @ name @ ''-error'')"

definition coverage_text :: "json list option \<Rightarrow> string option" where
  "coverage_text nearbyDrivers =
     (case nearbyDrivers of
        None \<Rightarrow> None
      | Some ds \<Rightarrow> Some (
          if 0 < length ds
          then js_String (of_nat (length ds)) @ '' driver'' @ (if length ds = 1 then [] else ''s'') @ '' found within 3 km.''
          else ''No online drivers found within 3 km of pickup.''))"

text \<open>The label of the status, and the last five events.\<close>

definition status_label :: "json list \<Rightarrow> json option \<Rightarrow> string" where
  "status_label events activeTrip =
     (if events \<noteq> [] then eventLabel (Some (last events))
      else json_text (nullish (trip_field activeTrip ''status'') (JStr ''Waiting'')))"

definition event_feed :: "json list \<Rightarrow> string list" where
  "event_feed events = map (\<lambda>e. eventLabel (Some e)) (drop (length events - 5) events)"

section \<open>The driver's position\<close>

definition STEP :: rat where
  "STEP = fl (1 / 1000)"

datatype steering = North | West | South | East

fun steer :: "steering \<Rightarrow> driver_page \<Rightarrow> driver_page" where
  "steer North d = move STEP 0 d"
| "steer West d = move 0 (- STEP) d"
| "steer South d = move (- STEP) 0 d"
| "steer East d = move 0 STEP d"

definition blur_lat :: "driver_page \<Rightarrow> driver_page" where
  "blur_lat d = d\<lparr>dv_latText := to_fixed 6 (fst (dv_pos d))\<rparr>"

definition blur_lon :: "driver_page \<Rightarrow> driver_page" where
  "blur_lon d = d\<lparr>dv_lonText := to_fixed 6 (snd (dv_pos d))\<rparr>"

text \<open>What the browser's geolocation reports while the driver is online.\<close>

datatype geo_report = Found "rat \<times> rat" | GeoError string

definition watches :: "bool \<Rightarrow> driver_page \<Rightarrow> bool" where
  "watches geolocation d \<longleftrightarrow> dv_online d \<and> geolocation"

definition geo_reported :: "geo_report \<Rightarrow> driver_page \<Rightarrow> driver_page" where
  "geo_reported r d = (case r of Found q \<Rightarrow> set_pos q d | GeoError msg \<Rightarrow> d\<lparr>dv_err := Some msg\<rparr>)"

text \<open>The loop of the pings: the time it was started, while the driver is online.\<close>

definition ping_loop :: "bool \<Rightarrow> nat \<Rightarrow> nat option" where
  "ping_loop online now = (if online then Some now else None)"

definition sends_at :: "nat option \<Rightarrow> nat \<Rightarrow> bool" where
  "sends_at since t = (case since of None \<Rightarrow> False | Some s \<Rightarrow> s \<le> t \<and> (t - s) mod 5000 = 0)"

section \<open>Buttons\<close>

text \<open>A button with what it says about being enabled.\<close>

datatype button =
  StartButton | CompleteButton | CancelButton | RequestButton | CoverageButton | DemoButton | ActiveButton | RemoveButton | RateButton

text \<open>The card of a driver who is online.\<close>

definition card_buttons :: "bool \<Rightarrow> trip_card \<Rightarrow> (button \<times> bool) list" where
  "card_buttons is_online c =
     (case cd_trip c of
        None \<Rightarrow> []
      | Some trip \<Rightarrow>
          if \<not> is_online then []
          else (if jget trip ''status'' = Some (JStr ''matched'') then [(StartButton, \<not> cd_busy c)] else []) @
               (if jget trip ''status'' = Some (JStr ''in_progress'') then [(CompleteButton, \<not> cd_busy c)] else []) @
               [(CancelButton, \<not> cd_busy c)])"

definition rider_buttons :: "rider_page \<Rightarrow> (button \<times> bool) list" where
  "rider_buttons p =
     (let trip = set_id (rp_tripId p);
          pickupValid = validLat (fst (rp_pickup p)) \<and> validLon (snd (rp_pickup p));
          coordinatesValid = pickupValid \<and> validLat (fst (rp_dropoff p)) \<and> validLon (snd (rp_dropoff p))
      in [(RequestButton, \<not> (trip \<or> rp_requesting p \<or> \<not> coordinatesValid)),
          (CoverageButton, \<not> (rp_checkingCoverage p \<or> \<not> pickupValid)), (DemoButton, \<not> trip)] @
         (if trip then [(CancelButton, True)] else []))"

definition request_label :: "rider_page \<Rightarrow> string" where
  "request_label p =
     (if rp_requesting p then ''Requesting...''
      else if set_id (rp_tripId p) then ''Trip '' @ take 8 (the (rp_tripId p)) else ''Request ride'')"

definition vehicle_buttons :: "vehicles_panel \<Rightarrow> bool \<Rightarrow> (button \<times> bool) list" where
  "vehicle_buttons v is_active =
     (if is_active then [] else [(ActiveButton, \<not> vp_busy v)]) @ [(RemoveButton, \<not> vp_busy v)]"

definition history_row :: "json \<Rightarrow> string \<times> bool" where
  "history_row t =
     ((case jget t ''fare_total'' of
         None \<Rightarrow> ''No fare yet'' | Some JNull \<Rightarrow> ''No fare yet''
       | Some fare \<Rightarrow> json_text (nullish (jget t ''currency'') (JStr ''$'')) @ '' '' @
           (case to_number fare of Num q \<Rightarrow> to_fixed 2 q | PosInf \<Rightarrow> ''Infinity''
            | NegInf \<Rightarrow> ''-Infinity'' | NaN \<Rightarrow> ''NaN'')),
      jget t ''status'' = Some (JStr ''completed''))"

section \<open>The vehicle form\<close>

text \<open>What the inputs of the form do with what is typed.\<close>

definition type_plate :: "string \<Rightarrow> vehicles_panel \<Rightarrow> vehicles_panel" where
  "type_plate s v = v\<lparr>vp_draft := (vp_draft v)\<lparr>vd_plate := to_upper s\<rparr>\<rparr>"

definition type_make :: "string \<Rightarrow> vehicles_panel \<Rightarrow> vehicles_panel" where
  "type_make s v = v\<lparr>vp_draft := (vp_draft v)\<lparr>vd_make := s\<rparr>\<rparr>"

definition type_model :: "string \<Rightarrow> vehicles_panel \<Rightarrow> vehicles_panel" where
  "type_model s v = v\<lparr>vp_draft := (vp_draft v)\<lparr>vd_model := s\<rparr>\<rparr>"

definition type_color :: "string \<Rightarrow> vehicles_panel \<Rightarrow> vehicles_panel" where
  "type_color s v = v\<lparr>vp_draft := (vp_draft v)\<lparr>vd_color := s\<rparr>\<rparr>"

text \<open>A number field holds a number or nothing; \<open>Number('')\<close> is 0.\<close>

definition type_year :: "string \<Rightarrow> vehicles_panel \<Rightarrow> vehicles_panel" where
  "type_year s v = v\<lparr>vp_draft := (vp_draft v)\<lparr>vd_year := num_val (js_Number s)\<rparr>\<rparr>"

definition type_capacity :: "string \<Rightarrow> vehicles_panel \<Rightarrow> vehicles_panel" where
  "type_capacity s v = v\<lparr>vp_draft := (vp_draft v)\<lparr>vd_capacity := num_val (js_Number s)\<rparr>\<rparr>"

definition open_form :: "vehicles_panel \<Rightarrow> vehicles_panel" where
  "open_form v = v\<lparr>vp_showForm := True\<rparr>"

definition close_form :: "rat \<Rightarrow> vehicles_panel \<Rightarrow> vehicles_panel" where
  "close_form thisYear v = v\<lparr>vp_showForm := False, vp_draft := emptyVehicleDraft thisYear\<rparr>"

section \<open>The rating dialog\<close>

text \<open>The mouse or the focus on a star, and off it; what is typed; which stars are filled.\<close>

definition hover_star :: "int \<Rightarrow> rating_dialog \<Rightarrow> rating_dialog" where
  "hover_star n g = g\<lparr>rg_hover := n\<rparr>"

definition leave_star :: "rating_dialog \<Rightarrow> rating_dialog" where
  "leave_star g = g\<lparr>rg_hover := 0\<rparr>"

definition type_comment :: "string \<Rightarrow> rating_dialog \<Rightarrow> rating_dialog" where
  "type_comment value g = g\<lparr>rg_comment := value\<rparr>"

definition star_filled :: "int \<Rightarrow> rating_dialog \<Rightarrow> bool" where
  "star_filled n g \<longleftrightarrow> n \<le> (if rg_hover g \<noteq> 0 then rg_hover g else rg_rating g)"

section \<open>The administrator's page\<close>

record admin_page =
  ap_daily :: "json list"
  ap_surge :: "json list"
  ap_err :: "string option"
  ap_loading :: bool

definition admin_start :: admin_page where
  "admin_start = \<lparr>ap_daily = [], ap_surge = [], ap_err = None, ap_loading = True\<rparr>"

definition admin_refresh :: "admin_page \<Rightarrow> admin_page" where
  "admin_refresh p = p\<lparr>ap_loading := True, ap_err := None\<rparr>"

text \<open>\<open>Promise.all\<close>: both answers, or the first error.\<close>

definition admin_refresh_answer :: "web_error + json list \<times> json list \<Rightarrow> admin_page \<Rightarrow> admin_page" where
  "admin_refresh_answer answer p =
     (case answer of
        Inr (d, s) \<Rightarrow> p\<lparr>ap_daily := d, ap_surge := s\<rparr>
      | Inl e \<Rightarrow> p\<lparr>ap_err := Some (web_message e)\<rparr>)\<lparr>ap_loading := False\<rparr>"

text \<open>The figures: kilometres and revenue of the totals, a zone's multiplier, and a day's trips,
  kilometres and revenue.\<close>

definition total_texts :: "admin_page \<Rightarrow> string \<times> string" where
  "total_texts p =
     (case admin_totals (ap_daily p) of (trips, km, revenue) \<Rightarrow> (to_fixed 1 km, ''$'' @ to_fixed 2 revenue))"

definition zone_text :: "json \<Rightarrow> string \<times> string" where
  "zone_text z = (text_field z ''name'', to_fixed 2 (admin_number (jget z ''base_multiplier'')) @ ''x'')"

definition daily_texts :: "json \<Rightarrow> string \<times> string \<times> string" where
  "daily_texts d =
     (js_String (admin_number (jget d ''trips'')), to_fixed 1 (admin_number (jget d ''total_km'')),
      ''$'' @ to_fixed 2 (admin_number (jget d ''gross_revenue'')))"

section \<open>Toasts\<close>

record toast_entry =
  to_id :: nat
  to_message :: string
  to_tone :: string

text \<open>\<open>now\<close> is \<open>Date.now()\<close>, \<open>draw\<close> the random number below a thousand; the timer of a toast removes the
  entries with its id after four seconds.\<close>

definition toast :: "nat \<Rightarrow> nat \<Rightarrow> string \<Rightarrow> string \<Rightarrow> toast_entry list \<Rightarrow> toast_entry list" where
  "toast now draw message tone toasts = toasts @ [\<lparr>to_id = now + draw, to_message = message, to_tone = tone\<rparr>]"

definition toast_expires :: "nat \<Rightarrow> toast_entry list \<Rightarrow> toast_entry list" where
  "toast_expires i toasts = filter (\<lambda>t. to_id t \<noteq> i) toasts"

section \<open>Debounced values\<close>

text \<open>The value shown, and the pending one with the time its timer fires.\<close>

record 'a debounced =
  dv_value :: 'a
  dv_timer :: "('a \<times> nat) option"

definition debounce_change :: "nat \<Rightarrow> nat \<Rightarrow> 'a \<Rightarrow> 'a debounced \<Rightarrow> 'a debounced" where
  "debounce_change delayMs now x s = s\<lparr>dv_timer := Some (x, now + delayMs)\<rparr>"

definition debounce_time :: "nat \<Rightarrow> 'a debounced \<Rightarrow> 'a debounced" where
  "debounce_time now s =
     (case dv_timer s of
        Some (x, due) \<Rightarrow> if due \<le> now then \<lparr>dv_value = x, dv_timer = None\<rparr> else s
      | None \<Rightarrow> s)"

section \<open>The user menu\<close>

definition displayName :: "json option \<Rightarrow> string \<Rightarrow> string" where
  "displayName me role =
     (case trip_field me ''full_name'' of
        Some (JStr s) \<Rightarrow> s
      | _ \<Rightarrow> map upper_char (take 1 role) @ drop 1 role)"

fun split_spaces :: "string \<Rightarrow> string list" where
  "split_spaces [] = [[]]"
| "split_spaces (c # cs) =
     (if js_space c
      then [] # (case cs of d # ds \<Rightarrow> if js_space d then tl (split_spaces cs) else split_spaces cs | [] \<Rightarrow> [[]])
      else (case split_spaces cs of w # ws \<Rightarrow> (c # w) # ws | [] \<Rightarrow> [[c]]))"

definition initials :: "json option \<Rightarrow> string \<Rightarrow> string" where
  "initials me role =
     (let name = (case trip_field me ''full_name'' of Some (JStr s) \<Rightarrow> s | _ \<Rightarrow> role);
          letters = concat (take 2 (map (\<lambda>part. map upper_char (take 1 part)) (split_spaces name)))
      in if letters = [] then ''R'' else letters)"

end
