(* ===== verification/TripAnswers.thy ===== *)
theory TripAnswers
  imports TripProperties
begin

text \<open>
  What a successful answer of the trip service says. The refinement shows that a handler commits
  only allowed steps; here the answer is tied to the step: whenever cancelling, starting, completing
  or rating a trip answers without an error, under any faults, the trip was in the status the
  operation needs, belonged to the caller, and the committed tables are the ones the operation
  makes. An error may come before or after the commit.
\<close>

section \<open>A running transaction\<close>

definition running :: "(db \<Rightarrow> bool) \<Rightarrow> world \<Rightarrow> bool" where
  "running J w \<longleftrightarrow> (\<exists>t. w_tx w = Some t \<and> \<not> tx_aborted t \<and> J (tx_db t))"

abbreviation answers :: "(world \<Rightarrow> bool) \<Rightarrow> 'a act \<Rightarrow> ('a \<Rightarrow> world \<Rightarrow> bool) \<Rightarrow> bool" where
  "answers P m Q \<equiv> valid P m Q (\<lambda>_ _. True)"

text \<open>The time of the server and the surge cache, as they are when the handler is called.\<close>

type_synonym surge_cache = "(string \<times> (string \<times> string) list) list"

definition at_call :: "rat \<Rightarrow> surge_cache \<Rightarrow> world \<Rightarrow> bool" where
  "at_call now cache w \<longleftrightarrow> sys_now (w_sys w) = now \<and> w_surge w = cache"

lemma answers_begin:
  "answers (\<lambda>w. idle J w \<and> at_call now cache w) begin_tx (\<lambda>_ w. running J w \<and> at_call now cache w)"
  by (auto simp: valid_def begin_tx_def call_def effect_simps idle_def running_def at_call_def split: fault.splits)

lemma answers_connect:
  "answers (\<lambda>w. idle J w \<and> at_call now cache w) connect (\<lambda>_ w. idle J w \<and> at_call now cache w)"
  by (auto simp: valid_def connect_def call_def effect_simps idle_def at_call_def split: fault.splits)

text \<open>A statement that reads the time.\<close>

lemma answers_query_at:
  assumes "\<And>s d x d' s'. sys_now s = now \<Longrightarrow> J d \<Longrightarrow> st s d = (Inr (x, d'), s') \<Longrightarrow> K x d' \<and> sys_now s' = now"
  shows "answers (\<lambda>w. running J w \<and> at_call now cache w) (query st) (\<lambda>x w. running (K x) w \<and> at_call now cache w)"
proof (rule validI)
  fix w x w' assume w: "running J w \<and> at_call now cache w" and q: "query st w = (Inr x, w')"
  then obtain t where t: "w_tx w = Some t" "\<not> tx_aborted t" "J (tx_db t)" by (auto simp: running_def)
  have "run_stmt st (take_fault w) = (Inr x, w')"
    using q by (auto simp: query_def call_def split: prod.splits sum.splits fault.splits)
  then obtain d' s' where st: "st (w_sys w) (tx_db t) = (Inr (x, d'), s')"
    and w': "w' = (take_fault w)\<lparr>w_sys := s', w_tx := Some (t\<lparr>tx_db := d'\<rparr>)\<rparr>"
    using t by (auto simp: run_stmt_def split: prod.splits sum.splits)
  have "K x d' \<and> sys_now s' = now" by (rule assms [OF _ t(3) st]) (use w in \<open>simp add: at_call_def\<close>)
  with w t(2) show "running (K x) w' \<and> at_call now cache w'" by (simp add: w' running_def at_call_def)
qed simp

lemma answers_commit: "answers (running J) commit (\<lambda>_. idle J)"
  by (auto simp: valid_def commit_def commit_now_def close_tx_def call_def effect_simps idle_def running_def
      split: fault.splits)

lemma answers_query:
  assumes "stmt_ok J st K"
  shows "answers (running J) (query st) (\<lambda>x. running (K x))"
  using assms
  by (auto simp: valid_def query_def call_def run_stmt_def running_def take_fault_def
      split: fault.splits prod.splits sum.splits option.splits if_splits dest: stmt_okD)

lemma answers_neutral:
  assumes "db_neutral m"
  shows "answers (idle J) m (\<lambda>_. idle J)" and "answers (running J) m (\<lambda>_. running J)"
  using assms by (auto simp: valid_def db_neutral_def idle_def running_def) (metis snd_conv)+

lemma answers_mono: "answers P m Q \<Longrightarrow> (\<And>x w. Q x w \<Longrightarrow> Q' x w) \<Longrightarrow> answers P m Q'"
  unfolding valid_def by blast

lemma answers_throw: "answers P (throw e) Q"
  by (simp add: valid_throw)

lemma answers_option:
  "(x = None \<Longrightarrow> answers P m Q) \<Longrightarrow> (\<And>y. x = Some y \<Longrightarrow> answers P (f y) Q) \<Longrightarrow>
   answers P (case x of None \<Rightarrow> m | Some y \<Rightarrow> f y) Q"
  by (cases x) simp_all

lemma answers_then: "answers R m (\<lambda>_. R) \<Longrightarrow> answers R n Q \<Longrightarrow> answers R (await m (\<lambda>_. n)) Q"
  by (rule valid_await)

text \<open>The connection, a transaction that commits, and a handler that throws again.\<close>

lemma answers_tx_at:
  assumes "answers (\<lambda>w. running J w \<and> at_call now cache w) body (\<lambda>x. idle (K x))"
    and "\<And>e. answers (\<lambda>_. True) (h e) (\<lambda>_ _. False)"
  shows "answers (\<lambda>w. idle J w \<and> at_call now cache w)
    (with_client (try_catch (await begin_tx (\<lambda>_. body)) h)) (\<lambda>x. idle (K x))"
  unfolding with_client_def
proof (rule valid_await [OF answers_connect])
  have "answers (\<lambda>w. idle J w \<and> at_call now cache w) (try_catch (await begin_tx (\<lambda>_. body)) h) (\<lambda>x. idle (K x))"
    by (rule valid_try_catch [OF valid_await [OF answers_begin assms(1)]])
      (rule answers_mono [OF assms(2)], simp)
  then show "answers (\<lambda>w. idle J w \<and> at_call now cache w)
      (finally_do (try_catch (await begin_tx (\<lambda>_. body)) h) release) (\<lambda>x. idle (K x))"
    by (rule valid_finally) (auto simp: valid_def release_def effect_simps idle_def)
qed

lemma answers_tx:
  assumes "answers (running J) body (\<lambda>x. idle (K x))" and "\<And>e. answers (\<lambda>_. True) (h e) (\<lambda>_ _. False)"
  shows "answers (idle J) (with_client (try_catch (await begin_tx (\<lambda>_. body)) h)) (\<lambda>x. idle (K x))"
proof (rule validI)
  fix w x w' assume w: "idle J w" and run: "with_client (try_catch (await begin_tx (\<lambda>_. body)) h) w = (Inr x, w')"
  have "at_call (sys_now (w_sys w)) (w_surge w) w" by (simp add: at_call_def)
  with w show "idle (K x) w'"
    using validD(1) [OF answers_tx_at [OF valid_pre [OF assms(1)] assms(2)] _ run] by blast
qed simp

lemma rollback_rethrow_answers: "answers (\<lambda>_. True) (rollback_rethrow e) (\<lambda>_ _. False)"
  unfolding rollback_rethrow_def by (rule valid_await [where R = "\<lambda>_ _. True"]) (auto simp: valid_def throw_def)

lemma rollback_quietly_answers: "answers (\<lambda>_. True) (await rollback_quietly (\<lambda>_. throw e)) (\<lambda>_ _. False)"
  by (rule valid_await [where R = "\<lambda>_ _. True"]) (auto simp: valid_def throw_def)

section \<open>The tables\<close>

text \<open>The tables the outbox and the events do not touch.\<close>

type_synonym db_tables = "trip_row list \<times> driver_row list \<times> fare_record_row list \<times> trip_rating_row list"

definition tables :: "db \<Rightarrow> db_tables" where
  "tables d = (db_trips d, db_drivers d, db_fare_records d, db_trip_ratings d)"

interpretation tables_outbox: outbox_stable "\<lambda>d. P (tables d)" for P
  by unfold_locales (simp add: tables_def)

lemma answers_publish: "answers (idle (\<lambda>d. P (tables d))) (publishPendingTripEvents X) (\<lambda>_. idle (\<lambda>d. P (tables d)))"
  by (rule valid_conseq [OF tables_outbox.publishPending_valid]) auto

lemma answers_record:
  "answers (running (\<lambda>d. P (tables d))) (recordTripEvent i ty payload) (\<lambda>_. running (\<lambda>d. P (tables d)))"
  unfolding recordTripEvent_def
  by (rule valid_await [OF answers_query [where K = "\<lambda>_ d. P (tables d)"]])
    (auto intro!: stmt_okI valid_ret simp: insert_trip_event_def tables_def Let_def split: if_splits)

lemma answers_restore:
  "answers (idle (\<lambda>d. P (tables d))) (restoreDriverGeoIndex v) (\<lambda>_. idle (\<lambda>d. P (tables d)))"
proof (rule validI)
  fix w x w' assume w: "idle (\<lambda>d. P (tables d)) w" and run: "restoreDriverGeoIndex v w = (Inr x, w')"
  then have "w_tx w' = None" "(=)\<^sup>*\<^sup>* (w_db w) (w_db w')"
    using commitsD [OF commits_restore [of "(=)"], of w] by (auto simp: idle_def)
  moreover have "d' = d" if "(=)\<^sup>*\<^sup>* d d'" for d d' :: db using that by (induction rule: rtranclp_induct) simp_all
  ultimately show "idle (\<lambda>d. P (tables d)) w'" using w by (metis idle_def)
qed simp

section \<open>Cancelling and starting\<close>

definition cancelled_status :: "bool \<Rightarrow> trip_status" where
  "cancelled_status by_driver = (if by_driver then CancelledByDriver else CancelledByRider)"

definition cancelled_db :: "string \<Rightarrow> string \<Rightarrow> bool \<Rightarrow> trip_row \<Rightarrow> db \<Rightarrow> db" where
  "cancelled_db tripId actorId by_driver t d =
     free_driver (tr_driver_id t)
       (with_trips (cancellable tripId actorId by_driver) (\<lambda>t. t\<lparr>tr_status := cancelled_status by_driver\<rparr>) d)"

lemma cancel_answers:
  "answers (idle (\<lambda>d. d = d0)) (cancel X tripId actorId actorRole)
     (\<lambda>row. idle (\<lambda>d. \<exists>t \<in> set (db_trips d0). cancellable tripId actorId (actorRole = ''driver'') t \<and>
        row = t\<lparr>tr_status := cancelled_status (actorRole = ''driver'')\<rparr> \<and>
        tables d = tables (cancelled_db tripId actorId (actorRole = ''driver'') t d0)))"
proof -
  define by_driver where "by_driver = (actorRole = ''driver'')"
  let ?p = "cancellable tripId actorId by_driver"
  let ?u = "\<lambda>t. t\<lparr>tr_status := cancelled_status by_driver\<rparr>"
  define K where "K = (\<lambda>rows d'. case rows of [] \<Rightarrow> True | row # _ \<Rightarrow>
      \<exists>t \<in> set (db_trips d0). ?p t \<and> row = ?u t \<and> d' = with_trips ?p ?u d0)"
  define L where "L = (\<lambda>rows T. case rows of [] \<Rightarrow> True | row # _ \<Rightarrow>
      \<exists>t \<in> set (db_trips d0). ?p t \<and> row = ?u t \<and> T = tables (cancelled_db tripId actorId by_driver t d0))"
  have p_eq: "(\<lambda>t. tr_id t = tripId \<and> (if by_driver then tr_driver_id t = Some actorId else tr_rider_id t = actorId) \<and>
      tr_status t \<in> {Requested, Matched}) = ?p"
    by (simp add: cancellable_def fun_eq_iff)
  have updated: "stmt_ok (\<lambda>d. d = d0) (cancel_trip_stmt tripId actorId by_driver) K"
    unfolding cancel_trip_stmt_def p_eq
    by (rule update_trips_ok) (auto simp: K_def cancelled_status_def)
  have L: "L (row # rs) (tables (free_driver (tr_driver_id row) d))" if K: "K (row # rs) d" for row rs d
  proof -
    obtain t where "t \<in> set (db_trips d0)" "?p t" "row = ?u t" "d = with_trips ?p ?u d0"
      using K by (auto simp: K_def)
    then show ?thesis unfolding L_def list.case cancelled_db_def by (intro bexI [of _ t]) simp_all
  qed
  have freed: "answers (running (K (row # rs)))
      (case tr_driver_id row of None \<Rightarrow> ret () | Some v \<Rightarrow> query (set_driver_status v Online))
      (\<lambda>_. running (\<lambda>d. L (row # rs) (tables d)))" for row rs
  proof (rule answers_option)
    assume none: "tr_driver_id row = None"
    show "answers (running (K (row # rs))) (ret ()) (\<lambda>_. running (\<lambda>d. L (row # rs) (tables d)))"
      using L [of row rs] by (intro valid_ret) (auto simp: running_def none free_driver_def)
  next
    fix v assume some: "tr_driver_id row = Some v"
    show "answers (running (K (row # rs))) (query (set_driver_status v Online)) (\<lambda>_. running (\<lambda>d. L (row # rs) (tables d)))"
      using L [of row rs] by (intro answers_query stmt_okI) (auto simp: set_driver_status_eq some free_driver_def)
  qed
  have rest: "answers (running (K rows))
      (case rows of [] \<Rightarrow> ret () | row # _ \<Rightarrow>
         await (case tr_driver_id row of None \<Rightarrow> ret () | Some v \<Rightarrow> query (set_driver_status v Online))
           (\<lambda>_. recordTripEvent tripId ''cancelled'' payload))
      (\<lambda>_. running (\<lambda>d. L rows (tables d)))" for rows payload
  proof (cases rows)
    case Nil
    show ?thesis unfolding Nil list.case by (rule valid_ret) (simp add: running_def K_def L_def)
  next
    case (Cons row rs)
    show ?thesis unfolding Cons list.case by (rule valid_await [OF freed answers_record])
  qed
  have commits: "answers (running (\<lambda>d. L rows (tables d))) (await commit (\<lambda>_. ret rows)) (\<lambda>r. idle (\<lambda>d. L r (tables d)))" for rows
    by (rule valid_await [OF answers_commit]) (simp add: valid_ret)
  note body = answers_tx [OF valid_await [OF answers_query [OF updated] valid_await [OF rest commits]] rollback_rethrow_answers]
  have after: "answers (idle (\<lambda>d. L rows (tables d)))
      (case rows of [] \<Rightarrow> throw e | row # _ \<Rightarrow>
         await (case tr_driver_id row of None \<Rightarrow> ret () | Some v \<Rightarrow> restoreDriverGeoIndex v) (\<lambda>_.
         await (publishPendingTripEvents X) (\<lambda>_. await (count_trip_event ''cancelled'') (\<lambda>_. ret row))))
      (\<lambda>row. idle (\<lambda>d. L [row] (tables d)))" for rows e
  proof (cases rows)
    case (Cons row rs)
    have L: "L rows = L [row]" by (simp add: Cons L_def)
    show ?thesis unfolding L unfolding Cons list.case
      by (intro answers_then answers_option answers_publish answers_neutral(1) valid_ret answers_restore db_neutral_servers)
  qed (simp add: valid_throw)
  show ?thesis
    unfolding cancel_def Let_def by_driver_def [symmetric]
    by (rule answers_mono, rule valid_if, rule answers_throw, rule valid_await [OF body after])
      (auto simp: L_def)
qed

definition may_start :: "string \<Rightarrow> string \<Rightarrow> trip_row \<Rightarrow> bool" where
  "may_start tripId driverId t \<longleftrightarrow> tr_id t = tripId \<and> tr_driver_id t = Some driverId \<and> tr_status t = Matched"

definition started :: "rat \<Rightarrow> trip_row \<Rightarrow> trip_row" where
  "started now t = t\<lparr>tr_status := InProgress, tr_started_at := Some now\<rparr>"

lemma start_answers:
  "answers (\<lambda>w. idle (\<lambda>d. d = d0) w \<and> at_call now cache w) (start X tripId actor)
     (\<lambda>row. idle (\<lambda>d. \<exists>t \<in> set (db_trips d0). may_start tripId (ac_sub actor) t \<and> row = started now t \<and>
        tables d = tables (with_trips (may_start tripId (ac_sub actor)) (started now) d0)))"
proof -
  let ?p = "may_start tripId (ac_sub actor)"
  define L where "L = (\<lambda>rows T. case rows of [] \<Rightarrow> True | row # _ \<Rightarrow>
      \<exists>t \<in> set (db_trips d0). ?p t \<and> row = started now t \<and> T = tables (with_trips ?p (started now) d0))"
  have updated: "L rows (tables d') \<and> sys_now s' = now"
    if "sys_now s = now" "d = d0" "start_trip_stmt tripId (ac_sub actor) s d = (Inr (rows, d'), s')" for s d rows d' s'
    using that returning_consD [of ?p "started now" "db_trips d0"]
    unfolding start_trip_stmt_def may_start_def [symmetric] started_def [symmetric] update_trips_eq
    by (cases rows) (auto simp: L_def)
  have rest: "answers (running (\<lambda>d. L rows (tables d)))
      (case rows of [] \<Rightarrow> ret () | _ \<Rightarrow> recordTripEvent tripId ''started'' payload)
      (\<lambda>_. running (\<lambda>d. L rows (tables d)))" for rows payload
    by (cases rows) (simp_all add: valid_ret answers_record)
  have commits: "answers (running (\<lambda>d. L rows (tables d))) (await commit (\<lambda>_. ret rows)) (\<lambda>r. idle (\<lambda>d. L r (tables d)))" for rows
    by (rule valid_await [OF answers_commit]) (simp add: valid_ret)
  have tail: "answers (\<lambda>w. running (\<lambda>d. L rows (tables d)) w \<and> at_call now cache w)
      (await (case rows of [] \<Rightarrow> ret () | _ \<Rightarrow> recordTripEvent tripId ''started'' payload) (\<lambda>_. await commit (\<lambda>_. ret rows)))
      (\<lambda>r. idle (\<lambda>d. L r (tables d)))" for rows payload
    by (rule valid_pre [OF valid_await [OF rest commits]]) simp
  note body = answers_tx_at [OF valid_await [OF answers_query_at [OF updated] tail] rollback_rethrow_answers]
  have after: "answers (idle (\<lambda>d. L rows (tables d)))
      (case rows of [] \<Rightarrow> throw e | row # _ \<Rightarrow>
         await (publishPendingTripEvents X) (\<lambda>_. await (count_trip_event ''started'') (\<lambda>_. ret row)))
      (\<lambda>row. idle (\<lambda>d. L [row] (tables d)))" for rows e
  proof (cases rows)
    case (Cons row rs)
    have L: "L rows = L [row]" by (simp add: Cons L_def)
    show ?thesis unfolding L unfolding Cons list.case
      by (intro answers_then answers_publish answers_neutral(1) valid_ret db_neutral_servers)
  qed (simp add: valid_throw)
  show ?thesis
    unfolding start_def
    by (rule answers_mono, rule valid_if, rule answers_throw, rule valid_await [OF body after])
      (auto simp: L_def)
qed

section \<open>Completing\<close>

definition may_complete :: "string \<Rightarrow> string \<Rightarrow> trip_row \<Rightarrow> bool" where
  "may_complete tripId driverId t \<longleftrightarrow> tr_id t = tripId \<and> tr_driver_id t = Some driverId \<and> tr_status t = InProgress"

text \<open>The distance and the duration the fare is computed from: what the client reads of the numerics the
  database returns.\<close>

definition trip_km :: "ext \<Rightarrow> trip_row \<Rightarrow> rat" where
  "trip_km X t = num_val (js_Number (pg_numeric_text 3 (pg_round 3 (x_distance X (tr_pickup t) (tr_dropoff t) / 1000))))"

definition trip_minutes :: "rat \<Rightarrow> trip_row \<Rightarrow> rat" where
  "trip_minutes now t = num_val (js_Number (pg_numeric_text 2 (duration_minutes t now)))"

text \<open>The multipliers that may be charged: 1 outside every zone, otherwise the one the surge worker
  published for the zone of the pickup, or the one of its row in the database.\<close>

definition surge_charged :: "surge_cache \<Rightarrow> string option \<Rightarrow> string option \<Rightarrow> rat \<Rightarrow> bool" where
  "surge_charged cache zoneId multiplier s \<longleftrightarrow> 1 \<le> s \<and>
     (case zoneId of
        None \<Rightarrow> s = 1
      | Some z \<Rightarrow> z = [] \<and> s = 1 \<or> s = surge_fallback multiplier \<or>
          surge_of_cache (case map_of cache (''surge:zone:'' @ z) of None \<Rightarrow> None | Some h \<Rightarrow> map_of h ''multiplier'') = Some s)"

definition trip_surge :: "ext \<Rightarrow> surge_cache \<Rightarrow> db \<Rightarrow> trip_row \<Rightarrow> rat \<Rightarrow> bool" where
  "trip_surge X cache d t =
     (let zone = zone_of X d (tr_pickup t)
      in surge_charged cache (map_option sz_id zone)
           (map_option (\<lambda>z. pg_numeric_text 2 (sz_base_multiplier z)) zone))"

text \<open>The fare record of a trip, every column of it, and the answer.\<close>

definition fare_for :: "string \<Rightarrow> rat \<Rightarrow> rat \<Rightarrow> rat \<Rightarrow> fare_record_row \<Rightarrow> bool" where
  "fare_for tripId km mins s f \<longleftrightarrow> fr_trip_id f = tripId \<and> fr_base_fare f = 5 / 2 \<and>
     pg_numeric 7 3 (js_decimal km) = Some (fr_distance_km f) \<and>
     pg_numeric 7 2 (js_decimal mins) = Some (fr_duration_min f) \<and>
     pg_numeric 3 2 (js_decimal s) = Some (fr_surge_multiplier f) \<and>
     pg_numeric 10 2 (js_decimal (fare_total km mins s)) = Some (fr_total f) \<and> fr_currency f = ''USD''"

definition completed_answer :: "string \<Rightarrow> rat \<Rightarrow> rat \<Rightarrow> rat \<Rightarrow> completed_result" where
  "completed_answer tripId km mins s =
     \<lparr>co_id = tripId, co_status = ''completed'', co_distance_km = to_fixed 3 km, co_duration_min = to_fixed 2 mins,
      co_surge_multiplier = to_fixed 2 s, co_total = to_fixed 2 (fare_total km mins s),
      co_fare_total = to_fixed 2 (fare_total km mins s), co_currency = ''USD''\<rparr>"

text \<open>The database after a trip was completed at \<open>now\<close> with the fare record \<open>f\<close>.\<close>

definition completed_db :: "string \<Rightarrow> string \<Rightarrow> rat \<Rightarrow> fare_record_row \<Rightarrow> db \<Rightarrow> db" where
  "completed_db tripId driverId now f d =
     with_driver_status driverId Online
       (with_trips (\<lambda>t. tr_id t = tripId) (\<lambda>t. t\<lparr>tr_fare_total := Some (fr_total f), tr_currency := ''USD''\<rparr>)
         (with_fare f
           (with_trips (may_complete tripId driverId) (\<lambda>t. t\<lparr>tr_status := Completed, tr_completed_at := Some now\<rparr>) d)))"

lemma upsert_fare_for:
  assumes "upsert_fare tripId (5 / 2) km mins s (fare_total km mins s) s1 d = (Inr (u, d'), s2)"
  obtains f where "fare_for tripId km mins s f" and "d' = with_fare f d"
  using assms
proof (rule upsert_fare_row)
  fix f :: fare_record_row assume "pg_numeric 10 2 (js_decimal (5 / 2)) = Some (fr_base_fare f)"
  moreover have "pg_numeric 10 2 (js_decimal (5 / 2)) = Some (5 / 2)" by code_simp
  moreover assume "d' = with_fare f d" "fr_trip_id f = tripId" "fr_currency f = ''USD''"
    "pg_numeric 7 3 (js_decimal km) = Some (fr_distance_km f)"
    "pg_numeric 7 2 (js_decimal mins) = Some (fr_duration_min f)"
    "pg_numeric 3 2 (js_decimal s) = Some (fr_surge_multiplier f)"
    "pg_numeric 10 2 (js_decimal (fare_total km mins s)) = Some (fr_total f)"
  ultimately show thesis by (intro that [of f]) (simp_all add: fare_for_def)
qed

lemma resolveSurge_charges:
  "answers (\<lambda>w. running J w \<and> at_call now cache w) (resolveSurge zoneId multiplier)
     (\<lambda>s. running (\<lambda>d. J d \<and> surge_charged cache zoneId multiplier s))"
proof (rule validI)
  fix w s w' assume w: "running J w \<and> at_call now cache w" and run: "resolveSurge zoneId multiplier w = (Inr s, w')"
  have "running J w'" using validD(1) [OF answers_neutral(2) [OF resolveSurge_neutral]] w run by blast
  moreover have "1 \<le> s" using resolveSurge_at_least_one [OF run] by simp
  then have "surge_charged cache zoneId multiplier s"
    using w run
    by (auto simp: surge_charged_def at_call_def resolveSurge_def hget_def call_def await_def try_catch_def effect_simps
        split: option.splits if_splits fault.splits)
  ultimately show "running (\<lambda>d. J d \<and> surge_charged cache zoneId multiplier s) w'" by (simp add: running_def)
qed simp

definition fare_inputs_of :: "ext \<Rightarrow> rat \<Rightarrow> db \<Rightarrow> trip_row \<Rightarrow> completed_row" where
  "fare_inputs_of X now d t = \<lparr>cp_id = tr_id t,
     cp_distance_km = pg_numeric_text 3 (pg_round 3 (x_distance X (tr_pickup t) (tr_dropoff t) / 1000)),
     cp_duration_min = pg_numeric_text 2 (duration_minutes t now),
     cp_zone_id = map_option sz_id (zone_of X d (tr_pickup t)),
     cp_zone_multiplier = map_option (\<lambda>z. pg_numeric_text 2 (sz_base_multiplier z)) (zone_of X d (tr_pickup t))\<rparr>"

lemma fare_inputs_read:
  "num_val (js_Number (cp_distance_km (fare_inputs_of X now d t))) = trip_km X t"
  "num_val (js_Number (cp_duration_min (fare_inputs_of X now d t))) = trip_minutes now t"
  "surge_charged cache (cp_zone_id (fare_inputs_of X now d t)) (cp_zone_multiplier (fare_inputs_of X now d t)) s =
     trip_surge X cache d t s"
  by (simp_all add: fare_inputs_of_def trip_km_def trip_minutes_def trip_surge_def Let_def)

text \<open>The trip is marked completed at the time of the call.\<close>

lemma complete_stmt_rows:
  assumes "complete_trip_stmt X tripId driverId s d = (Inr (rows, d'), s')"
  shows "s' = s \<and> (\<forall>row rs. rows = row # rs \<longrightarrow>
    (\<exists>t \<in> set (db_trips d). may_complete tripId driverId t \<and> row = fare_inputs_of X (sys_now s) d t \<and>
       d' = with_trips (may_complete tripId driverId)
         (\<lambda>t. t\<lparr>tr_status := Completed, tr_completed_at := Some (sys_now s)\<rparr>) d))"
proof -
  let ?p = "may_complete tripId driverId"
  let ?u = "\<lambda>t. t\<lparr>tr_status := Completed, tr_completed_at := Some (sys_now s)\<rparr>"
  have p_eq: "(\<lambda>t. tr_id t = tripId \<and> tr_driver_id t = Some driverId \<and> tr_status t = InProgress) = ?p"
    by (simp add: may_complete_def fun_eq_iff)
  have inputs: "fare_inputs_of X now d (?u t) = fare_inputs_of X now d t" for now t
    by (simp add: fare_inputs_of_def duration_minutes_def split: option.split)
  have rows: "rows = map (fare_inputs_of X (sys_now s) d) (returning ?p ?u (db_trips d))"
    and d': "d' = with_trips ?p ?u d" and s': "s' = s"
    using assms
    by (auto simp: complete_trip_stmt_def Let_def p_eq with_trips_def fare_inputs_of_def [abs_def])
  have "\<exists>t \<in> set (db_trips d). ?p t \<and> row = fare_inputs_of X (sys_now s) d t" if "rows = row # rs" for row rs
  proof -
    have "row \<in> fare_inputs_of X (sys_now s) d ` set (returning ?p ?u (db_trips d))"
      unfolding set_map [symmetric] rows [symmetric] that by simp
    then show ?thesis by (auto simp: returning_def inputs)
  qed
  with d' s' show ?thesis by blast
qed

lemma complete_answers:
  "answers (\<lambda>w. idle (\<lambda>d. d = d0) w \<and> at_call now cache w) (complete X tripId actor)
     (\<lambda>r. idle (\<lambda>d. \<exists>t s f. t \<in> set (db_trips d0) \<and> may_complete tripId (ac_sub actor) t \<and>
        trip_surge X cache d0 t s \<and> fare_for tripId (trip_km X t) (trip_minutes now t) s f \<and>
        r = completed_answer tripId (trip_km X t) (trip_minutes now t) s \<and>
        tables d = tables (completed_db tripId (ac_sub actor) now f d0)))"
proof -
  let ?v = "ac_sub actor"
  let ?p = "may_complete tripId ?v"
  let ?marked = "with_trips ?p (\<lambda>t. t\<lparr>tr_status := Completed, tr_completed_at := Some now\<rparr>) d0"
  let ?total = "\<lambda>f. with_trips (\<lambda>t. tr_id t = tripId) (\<lambda>t. t\<lparr>tr_fare_total := Some (fr_total f), tr_currency := ''USD''\<rparr>)"
  let ?km = "\<lambda>row. num_val (js_Number (cp_distance_km row))" and ?mins = "\<lambda>row. num_val (js_Number (cp_duration_min row))"
  define mine where "mine = (\<lambda>row t. t \<in> set (db_trips d0) \<and> ?p t \<and> row = fare_inputs_of X now d0 t)"
  define K where "K = (\<lambda>(rows :: completed_row list) d. \<forall>row rs. rows = row # rs \<longrightarrow> (\<exists>t. mine row t) \<and> d = ?marked)"
  define charged where "charged = (\<lambda>row s (g :: fare_record_row \<Rightarrow> db \<Rightarrow> db) (d :: db). \<exists>t f. mine row t \<and> trip_surge X cache d0 t s \<and>
      fare_for tripId (?km row) (?mins row) s f \<and> d = g f (with_fare f ?marked))"
  have updated: "K rows d' \<and> sys_now s' = now"
    if "sys_now s = now" "d = d0" "complete_trip_stmt X tripId ?v s d = (Inr (rows, d'), s')" for s d rows d' s'
    using complete_stmt_rows [OF that(3)] that(1,2) by (auto simp: K_def mine_def)
  have fare: "stmt_ok (\<lambda>d. K (row # rs) d \<and> surge_charged cache (cp_zone_id row) (cp_zone_multiplier row) s)
      (upsert_fare tripId (5 / 2) (?km row) (?mins row) s (fare_total (?km row) (?mins row) s))
      (\<lambda>_. charged row s (\<lambda>f d. d))" for row rs s
    by (rule stmt_okI, erule upsert_fare_for) (auto simp: K_def charged_def mine_def fare_inputs_read)
  have trip: "stmt_ok (charged row s (\<lambda>f d. d)) (set_fare_total tripId (fare_total (?km row) (?mins row) s))
      (\<lambda>_. charged row s ?total)" for row s
  proof (rule stmt_okI, erule set_fare_total_Inr)
    fix d d' tot assume "charged row s (\<lambda>f d. d) d" and tot: "pg_numeric 10 2 (js_decimal (fare_total (?km row) (?mins row) s)) = Some tot"
      and d': "d' = with_trips (\<lambda>t. tr_id t = tripId) (\<lambda>t. t\<lparr>tr_fare_total := Some tot, tr_currency := ''USD''\<rparr>) d"
    then obtain t f where f: "mine row t" "trip_surge X cache d0 t s" "fare_for tripId (?km row) (?mins row) s f" "d = with_fare f ?marked"
      unfolding charged_def by blast
    with tot have "tot = fr_total f" by (simp add: fare_for_def)
    with f d' show "charged row s ?total d'" unfolding charged_def by blast
  qed
  have driver: "stmt_ok (charged row s ?total) (set_driver_status ?v Online)
      (\<lambda>_. charged row s (\<lambda>f d. with_driver_status ?v Online (?total f d)))" for row s
    by (rule stmt_okI) (auto simp: set_driver_status_eq charged_def)
  define Q where "Q = (\<lambda>(r :: completed_result) (T :: db_tables). \<exists>t s f. t \<in> set (db_trips d0) \<and> ?p t \<and>
      trip_surge X cache d0 t s \<and> fare_for tripId (trip_km X t) (trip_minutes now t) s f \<and>
      r = completed_answer tripId (trip_km X t) (trip_minutes now t) s \<and>
      T = tables (completed_db tripId ?v now f d0))"
  have Q: "Q (completed_answer tripId (?km row) (?mins row) s) (tables d)"
    if c: "charged row s (\<lambda>f d. with_driver_status ?v Online (?total f d)) d" for row s d
  proof -
    obtain t f where "mine row t" "trip_surge X cache d0 t s" "fare_for tripId (?km row) (?mins row) s f"
      "d = completed_db tripId ?v now f d0"
      using c unfolding charged_def completed_db_def by blast
    then show ?thesis
      unfolding Q_def by (intro exI [of _ t] exI [of _ s] exI [of _ f]) (simp add: mine_def fare_inputs_read)
  qed
  have recorded: "answers (running (charged row s (\<lambda>f d. with_driver_status ?v Online (?total f d))))
      (await (recordTripEvent tripId ''completed'' payload)
        (\<lambda>_. await commit (\<lambda>_. ret (completed_answer tripId (?km row) (?mins row) s))))
      (\<lambda>r. idle (\<lambda>d. Q r (tables d)))" for row s payload
  proof (rule valid_await)
    show "answers (running (charged row s (\<lambda>f d. with_driver_status ?v Online (?total f d))))
        (recordTripEvent tripId ''completed'' payload)
        (\<lambda>_. running (\<lambda>d. Q (completed_answer tripId (?km row) (?mins row) s) (tables d)))"
      by (rule valid_pre [OF answers_record]) (auto simp: running_def intro: Q)
    show "answers (running (\<lambda>d. Q (completed_answer tripId (?km row) (?mins row) s) (tables d)))
        (await commit (\<lambda>_. ret (completed_answer tripId (?km row) (?mins row) s))) (\<lambda>r. idle (\<lambda>d. Q r (tables d)))"
      by (rule valid_await [OF answers_commit]) (simp add: valid_ret)
  qed
  have rest: "answers (\<lambda>w. running (K (row # rs)) w \<and> at_call now cache w)
      (await (resolveSurge (cp_zone_id row) (cp_zone_multiplier row)) (\<lambda>s.
       await (query (upsert_fare tripId (5 / 2) (?km row) (?mins row) s (fare_total (?km row) (?mins row) s))) (\<lambda>_.
       await (query (set_fare_total tripId (fare_total (?km row) (?mins row) s))) (\<lambda>_.
       await (query (set_driver_status ?v Online)) (\<lambda>_.
       await (recordTripEvent tripId ''completed'' (payload s)) (\<lambda>_.
       await commit (\<lambda>_. ret (completed_answer tripId (?km row) (?mins row) s))))))))
      (\<lambda>r. idle (\<lambda>d. Q r (tables d)))" for row rs payload
    by (rule valid_await [OF resolveSurge_charges], rule valid_await [OF answers_query [OF fare]],
        rule valid_await [OF answers_query [OF trip]], rule valid_await [OF answers_query [OF driver] recorded])
  have body: "answers (\<lambda>w. running (\<lambda>d. d = d0) w \<and> at_call now cache w)
      (await (query (complete_trip_stmt X tripId ?v)) (\<lambda>rows. case rows of
         [] \<Rightarrow> await rollback (\<lambda>_. throw e)
       | row # rs \<Rightarrow> await (resolveSurge (cp_zone_id row) (cp_zone_multiplier row)) (\<lambda>s.
           await (query (upsert_fare tripId (5 / 2) (?km row) (?mins row) s (fare_total (?km row) (?mins row) s))) (\<lambda>_.
           await (query (set_fare_total tripId (fare_total (?km row) (?mins row) s))) (\<lambda>_.
           await (query (set_driver_status ?v Online)) (\<lambda>_.
           await (recordTripEvent tripId ''completed'' (payload row s)) (\<lambda>_.
           await commit (\<lambda>_. ret (completed_answer tripId (?km row) (?mins row) s)))))))))
      (\<lambda>r. idle (\<lambda>d. Q r (tables d)))" for e payload
  proof (rule valid_await [OF answers_query_at [OF updated]])
    show "answers (\<lambda>w. running (K rows) w \<and> at_call now cache w) (case rows of
         [] \<Rightarrow> await rollback (\<lambda>_. throw e)
       | row # rs \<Rightarrow> await (resolveSurge (cp_zone_id row) (cp_zone_multiplier row)) (\<lambda>s.
           await (query (upsert_fare tripId (5 / 2) (?km row) (?mins row) s (fare_total (?km row) (?mins row) s))) (\<lambda>_.
           await (query (set_fare_total tripId (fare_total (?km row) (?mins row) s))) (\<lambda>_.
           await (query (set_driver_status ?v Online)) (\<lambda>_.
           await (recordTripEvent tripId ''completed'' (payload row s)) (\<lambda>_.
           await commit (\<lambda>_. ret (completed_answer tripId (?km row) (?mins row) s))))))))
      (\<lambda>r. idle (\<lambda>d. Q r (tables d)))" for rows
    proof (cases rows)
      case Nil
      show ?thesis unfolding Nil list.case
        by (rule valid_await [where R = "\<lambda>_ _. True"]) (auto simp: valid_def throw_def)
    next
      case (Cons row rs)
      show ?thesis unfolding Cons list.case by (rule rest)
    qed
  qed
  have after: "answers (idle (\<lambda>d. Q r (tables d))) (await (restoreDriverGeoIndex ?v) (\<lambda>_. await (publishPendingTripEvents X) (\<lambda>_.
      await (count_trip_event ''completed'') (\<lambda>_. ret r)))) (\<lambda>r. idle (\<lambda>d. Q r (tables d)))" for r
    by (intro answers_then answers_publish answers_neutral(1) answers_restore db_neutral_servers) (simp add: valid_ret)
  have "answers (\<lambda>w. idle (\<lambda>d. d = d0) w \<and> at_call now cache w) (complete X tripId actor) (\<lambda>r. idle (\<lambda>d. Q r (tables d)))"
    unfolding complete_def complete_body_def Let_def completed_answer_def [symmetric]
    by (rule valid_if, rule answers_throw,
        rule valid_await [OF answers_tx_at [OF body rollback_quietly_answers] after])
  then show ?thesis by (simp only: Q_def)
qed

section \<open>Rating\<close>

definition rateable :: "string \<Rightarrow> string \<Rightarrow> string \<Rightarrow> trip_row \<Rightarrow> bool" where
  "rateable tripId riderId driverId t \<longleftrightarrow>
     tr_id t = tripId \<and> tr_rider_id t = riderId \<and> tr_status t = Completed \<and> tr_driver_id t = Some driverId"

definition rated_db :: "string \<Rightarrow> string \<Rightarrow> string \<Rightarrow> rate_trip_dto \<Rightarrow> db \<Rightarrow> db" where
  "rated_db tripId riderId driverId dto d = d\<lparr>
     db_trip_ratings := db_trip_ratings d @
       [\<lparr>rt_trip_id = tripId, rt_rider_id = riderId, rt_driver_id = driverId,
         rt_rating = rd_rating dto, rt_comment = rd_comment dto\<rparr>],
     db_drivers := update_rows (\<lambda>r. dr_user_id r = driverId) (apply_rating (rd_rating dto)) (db_drivers d)\<rparr>"

lemma rate_answers:
  "answers (idle (\<lambda>d. d = d0)) (rate X tripId riderId dto)
     (\<lambda>r. idle (\<lambda>d. \<exists>t driverId. t \<in> set (db_trips d0) \<and> rateable tripId riderId driverId t \<and>
        tripId \<notin> rt_trip_id ` set (db_trip_ratings d0) \<and> r = (tripId, rd_rating dto) \<and>
        tables d = tables (rated_db tripId riderId driverId dto d0)))"
proof -
  define K where "K = (\<lambda>rows d. d = d0 \<and> (\<forall>v \<in> set rows. \<exists>t. t \<in> set (db_trips d0) \<and> rateable tripId riderId v t))"
  define L where "L = (\<lambda>T. \<exists>t v. t \<in> set (db_trips d0) \<and> rateable tripId riderId v t \<and>
      tripId \<notin> rt_trip_id ` set (db_trip_ratings d0) \<and> T = tables (rated_db tripId riderId v dto d0))"
  have selected: "stmt_ok (\<lambda>d. d = d0) (select_rateable tripId riderId) K"
    unfolding select_rateable_def
    by (rule stmt_ok_select) (auto simp: K_def rateable_def List.map_filter_def)
  have inserted: "stmt_ok (K (v # rs)) (insert_rating tripId riderId v dto) (\<lambda>_ d. L (tables d))" for v rs
    by (rule stmt_okI)
      (auto simp: K_def L_def insert_rating_def rated_db_def split: if_splits)
  have body: "answers (running (\<lambda>d. d = d0)) (await (query (select_rateable tripId riderId)) (\<lambda>rows. case rows of
         [] \<Rightarrow> await rollback (\<lambda>_. throw e)
       | v # _ \<Rightarrow> await (query (insert_rating tripId riderId v dto)) (\<lambda>_.
           await (recordTripEvent tripId ''rated'' payload) (\<lambda>_. commit)))) (\<lambda>_. idle (\<lambda>d. L (tables d)))" for e payload
  proof (rule valid_await [OF answers_query [OF selected]], rule valid_case_list)
    show "answers P (await rollback (\<lambda>_. throw e)) Q" for P Q
      by (rule valid_await [where R = "\<lambda>_ _. True"]) (auto simp: valid_def throw_def)
    fix rows rs :: "string list" and v assume rows: "rows = v # rs"
    show "answers (running (K rows)) (await (query (insert_rating tripId riderId v dto)) (\<lambda>_.
           await (recordTripEvent tripId ''rated'' payload) (\<lambda>_. commit))) (\<lambda>_. idle (\<lambda>d. L (tables d)))"
      unfolding rows by (rule valid_await [OF answers_query [OF inserted] valid_await [OF answers_record answers_commit]])
  qed
  have handler: "answers (\<lambda>_. True) (await rollback_quietly (\<lambda>_. if c then throw e1 else throw e2)) (\<lambda>_ _. False)" for c e1 e2
    by (rule valid_await [where R = "\<lambda>_ _. True"]) (auto simp: valid_def throw_def)
  have "answers (idle (\<lambda>d. d = d0)) (rate X tripId riderId dto)
      (\<lambda>r. idle (\<lambda>d. r = (tripId, rd_rating dto) \<and> L (tables d)))"
    unfolding rate_def
    by (rule valid_await [OF answers_tx [OF body handler]], rule answers_then [OF answers_publish],
        rule answers_then [OF answers_neutral(1)])
      (auto intro!: db_neutral_servers valid_ret simp: idle_def)
  then show ?thesis by (rule answers_mono) (auto simp: idle_def L_def)
qed

section \<open>The answers\<close>

text \<open>C5. A successful answer of the trip service is true, whatever calls fail: a cancelled trip was requested
  or matched and the caller's own, a started one matched to the caller, a completed one in progress
  with the caller, a rated one completed, ridden by the caller and not rated before; the row that is
  returned is the row as it was changed, at the time of the call; and when the answer arrives the trips,
  the drivers, the fare records and the ratings are committed as the operation changes them and in no
  other way. A completed trip is charged \<open>fare_total\<close> of its own distance, of its duration up to now and of a
  multiplier of its zone (the published one, or the database's; 1 outside every zone); every column of
  its fare record, its own total and the answer are that fare, those distances and that multiplier.\<close>

theorem trip_answers_are_true:
  assumes "w_tx w = None" and "now = sys_now (w_sys w)"
  shows "(\<forall>row w'. cancel X i actorId role w = (Inr row, w') \<longrightarrow>
      (\<exists>t \<in> set (db_trips (w_db w)). cancellable i actorId (role = ''driver'') t \<and>
         row = t\<lparr>tr_status := cancelled_status (role = ''driver'')\<rparr> \<and>
         tables (w_db w') = tables (cancelled_db i actorId (role = ''driver'') t (w_db w)))) \<and>
    (\<forall>row w'. start X i actor w = (Inr row, w') \<longrightarrow>
      (\<exists>t \<in> set (db_trips (w_db w)). may_start i (ac_sub actor) t \<and> row = started now t \<and>
         tables (w_db w') = tables (with_trips (may_start i (ac_sub actor)) (started now) (w_db w)))) \<and>
    (\<forall>r w'. complete X i actor w = (Inr r, w') \<longrightarrow>
      (\<exists>t s f. t \<in> set (db_trips (w_db w)) \<and> may_complete i (ac_sub actor) t \<and>
         trip_surge X (w_surge w) (w_db w) t s \<and> fare_for i (trip_km X t) (trip_minutes now t) s f \<and>
         r = completed_answer i (trip_km X t) (trip_minutes now t) s \<and>
         tables (w_db w') = tables (completed_db i (ac_sub actor) now f (w_db w)))) \<and>
    (\<forall>r w'. rate X i actorId dto w = (Inr r, w') \<longrightarrow>
      (\<exists>t driverId. t \<in> set (db_trips (w_db w)) \<and> rateable i actorId driverId t \<and>
         i \<notin> rt_trip_id ` set (db_trip_ratings (w_db w)) \<and> r = (i, rd_rating dto) \<and>
         tables (w_db w') = tables (rated_db i actorId driverId dto (w_db w))))"
proof -
  have idle: "idle (\<lambda>d. d = w_db w) w" using assms(1) by (simp add: idle_def)
  then have here: "idle (\<lambda>d. d = w_db w) w \<and> at_call now (w_surge w) w" by (simp add: at_call_def assms(2))
  show ?thesis
    using validD(1) [OF cancel_answers idle, of X i actorId role] validD(1) [OF start_answers here, of X i actor]
      validD(1) [OF complete_answers here, of X i actor] validD(1) [OF rate_answers idle, of X i actorId dto]
    unfolding idle_def by simp
qed

theorem trip_answers_are_true_witness:
  "\<exists>row w'. cancel sample_ext trip4 rider1 ''rider'' sample_world = (Inr row, w') \<and>
     row = sample_trip\<lparr>tr_status := CancelledByRider\<rparr> \<and> db_trips (w_db w') = [row]"
proof -
  have "(case fst (cancel sample_ext trip4 rider1 ''rider'' sample_world) of Inl _ \<Rightarrow> False | Inr _ \<Rightarrow> True)" by code_simp
  then obtain row w' where run: "cancel sample_ext trip4 rider1 ''rider'' sample_world = (Inr row, w')"
    by (cases "cancel sample_ext trip4 rider1 ''rider'' sample_world") (auto split: sum.splits)
  have "w_tx sample_world = None" by (simp add: sample_world_def)
  from conjunct1 [OF trip_answers_are_true [OF this refl]] run
  obtain t where t: "t \<in> set (db_trips (w_db sample_world))" "row = t\<lparr>tr_status := cancelled_status False\<rparr>"
    "tables (w_db w') = tables (cancelled_db trip4 rider1 False t (w_db sample_world))"
    by fastforce
  have sample: "t = sample_trip" using t(1) by (simp add: sample_world_def sample_db_def)
  have "cancellable trip4 rider1 False sample_trip" by (simp add: cancellable_def sample_trip_def)
  then have "db_trips (w_db w') = [row]" and "row = sample_trip\<lparr>tr_status := CancelledByRider\<rparr>"
    using t(2,3) unfolding sample
    by (simp_all add: tables_def cancelled_db_def free_driver_def sample_trip_def with_trips_def update_rows_def
        cancelled_status_def sample_world_def sample_db_def)
  with run show ?thesis by blast
qed

end
