(* ===== verification/WidgetProperties.thy ===== *)
theory WidgetProperties
  imports WebWidgets ApiProperties TripAnswers
begin

text \<open>
  Properties of the parts of the web client: the markers on the map, the viewport, loading the Yandex
  API, debounced values, toasts and the user menu; and the buttons of the driver's card against what
  the API accepts.
\<close>

section \<open>Markers\<close>

definition handles :: "(string \<times> map_node) list \<Rightarrow> nat list" where
  "handles nodes = map (\<lambda>e. nd_handle (snd e)) nodes"

text \<open>What the effect keeps: one node per id, and on the map exactly these nodes.\<close>

definition map_ok :: "yandex_map \<Rightarrow> bool" where
  "map_ok y \<longleftrightarrow> distinct (map fst (ym_nodes y)) \<and> distinct (handles (ym_nodes y)) \<and>
     ym_children y = handles (ym_nodes y) \<and> (\<forall>h \<in> set (ym_children y). h < ym_next y)"

lemma handles_new: "k \<notin> fst ` set nodes \<Longrightarrow> handles (al_set k n nodes) = handles nodes @ [nd_handle n]"
  by (induction k n nodes rule: al_set.induct) (auto simp: handles_def)

lemma handles_moved:
  "map_of nodes k = Some e \<Longrightarrow> nd_handle n = nd_handle e \<Longrightarrow> handles (al_set k n nodes) = handles nodes"
  by (induction k n nodes rule: al_set.induct) (auto simp: handles_def split: if_splits)

lemma sync_marker_nodes:
  "map_of (ym_nodes (sync_marker y m)) = (map_of (ym_nodes y))(mm_id m \<mapsto>
     (case map_of (ym_nodes y) (mm_id m) of
        Some e \<Rightarrow> e\<lparr>nd_coordinates := toLngLat (mm_position m)\<rparr>
      | None \<Rightarrow> createYandexMarkerElement (ym_next y) m))"
  by (simp add: sync_marker_def split: option.split)

lemma sync_marker_ids: "fst ` set (ym_nodes (sync_marker y m)) = insert (mm_id m) (fst ` set (ym_nodes y))"
  by (simp add: sync_marker_def split: option.split)

lemma sync_marker_ok:
  assumes "map_ok y"
  shows "map_ok (sync_marker y m)"
proof (cases "map_of (ym_nodes y) (mm_id m)")
  case None
  then have new: "mm_id m \<notin> fst ` set (ym_nodes y)" by (simp add: map_of_eq_None_iff)
  have "ym_next y \<notin> set (handles (ym_nodes y))" using assms by (auto simp: map_ok_def)
  with assms None show ?thesis
    by (auto simp: map_ok_def sync_marker_def handles_new [OF new] createYandexMarkerElement_def less_Suc_eq)
next
  case (Some e)
  with assms show ?thesis by (simp add: map_ok_def sync_marker_def handles_moved [OF Some])
qed

lemma sync_all_ok: "map_ok y \<Longrightarrow> map_ok (foldl sync_marker y ms)"
  by (induction ms arbitrary: y) (simp_all add: sync_marker_ok)

lemma sync_all_ids:
  "fst ` set (ym_nodes (foldl sync_marker y ms)) = mm_id ` set ms \<union> fst ` set (ym_nodes y)"
  by (induction ms arbitrary: y) (auto simp: sync_marker_ids)

text \<open>Each id is shown where the last marker with it is.\<close>

lemma sync_all_position:
  assumes "m \<in> set ms" and "\<And>m'. m' \<in> set ms \<Longrightarrow> mm_id m' = mm_id m \<Longrightarrow> mm_position m' = mm_position m"
  shows "\<exists>n. map_of (ym_nodes (foldl sync_marker y ms)) (mm_id m) = Some n \<and> nd_coordinates n = toLngLat (mm_position m)"
  using assms
proof (induction ms rule: rev_induct)
  case (snoc m' ms)
  show ?case
  proof (cases "mm_id m' = mm_id m")
    case True
    then have "mm_position m' = mm_position m" using snoc.prems(2) by simp
    with True show ?thesis
      by (simp add: sync_marker_nodes createYandexMarkerElement_def split: option.split)
  next
    case False
    with snoc.prems(1) have "m \<in> set ms" by auto
    from snoc.IH [OF this] snoc.prems(2) False show ?thesis by (auto simp: sync_marker_nodes)
  qed
qed simp

text \<open>What the effect makes of a node it had is the node at another place; a new node is one for the
  first marker with its id.\<close>

definition shows_as :: "yandex_map \<Rightarrow> map_marker list \<Rightarrow> string \<Rightarrow> map_node \<Rightarrow> bool" where
  "shows_as y markers i n \<longleftrightarrow>
     (case map_of (ym_nodes y) i of
        Some old \<Rightarrow> nd_handle n = nd_handle old \<and> nd_label n = nd_label old \<and> nd_tone n = nd_tone old
      | None \<Rightarrow> nd_handle n \<notin> set (ym_children y) \<and>
          (\<exists>m rest. filter (\<lambda>m. mm_id m = i) markers = m # rest \<and> nd_label n = mm_label m \<and>
             nd_tone n = (case mm_tone m of Some t \<Rightarrow> t | None \<Rightarrow> ''nearby'')))"

lemma sync_next_mono: "ym_next y \<le> ym_next (foldl sync_marker y ms)"
proof (induction ms rule: rev_induct)
  case (snoc m ms)
  moreover have "ym_next z \<le> ym_next (sync_marker z m)" for z by (simp add: sync_marker_def split: option.split)
  ultimately show ?case by (simp add: order_trans)
qed simp

lemma sync_all_others:
  "i \<notin> mm_id ` set ms \<Longrightarrow> map_of (ym_nodes (foldl sync_marker y ms)) i = map_of (ym_nodes y) i"
  by (induction ms rule: rev_induct) (auto simp: sync_marker_nodes)

lemma sync_all_shows:
  assumes "map_ok y"
  shows "i \<in> mm_id ` set ms \<Longrightarrow>
    \<exists>n. map_of (ym_nodes (foldl sync_marker y ms)) i = Some n \<and> shows_as y ms i n"
proof (induction ms rule: rev_induct)
  case (snoc m ms)
  show ?case
  proof (cases "i \<in> mm_id ` set ms")
    case True
    then have "filter (\<lambda>m. mm_id m = i) ms \<noteq> []" by (auto simp: filter_empty_conv)
    then obtain f rest where f: "filter (\<lambda>m. mm_id m = i) ms = f # rest" by (meson neq_Nil_conv)
    from snoc.IH [OF True] f show ?thesis
      by (auto simp: sync_marker_nodes shows_as_def split: option.splits)
  next
    case False
    with snoc.prems have i: "mm_id m = i" by auto
    have none: "filter (\<lambda>m. mm_id m = i) ms = []" using False by (auto simp: filter_empty_conv)
    have "ym_next (foldl sync_marker y ms) \<notin> set (ym_children y)"
      using assms sync_next_mono [of y ms] by (force simp: map_ok_def)
    then show ?thesis
      using i none sync_all_others [OF False, of y]
      by (auto simp: sync_marker_nodes shows_as_def createYandexMarkerElement_def tone_or_nearby_def
          split: option.splits)
  qed
qed simp

text \<open>Dropping the ids that were not seen.\<close>

lemma drop_marker_ok:
  assumes "map_ok y" and "e \<in> set (ym_nodes y)"
  shows "drop_marker seen y e =
    (if fst e \<in> seen then y
     else y\<lparr>ym_nodes := filter (\<lambda>x. fst x \<noteq> fst e) (ym_nodes y),
            ym_children := handles (filter (\<lambda>x. fst x \<noteq> fst e) (ym_nodes y))\<rparr>)"
proof -
  have "removeAll (nd_handle (snd e)) (handles nodes) = handles (filter (\<lambda>x. fst x \<noteq> fst e) nodes)"
    if "distinct (map fst nodes)" "distinct (handles nodes)" "e \<in> set nodes" for nodes
    using that
  proof (induction nodes)
    case (Cons a nodes)
    have same: "filter (\<lambda>x. fst x \<noteq> fst e) nodes = nodes" if "fst e \<notin> fst ` set nodes"
      using that by (intro filter_True ballI) (metis imageI)
    have gone: "removeAll h (handles nodes) = handles nodes" if "h \<notin> set (handles nodes)" for h
      using that by (simp add: removeAll_id)
    show ?case
    proof (cases "a = e")
      case True
      with Cons.prems same gone show ?thesis by (simp add: handles_def)
    next
      case False
      with Cons.prems have e: "e \<in> set nodes" by simp
      with Cons.prems have "fst a \<noteq> fst e" "nd_handle (snd a) \<noteq> nd_handle (snd e)"
        by (auto simp: handles_def image_iff)
      with Cons e show ?thesis by (simp add: handles_def)
    qed
  qed simp
  with assms show ?thesis
    by (simp add: drop_marker_def map_ok_def al_del_def case_prod_unfold)
qed

lemma drop_keeps_ok:
  assumes "map_ok y"
  shows "map_ok (y\<lparr>ym_nodes := filter p (ym_nodes y), ym_children := handles (filter p (ym_nodes y))\<rparr>)"
proof -
  have "set (handles (filter p (ym_nodes y))) \<subseteq> set (handles (ym_nodes y))" by (auto simp: handles_def)
  with assms show ?thesis by (auto simp: map_ok_def handles_def distinct_map_filter)
qed

lemma drop_all:
  assumes "map_ok y" and "set es \<subseteq> set (ym_nodes y)" and "distinct (map fst es)"
  shows "foldl (drop_marker seen) y es =
    (let keep = filter (\<lambda>x. fst x \<in> seen \<or> fst x \<notin> fst ` set es) (ym_nodes y)
     in y\<lparr>ym_nodes := keep, ym_children := handles keep\<rparr>)"
  using assms
proof (induction es arbitrary: y)
  case Nil
  then show ?case by (simp add: map_ok_def)
next
  case (Cons e es)
  define y' where "y' = drop_marker seen y e"
  have y': "y' = (if fst e \<in> seen then y else y\<lparr>ym_nodes := filter (\<lambda>x. fst x \<noteq> fst e) (ym_nodes y),
      ym_children := handles (filter (\<lambda>x. fst x \<noteq> fst e) (ym_nodes y))\<rparr>)"
    unfolding y'_def by (rule drop_marker_ok) (use Cons.prems in auto)
  have "map_ok y'" using Cons.prems(1) drop_keeps_ok by (simp add: y')
  moreover have "set es \<subseteq> set (ym_nodes y')" using Cons.prems by (auto simp: y' image_iff)
  ultimately have "foldl (drop_marker seen) y' es =
    (let keep = filter (\<lambda>x. fst x \<in> seen \<or> fst x \<notin> fst ` set es) (ym_nodes y')
     in y'\<lparr>ym_nodes := keep, ym_children := handles keep\<rparr>)"
    using Cons.IH Cons.prems(3) by simp
  moreover have "filter (\<lambda>x. fst x \<in> seen \<or> fst x \<notin> fst ` set es) (ym_nodes y') =
      filter (\<lambda>x. fst x \<in> seen \<or> fst x \<notin> fst ` set (e # es)) (ym_nodes y)"
    by (auto simp: y' intro!: filter_cong)
  ultimately show ?case by (simp add: Let_def y'_def [symmetric]) (simp add: y')
qed

lemma map_of_filter_key: "P k \<Longrightarrow> map_of (filter (\<lambda>x. P (fst x)) xs) k = map_of xs k"
  by (induction xs) auto

text \<open>C21. After its effect the Yandex map has the markers it was given and no others: one node per id,
  the nodes of \<open>markerNodes\<close> and no others on the map, an id of the list for every node, and every id
  where its marker is now. A node that was there before keeps its element, with the label and tone it
  was made with; an id that was not there gets a new node, with the label and tone of its first marker
  in the list. (That a label that changes stays as it was is \<open>label_stays_on_map\<close>.) The calls of the map
  API are taken not to fail.\<close>

theorem map_shows_markers:
  assumes "map_ok y"
    and "\<And>m m'. m \<in> set markers \<Longrightarrow> m' \<in> set markers \<Longrightarrow> mm_id m = mm_id m' \<Longrightarrow> mm_position m = mm_position m'"
  shows "map_ok (sync_markers markers y) \<and>
    fst ` set (ym_nodes (sync_markers markers y)) = mm_id ` set markers \<and>
    (\<forall>m \<in> set markers. \<exists>n. map_of (ym_nodes (sync_markers markers y)) (mm_id m) = Some n \<and>
       nd_coordinates n = toLngLat (mm_position m) \<and> shows_as y markers (mm_id m) n)"
proof -
  define y' where "y' = foldl sync_marker y markers"
  let ?keep = "filter (\<lambda>x. fst x \<in> mm_id ` set markers) (ym_nodes y')"
  have ok: "map_ok y'" unfolding y'_def by (rule sync_all_ok [OF assms(1)])
  then have "filter (\<lambda>x. fst x \<in> mm_id ` set markers \<or> fst x \<notin> fst ` set (ym_nodes y')) (ym_nodes y') = ?keep"
    by (intro filter_cong) auto
  with drop_all [OF ok order_refl] ok
  have sync: "sync_markers markers y = y'\<lparr>ym_nodes := ?keep, ym_children := handles ?keep\<rparr>"
    by (simp add: sync_markers_def y'_def [symmetric] Let_def map_ok_def)
  have "map_of ?keep i = map_of (ym_nodes y') i" if "i \<in> mm_id ` set markers" for i
    using that by (rule map_of_filter_key)
  moreover have "fst ` set ?keep = mm_id ` set markers"
  proof -
    have "fst ` set ?keep = fst ` set (ym_nodes y') \<inter> mm_id ` set markers" by auto
    then show ?thesis using sync_all_ids [of y markers] by (auto simp: y'_def)
  qed
  moreover have "\<exists>n. map_of (ym_nodes y') (mm_id m) = Some n \<and> nd_coordinates n = toLngLat (mm_position m) \<and>
      shows_as y markers (mm_id m) n" if "m \<in> set markers" for m
  proof -
    have "\<exists>n. map_of (ym_nodes y') (mm_id m) = Some n \<and> nd_coordinates n = toLngLat (mm_position m)"
      unfolding y'_def using that assms(2) by (intro sync_all_position) blast+
    moreover have "\<exists>n. map_of (ym_nodes y') (mm_id m) = Some n \<and> shows_as y markers (mm_id m) n"
      unfolding y'_def using that by (intro sync_all_shows [OF assms(1)]) simp
    ultimately show ?thesis by auto
  qed
  ultimately show ?thesis using drop_keeps_ok [OF ok] by (simp add: sync)
qed

definition tashkent :: "rat \<times> rat" where "tashkent = (41, 69)"

definition seen_driver :: json where
  "seen_driver = JObj [(''driver_id'', JStr driver2), (''lat'', JNum 42), (''lon'', JNum 70)]"

text \<open>The rider's map before the match, with the driver nearby, and after it.\<close>

definition before_match :: yandex_map where
  "before_match = sync_markers (rider_markers tashkent tashkent (Some [seen_driver]) None) empty_map"

definition after_match_markers :: "map_marker list" where
  "after_match_markers = rider_markers tashkent tashkent None (Some seen_driver)"

lemma empty_map_ok: "map_ok empty_map"
  by (simp add: map_ok_def empty_map_def handles_def)

theorem map_shows_markers_witness:
  "map fst (ym_nodes before_match) = [''pickup'', ''dropoff'', driver2] \<and>
   fst ` set (ym_nodes (sync_markers after_match_markers before_match)) =
     {''pickup'', ''dropoff'', ''matched-'' @ driver2} \<and>
   (\<exists>n. map_of (ym_nodes (sync_markers after_match_markers before_match)) (''matched-'' @ driver2) = Some n \<and>
     nd_coordinates n = (70, 42) \<and> nd_label n = mm_label (after_match_markers ! 2))"
proof -
  have ids: "distinct (map mm_id (rider_markers tashkent tashkent (Some [seen_driver]) None))"
    "distinct (map mm_id after_match_markers)" by (code_simp, code_simp)
  have same: "mm_position m = mm_position m'" if "distinct (map mm_id ms)" "m \<in> set ms" "m' \<in> set ms" "mm_id m = mm_id m'"
    for ms m m' using that by (metis distinct_map inj_onD)
  have before: "map_ok before_match"
    unfolding before_match_def
    by (rule conjunct1 [OF map_shows_markers [OF empty_map_ok]]) (rule same [OF ids(1)])
  have first: "map fst (ym_nodes before_match) = [''pickup'', ''dropoff'', driver2]" by code_simp
  define m :: map_marker where "m = after_match_markers ! 2"
  have m: "m \<in> set after_match_markers" "mm_id m = ''matched-'' @ driver2" "toLngLat (mm_position m) = (70, 42)"
    "mm_id ` set after_match_markers = {''pickup'', ''dropoff'', ''matched-'' @ driver2}"
    by (simp_all add: m_def after_match_markers_def rider_markers_def seen_driver_def text_field_def num_field_def
        toLngLat_def)
  note shown = map_shows_markers [OF before same [OF ids(2)]]
  show ?thesis
  proof (intro conjI)
    show "map fst (ym_nodes before_match) = [''pickup'', ''dropoff'', driver2]" by (rule first)
    show "fst ` set (ym_nodes (sync_markers after_match_markers before_match)) =
        {''pickup'', ''dropoff'', ''matched-'' @ driver2}"
      by (rule trans [OF conjunct1 [OF conjunct2 [OF shown]] m(4)])
    have new: "map_of (ym_nodes before_match) (mm_id m) = None" unfolding m(2) by code_simp
    have one: "filter (\<lambda>x. mm_id x = mm_id m) after_match_markers = [m]"
      unfolding m(2) m_def by code_simp
    obtain n where n: "map_of (ym_nodes (sync_markers after_match_markers before_match)) (mm_id m) = Some n"
        "nd_coordinates n = toLngLat (mm_position m)" "shows_as before_match after_match_markers (mm_id m) n"
      using bspec [OF conjunct2 [OF conjunct2 [OF shown]] m(1)] by blast
    from n(3) have "nd_label n = mm_label m" unfolding shows_as_def new one option.case by blast
    with n(1,2) show "\<exists>n. map_of (ym_nodes (sync_markers after_match_markers before_match)) (''matched-'' @ driver2) = Some n \<and>
        nd_coordinates n = (70, 42) \<and> nd_label n = mm_label (after_match_markers ! 2)"
      unfolding m(2,3) m_def [symmetric] by blast
  qed
qed

text \<open>A node that stays keeps the label it was made with. The key of the markers contains the labels, so
  that the effect runs when one changes; but a driver who goes online stays \<open>Driver\<close> on the map.\<close>

lemma label_stays_on_map:
  "markerKey (driver_markers True p) \<noteq> markerKey (driver_markers False p) \<and>
   map (\<lambda>e. nd_label (snd e)) (ym_nodes (marker_effect MapReady (driver_markers True q)
     (marker_effect MapReady (driver_markers False p) empty_map))) = [''Driver'']"
  by (simp add: driver_markers_def markerKey_def marker_effect_def sync_markers_def sync_marker_def empty_map_def
      drop_marker_def createYandexMarkerElement_def)

section \<open>The viewport\<close>

text \<open>The camera of the Leaflet map after a series of renderings: it is where the latest centre is, to four
  decimals.\<close>

definition render_viewport ::
    "nat \<Rightarrow> (string option \<times> (rat \<times> rat) option) \<Rightarrow> rat \<times> rat \<Rightarrow> string option \<times> (rat \<times> rat) option" where
  "render_viewport zoom state center =
     (case viewport_effect (centerKey center) center zoom (fst state) of
        (key, None) \<Rightarrow> (key, snd state) | (key, Some (c, _, _)) \<Rightarrow> (key, Some c))"

lemma render_viewport_ok:
  assumes "fst state = map_option centerKey (snd state)"
  shows "fst (render_viewport zoom state q) = Some (centerKey q) \<and>
    fst (render_viewport zoom state q) = map_option centerKey (snd (render_viewport zoom state q))"
  using assms by (cases "fst state = Some (centerKey q)") (simp_all add: render_viewport_def viewport_effect_def split_beta)

lemma camera_follows:
  "\<exists>c. snd (foldl (render_viewport zoom) (None, None) (centers @ [center])) = Some c \<and> centerKey c = centerKey center"
proof -
  have "fst (foldl (render_viewport zoom) (None, None) cs) =
      map_option centerKey (snd (foldl (render_viewport zoom) (None, None) cs))" for cs
    by (induction cs rule: rev_induct) (simp, metis render_viewport_ok foldl_append foldl_Cons foldl_Nil)
  from render_viewport_ok [OF this [of centers], of zoom center] show ?thesis
    by (cases "snd (foldl (render_viewport zoom) (None, None) (centers @ [center]))") auto
qed

text \<open>After a failed load every map of the session falls back to Leaflet, whatever the environment says.\<close>

lemma failed_load_is_kept:
  assumes "\<not> yl_ymaps3 w"
  shows "shows_leaflet E (map_settles False (fst (loadYandexMaps (script_onerror w))) status)"
  using assms by (simp add: loadYandexMaps_def script_onerror_def map_settles_def shows_leaflet_def)

lemma one_load: "snd (loadYandexMaps (snd (loadYandexMaps w))) = snd (loadYandexMaps w)"
  by (simp add: loadYandexMaps_def split: option.split)

section \<open>The estimate of the distance\<close>

text \<open>At least a hundred metres, and never more than 111 km for each degree of either coordinate.\<close>

lemma estimate_bounds:
  "1 / 10 \<le> estimatedDistanceKm p q \<and>
   estimatedDistanceKm p q \<le> max (1 / 10) (111 * (\<bar>fst q - fst p\<bar> + \<bar>snd q - snd p\<bar>))"
proof -
  let ?a = "(fst q - fst p) * 111" and ?b = "(snd q - snd p) * 111 * cos (fst p * pi / 180)"
  have "\<bar>?b\<bar> = \<bar>snd q - snd p\<bar> * 111 * \<bar>cos (fst p * pi / 180)\<bar>"
    by (simp only: abs_mult abs_numeral)
  also have "\<dots> \<le> \<bar>snd q - snd p\<bar> * 111" by (intro mult_right_le_one_le) simp_all
  finally have b: "\<bar>?b\<bar> \<le> \<bar>snd q - snd p\<bar> * 111" .
  have a: "\<bar>?a\<bar> = \<bar>fst q - fst p\<bar> * 111" by (simp only: abs_mult abs_numeral)
  have "sqrt (?a\<^sup>2 + ?b\<^sup>2) \<le> \<bar>?a\<bar> + \<bar>?b\<bar>" by (rule sqrt_sum_squares_le_sum_abs)
  also have "\<dots> \<le> \<bar>fst q - fst p\<bar> * 111 + \<bar>snd q - snd p\<bar> * 111" unfolding a using b by (rule add_left_mono)
  also have "\<dots> = 111 * (\<bar>fst q - fst p\<bar> + \<bar>snd q - snd p\<bar>)" by (simp only: distrib_left mult.commute)
  finally show ?thesis unfolding estimatedDistanceKm_def Let_def by (intro conjI max.cobounded1 max.mono order_refl)
qed

section \<open>Timers\<close>

text \<open>A debounced value settles: nothing changes before the delay is over, and after it the value is the
  last one that was typed.\<close>

lemma debounce_settles:
  assumes "s' = debounce_change delayMs now x s"
  shows "t < now + delayMs \<Longrightarrow> dv_value (debounce_time t s') = dv_value s"
    and "now + delayMs \<le> t \<Longrightarrow> dv_value (debounce_time t s') = x"
  using assms by (simp_all add: debounce_change_def debounce_time_def)

text \<open>The pings of one loop are five seconds apart.\<close>

lemma pings_apart: "sends_at since t \<Longrightarrow> sends_at since u \<Longrightarrow> t < u \<Longrightarrow> t + 5000 \<le> u"
proof -
  assume at: "sends_at since t" "sends_at since u" and less: "t < u"
  then obtain s where "s \<le> t" "(t - s) mod 5000 = 0" "s \<le> u" "(u - s) mod 5000 = 0"
    by (auto simp: sends_at_def split: option.splits)
  moreover from this less have "(u - s) - (t - s) = u - t" by simp
  ultimately have "5000 dvd u - t" by (metis dvd_diff_nat mod_eq_0_iff_dvd)
  with less show ?thesis by (auto dest!: dvd_imp_le)
qed

text \<open>Two toasts with one id disappear together; otherwise a timer removes its own toast only.\<close>

lemma toast_expires_own:
  "i \<notin> to_id ` set toasts \<Longrightarrow> toast_expires i (toasts @ [\<lparr>to_id = i, to_message = m, to_tone = t\<rparr>]) = toasts"
  by (auto simp: toast_expires_def intro!: filter_True)

section \<open>The user menu\<close>

lemma length_concat_letters: "(\<And>x. x \<in> set xs \<Longrightarrow> length x \<le> 1) \<Longrightarrow> length (concat xs) \<le> length xs"
proof (induction xs)
  case (Cons x xs)
  from Cons.prems [of x] Cons.IH [OF Cons.prems] show ?case by simp
qed simp

lemma initials_short: "initials who r \<noteq> [] \<and> length (initials who r) \<le> 2"
proof -
  have "length (concat (take 2 (map (\<lambda>part. map upper_char (take 1 part)) ps))) \<le> 2" for ps
    by (rule order_trans [OF length_concat_letters]) (auto dest!: in_set_takeD)
  then show ?thesis by (simp only: initials_def Let_def) simp
qed

section \<open>The buttons of the card\<close>

text \<open>The status the card shows, and the one the API asks for.\<close>

lemma start_offered:
  "cd_trip c = Some trip \<Longrightarrow> jget trip ''status'' = Some (JStr (trip_status_text (tr_status t))) \<Longrightarrow>
   tr_id t = i \<Longrightarrow> tr_driver_id t = Some v \<Longrightarrow>
   (StartButton \<in> fst ` set (card_buttons True c)) = may_start i v t \<and>
   (CompleteButton \<in> fst ` set (card_buttons True c)) = may_complete i v t"
  by (cases "tr_status t") (auto simp: card_buttons_def may_start_def may_complete_def)

lemma cancel_refused:
  assumes "w_tx w = None"
    and "\<And>t. t \<in> set (db_trips (w_db w)) \<Longrightarrow> tr_id t = i \<Longrightarrow> tr_status t = InProgress"
  shows "\<exists>e. fst (cancel X i actorId role w) = Inl e"
proof (cases "cancel X i actorId role w")
  case (Pair r w')
  have "idle (\<lambda>d. d = w_db w) w" using assms(1) by (simp add: idle_def)
  from validD(1) [OF cancel_answers this] assms(2) Pair show ?thesis
    by (cases r) (fastforce simp: idle_def cancellable_def)+
qed

text \<open>While the trip is in progress the card offers to cancel it, and the API refuses whoever asks.\<close>

lemma cancel_offered_in_vain:
  assumes "cd_trip c = Some trip" and "jget trip ''status'' = Some (JStr ''in_progress'')" and "\<not> cd_busy c"
    and "w_tx w = None"
    and "\<And>t. t \<in> set (db_trips (w_db w)) \<Longrightarrow> tr_id t = i \<Longrightarrow> tr_status t = InProgress"
  shows "(CancelButton, True) \<in> set (card_buttons True c) \<and> (\<exists>e. fst (cancel X i actorId role w) = Inl e)"
  using assms cancel_refused [OF assms(4,5), where X = X and actorId = actorId and role = role] by (simp add: card_buttons_def)

end
