(* ===== verification/FareText.thy ===== *)
theory FareText
  imports NumberRoundTrip
begin

text \<open>
  \<open>Number(x.toFixed(2)).toFixed(2)\<close> is \<open>x.toFixed(2)\<close>: an amount the API sends as a text of two places is
  shown by the web client as it was sent.
\<close>

definition cents_of :: "rat \<Rightarrow> int" where
  "cents_of x = \<lfloor>x * 100 + 1 / 2\<rfloor>"

definition padded :: "int \<Rightarrow> string" where
  "padded n = replicate (3 - length (int_digits n)) (CHR ''0'') @ int_digits n"

lemma to_fixed_2: "to_fixed_pos 2 x = take (length (padded (cents_of x)) - 2) (padded (cents_of x)) @
    CHR ''.'' # drop (length (padded (cents_of x)) - 2) (padded (cents_of x))"
  by (simp add: to_fixed_pos_def cents_of_def padded_def Let_def numeral_3_eq_3)

lemma digits_val_zeros: "digits_val (replicate j (CHR ''0'') @ s) = digits_val s"
proof -
  have "digits_val (replicate j (CHR ''0'')) = 0"
    by (induction j) (simp_all add: digits_val_Cons digit_val_def, simp add: digits_val_def)
  then show ?thesis by (simp add: digits_val_append)
qed

lemma padded_spec:
  assumes "0 \<le> n"
  shows "list_all is_digit (padded n)" and "digits_val (padded n) = n" and "3 \<le> length (padded n)"
proof -
  have "is_digit (CHR ''0'')" by (simp add: is_digit_def)
  then show "list_all is_digit (padded n)" using int_digits_digits [OF assms] by (auto simp: padded_def list_all_iff)
qed (use assms in \<open>simp_all add: padded_def digits_val_zeros digits_val_int_digits\<close>)

lemma read_to_fixed:
  assumes "0 \<le> x"
  shows "read_unsigned (to_fixed_pos 2 x) = Some (of_int (cents_of x) / 100)"
    and "list_all plain_char (to_fixed_pos 2 x)" and "\<exists>c u. to_fixed_pos 2 x = c # u \<and> is_digit c"
proof -
  let ?m = "padded (cents_of x)"
  define k where "k = length ?m - 2"
  have n: "0 \<le> cents_of x" using assms by (simp add: cents_of_def)
  note m = padded_spec [OF n]
  have t: "to_fixed_pos 2 x = take k ?m @ CHR ''.'' # drop k ?m" by (simp add: to_fixed_2 k_def)
  have digits: "list_all is_digit (take k ?m)" "list_all is_digit (drop k ?m)"
    using m(1) by (auto simp: list_all_iff dest: in_set_takeD in_set_dropD)
  have len: "length (drop k ?m) = 2" "take k ?m \<noteq> []" using m(3) by (auto simp: k_def)
  show "read_unsigned (to_fixed_pos 2 x) = Some (of_int (cents_of x) / 100)"
    using len by (simp add: t read_unsigned_def Let_def takeWhile_digits digits m(2))
  show "list_all plain_char (to_fixed_pos 2 x)"
    using digits by (auto simp: t plain_char_def list_all_iff)
  show "\<exists>c u. to_fixed_pos 2 x = c # u \<and> is_digit c"
    using len(2) digits(1) by (cases "take k ?m") (auto simp: t)
qed

lemma js_Number_to_fixed:
  assumes "0 \<le> x" and "x \<le> 100000000"
  shows "js_Number (to_fixed 2 x) = Num (fl (of_int (cents_of x) / 100))"
proof -
  obtain c u where t: "to_fixed_pos 2 x = c # u" "is_digit c" using read_to_fixed(3) [OF assms(1)] by blast
  have "js_Number (to_fixed_pos 2 x) = to_js (of_int (cents_of x) / 100)"
    using js_Number_plain [of c u] read_to_fixed(1,2) [OF assms(1)] t by simp
  moreover have "\<bar>of_int (cents_of x) / 100 :: rat\<bar> \<le> pow2 1000"
  proof -
    have "0 \<le> cents_of x" "of_int (cents_of x) \<le> x * 100 + 1 / 2" using assms(1) by (simp_all add: cents_of_def)
    then have "\<bar>of_int (cents_of x) / 100 :: rat\<bar> \<le> pow2 30" using assms(2) by (simp add: pow2_int)
    also have "\<dots> \<le> pow2 1000" by simp
    finally show ?thesis .
  qed
  ultimately show ?thesis using assms(1) by (simp add: to_fixed_def to_js_Num)
qed

lemma cents_of_nearest:
  assumes "0 \<le> n" and "n \<le> 10000000001"
  shows "cents_of (fl (of_int n / 100)) = n" and "0 \<le> fl (of_int n / 100 :: rat)"
proof -
  have y: "0 \<le> (of_int n / 100 :: rat)" "(of_int n / 100 :: rat) \<le> 100000001" using assms by simp_all
  have "\<bar>fl (of_int n / 100) - of_int n / 100\<bar> \<le> (100000001 :: rat) / 2 ^ 52"
    using fl64.rnd_close [OF y] by simp
  also have "\<dots> \<le> 1 / 1000" by simp
  finally have "\<bar>fl (of_int n / 100) - of_int n / 100\<bar> \<le> (1 / 1000 :: rat)" .
  then show "cents_of (fl (of_int n / 100)) = n" unfolding cents_of_def by linarith
  show "0 \<le> fl (of_int n / 100 :: rat)" by (rule fl_nonneg [OF y(1)])
qed

lemma to_fixed_round_trip:
  assumes "0 \<le> x" and "x \<le> 100000000"
  shows "\<exists>q. js_Number (to_fixed 2 x) = Num q \<and> to_fixed 2 q = to_fixed 2 x"
proof -
  have n: "0 \<le> cents_of x" "cents_of x \<le> 10000000001"
    using assms unfolding cents_of_def by (simp, linarith)
  note q = cents_of_nearest [OF n]
  have "to_fixed 2 (fl (of_int (cents_of x) / 100)) = to_fixed 2 x"
    using assms(1) q(2) by (simp add: to_fixed_def to_fixed_2 q(1))
  then show ?thesis using js_Number_to_fixed [OF assms] by blast
qed

end
