(* ===== verification/WireTypes.thy ===== *)
theory WireTypes
  imports WebWidgets WebProperties BatchJobs FareText
begin

text \<open>
  The bodies of the API's answers as JSON, and the TypeScript interfaces of \<open>api/client.ts\<close> as
  predicates on JSON: what the client declares of an answer is compared with what is sent. The
  columns are those of the queries; \<open>numeric\<close> columns are sent as text, \<open>count\<close> as text, dates
  through \<open>Date.toISOString\<close>.
\<close>

section \<open>Types as predicates\<close>

fun ts_string :: "json \<Rightarrow> bool" where
  "ts_string (JStr s) = True"
| "ts_string _ = False"

fun ts_number :: "json \<Rightarrow> bool" where
  "ts_number (JNum q) = True"
| "ts_number _ = False"

fun ts_boolean :: "json \<Rightarrow> bool" where
  "ts_boolean (JBool b) = True"
| "ts_boolean _ = False"

definition ts_null :: "(json \<Rightarrow> bool) \<Rightarrow> json \<Rightarrow> bool" where
  "ts_null P j \<longleftrightarrow> j = JNull \<or> P j"

definition ts_text_or_number :: "json \<Rightarrow> bool" where
  "ts_text_or_number j \<longleftrightarrow> ts_string j \<or> ts_number j"

fun ts_array :: "(json \<Rightarrow> bool) \<Rightarrow> json \<Rightarrow> bool" where
  "ts_array P (JArr js) = list_all P js"
| "ts_array P _ = False"

definition ts_field :: "string \<Rightarrow> (json \<Rightarrow> bool) \<Rightarrow> json \<Rightarrow> bool" where
  "ts_field k P j \<longleftrightarrow> (case jget j k of Some v \<Rightarrow> P v | None \<Rightarrow> False)"

text \<open>\<open>k?: P\<close>.\<close>

definition ts_optional :: "string \<Rightarrow> (json \<Rightarrow> bool) \<Rightarrow> json \<Rightarrow> bool" where
  "ts_optional k P j \<longleftrightarrow> (case jget j k of Some v \<Rightarrow> P v | None \<Rightarrow> True)"

section \<open>The interfaces\<close>

definition is_Role :: "json \<Rightarrow> bool" where
  "is_Role j \<longleftrightarrow> j = JStr ''rider'' \<or> j = JStr ''driver'' \<or> j = JStr ''admin''"

definition is_AuthSession :: "json \<Rightarrow> bool" where
  "is_AuthSession j \<longleftrightarrow> ts_field ''id'' ts_string j \<and> ts_field ''role'' is_Role j \<and> ts_field ''token'' ts_string j"

definition is_NearbyDriver :: "json \<Rightarrow> bool" where
  "is_NearbyDriver j \<longleftrightarrow>
     ts_field ''driver_id'' ts_string j \<and> ts_field ''lon'' ts_number j \<and> ts_field ''lat'' ts_number j"

definition is_DriverProfile :: "json \<Rightarrow> bool" where
  "is_DriverProfile j \<longleftrightarrow>
     ts_field ''license_number'' (ts_null ts_string) j \<and>
     ts_field ''license_expires_on'' (ts_null ts_string) j \<and>
     ts_field ''status'' (ts_null ts_string) j \<and>
     ts_field ''rating_avg'' (ts_null ts_number) j \<and>
     ts_field ''rating_count'' (ts_null ts_number) j"

definition is_Me :: "json \<Rightarrow> bool" where
  "is_Me j \<longleftrightarrow>
     ts_field ''id'' ts_string j \<and>
     ts_field ''role'' is_Role j \<and>
     ts_field ''full_name'' ts_string j \<and>
     ts_field ''email'' ts_string j \<and>
     ts_field ''phone'' ts_string j \<and>
     ts_field ''is_active'' ts_boolean j \<and>
     ts_field ''created_at'' ts_string j \<and>
     ts_field ''driver'' (ts_null is_DriverProfile) j"

definition is_VehicleJson :: "json \<Rightarrow> bool" where
  "is_VehicleJson j \<longleftrightarrow>
     ts_field ''id'' ts_string j \<and>
     ts_field ''driver_id'' ts_string j \<and>
     ts_field ''plate'' ts_string j \<and>
     ts_field ''make'' ts_string j \<and>
     ts_field ''model'' ts_string j \<and>
     ts_field ''year'' ts_number j \<and>
     ts_field ''color'' ts_string j \<and>
     ts_field ''capacity'' ts_number j \<and>
     ts_field ''is_active'' ts_boolean j \<and>
     ts_field ''created_at'' ts_string j"

definition is_CreateVehicleBody :: "json \<Rightarrow> bool" where
  "is_CreateVehicleBody j \<longleftrightarrow>
     ts_field ''plate'' ts_string j \<and>
     ts_field ''make'' ts_string j \<and>
     ts_field ''model'' ts_string j \<and>
     ts_field ''year'' ts_number j \<and>
     ts_field ''color'' ts_string j \<and>
     ts_field ''capacity'' ts_number j"

definition is_TripSummary :: "json \<Rightarrow> bool" where
  "is_TripSummary j \<longleftrightarrow>
     ts_field ''id'' ts_string j \<and>
     ts_field ''status'' ts_string j \<and>
     ts_optional ''pickup_address'' (ts_null ts_string) j \<and>
     ts_optional ''dropoff_address'' (ts_null ts_string) j \<and>
     ts_field ''requested_at'' ts_string j \<and>
     ts_optional ''completed_at'' (ts_null ts_string) j \<and>
     ts_optional ''fare_total'' (ts_null ts_text_or_number) j \<and>
     ts_optional ''currency'' (ts_null ts_string) j \<and>
     ts_optional ''driver_id'' (ts_null ts_string) j \<and>
     ts_optional ''rider_id'' (ts_null ts_string) j"

definition is_DailyDriverReport :: "json \<Rightarrow> bool" where
  "is_DailyDriverReport j \<longleftrightarrow>
     ts_field ''driver_id'' (ts_null ts_string) j \<and>
     ts_field ''day'' ts_string j \<and>
     ts_field ''trips'' ts_text_or_number j \<and>
     ts_field ''total_km'' ts_text_or_number j \<and>
     ts_optional ''total_minutes'' ts_text_or_number j \<and>
     ts_field ''gross_revenue'' ts_text_or_number j"

definition is_SurgeZone :: "json \<Rightarrow> bool" where
  "is_SurgeZone j \<longleftrightarrow>
     ts_field ''id'' ts_string j \<and>
     ts_field ''name'' ts_string j \<and>
     ts_field ''base_multiplier'' ts_text_or_number j \<and>
     ts_optional ''polygon_geo'' (ts_null ts_string) j"

definition is_CompletedFare :: "json \<Rightarrow> bool" where
  "is_CompletedFare j \<longleftrightarrow>
     ts_field ''id'' ts_string j \<and>
     ts_field ''distance_km'' ts_text_or_number j \<and>
     ts_field ''duration_min'' ts_text_or_number j \<and>
     ts_field ''surge_multiplier'' ts_text_or_number j \<and>
     ts_field ''total'' ts_text_or_number j \<and>
     ts_optional ''currency'' ts_string j"

definition is_TripCreated :: "json \<Rightarrow> bool" where
  "is_TripCreated j \<longleftrightarrow>
     ts_field ''id'' ts_string j \<and> ts_field ''status'' ts_string j \<and> ts_field ''requested_at'' ts_string j"

definition is_TripRated :: "json \<Rightarrow> bool" where
  "is_TripRated j \<longleftrightarrow> ts_field ''trip_id'' ts_string j \<and> ts_field ''rating'' ts_number j"

definition is_DriverStatus :: "json \<Rightarrow> bool" where
  "is_DriverStatus j \<longleftrightarrow> ts_field ''driverId'' ts_string j \<and> ts_field ''status'' ts_string j"

definition is_RateTripBody :: "json \<Rightarrow> bool" where
  "is_RateTripBody j \<longleftrightarrow> ts_field ''rating'' ts_number j \<and> ts_optional ''comment'' ts_string j"

section \<open>The answers as JSON\<close>

definition js_null :: "('a \<Rightarrow> json) \<Rightarrow> 'a option \<Rightarrow> json" where
  "js_null f x = (case x of None \<Rightarrow> JNull | Some y \<Rightarrow> f y)"

definition js_date :: "rat \<Rightarrow> json" where
  "js_date t = JStr (iso_string t)"

definition js_numeric :: "nat \<Rightarrow> rat \<Rightarrow> json" where
  "js_numeric scale x = JStr (pg_numeric_text scale x)"

definition session_json :: "session \<Rightarrow> json" where
  "session_json s = JObj [(''id'', JStr (se_id s)), (''role'', JStr (se_role s)), (''token'', JStr (se_token s))]"

definition nearby_json :: "nearby_driver \<Rightarrow> json" where
  "nearby_json n = JObj [(''driver_id'', JStr (nd_driver_id n)), (''lon'', JNum (nd_lon n)), (''lat'', JNum (nd_lat n))]"

definition profile_json :: "driver_profile \<Rightarrow> json" where
  "profile_json p = JObj
     [(''license_number'', js_null JStr (dp_license_number p)),
      (''license_expires_on'', js_null JStr (dp_license_expires_on p)),
      (''status'', js_null JStr (dp_status p)),
      (''rating_avg'', js_null JNum (dp_rating_avg p)),
      (''rating_count'', js_null (\<lambda>n. JNum (of_int n)) (dp_rating_count p))]"

definition me_json :: "me_row \<Rightarrow> json" where
  "me_json m = JObj
     [(''id'', JStr (me_id m)), (''role'', JStr (me_role m)), (''full_name'', JStr (me_full_name m)),
      (''email'', JStr (me_email m)), (''phone'', JStr (me_phone m)), (''is_active'', JBool (me_is_active m)),
      (''created_at'', js_date (me_created_at m)), (''driver'', js_null profile_json (me_driver m))]"

definition vehicle_json :: "vehicle_row \<Rightarrow> json" where
  "vehicle_json v = JObj
     [(''id'', JStr (ve_id v)), (''driver_id'', JStr (ve_driver_id v)), (''plate'', JStr (ve_plate v)),
      (''make'', JStr (ve_make v)), (''model'', JStr (ve_model v)), (''year'', JNum (of_int (ve_year v))),
      (''color'', JStr (ve_color v)), (''capacity'', JNum (of_int (ve_capacity v))),
      (''is_active'', JBool (ve_is_active v)), (''created_at'', js_date (ve_created_at v))]"

definition trip_ref_json :: "trip_ref \<Rightarrow> json" where
  "trip_ref_json r = JObj
     [(''id'', JStr (ref_id r)), (''status'', JStr (trip_status_text (ref_status r))),
      (''requested_at'', js_date (ref_requested_at r))]"

definition trip_summary_json :: "trip_summary \<Rightarrow> json" where
  "trip_summary_json t = JObj
     [(''id'', JStr (su_id t)), (''status'', JStr (trip_status_text (su_status t))),
      (''requested_at'', js_date (su_requested_at t)), (''fare_total'', js_null (js_numeric 2) (su_fare_total t)),
      (''currency'', JStr (su_currency t))]"

definition trip_detail_json :: "trip_detail \<Rightarrow> json" where
  "trip_detail_json t = JObj
     [(''id'', JStr (td_id t)), (''rider_id'', JStr (td_rider_id t)), (''driver_id'', js_null JStr (td_driver_id t)),
      (''status'', JStr (trip_status_text (td_status t))), (''pickup_geo'', JStr (td_pickup_geo t)),
      (''dropoff_geo'', JStr (td_dropoff_geo t)), (''requested_at'', js_date (td_requested_at t)),
      (''matched_at'', js_null js_date (td_matched_at t)), (''completed_at'', js_null js_date (td_completed_at t)),
      (''fare_total'', js_null (js_numeric 2) (td_fare_total t)), (''currency'', JStr (td_currency t))]"

text \<open>\<open>RETURNING id, status, driver_id\<close> and \<open>RETURNING id, status\<close>.\<close>

definition cancelled_json :: "trip_row \<Rightarrow> json" where
  "cancelled_json t = JObj
     [(''id'', JStr (tr_id t)), (''status'', JStr (trip_status_text (tr_status t))),
      (''driver_id'', js_null JStr (tr_driver_id t))]"

definition started_json :: "trip_row \<Rightarrow> json" where
  "started_json t = JObj [(''id'', JStr (tr_id t)), (''status'', JStr (trip_status_text (tr_status t)))]"

definition completed_json :: "completed_result \<Rightarrow> json" where
  "completed_json r = JObj
     [(''id'', JStr (co_id r)), (''status'', JStr (co_status r)), (''distance_km'', JStr (co_distance_km r)),
      (''duration_min'', JStr (co_duration_min r)), (''surge_multiplier'', JStr (co_surge_multiplier r)),
      (''total'', JStr (co_total r)), (''fare_total'', JStr (co_fare_total r)), (''currency'', JStr (co_currency r))]"

definition rated_json :: "string \<times> int \<Rightarrow> json" where
  "rated_json r = JObj [(''trip_id'', JStr (fst r)), (''rating'', JNum (of_int (snd r)))]"

definition driver_status_json :: "status_result \<Rightarrow> json" where
  "driver_status_json r = JObj
     [(''driverId'', JStr (sr_driverId r)), (''driver_id'', JStr (sr_driverId r)),
      (''status'', JStr (driver_status_text (sr_status r))), (''redis_indexed'', JBool (sr_redis_indexed r))]"

definition zone_json :: "admin_zone \<Rightarrow> json" where
  "zone_json z = JObj
     [(''id'', JStr (az_id z)), (''name'', JStr (az_name z)), (''base_multiplier'', JStr (az_base_multiplier z)),
      (''polygon_geo'', JStr (az_polygon_geo z))]"

definition daily_json :: "daily_row \<Rightarrow> json" where
  "daily_json d = JObj
     [(''driver_id'', js_null JStr (da_driver_id d)), (''day'', js_date (da_day d)),
      (''trips'', JStr (show_int (da_trips d))), (''total_km'', js_numeric 3 (da_total_km d)),
      (''total_minutes'', js_numeric 2 (da_total_minutes d)), (''gross_revenue'', js_numeric 2 (da_gross_revenue d))]"

text \<open>The answer of a call of the trips controller, and what the client declares of it.\<close>

fun trips_json :: "trips_request \<Rightarrow> trips_reply \<Rightarrow> json" where
  "trips_json _ (TripRef r) = trip_ref_json r"
| "trips_json _ (TripList ts) = JArr (map trip_summary_json ts)"
| "trips_json _ (TripDetail t) = trip_detail_json t"
| "trips_json (PostStart _) (TripRow t) = started_json t"
| "trips_json _ (TripRow t) = cancelled_json t"
| "trips_json _ (TripCompleted r) = completed_json r"
| "trips_json _ (TripRated r) = rated_json r"

fun trips_declared :: "trips_request \<Rightarrow> json \<Rightarrow> bool" where
  "trips_declared (PostTrip _) = is_TripCreated"
| "trips_declared (GetTrips _ _) = ts_array is_TripSummary"
| "trips_declared (GetTrip _) = is_TripSummary"
| "trips_declared (PostCancel _) = is_TripSummary"
| "trips_declared (PostStart _) = is_TripSummary"
| "trips_declared (PostComplete _) = is_CompletedFare"
| "trips_declared (PostRating _ _) = is_TripRated"

section \<open>Declared and sent\<close>

lemmas ts_defs = ts_field_def ts_optional_def ts_null_def ts_text_or_number_def js_null_def js_date_def js_numeric_def

lemma account_answers_typed:
  "se_role s \<in> {''rider'', ''driver'', ''admin''} \<Longrightarrow> is_AuthSession (session_json s)"
  "me_role m \<in> {''rider'', ''driver'', ''admin''} \<Longrightarrow> is_Me (me_json m)"
  by (auto simp: is_AuthSession_def session_json_def is_Role_def is_Me_def me_json_def is_DriverProfile_def profile_json_def
      ts_defs split: option.splits)

lemma driver_answers_typed:
  "is_NearbyDriver (nearby_json n)" "is_DriverStatus (driver_status_json r)" "is_VehicleJson (vehicle_json v)"
  by (simp_all add: is_NearbyDriver_def nearby_json_def is_DriverStatus_def driver_status_json_def is_VehicleJson_def
      vehicle_json_def ts_defs)

lemma admin_answers_typed: "is_DailyDriverReport (daily_json d)" "is_SurgeZone (zone_json z)"
  by (auto simp: is_DailyDriverReport_def daily_json_def is_SurgeZone_def zone_json_def ts_defs split: option.splits)

lemma trip_reads_typed: "is_TripSummary (trip_summary_json t)" "is_TripSummary (trip_detail_json u)"
  by (auto simp: is_TripSummary_def trip_summary_json_def trip_detail_json_def ts_defs split: option.splits)

lemma trip_writes_typed:
  "is_TripCreated (trip_ref_json r)" "is_CompletedFare (completed_json c)" "is_TripRated (rated_json q)"
  by (simp_all add: is_TripCreated_def trip_ref_json_def is_CompletedFare_def completed_json_def is_TripRated_def
      rated_json_def ts_defs)

text \<open>The bodies the client sends.\<close>

lemma bodies_typed:
  "is_CreateVehicleBody (JObj (draft_body d))"
  "in_body (snd (endpoint (RateTrip i q comment))) = Some b \<Longrightarrow> is_RateTripBody b"
  by (auto simp: is_CreateVehicleBody_def draft_body_def is_RateTripBody_def ts_defs json_init_def opt_field_def
      split: option.splits)

text \<open>The rows of a cancelled and of a started trip have no \<open>requested_at\<close>.\<close>

lemma moved_row_untyped: "\<not> is_TripSummary (cancelled_json t)" "\<not> is_TripSummary (started_json t)"
  by (simp_all add: is_TripSummary_def cancelled_json_def started_json_def ts_defs)

lemma fmap_result: "fmap f m w = (Inr y, w') \<Longrightarrow> \<exists>x. y = f x"
  by (auto simp: fmap_def await_def ret_def split: prod.splits sum.splits)

lemma pipe_results:
  "uuid_pipe i m w = (Inr y, w') \<Longrightarrow> m w = (Inr y, w')"
  "body_pipe r f w = (Inr y, w') \<Longrightarrow> \<exists>dto. f dto w = (Inr y, w')"
  by (auto simp: uuid_pipe_def body_pipe_def throw_def split: if_splits sum.splits)

text \<open>The trips API answers what the web client declares: whenever a call of the trips controller
  succeeds, the JSON it sends has the TypeScript type the client gives the answer, except for the
  two calls that return the changed row, where the client declares a trip and gets its id and status.\<close>

theorem trip_answers_typed:
  assumes "trips_controller X V r user w = (Inr (code, reply), w')"
  shows "trips_declared r (trips_json r reply) \<longleftrightarrow> (\<forall>i. r \<noteq> PostCancel i \<and> r \<noteq> PostStart i)"
proof (cases r)
  case (PostTrip body)
  then obtain t where "reply = TripRef t" using assms by (auto dest!: pipe_results fmap_result)
  then show ?thesis by (simp add: PostTrip trip_writes_typed)
next
  case (GetTrips status limit)
  then obtain ts where "reply = TripList ts" using assms by (auto dest!: pipe_results fmap_result)
  then show ?thesis by (simp add: GetTrips list_all_iff trip_reads_typed)
next
  case (GetTrip i)
  then obtain t where "reply = TripDetail t" using assms by (auto dest!: pipe_results fmap_result)
  then show ?thesis by (simp add: GetTrip trip_reads_typed)
next
  case (PostCancel i)
  then obtain t where "reply = TripRow t" using assms by (auto dest!: pipe_results fmap_result)
  then show ?thesis by (simp add: PostCancel moved_row_untyped)
next
  case (PostStart i)
  then obtain t where "reply = TripRow t" using assms by (auto dest!: pipe_results fmap_result)
  then show ?thesis by (simp add: PostStart moved_row_untyped)
next
  case (PostComplete i)
  then obtain c where "reply = TripCompleted c" using assms by (auto dest!: pipe_results fmap_result)
  then show ?thesis by (simp add: PostComplete trip_writes_typed)
next
  case (PostRating i body)
  then obtain q where "reply = TripRated q" using assms by (auto dest!: pipe_results fmap_result)
  then show ?thesis by (simp add: PostRating trip_writes_typed)
qed

text \<open>The card merges the row of a started trip into the trip it has, and what it keeps is a trip.\<close>

lemma start_keeps_summary:
  assumes "is_TripSummary (JObj kvs)" and "distinct (map fst kvs)"
  shows "is_TripSummary (JObj (spread kvs (spread_entries (started_json t))))"
proof -
  let ?new = "spread_entries (started_json t)"
  have "jget (JObj (spread kvs ?new)) k = (if k = ''id'' then Some (JStr (tr_id t))
      else if k = ''status'' then Some (JStr (trip_status_text (tr_status t))) else jget (JObj kvs) k)" for k
    using jget_spread [OF assms(2), of ?new k] map_of_rev [OF assms(2), of k]
    by (simp add: spread_entries_def started_json_def)
  with assms(1) show ?thesis unfolding is_TripSummary_def ts_field_def ts_optional_def by simp
qed

section \<open>The fare on the pages\<close>

text \<open>C20. The pages show the fare that was charged: the total in the answer to \<open>complete\<close> and the fare in
  the list of trips are texts with two places; the driver's card and the history read them as numbers
  and print these with two places, and what they show is the text that was sent.\<close>

theorem fare_shown_as_sent:
  assumes "0 \<le> x" and "x \<le> 100000000" and "co_total r = to_fixed 2 x" and "su_fare_total t = Some x"
  shows "fareText (jget (completed_json r) ''currency'') (the (jget (completed_json r) ''total'')) = co_currency r @ '' '' @ co_total r \<and>
    history_row (trip_summary_json t) = (su_currency t @ '' '' @ pg_numeric_text 2 x, su_status t = Completed)"
proof -
  obtain q where q: "js_Number (to_fixed 2 x) = Num q" "to_fixed 2 q = to_fixed 2 x"
    using to_fixed_round_trip [OF assms(1,2)] by blast
  have "(trip_status_text (su_status t) = ''completed'') = (su_status t = Completed)" by (cases "su_status t") simp_all
  with q assms(3,4) show ?thesis
    by (simp add: fareText_def completed_json_def history_row_def trip_summary_json_def nullish_def js_null_def
        js_numeric_def pg_numeric_text_def)
qed

text \<open>The administrator sees the revenue of a day and the multiplier of a zone as they were sent.\<close>

lemma report_shown_as_sent:
  assumes "0 \<le> da_gross_revenue d" and "da_gross_revenue d \<le> 100000000"
  shows "snd (snd (daily_texts (daily_json d))) = CHR ''$'' # pg_numeric_text 2 (da_gross_revenue d)"
proof -
  obtain q where "js_Number (to_fixed 2 (da_gross_revenue d)) = Num q"
    "to_fixed 2 q = to_fixed 2 (da_gross_revenue d)" using to_fixed_round_trip [OF assms] by blast
  then show ?thesis
    by (simp add: daily_texts_def daily_json_def admin_number_def js_numeric_def pg_numeric_text_def nullish_def)
qed

lemma multiplier_shown_as_sent:
  assumes "az_base_multiplier z = pg_numeric_text 2 m" and "0 \<le> m" and "m \<le> 100000000"
  shows "zone_text (zone_json z) = (az_name z, pg_numeric_text 2 m @ ''x'')"
proof -
  obtain q where "js_Number (to_fixed 2 m) = Num q" "to_fixed 2 q = to_fixed 2 m"
    using to_fixed_round_trip [OF assms(2,3)] by blast
  with assms(1) show ?thesis
    by (simp add: zone_text_def zone_json_def admin_number_def text_field_def pg_numeric_text_def nullish_def)
qed

theorem fare_shown_as_sent_witness:
  "fareText (Some (JStr ''USD'')) (JStr ''12.25'') = ''USD 12.25'' \<and>
   history_row (trip_summary_json \<lparr>su_id = trip4, su_status = Completed, su_requested_at = 1,
     su_fare_total = Some (49 / 4), su_currency = ''USD''\<rparr>) = (''USD 12.25'', True)"
proof -
  let ?r = "\<lparr>co_id = trip4, co_status = ''completed'', co_distance_km = ''1.000'', co_duration_min = ''1.00'',
     co_surge_multiplier = ''1.00'', co_total = ''12.25'', co_fare_total = ''12.25'', co_currency = ''USD''\<rparr>"
  let ?t = "\<lparr>su_id = trip4, su_status = Completed, su_requested_at = 1, su_fare_total = Some (49 / 4), su_currency = ''USD''\<rparr>"
  have printed: "to_fixed 2 (49 / 4) = ''12.25''" by code_simp
  have "co_total ?r = to_fixed 2 (49 / 4)" "su_fare_total ?t = Some (49 / 4)" by (simp_all add: printed)
  from fare_shown_as_sent [OF _ _ this] show ?thesis by (simp add: completed_json_def pg_numeric_text_def printed)
qed

theorem trip_answers_typed_witness:
  "\<exists>reply w'. trips_controller sample_ext sample_validators (PostCancel trip4) \<lparr>ac_sub = rider1, ac_role = ''rider''\<rparr>
      sample_world = (Inr (200, reply), w') \<and>
    \<not> trips_declared (PostCancel trip4) (trips_json (PostCancel trip4) reply) \<and>
    (\<exists>ts w'. trips_controller sample_ext sample_validators (GetTrips None None) \<lparr>ac_sub = rider1, ac_role = ''rider''\<rparr>
      sample_world = (Inr (200, ts), w') \<and> trips_declared (GetTrips None None) (trips_json (GetTrips None None) ts))"
proof -
  let ?user = "\<lparr>ac_sub = rider1, ac_role = ''rider''\<rparr>"
  have "(case fst (trips_controller sample_ext sample_validators (PostCancel trip4) ?user sample_world) of
      Inl _ \<Rightarrow> False | Inr (n, _) \<Rightarrow> n = 200)"
    "(case fst (trips_controller sample_ext sample_validators (GetTrips None None) ?user sample_world) of
      Inl _ \<Rightarrow> False | Inr (n, _) \<Rightarrow> n = 200)" by (code_simp, code_simp)
  moreover have "\<exists>x w'. m = (Inr (200, x), w')"
    if "case fst m of Inl _ \<Rightarrow> False | Inr (n, _) \<Rightarrow> n = 200" for m :: "(exn + int \<times> trips_reply) \<times> world"
    using that by (cases m) (auto split: sum.splits)
  ultimately obtain c w1 ts w2 where
    cancelled: "trips_controller sample_ext sample_validators (PostCancel trip4) ?user sample_world = (Inr (200, c), w1)" and
    listed: "trips_controller sample_ext sample_validators (GetTrips None None) ?user sample_world = (Inr (200, ts), w2)"
    by meson
  show ?thesis
    using cancelled listed trip_answers_typed [OF cancelled] trip_answers_typed [OF listed]
    by (metis trips_request.distinct(1) trips_request.simps)
qed

end
