(* ===== verification/Spec2Isabelle.thy ===== *)
theory Spec2Isabelle
  imports HashRing TokenBucket RideProperties RegistryProperties GatewayProperties TripProperties OutboxProperties
    SurgeProperties ApiProperties ConcurrencyProperties WebProperties DemoSignIn WidgetProperties WireTypes
begin

text \<open>
  A verification library of the RideX ride-hailing system.

  \<^bold>\<open>The program.\<close> An API (\<open>apps/api\<close>, NestJS) keeps accounts, drivers, vehicles and trips in PostgreSQL and
  writes every trip event into an outbox table, which it publishes to Kafka. The matcher
  (\<open>services/matcher\<close>) reserves a driver and a vehicle for a requested trip; the ingestor
  (\<open>services/ingestor\<close>) takes the positions of the drivers, keeps the Redis index of those on offer and
  publishes the positions; the surge worker (\<open>services/surge-worker\<close>) computes a multiplier per zone
  from the requests and writes it to Redis, where the trip service reads it for the fare; the WebSocket
  gateway (\<open>services/ws-gateway\<close>) fans both streams out to the web client (\<open>apps/web\<close>); a nightly
  worker (\<open>services/cron\<close>) refreshes views and exports a file. Two libraries carry their own
  algorithms: the consistent-hashing ring by which matcher and surge replicas share the trips
  (\<open>libs/consistent-hash\<close>) and the token bucket that limits requests (\<open>libs/ratelimiter\<close>);
  \<open>libs/service-utils\<close> is shared by all.

  \<^bold>\<open>Theories, in the order they build on each other.\<close>
  \<^item> \<open>Prelude\<close>: collections, association lists. \<open>JsNumber\<close>, \<open>JsText\<close>, \<open>NumberRoundTrip\<close>, \<open>FareText\<close>: what the source
    uses of JavaScript: doubles as rationals with IEEE rounding \<open>fl\<close> written out (locale
    \<open>rounding\<close>), \<open>Math.round\<close>, \<open>toFixed\<close>, \<open>Number(s)\<close>, \<open>String(x)\<close> and JSON values; an amount in cents
    survives printing and reading, and a text of two places is printed again as it was read.
  \<^item> \<open>Hashing\<close>, \<open>HashRing\<close>: \<open>hash.ts\<close> on 32-bit words and \<open>ring.ts\<close>; locale \<open>key_routing\<close> is what a
    client of the ring may rely on, interpreted on \<open>addNode\<close>, \<open>removeNode\<close> and \<open>getNode\<close>.
  \<^item> \<open>TokenBucket\<close>: \<open>bucket.ts\<close>, the in-memory store and the Lua script; locale \<open>token_store\<close> is the
    contract of a store, interpreted on both. \<open>ServiceUtils\<close>: \<open>env.ts\<close>, \<open>jwt.ts\<close>, \<open>kafka.ts\<close>,
    \<open>lifecycle.ts\<close>.
  \<^item> \<open>Effects\<close>, \<open>Database\<close>, \<open>World\<close>: asynchronous code as state passing with exceptions (partial
    correctness \<open>valid\<close>, relations kept by a computation in the locale \<open>effect_relation\<close>); the tables of
    \<open>db/migrations\<close> with their constraints; the world of PostgreSQL, Redis and Kafka with a schedule of
    faults: every call may be lost, or served with its answer lost.
  \<^item> \<open>TripService\<close>, \<open>DriverService\<close>, \<open>VehicleService\<close>, \<open>AuthService\<close>, \<open>Validation\<close>, \<open>MetricsRegistry\<close>,
    \<open>ApiGateway\<close>: the API (\<open>trips.service.ts\<close>, \<open>drivers.module.ts\<close>, \<open>vehicles.service.ts\<close>,
    \<open>auth.service.ts\<close>, the DTO classes, \<open>metrics.service.ts\<close>, the guards, filters and controllers).
    \<open>Matcher\<close>, \<open>Ingestor\<close>, \<open>SurgeEngine\<close>, \<open>WsGateway\<close>, \<open>BatchJobs\<close>: the other processes, and the
    scripts of the API.
  \<^item> \<open>RegistrySpec\<close>, \<open>BookingSpec\<close>, \<open>RegistryInvariant\<close>, \<open>TripRefinement\<close>: the abstract promise of the
    database: the steps \<open>registry_step\<close> of accounts, drivers and vehicles and the steps \<open>core_step\<close> of the
    bookings, with their invariants \<open>registry_ok\<close> and \<open>db_ok\<close>, and the proof that the handlers commit such steps only, under
    every schedule of faults. \<open>TripAnswers\<close>: the converse view, what a successful answer of the trip
    service says about the tables. \<open>RideSystem\<close>: all processes as steps on one world, \<open>runs\<close> their
    sequences. \<open>SampleCity\<close>: a concrete deployment on which the witnesses evaluate.
  \<^item> \<open>Transactions\<close>, \<open>TransactionLogic\<close>: PostgreSQL transactions that run side by side, statement by
    statement: row versions per session, row locks, waiting, \<open>SKIP LOCKED\<close>, commit and lost
    connections. The locale \<open>committing\<close> is the logic for them: a certificate of a program names what
    its session knows between statements, which must survive what others commit; rows have a rank,
    and a session waits only for rows above those it holds. \<open>ConcurrentRides\<close> has the transactions
    of \<open>trips.service.ts\<close>, \<open>trip-consumer.ts\<close> and \<open>location.routes.ts\<close> in this form;
    \<open>RideTransactions\<close> and \<open>TripTransactions\<close> certify them against the steps of \<open>BookingSpec\<close> (the
    interpretation \<open>rides\<close>), \<open>PublishOnce\<close> follows the events that publishers send side by side.
  \<^item> \<open>WebClient\<close>, \<open>WebPages\<close>: the web client's session, requests, endpoints and trip socket, and its pages
    as state machines without their rendering. \<open>WebWidgets\<close>: what the pages are built from: the map with
    its providers and markers, the vehicle form, the rating dialog, the administrator's page, toasts,
    debounced values, and the texts and buttons the pages show. \<open>DemoSignIn\<close>: the form of the sign-in
    gate with its demo members, and the seeded accounts of \<open>demo-users.ts\<close>. \<open>WireTypes\<close>: the bodies of the
    API's answers as JSON, and the interfaces of \<open>client.ts\<close> as predicates on them.
  \<^item> \<open>RideProperties\<close>, \<open>RegistryProperties\<close>, \<open>GatewayProperties\<close>, \<open>TripProperties\<close>, \<open>OutboxProperties\<close>, \<open>SurgeProperties\<close>,
    \<open>ApiProperties\<close>, \<open>ConcurrencyProperties\<close>, \<open>WebProperties\<close>, \<open>WidgetProperties\<close>: the properties of the system;
    those of the libraries stand in the theories of the libraries.

  \<^bold>\<open>What is shown.\<close> Over every run of the system the tables stay consistent, a trip's status only moves forward
  and a finished trip never changes, accounts, drivers and vehicles stay well typed and nobody becomes an administrator,
  no driver is booked twice unless set online by hand; every
  handler refines the abstract steps, whatever fails, and a successful answer about a trip says exactly how
  the committed tables changed. The same holds statement by statement: any
  number of transactions side by side commit abstract steps only, never block each other for good,
  and publish an event once unless a connection is lost. A trip's events reach its parties only, a driver's
  position only sockets that were let in while entitled, and what others do with their trips does not change what
  a caller reads; the outbox never marks an event it did not send; migrations are applied once, in
  lexical order. The fare is the tariff to half a cent, monotone, and
  its surge is the one the worker computed; multipliers stay bounded and decay, and
  the demand that moves them is counted over a sliding window of the ticks. The ring routes a key to the first
  position clockwise and moves no more keys than it must, and as long as no two virtual nodes of the
  members collide it does not depend on the order they joined in; the bucket admits in any window at
  most its burst and the refill of the window (shown over the in-memory store while it evicts nothing;
  both stores run the same algorithm), and a client that waits as denials say gets in at the second
  attempt at the latest. Between client and servers: a signed-in session is honoured, a vehicle and
  a rating are accepted as sent, a ping reaches the map, the map has the markers it is given, each where it is, the rider's page follows its trip, one
  click on a demo member opens the workspace, the answers have the types the client declares but for
  two, and a fare is shown as it was sent. Where
  the code does not do what it means to, a theorem says so: a driver set online by hand is booked
  twice, one failed connection stops the outbox, a created trip can be answered with an error, a
  position outlives its trip, a late answer revives a finished trip on the page, activating a missing
  vehicle deactivates the others, a label on the map outlives its change, a running trip is offered
  for cancelling in vain, a tick that fails leaves old requests in its slot, a denial may name one millisecond
  too little, and replicas that list members with colliding virtual nodes in different orders disagree
  on an owner.

  \<^bold>\<open>Bounds.\<close> No definition of the model has fuel: loops are structural recursions or terminate by a measure
  (the binary search by the length of its interval, which \<open>lower_bound_correct\<close> states as a result).
  Hashes are \<open>32 word\<close>; counters the code keeps as doubles are unbounded integers, which they are up to \<open>2^53\<close>. The round trip of an amount is
  shown from 1.00 to 1000.00, which contains every surge multiplier the table can hold; the accuracy
  of the fare for distances up to 10000 km, durations up to 100000 minutes and surge up to ten; a fare
  is shown as sent up to \<open>10^8\<close>, the bound of its column.

  \<^bold>\<open>Not modelled.\<close> The markup of the web client, its landing page and routes, and the inside of the Leaflet
  and Yandex maps, whose calls do not fail; the estimate of a distance is in real numbers. NestJS modules,
  OpenTelemetry and connection factories, which only wire library objects; in the concurrent
  model, the statements of vehicles, accounts, ratings and \<open>PATCH\<close> of a driver's status, whose
  interleavings with the others are left open, and the foreign keys' share locks. In \<open>RideSystem\<close> a
  handler is one step, which a fault may interrupt at every call. Parameters of the model stand for what is not under the sources: argon2, token
  signing, HMAC and base64url, PostGIS and Redis GEO distances, \<open>JSON.parse\<close> of text, the grammar of
  the validator package, \<open>fetch\<close>. Strings are lists of characters of code unit below 256, with the case mapping and
  white space of ASCII. A 4-byte \<open>REAL\<close> column keeps the double that was sent.
\<close>

end
